(* ===== verification/Prelude.thy ===== *)
theory Prelude
  imports Main "HOL-Library.Word" "HOL-Library.Multiset"
begin

unbundle bit_operations_syntax

text \<open>
  The shared vocabulary of the development: bytes and machine words, the little-endian image of
  a word in memory (used by every structure the program reinterprets as bytes and by the
  fixed-width codecs of the key-value layer), and the two \<open>std::string\<close> mutators the program
  calls on values, \<open>resize\<close> and \<open>replace\<close>.  The collections \<open>bytes_simps\<close> and \<open>length_simps\<close>
  carry the facts about them through the component proofs.
\<close>

section \<open>Types\<close>

type_synonym byte = "8 word"
type_synonym bytes = "8 word list"
type_synonym u32 = "32 word"
type_synonym u64 = "64 word"

named_theorems bytes_simps "reading back what was written to a byte string"
named_theorems length_simps "lengths of byte strings"

section \<open>Words as little-endian bytes\<close>

text \<open>
  \<open>le_bytes n w\<close> is what \<open>memcpy(buf, &w, n)\<close> stores on a little-endian machine, \<open>le_word bs\<close>
  what \<open>memcpy(&w, bs, n)\<close> loads.
\<close>

primrec le_bytes :: "nat \<Rightarrow> 'a::len word \<Rightarrow> bytes" where
  "le_bytes 0 w = []"
| "le_bytes (Suc n) w = ucast w # le_bytes n (drop_bit 8 w)"

primrec le_word :: "bytes \<Rightarrow> 'a::len word" where
  "le_word [] = 0"
| "le_word (b # bs) = ucast b OR push_bit 8 (le_word bs)"

lemma length_le_bytes [simp, length_simps]: "length (le_bytes n w) = n"
  by (induction n arbitrary: w) simp_all

lemma bit_le_word_le_bytes:
  "bit (le_word (le_bytes n (w :: 'a::len word)) :: 'a word) i \<longleftrightarrow> i < 8 * n \<and> bit w i"
proof (induction n arbitrary: w i)
  case 0
  then show ?case by simp
next
  case (Suc n)
  show ?case
  proof (cases "i < LENGTH('a)")
    case True
    then show ?thesis
      by (auto simp: bit_simps Suc.IH)
  next
    case False
    then show ?thesis
      using bit_imp_le_length by blast
  qed
qed

lemma le_word_le_bytes [bytes_simps]:
  "LENGTH('a) \<le> 8 * n \<Longrightarrow> le_word (le_bytes n (w :: 'a::len word)) = w"
proof (rule bit_word_eqI)
  fix i
  assume "LENGTH('a) \<le> 8 * n" "i < LENGTH('a)"
  then show "bit (le_word (le_bytes n w) :: 'a word) i = bit w i"
    by (simp add: bit_le_word_le_bytes)
qed

lemma ucast_le_word_Cons:
  "8 \<le> LENGTH('a) \<Longrightarrow> (ucast (ucast b OR push_bit 8 (w :: 'a::len word)) :: byte) = b"
  by (rule bit_word_eqI) (auto simp: bit_simps)

lemma drop_bit_le_word_Cons:
  assumes "8 + 8 * length bs \<le> LENGTH('a)"
  shows "drop_bit 8 (ucast (b :: byte) OR push_bit 8 (le_word bs :: 'a::len word)) = le_word bs"
proof (rule bit_word_eqI)
  fix i
  assume i: "i < LENGTH('a)"
  have high: "\<not> bit (le_word bs :: 'a word) i" if "8 * length bs \<le> i" for i
    using that
  proof (induction bs arbitrary: i)
    case Nil
    then show ?case by simp
  next
    case (Cons c cs)
    then show ?case
      by (auto simp: bit_simps dest: bit_imp_le_length)
  qed
  show "bit (drop_bit 8 (ucast b OR push_bit 8 (le_word bs :: 'a word))) i = bit (le_word bs :: 'a word) i"
    using assms high [of i] i
    by (auto simp: bit_simps dest: bit_imp_le_length)
qed

lemma le_bytes_le_word [bytes_simps]:
  "8 * length bs \<le> LENGTH('a) \<Longrightarrow> le_bytes (length bs) (le_word bs :: 'a::len word) = bs"
proof (induction bs)
  case Nil
  then show ?case by simp
next
  case (Cons b bs)
  have "8 \<le> LENGTH('a)"
    using Cons.prems by simp
  then show ?case
    using Cons by (simp add: ucast_le_word_Cons drop_bit_le_word_Cons del: drop_bit_or)
qed

lemma le_word_inject:
  assumes "length xs = length ys" "8 * length xs \<le> LENGTH('a)"
    and "(le_word xs :: 'a::len word) = le_word ys"
  shows "xs = ys"
  using assms le_bytes_le_word [where 'a = 'a, of xs] le_bytes_le_word [where 'a = 'a, of ys]
  by metis

lemma le_bytes_inject:
  "LENGTH('a) \<le> 8 * n \<Longrightarrow> le_bytes n (v :: 'a::len word) = le_bytes n w \<longleftrightarrow> v = w"
  by (metis le_word_le_bytes)

section \<open>Shifts, casts and bounds\<close>

lemma unat_drop_bit_div: "unat (drop_bit n (v :: 'a::len word)) = unat v div 2 ^ n"
  unfolding unat_drop_bit_eq by (simp add: drop_bit_eq_div)

lemma unat_2_power: "k < LENGTH('a) \<Longrightarrow> unat (2 ^ k :: 'a::len word) = 2 ^ k"
proof -
  assume "k < LENGTH('a)"
  moreover have "(2 ^ k :: 'a word) = of_nat (2 ^ k)" by simp
  ultimately show ?thesis
    by (simp only: unat_of_nat) simp
qed

lemma unat_ucast_up: "LENGTH('a) \<le> LENGTH('b) \<Longrightarrow> unat (ucast (v :: 'a::len word) :: 'b::len word) = unat v"
proof -
  assume *: "LENGTH('a) \<le> LENGTH('b)"
  have "unat v < 2 ^ LENGTH('a)" by simp
  also have "(2::nat) ^ LENGTH('a) \<le> 2 ^ LENGTH('b)" using * by simp
  finally show ?thesis by (simp add: unsigned_ucast_eq take_bit_nat_eq_self)
qed

lemma drop_bit_less_iff: 
  fixes v :: "'a::len word"
  assumes "k + n < LENGTH('a)"
  shows "drop_bit n v < 2 ^ k \<longleftrightarrow> v < 2 ^ (k + n)"
  using assms
  by (simp add: word_less_nat_alt unat_drop_bit_div unat_2_power div_less_iff_less_mult power_add [symmetric])

lemma ucast_less_iff: "LENGTH('a) \<le> LENGTH('b) \<Longrightarrow> k < LENGTH('a) \<Longrightarrow>
  (ucast (v :: 'a::len word) :: 'b::len word) < 2 ^ k \<longleftrightarrow> v < 2 ^ k"
  by (simp add: word_less_nat_alt unat_ucast_up unat_2_power)

lemma drop_bit_ucast_up: "LENGTH('a) \<le> LENGTH('b) \<Longrightarrow>
   drop_bit n (ucast (v :: 'a::len word) :: 'b::len word) = ucast (drop_bit n v)"
  by (rule bit_word_eqI) (auto simp: bit_simps dest: bit_imp_le_length)

lemma not_bit_if_less_2_power:
  assumes "w < 2 ^ k" "k \<le> i"
  shows "\<not> bit (w :: 'a::len word) i"
proof
  assume b: "bit w i"
  then have i: "i < LENGTH('a)"
    by (rule bit_imp_le_length)
  have "unat w < 2 ^ i"
  proof -
    have "unat w < 2 ^ k"
      using assms i by (simp add: word_less_nat_alt unat_2_power)
    also have "\<dots> \<le> 2 ^ i"
      using assms(2) by simp
    finally show ?thesis .
  qed
  moreover have "bit (unat w) i"
    using b by (simp add: bit_unsigned_iff)
  ultimately show False
    by (simp add: bit_iff_odd)
qed

lemma bit_128 [simp]: "bit (128 :: int) i \<longleftrightarrow> i = 7" "bit (128 :: nat) i \<longleftrightarrow> i = 7"
  using bit_exp_iff [of 7 i, where 'a = int] bit_exp_iff [of 7 i, where 'a = nat] by auto

lemma bit_127 [simp]: "bit (127 :: int) i \<longleftrightarrow> i < 7" "bit (127 :: nat) i \<longleftrightarrow> i < 7"
  using bit_mask_iff [of 7 i, where 'a = int] bit_mask_iff [of 7 i, where 'a = nat]
  by (auto simp: mask_numeral)

section \<open>Byte strings\<close>

text \<open>
  \<open>std::string::resize(n)\<close> cuts or pads with NUL; \<open>std::string::replace(pos, len, buf, n)\<close>
  replaces the (clipped) range by the \<open>n\<close> bytes of \<open>buf\<close>.  \<open>cstr\<close> is a string literal as bytes.
\<close>

definition cstr :: "string \<Rightarrow> bytes" where
  "cstr s = map (\<lambda>c. of_nat (of_char c)) s"

definition string_resize :: "nat \<Rightarrow> bytes \<Rightarrow> bytes" where
  "string_resize n s = take n s @ replicate (n - length s) 0"

definition string_replace :: "nat \<Rightarrow> nat \<Rightarrow> bytes \<Rightarrow> bytes \<Rightarrow> bytes" where
  "string_replace pos len buf s = take pos s @ buf @ drop (pos + len) s"

lemma length_string_resize [simp, length_simps]: "length (string_resize n s) = n"
  by (simp add: string_resize_def)

lemma length_string_replace [length_simps]:
  "pos \<le> length s \<Longrightarrow> length (string_replace pos (length buf) buf s) = max (length s) (pos + length buf)"
  by (simp add: string_replace_def)

lemma string_resize_id [simp]: "string_resize (length s) s = s"
  by (simp add: string_resize_def)

lemma take_string_resize: "m \<le> n \<Longrightarrow> m \<le> length s \<Longrightarrow> take m (string_resize n s) = take m s"
  by (simp add: string_resize_def)

lemma take_string_replace: "m \<le> pos \<Longrightarrow> pos \<le> length s \<Longrightarrow> take m (string_replace pos len buf s) = take m s"
  by (simp add: string_replace_def min_def)

lemma take_drop_eq_if_take_eq:
  "take (n + m) xs = take (n + m) ys \<Longrightarrow> take m (drop n xs) = take m (drop n ys)"
  by (metis add.commute take_drop)

lemma take_take_eq_if_take_eq: "m \<le> n \<Longrightarrow> take n xs = take n ys \<Longrightarrow> take m xs = take m ys"
  by (metis min.absorb1 take_take)

text \<open>The bytes of a struct field written first and read back.\<close>

lemma take_append_exact [bytes_simps]: "length xs = n \<Longrightarrow> take n (xs @ ys) = xs"
  by simp

lemma drop_append_exact [bytes_simps]: "length xs = n \<Longrightarrow> drop n (xs @ ys) = ys"
  by simp

section \<open>Options and lists\<close>

lemma option_eqI: "(\<And>p. x = Some p \<longleftrightarrow> y = Some p) \<Longrightarrow> x = y"
  by (metis option.exhaust)

lemma mset_concat_update:
  assumes "i < length xss"
  shows "mset (concat (xss[i := c])) + mset (xss ! i) = mset (concat xss) + mset c"
proof -
  have "xss = take i xss @ xss ! i # drop (Suc i) xss"
    using assms by (rule id_take_nth_drop)
  then have "mset (concat xss) = mset (concat (take i xss)) + mset (xss ! i) + mset (concat (drop (Suc i) xss))"
    by (metis concat.simps(2) concat_append mset_append union_assoc)
  then show ?thesis
    using assms by (simp add: upd_conv_take_nth_drop)
qed

lemma fold_fold_concat: "fold (fold f) xss = fold f (concat xss)"
  by (induction xss) simp_all

end
