(* ===== verification/Coding.thy ===== *)
theory Coding
  imports Prelude
begin

unbundle bit_operations_syntax

text \<open>
  The codecs of \<open>lib/leveldb/util/coding.cc\<close> and \<open>coding.h\<close>: fixed-width little-endian
  integers, varints and length-prefixed slices.  A pointer pair \<open>(p, limit)\<close> and a \<open>Slice\<close> are
  the bytes between the two ends; a routine that advances the pointer or returns \<open>NULL\<close> returns
  the value with the remaining bytes, or \<open>None\<close>.  The target is little-endian (x86-64), so the
  \<open>memcpy\<close> branches are the ones modelled.
\<close>

section \<open>Fixed-width integers\<close>

definition EncodeFixed32 :: "u32 \<Rightarrow> bytes" where
  "EncodeFixed32 value = le_bytes 4 value"

definition EncodeFixed64 :: "u64 \<Rightarrow> bytes" where
  "EncodeFixed64 value = le_bytes 8 value"

definition DecodeFixed32 :: "bytes \<Rightarrow> u32" where
  "DecodeFixed32 ptr = le_word (take 4 ptr)"

definition DecodeFixed64 :: "bytes \<Rightarrow> u64" where
  "DecodeFixed64 ptr = le_word (take 8 ptr)"

definition PutFixed32 :: "bytes \<Rightarrow> u32 \<Rightarrow> bytes" where
  "PutFixed32 dst value = dst @ EncodeFixed32 value"

definition PutFixed64 :: "bytes \<Rightarrow> u64 \<Rightarrow> bytes" where
  "PutFixed64 dst value = dst @ EncodeFixed64 value"

section \<open>Varints\<close>

definition EncodeVarint32 :: "u32 \<Rightarrow> bytes" where
  "EncodeVarint32 v =
     (if v < 2 ^ 7 then [ucast v]
      else if v < 2 ^ 14 then [ucast (v OR 128), ucast (drop_bit 7 v)]
      else if v < 2 ^ 21 then
        [ucast (v OR 128), ucast (drop_bit 7 v OR 128), ucast (drop_bit 14 v)]
      else if v < 2 ^ 28 then
        [ucast (v OR 128), ucast (drop_bit 7 v OR 128), ucast (drop_bit 14 v OR 128),
         ucast (drop_bit 21 v)]
      else
        [ucast (v OR 128), ucast (drop_bit 7 v OR 128), ucast (drop_bit 14 v OR 128),
         ucast (drop_bit 21 v OR 128), ucast (drop_bit 28 v)])"

definition PutVarint32 :: "bytes \<Rightarrow> u32 \<Rightarrow> bytes" where
  "PutVarint32 dst v = dst @ EncodeVarint32 v"

lemma unat_drop_bit_7_less:
  fixes v :: u64
  assumes "\<not> v < 128"
  shows "unat (drop_bit 7 v) < unat v"
proof -
  have "128 \<le> unat v"
    using assms by (simp add: word_less_nat_alt)
  then show ?thesis
    unfolding unat_drop_bit_eq by (simp add: drop_bit_eq_div)
qed

function EncodeVarint64 :: "u64 \<Rightarrow> bytes" where
  "EncodeVarint64 v =
     (if \<not> v < 128 then ucast ((v AND 127) OR 128) # EncodeVarint64 (drop_bit 7 v)
      else [ucast v])"
  by pat_completeness auto
termination
  by (relation "measure unat") (auto intro: unat_drop_bit_7_less)

definition PutVarint64 :: "bytes \<Rightarrow> u64 \<Rightarrow> bytes" where
  "PutVarint64 dst v = dst @ EncodeVarint64 v"

function VarintLength :: "u64 \<Rightarrow> nat" where
  "VarintLength v = (if \<not> v < 128 then Suc (VarintLength (drop_bit 7 v)) else 1)"
  by pat_completeness auto
termination
  by (relation "measure unat") (auto intro: unat_drop_bit_7_less)

declare EncodeVarint64.simps [simp del] VarintLength.simps [simp del]

text \<open>The loop variables \<open>shift\<close> and \<open>result\<close> are arguments; the loop ends with its input.\<close>

fun GetVarint32PtrFallback :: "bytes \<Rightarrow> nat \<Rightarrow> u32 \<Rightarrow> (u32 \<times> bytes) option" where
  "GetVarint32PtrFallback [] shift result = None"
| "GetVarint32PtrFallback (c # p) shift result =
     (if shift \<le> 28 then
        (let byte = ucast c :: u32 in
         if byte AND 128 \<noteq> 0
         then GetVarint32PtrFallback p (shift + 7) (result OR push_bit shift (byte AND 127))
         else Some (result OR push_bit shift byte, p))
      else None)"

definition GetVarint32Ptr :: "bytes \<Rightarrow> (u32 \<times> bytes) option" where
  "GetVarint32Ptr p =
     (case p of
        [] \<Rightarrow> GetVarint32PtrFallback p 0 0
      | c # p' \<Rightarrow>
          if (ucast c :: u32) AND 128 = 0 then Some (ucast c, p')
          else GetVarint32PtrFallback p 0 0)"

definition GetVarint32 :: "bytes \<Rightarrow> (u32 \<times> bytes) option" where
  "GetVarint32 input =
     (case GetVarint32Ptr input of None \<Rightarrow> None | Some (value, q) \<Rightarrow> Some (value, q))"

fun GetVarint64PtrLoop :: "bytes \<Rightarrow> nat \<Rightarrow> u64 \<Rightarrow> (u64 \<times> bytes) option" where
  "GetVarint64PtrLoop [] shift result = None"
| "GetVarint64PtrLoop (c # p) shift result =
     (if shift \<le> 63 then
        (let byte = ucast c :: u64 in
         if byte AND 128 \<noteq> 0
         then GetVarint64PtrLoop p (shift + 7) (result OR push_bit shift (byte AND 127))
         else Some (result OR push_bit shift byte, p))
      else None)"

definition GetVarint64Ptr :: "bytes \<Rightarrow> (u64 \<times> bytes) option" where
  "GetVarint64Ptr p = GetVarint64PtrLoop p 0 0"

definition GetVarint64 :: "bytes \<Rightarrow> (u64 \<times> bytes) option" where
  "GetVarint64 input =
     (case GetVarint64Ptr input of None \<Rightarrow> None | Some (value, q) \<Rightarrow> Some (value, q))"

section \<open>Length-prefixed slices\<close>

text \<open>The length is a \<open>size_t\<close> passed as \<open>uint32_t\<close>: it is truncated to 32 bits.\<close>

definition PutLengthPrefixedSlice :: "bytes \<Rightarrow> bytes \<Rightarrow> bytes" where
  "PutLengthPrefixedSlice dst value = PutVarint32 dst (of_nat (length value)) @ value"

definition GetLengthPrefixedSlicePtr :: "bytes \<Rightarrow> (bytes \<times> bytes) option" where
  "GetLengthPrefixedSlicePtr p =
     (case GetVarint32Ptr p of
        None \<Rightarrow> None
      | Some (len, p') \<Rightarrow>
          if unat len > length p' then None else Some (take (unat len) p', drop (unat len) p'))"

definition GetLengthPrefixedSlice :: "bytes \<Rightarrow> (bytes \<times> bytes) option" where
  "GetLengthPrefixedSlice input =
     (case GetVarint32 input of
        None \<Rightarrow> None
      | Some (len, input') \<Rightarrow>
          if length input' \<ge> unat len
          then Some (take (unat len) input', drop (unat len) input')
          else None)"

section \<open>Round trips\<close>

lemma DecodeFixed32_EncodeFixed32 [simp, bytes_simps]:
  "DecodeFixed32 (EncodeFixed32 v @ rest) = v"
  by (simp add: DecodeFixed32_def EncodeFixed32_def bytes_simps)

lemma DecodeFixed64_EncodeFixed64 [simp, bytes_simps]:
  "DecodeFixed64 (EncodeFixed64 v @ rest) = v"
  by (simp add: DecodeFixed64_def EncodeFixed64_def bytes_simps)

lemma length_EncodeFixed32 [simp, length_simps]: "length (EncodeFixed32 v) = 4"
  by (simp add: EncodeFixed32_def)

lemma length_EncodeFixed64 [simp, length_simps]: "length (EncodeFixed64 v) = 8"
  by (simp add: EncodeFixed64_def)

lemma EncodeVarint64_low_byte:
  "(ucast ((v AND 127) OR 128) :: byte) = ucast ((v :: u64) OR 128)"
proof (rule bit_word_eqI)
  fix i
  assume "i < LENGTH(8)"
  then have "i = 0 \<or> i = 1 \<or> i = 2 \<or> i = 3 \<or> i = 4 \<or> i = 5 \<or> i = 6 \<or> i = 7"
    by auto
  then show "bit (ucast ((v AND 127) OR 128) :: byte) i = bit (ucast (v OR 128) :: byte) i"
    by (auto simp: bit_simps bit_numeral_rec)
qed

lemma ucast_OR_128: "(ucast ((ucast (v :: u32) :: u64) OR 128) :: byte) = ucast (v OR 128)"
  by (rule bit_word_eqI) (auto simp: bit_simps bit_numeral_rec)

lemma EncodeVarint64_rec:
  "EncodeVarint64 v = (if v < 2 ^ 7 then [ucast v] else ucast (v OR 128) # EncodeVarint64 (drop_bit 7 v))"
  by (subst EncodeVarint64.simps) (simp add: EncodeVarint64_low_byte)

lemma ucast_ucast_byte: "(ucast (ucast (v :: u32) :: u64) :: byte) = ucast v"
  by (rule bit_word_eqI) (auto simp: bit_simps)

lemma EncodeVarint32_rec_step:
  "EncodeVarint64 (ucast (v :: u32)) =
    (if v < 2 ^ 7 then [ucast v] else ucast (v OR 128) # EncodeVarint64 (ucast (drop_bit 7 v)))"
  by (subst EncodeVarint64_rec)
    (simp add: ucast_less_iff[where 'a=32 and 'b=64 and k=7, simplified] ucast_OR_128 drop_bit_ucast_up ucast_ucast_byte)

lemma drop_bit_28_less: "drop_bit 28 (v :: u32) < 2 ^ 7"
proof -
  have "unat v < 2 ^ 32" using unsigned_less [of v] by simp
  then show ?thesis
    by (simp add: word_less_nat_alt unat_drop_bit_div unat_2_power)
qed

lemma EncodeVarint32_64: "EncodeVarint32 v = EncodeVarint64 (ucast v)"
proof -
  have d: "drop_bit 7 v < 2 ^ 7 \<longleftrightarrow> v < 2 ^ 14" "drop_bit 14 v < 2 ^ 7 \<longleftrightarrow> v < 2 ^ 21"
      "drop_bit 21 v < 2 ^ 7 \<longleftrightarrow> v < 2 ^ 28"
    using drop_bit_less_iff [of 7 7 v] drop_bit_less_iff [of 7 14 v] drop_bit_less_iff [of 7 21 v]
    by simp_all
  have s: "drop_bit 7 (drop_bit 7 v) = drop_bit 14 v" "drop_bit 7 (drop_bit 14 v) = drop_bit 21 v"
      "drop_bit 7 (drop_bit 21 v) = drop_bit 28 v"
    by simp_all
  have e: "EncodeVarint64 (ucast (drop_bit 28 v)) = [ucast (drop_bit 28 v)]"
    by (subst EncodeVarint32_rec_step) (simp only: drop_bit_28_less if_True)
  show ?thesis
    unfolding EncodeVarint32_def EncodeVarint32_rec_step [of v]
      EncodeVarint32_rec_step [of "drop_bit 7 v"] EncodeVarint32_rec_step [of "drop_bit 14 v"]
      EncodeVarint32_rec_step [of "drop_bit 21 v"] s e d
    by simp
qed

lemma length_EncodeVarint64:
  "v < 2 ^ (7 * Suc n) \<Longrightarrow> 7 * Suc n < 64 \<Longrightarrow> length (EncodeVarint64 v) \<le> Suc n"
proof (induction n arbitrary: v)
  case 0
  then show ?case by (simp add: EncodeVarint64_rec)
next
  case (Suc n)
  have "drop_bit 7 v < 2 ^ (7 * Suc n)"
    using Suc.prems drop_bit_less_iff [of "7 * Suc n" 7 v] by (simp add: algebra_simps)
  then have "length (EncodeVarint64 (drop_bit 7 v)) \<le> Suc n"
    using Suc.prems by (intro Suc.IH) simp_all
  then show ?case
    by (simp add: EncodeVarint64_rec [of v])
qed

lemma length_EncodeVarint32: "length (EncodeVarint32 v) \<le> 5"
  by (simp add: EncodeVarint32_def)

lemma length_EncodeVarint64_le: "length (EncodeVarint64 v) \<le> 10"
proof -
  have "drop_bit 7 v < 2 ^ 57"
    using unsigned_less [of v, where 'a = nat]
    by (simp add: word_less_nat_alt unat_drop_bit_div unat_2_power)
  then have "drop_bit 7 v < 2 ^ (7 * Suc 8)"
    by (simp add: word_less_nat_alt unat_2_power)
  then have "length (EncodeVarint64 (drop_bit 7 v)) \<le> Suc 8"
    by (rule length_EncodeVarint64) simp
  then show ?thesis
    by (simp add: EncodeVarint64_rec [of v])
qed

lemma length_EncodeVarint64_VarintLength: "length (EncodeVarint64 v) = VarintLength v"
  by (induction v rule: VarintLength.induct)
    (simp add: EncodeVarint64.simps [of v for v] VarintLength.simps [of v for v])

lemma varint_last_byte:
  assumes "(w :: u64) < 128" "8 \<le> LENGTH('b)"
  shows "(ucast (ucast w :: byte) :: 'b::len word) = ucast w" "(ucast w :: 'b word) AND 128 = 0"
proof -
  have n: "\<not> bit w i" if "7 \<le> i" for i
    using assms that not_bit_if_less_2_power [of w 7 i] by simp
  show "(ucast (ucast w :: byte) :: 'b word) = ucast w"
  proof (rule bit_word_eqI)
    fix i
    assume "i < LENGTH('b)"
    then show "bit (ucast (ucast w :: byte) :: 'b word) i = bit (ucast w :: 'b word) i"
      using n [of i] by (cases "i < 8") (simp_all add: bit_simps)
  qed
  show "(ucast w :: 'b word) AND 128 = 0"
    by (intro bit_word_eqI) (auto simp: bit_simps n)
qed

lemma varint_more_byte:
  fixes w :: u64
  assumes "8 \<le> LENGTH('b)"
  shows "(ucast (ucast (w OR 128) :: byte) :: 'b::len word) AND 128 \<noteq> 0"
  and "push_bit shift ((ucast (ucast (w OR 128) :: byte) :: 'b word) AND 127) OR
       push_bit (shift + 7) (ucast (drop_bit 7 w)) = push_bit shift (ucast w)"
proof -
  have "bit ((ucast (ucast (w OR 128) :: byte) :: 'b word) AND 128) 7"
    using assms by (simp add: bit_simps)
  then show "(ucast (ucast (w OR 128) :: byte) :: 'b word) AND 128 \<noteq> 0"
    by (metis bit_0_eq bot_apply bot_bool_def)
  show "push_bit shift ((ucast (ucast (w OR 128) :: byte) :: 'b word) AND 127) OR
       push_bit (shift + 7) (ucast (drop_bit 7 w)) = push_bit shift (ucast w)"
  proof (rule bit_word_eqI)
    fix i
    assume i: "i < LENGTH('b)"
    have j: "i - shift < 7 \<longleftrightarrow> \<not> shift + 7 \<le> i \<or> i < shift" 
        "shift + 7 \<le> i \<Longrightarrow> i - (shift + 7) + 7 = i - shift" "i - shift < LENGTH('b)"
      using i by auto
    show "bit (push_bit shift ((ucast (ucast (w OR 128) :: byte) :: 'b word) AND 127) OR
       push_bit (shift + 7) (ucast (drop_bit 7 w))) i = bit (push_bit shift (ucast w) :: 'b word) i"
      using i j by (cases "shift + 7 \<le> i") (auto simp: bit_simps add.commute)
  qed
qed

lemma GetVarint32PtrFallback_EncodeVarint64:
  "shift + 7 * length (EncodeVarint64 w) \<le> 35 \<Longrightarrow>
   GetVarint32PtrFallback (EncodeVarint64 w @ rest) shift result =
     Some (result OR push_bit shift (ucast w), rest)"
proof (induction w arbitrary: shift result rule: EncodeVarint64.induct)
  case (1 w)
  show ?case
  proof (cases "w < 128")
    case True
    then show ?thesis
      using 1 varint_last_byte [where 'b = 32, of w] by (simp add: EncodeVarint64.simps [of w] Let_def)
  next
    case False
    then show ?thesis
      using 1 varint_more_byte(1) [where 'b = 32, of w] varint_more_byte(2) [where 'b = 32, of shift w] by (simp add: EncodeVarint64_rec [of w] Let_def or.assoc)
  qed
qed

lemma GetVarint64PtrLoop_EncodeVarint64:
  "shift + 7 * length (EncodeVarint64 w) \<le> 70 \<Longrightarrow>
   GetVarint64PtrLoop (EncodeVarint64 w @ rest) shift result =
     Some (result OR push_bit shift w, rest)"
proof (induction w arbitrary: shift result rule: EncodeVarint64.induct)
  case (1 w)
  show ?case
  proof (cases "w < 128")
    case True
    then show ?thesis
      using 1 varint_last_byte [where 'b = 64, of w] by (simp add: EncodeVarint64.simps [of w] Let_def)
  next
    case False
    then show ?thesis
      using 1 varint_more_byte(1) [where 'b = 64, of w] varint_more_byte(2) [where 'b = 64, of shift w] by (simp add: EncodeVarint64_rec [of w] Let_def or.assoc)
  qed
qed

lemma GetVarint32Ptr_fallback: "GetVarint32Ptr p = GetVarint32PtrFallback p 0 0"
  by (cases p) (simp_all add: GetVarint32Ptr_def Let_def)

lemma ucast_ucast_u32 [simp]: "(ucast (ucast (v :: u32) :: u64) :: u32) = v"
  by (rule bit_word_eqI) (auto simp: bit_simps)

lemma GetVarint32_EncodeVarint32 [simp]: "GetVarint32 (EncodeVarint32 v @ rest) = Some (v, rest)"
  using length_EncodeVarint32 [of v] GetVarint32PtrFallback_EncodeVarint64 [of 0 "ucast v" rest 0]
  by (simp add: GetVarint32_def GetVarint32Ptr_fallback EncodeVarint32_64)

lemma GetVarint64_EncodeVarint64 [simp]: "GetVarint64 (EncodeVarint64 v @ rest) = Some (v, rest)"
  using length_EncodeVarint64_le [of v] GetVarint64PtrLoop_EncodeVarint64 [of 0 v rest 0]
  by (simp add: GetVarint64_def GetVarint64Ptr_def)

lemma GetLengthPrefixedSlice_Put [simp]:
  "length value < 2 ^ 32 \<Longrightarrow>
   GetLengthPrefixedSlice (EncodeVarint32 (of_nat (length value)) @ value @ rest) = Some (value, rest)"
  by (simp add: GetLengthPrefixedSlice_def unat_of_nat)

lemma GetVarint32PtrFallback_suffix:
  "GetVarint32PtrFallback p shift result = Some (v, q) \<Longrightarrow>
   \<exists>n. 0 < n \<and> 7 * n \<le> 35 - shift + 6 \<and> n \<le> length p \<and> q = drop n p"
proof (induction p shift result rule: GetVarint32PtrFallback.induct)
  case (1 shift result)
  then show ?case by simp
next
  case (2 c p shift result)
  show ?case
  proof (cases "(ucast c :: u32) AND 128 \<noteq> 0")
    case True
    with 2 obtain n where "0 < n" "7 * n \<le> 35 - (shift + 7) + 6" "n \<le> length p" "q = drop n p"
      by (auto simp: Let_def split: if_splits)
    moreover have "shift \<le> 28" using 2 by (auto split: if_splits)
    ultimately show ?thesis
      by (intro exI [of _ "Suc n"]) auto
  next
    case False
    with 2 show ?thesis
      by (intro exI [of _ 1]) (auto simp: Let_def split: if_splits)
  qed
qed

end
