(* ===== verification/Status.thy ===== *)
theory Status
  imports Prelude
begin

text \<open>
  \<open>lib/leveldb/include/leveldb/status.h\<close> and \<open>lib/leveldb/util/status.cc\<close>: the result of a
  key-value operation.  A success is the null state; an error carries its code and the message
  \<open>msg\<close>, followed by \<open>: msg2\<close> when the second part is not empty.  A successful status and one of
  code \<open>kOk\<close> cannot be told apart by the queries, as in the source.
\<close>

datatype Code =
  kOk | kNotFound | kCorruption | kNotSupported | kInvalidArgument | kIOError | kNotFoundByFilter

datatype Status = StatusOK | StatusState Code bytes

definition Status_make :: "Code \<Rightarrow> bytes \<Rightarrow> bytes \<Rightarrow> Status" where
  "Status_make code msg msg2 =
     StatusState code (msg @ (if length msg2 \<noteq> 0 then cstr '': '' @ msg2 else []))"

definition Status_NotFound :: "bytes \<Rightarrow> Status" where
  "Status_NotFound msg = Status_make kNotFound msg []"

definition Status_Corruption :: "bytes \<Rightarrow> Status" where
  "Status_Corruption msg = Status_make kCorruption msg []"

definition Status_ok :: "Status \<Rightarrow> bool" where
  "Status_ok s \<longleftrightarrow> (case s of StatusOK \<Rightarrow> True | StatusState _ _ \<Rightarrow> False)"

definition Status_code :: "Status \<Rightarrow> Code" where
  "Status_code s = (case s of StatusOK \<Rightarrow> kOk | StatusState c _ \<Rightarrow> c)"

definition IsNotFound :: "Status \<Rightarrow> bool" where
  "IsNotFound s \<longleftrightarrow> Status_code s = kNotFound"

definition IsCorruption :: "Status \<Rightarrow> bool" where
  "IsCorruption s \<longleftrightarrow> Status_code s = kCorruption"

definition Status_type :: "Code \<Rightarrow> bytes" where
  "Status_type c =
     (case c of
        kOk \<Rightarrow> cstr ''OK''
      | kNotFound \<Rightarrow> cstr ''NotFound: ''
      | kCorruption \<Rightarrow> cstr ''Corruption: ''
      | kNotSupported \<Rightarrow> cstr ''Not implemented: ''
      | kInvalidArgument \<Rightarrow> cstr ''Invalid argument: ''
      | kIOError \<Rightarrow> cstr ''IO error: ''
      | kNotFoundByFilter \<Rightarrow> cstr ''Unknown code(6): '')"

definition Status_ToString :: "Status \<Rightarrow> bytes" where
  "Status_ToString s =
     (case s of StatusOK \<Rightarrow> cstr ''OK'' | StatusState c msg \<Rightarrow> Status_type c @ msg)"

lemma Status_ok_simps [simp]:
  "Status_ok StatusOK" "\<not> Status_ok (StatusState c m)"
  by (simp_all add: Status_ok_def)

lemma IsNotFound_simps [simp]:
  "\<not> IsNotFound StatusOK" "IsNotFound (Status_NotFound m)" "\<not> IsNotFound (Status_Corruption m)"
  by (simp_all add: IsNotFound_def Status_code_def Status_NotFound_def Status_Corruption_def Status_make_def)

lemma Status_ok_make [simp]:
  "\<not> Status_ok (Status_NotFound m)" "\<not> Status_ok (Status_Corruption m)"
  by (simp_all add: Status_NotFound_def Status_Corruption_def Status_make_def)

text \<open>No status is both a success and a not-found.\<close>

lemma ok_not_IsNotFound: "Status_ok s \<Longrightarrow> \<not> IsNotFound s"
  by (cases s) auto

end
