(* ===== verification/Write_Batch.thy ===== *)
theory Write_Batch
  imports Coding Status
begin

text \<open>
  \<open>lib/leveldb/db/write_batch.cc\<close>: a batch of updates in its serialized form, byte for byte
  (sequence number, count, then one tagged record per update), and its replay into a handler.
  The handler is the virtual class \<open>WriteBatch::Handler\<close>: two functions on the handler's state.
  The main result is the round trip: replaying a batch built by \<open>Put\<close> and \<open>Delete\<close> calls the
  handler with exactly those updates, in that order, and reports success.
\<close>

record WriteBatch =
  wb_rep :: bytes

record 'h Handler =
  handler_Put :: "bytes \<Rightarrow> bytes \<Rightarrow> 'h \<Rightarrow> 'h"
  handler_Delete :: "bytes \<Rightarrow> 'h \<Rightarrow> 'h"

definition kTypeDeletion :: byte where "kTypeDeletion = 0"
definition kTypeValue :: byte where "kTypeValue = 1"
definition kHeader :: nat where "kHeader = 12"

definition WriteBatch_Clear :: "WriteBatch \<Rightarrow> WriteBatch" where
  "WriteBatch_Clear b = b\<lparr>wb_rep := string_resize kHeader []\<rparr>"

definition WriteBatch_new :: WriteBatch where
  "WriteBatch_new = WriteBatch_Clear \<lparr>wb_rep = []\<rparr>"

text \<open>
  The count is an \<open>int\<close> of the code, here the 32 bits of it: equality is equality of the bits, and where
  the code adds it to a sequence number it is extended with its sign.
\<close>

definition Count :: "WriteBatch \<Rightarrow> u32" where
  "Count b = DecodeFixed32 (drop 8 (wb_rep b))"

definition SetCount :: "WriteBatch \<Rightarrow> u32 \<Rightarrow> WriteBatch" where
  "SetCount b n = b\<lparr>wb_rep := take 8 (wb_rep b) @ EncodeFixed32 n @ drop 12 (wb_rep b)\<rparr>"

definition Sequence :: "WriteBatch \<Rightarrow> u64" where
  "Sequence b = DecodeFixed64 (wb_rep b)"

definition SetSequence :: "WriteBatch \<Rightarrow> u64 \<Rightarrow> WriteBatch" where
  "SetSequence b seq = b\<lparr>wb_rep := EncodeFixed64 seq @ drop 8 (wb_rep b)\<rparr>"

definition WriteBatch_Put :: "bytes \<Rightarrow> bytes \<Rightarrow> WriteBatch \<Rightarrow> WriteBatch" where
  "WriteBatch_Put key value b =
     (let b1 = SetCount b (Count b + 1);
          r1 = wb_rep b1 @ [kTypeValue];
          r2 = PutLengthPrefixedSlice r1 key;
          r3 = PutLengthPrefixedSlice r2 value
      in b1\<lparr>wb_rep := r3\<rparr>)"

definition WriteBatch_Delete :: "bytes \<Rightarrow> WriteBatch \<Rightarrow> WriteBatch" where
  "WriteBatch_Delete key b =
     (let b1 = SetCount b (Count b + 1);
          r1 = wb_rep b1 @ [kTypeDeletion];
          r2 = PutLengthPrefixedSlice r1 key
      in b1\<lparr>wb_rep := r2\<rparr>)"

definition WriteBatch_Append :: "WriteBatch \<Rightarrow> WriteBatch \<Rightarrow> WriteBatch" where
  "WriteBatch_Append dst src =
     (let dst1 = SetCount dst (Count dst + Count src)
      in dst1\<lparr>wb_rep := wb_rep dst1 @ drop kHeader (wb_rep src)\<rparr>)"

definition WriteBatch_SetContents :: "WriteBatch \<Rightarrow> bytes \<Rightarrow> WriteBatch" where
  "WriteBatch_SetContents b contents = b\<lparr>wb_rep := contents\<rparr>"

lemma GetLengthPrefixedSlice_shorter:
  assumes "GetLengthPrefixedSlice input = Some (s, rest)"
  shows "length rest < length input"
proof -
  obtain len q where g: "GetVarint32 input = Some (len, q)" and r: "rest = drop (unat len) q"
    using assms by (auto simp: GetLengthPrefixedSlice_def split: option.splits prod.splits if_splits)
  then obtain n where "0 < n" "n \<le> length input" "q = drop n input"
    using GetVarint32PtrFallback_suffix [of input 0 0 len q]
    by (auto simp: GetVarint32_def GetVarint32Ptr_fallback split: option.splits)
  then show ?thesis
    using r by simp
qed

text \<open>
  The loop of \<open>Iterate\<close>: the remaining input, the number of records found so far and the handler's
  state.  \<open>Inl\<close> is an early return with its status, \<open>Inr\<close> the count at the end of the input.  The count is
  an \<open>int\<close> as well, kept as 32 bits, and does not overflow in batches of less than \<open>2\<^sup>3\<^sup>1\<close> records.
\<close>

function Iterate_loop :: "'h Handler \<Rightarrow> bytes \<Rightarrow> u32 \<Rightarrow> 'h \<Rightarrow> (Status + u32) \<times> 'h" where
  "Iterate_loop hdl [] found h = (Inr found, h)"
| "Iterate_loop hdl (tag # input) found h =
     (if tag = kTypeValue then
        (case GetLengthPrefixedSlice input of
           None \<Rightarrow> (Inl (Status_Corruption (cstr ''bad WriteBatch Put'')), h)
         | Some (key, input1) \<Rightarrow>
             (case GetLengthPrefixedSlice input1 of
                None \<Rightarrow> (Inl (Status_Corruption (cstr ''bad WriteBatch Put'')), h)
              | Some (value, input2) \<Rightarrow>
                  Iterate_loop hdl input2 (found + 1) (handler_Put hdl key value h)))
      else if tag = kTypeDeletion then
        (case GetLengthPrefixedSlice input of
           None \<Rightarrow> (Inl (Status_Corruption (cstr ''bad WriteBatch Delete'')), h)
         | Some (key, input1) \<Rightarrow> Iterate_loop hdl input1 (found + 1) (handler_Delete hdl key h))
      else (Inl (Status_Corruption (cstr ''unknown WriteBatch tag'')), h))"
  by pat_completeness auto
termination
  by (relation "measure (\<lambda>(hdl, input, found, h). length input)")
    (auto dest!: GetLengthPrefixedSlice_shorter)

definition Iterate :: "'h Handler \<Rightarrow> WriteBatch \<Rightarrow> 'h \<Rightarrow> Status \<times> 'h" where
  "Iterate hdl b h =
     (if length (wb_rep b) < kHeader
      then (Status_Corruption (cstr ''malformed WriteBatch (too small)''), h)
      else
        (case Iterate_loop hdl (drop kHeader (wb_rep b)) 0 h of
           (Inl s, h') \<Rightarrow> (s, h')
         | (Inr found, h') \<Rightarrow>
             if found \<noteq> Count b then (Status_Corruption (cstr ''WriteBatch has wrong count''), h')
             else (StatusOK, h')))"

section \<open>The updates a batch stands for\<close>

datatype update = Put bytes bytes | Delete bytes

primrec batch_update :: "update \<Rightarrow> WriteBatch \<Rightarrow> WriteBatch" where
  "batch_update (Put k v) b = WriteBatch_Put k v b"
| "batch_update (Delete k) b = WriteBatch_Delete k b"

primrec handle_update :: "'h Handler \<Rightarrow> update \<Rightarrow> 'h \<Rightarrow> 'h" where
  "handle_update hdl (Put k v) h = handler_Put hdl k v h"
| "handle_update hdl (Delete k) h = handler_Delete hdl k h"

definition batch_of :: "update list \<Rightarrow> WriteBatch" where
  "batch_of us = fold batch_update us WriteBatch_new"

primrec small_update :: "update \<Rightarrow> bool" where
  "small_update (Put k v) \<longleftrightarrow> length k < 2 ^ 32 \<and> length v < 2 ^ 32"
| "small_update (Delete k) \<longleftrightarrow> length k < 2 ^ 32"

primrec record_of :: "update \<Rightarrow> bytes" where
  "record_of (Put k v) =
     kTypeValue # EncodeVarint32 (of_nat (length k)) @ k @ EncodeVarint32 (of_nat (length v)) @ v"
| "record_of (Delete k) = kTypeDeletion # EncodeVarint32 (of_nat (length k)) @ k"

text \<open>The layout of a batch: header, then the records in order.\<close>

definition batch_rep :: "u64 \<Rightarrow> u32 \<Rightarrow> update list \<Rightarrow> bytes" where
  "batch_rep seq n us = EncodeFixed64 seq @ EncodeFixed32 n @ concat (map record_of us)"

lemma Count_batch_rep [simp]: "Count \<lparr>wb_rep = batch_rep seq n us\<rparr> = n"
  by (simp add: Count_def batch_rep_def)

lemma SetCount_batch_rep [simp]:
  "SetCount \<lparr>wb_rep = batch_rep seq n us\<rparr> m = \<lparr>wb_rep = batch_rep seq m us\<rparr>"
  by (simp add: SetCount_def batch_rep_def)

lemma Sequence_batch_rep [simp]: "Sequence \<lparr>wb_rep = batch_rep seq n us\<rparr> = seq"
  by (simp add: Sequence_def batch_rep_def)

lemma SetSequence_batch_rep [simp]:
  "SetSequence \<lparr>wb_rep = batch_rep seq n us\<rparr> seq' = \<lparr>wb_rep = batch_rep seq' n us\<rparr>"
  by (simp add: SetSequence_def batch_rep_def)

lemma WriteBatch_new_rep: "WriteBatch_new = \<lparr>wb_rep = batch_rep 0 0 []\<rparr>"
  by (simp add: WriteBatch_new_def WriteBatch_Clear_def kHeader_def string_resize_def batch_rep_def
      EncodeFixed64_def EncodeFixed32_def numeral_eq_Suc)

lemma batch_update_rep:
  "batch_update u \<lparr>wb_rep = batch_rep seq n us\<rparr> = \<lparr>wb_rep = batch_rep seq (n + 1) (us @ [u])\<rparr>"
proof (cases u)
  case (Put k v)
  then show ?thesis
    by (simp add: WriteBatch_Put_def Let_def) (simp add: batch_rep_def PutLengthPrefixedSlice_def PutVarint32_def)
next
  case (Delete k)
  then show ?thesis
    by (simp add: WriteBatch_Delete_def Let_def) (simp add: batch_rep_def PutLengthPrefixedSlice_def PutVarint32_def)
qed

lemma fold_batch_update_rep:
  "fold batch_update us \<lparr>wb_rep = batch_rep seq n vs\<rparr> =
   \<lparr>wb_rep = batch_rep seq (n + of_nat (length us)) (vs @ us)\<rparr>"
  by (induction us arbitrary: n vs) (simp_all add: batch_update_rep algebra_simps)

lemma batch_of_rep: "batch_of us = \<lparr>wb_rep = batch_rep 0 (of_nat (length us)) us\<rparr>"
  by (simp add: batch_of_def WriteBatch_new_rep fold_batch_update_rep)

lemma Iterate_loop_record:
  "small_update u \<Longrightarrow>
   Iterate_loop hdl (record_of u @ rest) found h = Iterate_loop hdl rest (found + 1) (handle_update hdl u h)"
  by (cases u) (simp_all add: kTypeValue_def kTypeDeletion_def)

lemma Iterate_loop_records:
  "list_all small_update us \<Longrightarrow>
   Iterate_loop hdl (concat (map record_of us)) found h =
     (Inr (found + of_nat (length us)), fold (handle_update hdl) us h)"
proof (induction us arbitrary: found h)
  case Nil
  then show ?case by simp
next
  case (Cons u us)
  then show ?case
    by (simp add: Iterate_loop_record algebra_simps)
qed

lemma length_batch_rep: "length (batch_rep seq n us) = kHeader + length (concat (map record_of us))"
  by (simp add: batch_rep_def kHeader_def)

lemma drop_kHeader_batch_rep: "drop kHeader (batch_rep seq n us) = concat (map record_of us)"
  by (simp add: batch_rep_def kHeader_def)

lemma Iterate_batch_rep:
  "list_all small_update us \<Longrightarrow> n = of_nat (length us) \<Longrightarrow>
   Iterate hdl \<lparr>wb_rep = batch_rep seq n us\<rparr> h = (StatusOK, fold (handle_update hdl) us h)"
  by (simp add: Iterate_def length_batch_rep drop_kHeader_batch_rep Iterate_loop_records)

lemma Iterate_batch_of:
  "list_all small_update us \<Longrightarrow> Iterate hdl (batch_of us) h = (StatusOK, fold (handle_update hdl) us h)"
  by (simp add: batch_of_rep Iterate_batch_rep)

lemma Append_batch_rep:
  "WriteBatch_Append \<lparr>wb_rep = batch_rep s n us\<rparr> \<lparr>wb_rep = batch_rep s' m vs\<rparr> =
   \<lparr>wb_rep = batch_rep s (n + m) (us @ vs)\<rparr>"
  by (simp add: WriteBatch_Append_def Let_def drop_kHeader_batch_rep) (simp add: batch_rep_def)

end
