(* ===== verification/Db_Format.thy ===== *)
theory Db_Format
  imports Write_Batch "HOL-Library.Monad_Syntax"
begin

unbundle bit_operations_syntax

text \<open>
  LevelDB's key order: \<open>Slice::compare\<close> (\<open>include/leveldb/slice.h\<close>), the bytewise comparator
  (\<open>util/comparator.cc\<close>), and the internal keys of \<open>db/dbformat.cc\<close> and \<open>dbformat.h\<close>, which put a
  sequence number and a value type behind a user key and sort the newest first.  A \<open>Comparator\<close> is
  the virtual class: a record of its operations, each \<open>None\<close> where an \<open>assert\<close> fails.  Slices are
  shorter than \<open>2^31\<close> bytes (\<open>min_len\<close> is an \<open>int\<close>).

  The locale \<open>key_order\<close> is what a sorted structure asks of a comparison, \<open>separating_order\<close> adds the
  contract of the two key-shortening operations.  The bytewise comparator interprets them, and every
  user comparator that satisfies them makes the internal comparator satisfy them.
\<close>

section \<open>Comparing slices\<close>

text \<open>\<open>memcmp\<close> on two buffers of one length.\<close>

fun memcmp :: "bytes \<Rightarrow> bytes \<Rightarrow> int" where
  "memcmp (x # xs) (y # ys) = (if x = y then memcmp xs ys else if x < y then -1 else 1)"
| "memcmp xs ys = 0"

text \<open>The source keeps the smaller length in an \<open>int\<close>, so the slices are taken to be shorter than \<open>2\<^sup>3\<^sup>1\<close> bytes.\<close>

definition Slice_compare :: "bytes \<Rightarrow> bytes \<Rightarrow> int" where
  "Slice_compare a b =
     (let min_len = (if length a < length b then length a else length b);
          r = memcmp (take min_len a) (take min_len b)
      in if r = 0 then if length a < length b then -1 else if length a > length b then 1 else r
         else r)"

definition Slice_starts_with :: "bytes \<Rightarrow> bytes \<Rightarrow> bool" where
  "Slice_starts_with s x \<longleftrightarrow> length s \<ge> length x \<and> memcmp (take (length x) s) x = 0"

section \<open>Comparators\<close>

record Comparator =
  cmp_Name :: bytes
  cmp_Compare :: "bytes \<Rightarrow> bytes \<Rightarrow> int option"
  cmp_FindShortestSeparator :: "bytes \<Rightarrow> bytes \<Rightarrow> bytes option"
  cmp_FindShortSuccessor :: "bytes \<Rightarrow> bytes option"

fun diff_index :: "bytes \<Rightarrow> bytes \<Rightarrow> nat" where
  "diff_index (x # xs) (y # ys) = (if x = y then Suc (diff_index xs ys) else 0)"
| "diff_index xs ys = 0"

definition Bytewise_FindShortestSeparator :: "bytes \<Rightarrow> bytes \<Rightarrow> bytes option" where
  "Bytewise_FindShortestSeparator start limit =
     (let min_length = min (length start) (length limit);
          i = diff_index start limit
      in if i \<ge> min_length then Some start
         else let diff_byte = start ! i in
           if diff_byte < 255 \<and> unat diff_byte + 1 < unat (limit ! i) then
             let start' = take (i + 1) (start[i := diff_byte + 1]) in
             if Slice_compare start' limit < 0 then Some start' else None
           else Some start)"

fun Bytewise_FindShortSuccessor :: "bytes \<Rightarrow> bytes" where
  "Bytewise_FindShortSuccessor [] = []"
| "Bytewise_FindShortSuccessor (byte # key) =
     (if byte \<noteq> 255 then [byte + 1] else byte # Bytewise_FindShortSuccessor key)"

definition BytewiseComparator :: Comparator where
  "BytewiseComparator =
     \<lparr>cmp_Name = cstr ''leveldb.BytewiseComparator'',
      cmp_Compare = (\<lambda>a b. Some (Slice_compare a b)),
      cmp_FindShortestSeparator = Bytewise_FindShortestSeparator,
      cmp_FindShortSuccessor = (\<lambda>key. Some (Bytewise_FindShortSuccessor key))\<rparr>"

section \<open>Internal keys\<close>

definition kValueTypeForSeek :: byte where "kValueTypeForSeek = kTypeValue"

definition kMaxSequenceNumber :: u64 where "kMaxSequenceNumber = push_bit 56 1 - 1"

record ParsedInternalKey =
  pik_user_key :: bytes
  pik_sequence :: u64
  pik_type :: byte

definition InternalKeyEncodingLength :: "ParsedInternalKey \<Rightarrow> nat" where
  "InternalKeyEncodingLength key = length (pik_user_key key) + 8"

definition PackSequenceAndType :: "u64 \<Rightarrow> byte \<Rightarrow> u64 option" where
  "PackSequenceAndType seq t =
     (if seq \<le> kMaxSequenceNumber \<and> t \<le> kValueTypeForSeek then Some (push_bit 8 seq OR ucast t) else None)"

definition AppendInternalKey :: "bytes \<Rightarrow> ParsedInternalKey \<Rightarrow> bytes option" where
  "AppendInternalKey result key = do {
     num \<leftarrow> PackSequenceAndType (pik_sequence key) (pik_type key);
     Some (PutFixed64 (result @ pik_user_key key) num)
   }"

definition ExtractUserKey :: "bytes \<Rightarrow> bytes option" where
  "ExtractUserKey internal_key =
     (if length internal_key \<ge> 8 then Some (take (length internal_key - 8) internal_key) else None)"

definition ExtractValueType :: "bytes \<Rightarrow> byte option" where
  "ExtractValueType internal_key =
     (if length internal_key \<ge> 8 then
        let num = DecodeFixed64 (drop (length internal_key - 8) internal_key) in Some (ucast (num AND 255))
      else None)"

text \<open>The result structure is undefined when the function returns false: \<open>None\<close>.\<close>

definition ParseInternalKey :: "bytes \<Rightarrow> ParsedInternalKey option" where
  "ParseInternalKey internal_key =
     (let n = length internal_key in
      if n < 8 then None
      else let num = DecodeFixed64 (drop (n - 8) internal_key);
               c = ucast (num AND 255) :: byte
           in if c \<le> kTypeValue
              then Some \<lparr>pik_user_key = take (n - 8) internal_key, pik_sequence = drop_bit 8 num,
                         pik_type = c\<rparr>
              else None)"

definition InternalKeyComparator_Compare :: "Comparator \<Rightarrow> bytes \<Rightarrow> bytes \<Rightarrow> int option" where
  "InternalKeyComparator_Compare user_comparator akey bkey = do {
     a \<leftarrow> ExtractUserKey akey;
     b \<leftarrow> ExtractUserKey bkey;
     r \<leftarrow> cmp_Compare user_comparator a b;
     Some (if r = 0 then
             let anum = DecodeFixed64 (drop (length akey - 8) akey);
                 bnum = DecodeFixed64 (drop (length bkey - 8) bkey)
             in if anum > bnum then -1 else if anum < bnum then 1 else r
           else r)
   }"

definition InternalKeyComparator_FindShortestSeparator ::
    "Comparator \<Rightarrow> bytes \<Rightarrow> bytes \<Rightarrow> bytes option" where
  "InternalKeyComparator_FindShortestSeparator user_comparator start limit = do {
     user_start \<leftarrow> ExtractUserKey start;
     user_limit \<leftarrow> ExtractUserKey limit;
     tmp \<leftarrow> cmp_FindShortestSeparator user_comparator user_start user_limit;
     r \<leftarrow> (if length tmp < length user_start then cmp_Compare user_comparator user_start tmp else Some 0);
     if length tmp < length user_start \<and> r < 0 then do {
       num \<leftarrow> PackSequenceAndType kMaxSequenceNumber kValueTypeForSeek;
       let tmp' = PutFixed64 tmp num;
       r1 \<leftarrow> InternalKeyComparator_Compare user_comparator start tmp';
       r2 \<leftarrow> InternalKeyComparator_Compare user_comparator tmp' limit;
       if r1 < 0 \<and> r2 < 0 then Some tmp' else None
     } else Some start
   }"

definition InternalKeyComparator_FindShortSuccessor :: "Comparator \<Rightarrow> bytes \<Rightarrow> bytes option" where
  "InternalKeyComparator_FindShortSuccessor user_comparator key = do {
     user_key \<leftarrow> ExtractUserKey key;
     tmp \<leftarrow> cmp_FindShortSuccessor user_comparator user_key;
     r \<leftarrow> (if length tmp < length user_key then cmp_Compare user_comparator user_key tmp else Some 0);
     if length tmp < length user_key \<and> r < 0 then do {
       num \<leftarrow> PackSequenceAndType kMaxSequenceNumber kValueTypeForSeek;
       let tmp' = PutFixed64 tmp num;
       r1 \<leftarrow> InternalKeyComparator_Compare user_comparator key tmp';
       if r1 < 0 then Some tmp' else None
     } else Some key
   }"

definition InternalKeyComparator :: "Comparator \<Rightarrow> Comparator" where
  "InternalKeyComparator user_comparator =
     \<lparr>cmp_Name = cstr ''leveldb.InternalKeyComparator'',
      cmp_Compare = InternalKeyComparator_Compare user_comparator,
      cmp_FindShortestSeparator = InternalKeyComparator_FindShortestSeparator user_comparator,
      cmp_FindShortSuccessor = InternalKeyComparator_FindShortSuccessor user_comparator\<rparr>"

text \<open>
  A \<open>LookupKey\<close> is the bytes of its buffer with the offset of \<open>kstart_\<close>; the length is passed as
  \<open>uint32_t\<close>.
\<close>

record LookupKey =
  lk_buf :: bytes
  lk_kstart :: nat

definition LookupKey_new :: "bytes \<Rightarrow> u64 \<Rightarrow> LookupKey option" where
  "LookupKey_new user_key s = do {
     let len = EncodeVarint32 (of_nat (length user_key + 8));
     num \<leftarrow> PackSequenceAndType s kValueTypeForSeek;
     Some \<lparr>lk_buf = len @ user_key @ EncodeFixed64 num, lk_kstart = length len\<rparr>
   }"

definition memtable_key :: "LookupKey \<Rightarrow> bytes" where
  "memtable_key k = lk_buf k"

definition internal_key :: "LookupKey \<Rightarrow> bytes" where
  "internal_key k = drop (lk_kstart k) (lk_buf k)"

definition lookup_user_key :: "LookupKey \<Rightarrow> bytes" where
  "lookup_user_key k = take (length (lk_buf k) - lk_kstart k - 8) (drop (lk_kstart k) (lk_buf k))"

section \<open>The order of slices\<close>

lemma memcmp_take_min:
  "memcmp (take (min (length xs) (length ys)) xs) (take (min (length xs) (length ys)) ys) = memcmp xs ys"
  by (induction xs ys rule: memcmp.induct) simp_all

lemma Slice_compare_alt:
  "Slice_compare a b =
     (if memcmp a b = 0 then if length a < length b then -1 else if length b < length a then 1 else 0
      else memcmp a b)"
  using memcmp_take_min [of a b] by (simp add: Slice_compare_def Let_def min_def split: if_splits)

lemma Slice_compare_rec [simp]:
  "Slice_compare [] [] = 0"
  "Slice_compare [] (y # ys) = -1"
  "Slice_compare (x # xs) [] = 1"
  "Slice_compare (x # xs) (y # ys) = (if x = y then Slice_compare xs ys else if x < y then -1 else 1)"
  by (simp_all add: Slice_compare_alt)

lemma Slice_compare_zero_iff: "Slice_compare a b = 0 \<longleftrightarrow> a = b"
  by (induction a b rule: list_induct2') simp_all

lemma Slice_compare_swap: "Slice_compare b a = - Slice_compare a b"
  by (induction a b rule: list_induct2') auto

lemma Slice_compare_trans:
  "Slice_compare a b \<le> 0 \<Longrightarrow> Slice_compare b c \<le> 0 \<Longrightarrow> Slice_compare a c \<le> 0"
proof (induction a arbitrary: b c)
  case Nil
  then show ?case
    by (cases c) simp_all
next
  case (Cons x xs)
  show ?case
  proof (cases b)
    case Nil
    then show ?thesis
      using Cons.prems by simp
  next
    case b: (Cons y ys)
    then show ?thesis
      using Cons by (cases c) (auto split: if_splits)
  qed
qed

lemma memcmp_zero_iff: "length a = length b \<Longrightarrow> memcmp a b = 0 \<longleftrightarrow> a = b"
  by (induction a b rule: list_induct2) auto

lemma Slice_starts_with_iff: "Slice_starts_with s x \<longleftrightarrow> (\<exists>r. s = x @ r)"
proof
  assume "Slice_starts_with s x"
  then have "take (length x) s = x"
    using memcmp_zero_iff [of "take (length x) s" x] by (simp add: Slice_starts_with_def)
  then show "\<exists>r. s = x @ r"
    by (metis append_take_drop_id)
qed (auto simp: Slice_starts_with_def memcmp_zero_iff)

section \<open>The contracts\<close>

locale key_order =
  fixes valid :: "'k \<Rightarrow> bool"
    and cmp :: "'k \<Rightarrow> 'k \<Rightarrow> int option"
    and ord :: "'k \<Rightarrow> 'k \<Rightarrow> int"
  assumes cmp_ord: "valid a \<Longrightarrow> valid b \<Longrightarrow> cmp a b = Some (ord a b)"
    and ord_swap: "valid a \<Longrightarrow> valid b \<Longrightarrow> ord a b < 0 \<longleftrightarrow> 0 < ord b a"
    and ord_trans: "valid a \<Longrightarrow> valid b \<Longrightarrow> valid c \<Longrightarrow> ord a b \<le> 0 \<Longrightarrow> ord b c \<le> 0 \<Longrightarrow> ord a c \<le> 0"
begin

lemma ord_refl: "valid a \<Longrightarrow> ord a a = 0"
  using ord_swap [of a a] by linarith

lemma ord_le_swap: "valid a \<Longrightarrow> valid b \<Longrightarrow> ord a b \<le> 0 \<longleftrightarrow> 0 \<le> ord b a"
  using ord_swap [of b a] by linarith

lemma ord_zero_sym: "valid a \<Longrightarrow> valid b \<Longrightarrow> ord a b = 0 \<longleftrightarrow> ord b a = 0"
  using ord_swap [of a b] ord_swap [of b a] by linarith

lemma ord_less_le_trans:
  "valid a \<Longrightarrow> valid b \<Longrightarrow> valid c \<Longrightarrow> ord a b < 0 \<Longrightarrow> ord b c \<le> 0 \<Longrightarrow> ord a c < 0"
  using ord_trans [of b c a] ord_le_swap [of c a] ord_swap [of a b] by linarith

lemma ord_le_less_trans:
  "valid a \<Longrightarrow> valid b \<Longrightarrow> valid c \<Longrightarrow> ord a b \<le> 0 \<Longrightarrow> ord b c < 0 \<Longrightarrow> ord a c < 0"
  using ord_trans [of c a b] ord_le_swap [of c a] ord_swap [of b c] by linarith

lemma ord_zero_cong:
  "valid a \<Longrightarrow> valid b \<Longrightarrow> valid c \<Longrightarrow> ord a b = 0 \<Longrightarrow> ord a c < 0 \<longleftrightarrow> ord b c < 0"
  using ord_le_less_trans [of b a c] ord_le_less_trans [of a b c] ord_zero_sym [of a b] by auto

lemma ord_zero_trans:
  "valid a \<Longrightarrow> valid b \<Longrightarrow> valid c \<Longrightarrow> ord a b = 0 \<Longrightarrow> ord b c = 0 \<Longrightarrow> ord a c = 0"
  using ord_trans [of a b c] ord_trans [of c b a] ord_zero_sym [of a b] ord_zero_sym [of b c]
    ord_le_swap [of c a] by linarith

end

locale separating_order = key_order +
  fixes sep :: "'k \<Rightarrow> 'k \<Rightarrow> 'k option"
    and suc :: "'k \<Rightarrow> 'k option"
  assumes sep_between: "valid a \<Longrightarrow> valid b \<Longrightarrow> ord a b < 0 \<Longrightarrow>
      \<exists>s. sep a b = Some s \<and> valid s \<and> ord a s \<le> 0 \<and> ord s b < 0"
    and sep_same: "valid a \<Longrightarrow> valid b \<Longrightarrow> \<not> ord a b < 0 \<Longrightarrow> sep a b = Some a"
    and suc_above: "valid a \<Longrightarrow> \<exists>s. suc a = Some s \<and> valid s \<and> ord a s \<le> 0"

locale user_comparator =
  separating_order valid "cmp_Compare c" ord "cmp_FindShortestSeparator c" "cmp_FindShortSuccessor c"
  for valid and c :: Comparator and ord

section \<open>The bytewise comparator\<close>

lemma diff_index_split:
  "diff_index a b < min (length a) (length b) \<Longrightarrow>
   \<exists>p x xs y ys. a = p @ x # xs \<and> b = p @ y # ys \<and> x \<noteq> y \<and> diff_index a b = length p"
proof (induction a b rule: diff_index.induct)
  case (1 x xs y ys)
  show ?case
  proof (cases "x = y")
    case True
    with 1 obtain p u us v vs where "xs = p @ u # us" "ys = p @ v # vs" "u \<noteq> v" "diff_index xs ys = length p"
      by auto
    with True show ?thesis
      by (intro exI [of _ "y # p"]) auto
  next
    case False
    then show ?thesis
      by (intro exI [of _ "[]"]) auto
  qed
qed simp_all

lemma Slice_compare_prefix: "Slice_compare (p @ a) (p @ b) = Slice_compare a b"
  by (induction p) simp_all

lemma byte_succ: "x < 255 \<Longrightarrow> unat (x + 1 :: byte) = unat x + 1"
  by (simp add: word_less_nat_alt unat_word_ariths)

lemma byte_succ_less: "x < 255 \<Longrightarrow> unat x + 1 < unat (y :: byte) \<Longrightarrow> x < x + 1 \<and> x + 1 < y"
  using byte_succ [of x] by (simp add: word_less_nat_alt)

lemma byte_not_max: "x \<noteq> 255 \<Longrightarrow> x < (255 :: byte)"
proof -
  assume "x \<noteq> 255"
  then have "unat x \<noteq> 255"
    using word_unat_eq_iff [of x 255] by simp
  then show ?thesis
    using unsigned_less [of x, where 'a = nat] by (simp add: word_less_nat_alt)
qed

lemma Bytewise_separator_cases:
  obtains (same) "Bytewise_FindShortestSeparator a b = Some a"
  | (short) p x xs y ys where "a = p @ x # xs" "b = p @ y # ys" "x < x + 1" "x + 1 < y"
      "Bytewise_FindShortestSeparator a b = Some (p @ [x + 1])"
proof (cases "Bytewise_FindShortestSeparator a b = Some a")
  case True
  then show ?thesis by (rule same)
next
  case False
  then have "diff_index a b < min (length a) (length b)"
    by (auto simp: Bytewise_FindShortestSeparator_def Let_def split: if_splits)
  then obtain p x xs y ys where s: "a = p @ x # xs" "b = p @ y # ys" "diff_index a b = length p"
    using diff_index_split by blast
  then have "x < 255 \<and> unat x + 1 < unat y"
    using False by (auto simp: Bytewise_FindShortestSeparator_def Let_def nth_append split: if_splits)
  then have l: "x < x + 1" "x + 1 < y"
    using byte_succ_less by auto
  have "Bytewise_FindShortestSeparator a b = Some (p @ [x + 1])"
    using s l \<open>x < 255 \<and> unat x + 1 < unat y\<close>
    by (simp add: Bytewise_FindShortestSeparator_def Let_def nth_append list_update_append
        Slice_compare_prefix less_imp_neq min_def)
  with s l show ?thesis
    using short by blast
qed

lemma Slice_compare_refl [simp]: "Slice_compare a a = 0"
  by (simp add: Slice_compare_zero_iff)

lemma Bytewise_successor_above: "Slice_compare key (Bytewise_FindShortSuccessor key) \<le> 0"
proof (induction key)
  case (Cons byte key)
  have "byte < byte + 1" if "byte \<noteq> 255"
    using byte_succ [OF byte_not_max [OF that]] by (simp add: word_less_nat_alt)
  with Cons show ?case
    by auto
qed simp

interpretation bytewise: user_comparator "\<lambda>_. True" BytewiseComparator Slice_compare
proof unfold_locales
  fix a b :: bytes
  show "cmp_Compare BytewiseComparator a b = Some (Slice_compare a b)"
    by (simp add: BytewiseComparator_def)
  show "Slice_compare a b < 0 \<longleftrightarrow> 0 < Slice_compare b a"
    by (simp add: Slice_compare_swap [of b a])
  show "\<exists>s. cmp_FindShortestSeparator BytewiseComparator a b = Some s \<and> True \<and>
          Slice_compare a s \<le> 0 \<and> Slice_compare s b < 0"
    if "Slice_compare a b < 0"
    using that
    by (cases rule: Bytewise_separator_cases [of a b])
      (auto simp: BytewiseComparator_def Slice_compare_prefix)
  show "cmp_FindShortestSeparator BytewiseComparator a b = Some a" if "\<not> Slice_compare a b < 0"
    using that
    by (cases rule: Bytewise_separator_cases [of a b])
      (auto simp: BytewiseComparator_def Slice_compare_prefix dest: less_trans split: if_splits)
  show "\<exists>s. cmp_FindShortSuccessor BytewiseComparator a = Some s \<and> True \<and> Slice_compare a s \<le> 0"
    by (simp add: BytewiseComparator_def Bytewise_successor_above)
qed (rule Slice_compare_trans)

section \<open>Internal keys\<close>

text \<open>The user key and the packed number of an internal key, and the order the comparator decides.\<close>

definition ukey :: "bytes \<Rightarrow> bytes" where
  "ukey k = take (length k - 8) k"

definition tag :: "bytes \<Rightarrow> u64" where
  "tag k = DecodeFixed64 (drop (length k - 8) k)"

definition internal_order :: "(bytes \<Rightarrow> bytes \<Rightarrow> int) \<Rightarrow> bytes \<Rightarrow> bytes \<Rightarrow> int" where
  "internal_order ord a b =
     (let r = ord (ukey a) (ukey b) in
      if r = 0 then if tag b < tag a then -1 else if tag a < tag b then 1 else 0 else r)"

definition internal_valid :: "(bytes \<Rightarrow> bool) \<Rightarrow> bytes \<Rightarrow> bool" where
  "internal_valid valid k \<longleftrightarrow> 8 \<le> length k \<and> valid (ukey k)"

lemma ukey_append [simp]: "ukey (u @ EncodeFixed64 n) = u"
  by (simp add: ukey_def)

lemma tag_append [simp]: "tag (u @ EncodeFixed64 n) = n"
  using DecodeFixed64_EncodeFixed64 [of n "[]"] by (simp add: tag_def)

lemma internal_valid_append [simp]: "internal_valid valid (u @ EncodeFixed64 n) \<longleftrightarrow> valid u"
  by (simp add: internal_valid_def)

lemma internal_key_append:
  assumes "8 \<le> length k"
  shows "k = ukey k @ EncodeFixed64 (tag k)"
proof -
  have "le_bytes 8 (le_word (drop (length k - 8) k) :: u64) = drop (length k - 8) k"
    using le_bytes_le_word [where 'a = 64, of "drop (length k - 8) k"] assms by simp
  then show ?thesis
    using assms by (simp add: ukey_def tag_def DecodeFixed64_def EncodeFixed64_def)
qed

lemma ExtractUserKey_valid [simp]: "internal_valid valid k \<Longrightarrow> ExtractUserKey k = Some (ukey k)"
  by (simp add: ExtractUserKey_def internal_valid_def ukey_def)

lemma kMaxSequenceNumber_unat: "unat kMaxSequenceNumber = 2 ^ 56 - 1"
  by (simp add: kMaxSequenceNumber_def)

lemma pack_number:
  assumes "seq \<le> kMaxSequenceNumber"
  shows "unat (push_bit 8 seq OR ucast (t :: byte) :: u64) = 256 * unat seq + unat t"
proof -
  have s: "unat seq < 2 ^ 56"
    using assms kMaxSequenceNumber_unat by (simp add: word_le_nat_alt)
  have "push_bit 8 seq OR ucast t = push_bit 8 seq + (ucast t :: u64)"
    by (rule disjunctive_add [symmetric]) (auto simp: bit_simps dest: bit_imp_le_length)
  also have "unat \<dots> = 256 * unat seq + unat t"
  proof -
    have "unat (push_bit 8 seq) = 256 * unat seq"
      using s by (simp add: push_bit_eq_mult unat_word_ariths mult.commute)
    moreover have "unat (ucast t :: u64) = unat t" "unat t < 256"
      using unsigned_less [of t, where 'a = nat] by (simp_all add: unat_ucast_up)
    ultimately show ?thesis
      using s by (simp add: unat_word_ariths)
  qed
  finally show ?thesis .
qed

lemma pack_parts:
  assumes "seq \<le> kMaxSequenceNumber"
  shows "drop_bit 8 (push_bit 8 seq OR ucast (t :: byte) :: u64) = seq"
    and "(ucast ((push_bit 8 seq OR ucast t :: u64) AND 255) :: byte) = t"
proof -
  have t: "unat t < 256"
    using unsigned_less [of t, where 'a = nat] by simp
  show "drop_bit 8 (push_bit 8 seq OR ucast t :: u64) = seq"
    using pack_number [OF assms, of t] t
    by (simp add: word_unat_eq_iff unat_drop_bit_div del: drop_bit_or)
  show "(ucast ((push_bit 8 seq OR ucast t :: u64) AND 255) :: byte) = t"
    by (rule bit_word_eqI) (auto simp: bit_simps bit_numeral_rec split: nat.split)
qed

lemma PackSequenceAndType_value:
  "seq \<le> kMaxSequenceNumber \<Longrightarrow> t \<le> 1 \<Longrightarrow> PackSequenceAndType seq t = Some (push_bit 8 seq OR ucast t)"
  by (simp add: PackSequenceAndType_def kValueTypeForSeek_def kTypeValue_def)

lemma ParseInternalKey_Append:
  assumes "pik_sequence key \<le> kMaxSequenceNumber" "pik_type key \<le> kTypeValue"
  shows "\<exists>r. AppendInternalKey [] key = Some r \<and> length r = InternalKeyEncodingLength key \<and>
           ParseInternalKey r = Some key"
  using assms PackSequenceAndType_value [of "pik_sequence key" "pik_type key"]
    pack_parts [of "pik_sequence key" "pik_type key"]
    tag_append [of "pik_user_key key"] ukey_append [of "pik_user_key key"]
  by (simp add: AppendInternalKey_def PutFixed64_def kTypeValue_def InternalKeyEncodingLength_def
      ParseInternalKey_def Let_def tag_def ukey_def)

lemma internal_Compare:
  assumes "internal_valid valid a" "internal_valid valid b"
    and "cmp_Compare c (ukey a) (ukey b) = Some (ord (ukey a) (ukey b))"
  shows "InternalKeyComparator_Compare c a b = Some (internal_order ord a b)"
  using assms by (simp add: InternalKeyComparator_Compare_def internal_order_def Let_def tag_def)

context user_comparator
begin

lemma internal_key_order:
  "key_order (internal_valid valid) (InternalKeyComparator_Compare c) (internal_order ord)"
proof
  fix a b d :: bytes
  assume a: "internal_valid valid a" and b: "internal_valid valid b"
  have v: "valid (ukey a)" "valid (ukey b)"
    using a b by (simp_all add: internal_valid_def)
  show "InternalKeyComparator_Compare c a b = Some (internal_order ord a b)"
    using a b v by (intro internal_Compare [where valid = valid]) (simp_all add: cmp_ord)
  show "internal_order ord a b < 0 \<longleftrightarrow> 0 < internal_order ord b a"
    using v ord_swap [of "ukey a" "ukey b"] ord_zero_sym [of "ukey a" "ukey b"]
    by (auto simp: internal_order_def Let_def)
  assume d: "internal_valid valid d" and le: "internal_order ord a b \<le> 0" "internal_order ord b d \<le> 0"
  have w: "valid (ukey d)"
    using d by (simp add: internal_valid_def)
  have u: "ord (ukey a) (ukey b) \<le> 0" "ord (ukey b) (ukey d) \<le> 0"
    using le by (auto simp: internal_order_def Let_def split: if_splits)
  show "internal_order ord a d \<le> 0"
  proof (cases "ord (ukey a) (ukey b) = 0 \<and> ord (ukey b) (ukey d) = 0")
    case True
    then have "ord (ukey a) (ukey d) = 0"
      using ord_zero_trans v w by blast
    with True le show ?thesis
      by (auto simp: internal_order_def split: if_splits)
  next
    case False
    then have "ord (ukey a) (ukey d) < 0"
      using u ord_less_le_trans [of "ukey a" "ukey b" "ukey d"] ord_le_less_trans [of "ukey a" "ukey b" "ukey d"] v w
      by linarith
    then show ?thesis
      by (simp add: internal_order_def)
  qed
qed

lemma max_pack:
  obtains m where "PackSequenceAndType kMaxSequenceNumber kValueTypeForSeek = Some m"
  by (simp add: PackSequenceAndType_def)

lemma internal_less_if_user_less:
  "ord (ukey a) (ukey b) < 0 \<Longrightarrow> internal_order ord a b < 0"
  by (simp add: internal_order_def)

lemma internal_separator:
  assumes a: "internal_valid valid a" and b: "internal_valid valid b"
  shows "internal_order ord a b < 0 \<Longrightarrow>
      \<exists>s. InternalKeyComparator_FindShortestSeparator c a b = Some s \<and> internal_valid valid s \<and>
        internal_order ord a s \<le> 0 \<and> internal_order ord s b < 0"
    and "\<not> internal_order ord a b < 0 \<Longrightarrow> InternalKeyComparator_FindShortestSeparator c a b = Some a"
proof -
  have v: "valid (ukey a)" "valid (ukey b)"
    using a b by (simp_all add: internal_valid_def)
  obtain t where t: "cmp_FindShortestSeparator c (ukey a) (ukey b) = Some t" "valid t"
      "ord (ukey a) (ukey b) < 0 \<Longrightarrow> ord t (ukey b) < 0" "\<not> ord (ukey a) (ukey b) < 0 \<Longrightarrow> t = ukey a"
    using sep_between [OF v] sep_same [OF v] v by blast
  obtain m where m: "PackSequenceAndType kMaxSequenceNumber kValueTypeForSeek = Some m"
    by (rule max_pack)
  let ?t = "t @ EncodeFixed64 m"
  have same: "InternalKeyComparator_FindShortestSeparator c a b = Some a"
    if "\<not> (length t < length (ukey a) \<and> ord (ukey a) t < 0)"
    using that a b t v by (auto simp: InternalKeyComparator_FindShortestSeparator_def cmp_ord)
  have short: "InternalKeyComparator_FindShortestSeparator c a b = Some ?t"
      "internal_order ord a ?t < 0" "internal_order ord ?t b < 0"
    if s: "length t < length (ukey a)" "ord (ukey a) t < 0"
  proof -
    have "ord (ukey a) (ukey b) < 0"
      using t(4) s by blast
    then show 1: "internal_order ord a ?t < 0" "internal_order ord ?t b < 0"
      using t(3) s by (simp_all add: internal_less_if_user_less)
    have "InternalKeyComparator_Compare c a ?t = Some (internal_order ord a ?t)"
        "InternalKeyComparator_Compare c ?t b = Some (internal_order ord ?t b)"
      using a b v t
      by (simp_all add: internal_Compare [where valid = valid] cmp_ord)
    with 1 s show "InternalKeyComparator_FindShortestSeparator c a b = Some ?t"
      using a b t v m
      by (simp add: InternalKeyComparator_FindShortestSeparator_def cmp_ord PutFixed64_def)
  qed
  show "\<exists>s. InternalKeyComparator_FindShortestSeparator c a b = Some s \<and> internal_valid valid s \<and>
      internal_order ord a s \<le> 0 \<and> internal_order ord s b < 0" if "internal_order ord a b < 0"
    using that same short a t(2) key_order.ord_refl [OF internal_key_order a]
    by (cases "length t < length (ukey a) \<and> ord (ukey a) t < 0") (auto simp: less_imp_le)
  show "InternalKeyComparator_FindShortestSeparator c a b = Some a" if "\<not> internal_order ord a b < 0"
    using that same t(4) internal_less_if_user_less [of a b] by blast
qed

lemma internal_successor:
  assumes a: "internal_valid valid a"
  shows "\<exists>s. InternalKeyComparator_FindShortSuccessor c a = Some s \<and> internal_valid valid s \<and>
      internal_order ord a s \<le> 0"
proof -
  have v: "valid (ukey a)"
    using a by (simp add: internal_valid_def)
  obtain t where t: "cmp_FindShortSuccessor c (ukey a) = Some t" "valid t"
    using suc_above [OF v] by blast
  obtain m where m: "PackSequenceAndType kMaxSequenceNumber kValueTypeForSeek = Some m"
    by (rule max_pack)
  let ?t = "t @ EncodeFixed64 m"
  have "InternalKeyComparator_Compare c a ?t = Some (internal_order ord a ?t)"
    using a v t by (intro internal_Compare [where valid = valid]; simp add: cmp_ord)
  then show ?thesis
    using a t v m key_order.ord_refl [OF internal_key_order a] internal_less_if_user_less [of a ?t]
    by (auto simp: InternalKeyComparator_FindShortSuccessor_def cmp_ord PutFixed64_def)
qed

end

sublocale user_comparator \<subseteq> internal: separating_order "internal_valid valid"
    "InternalKeyComparator_Compare c" "internal_order ord"
    "InternalKeyComparator_FindShortestSeparator c" "InternalKeyComparator_FindShortSuccessor c"
  by (intro separating_order.intro internal_key_order separating_order_axioms.intro
      internal_separator internal_successor)

end
