(* ===== verification/Skip_List.thy ===== *)
theory Skip_List
  imports Db_Format
begin

unbundle bit_operations_syntax

text \<open>
  \<open>lib/leveldb/db/skiplist.h\<close> with the generator of \<open>util/random.h\<close>.  A node's address is its index
  in \<open>sl_nodes\<close> (the arena never frees a node), the head is node 0 and \<open>NULL\<close> is \<open>None\<close>.  A link
  the code has not stored yet is \<open>Unset\<close>; reading it, reading behind a node's array, following
  \<open>NULL\<close> or comparing the head's null key is undefined behaviour, the value \<open>None\<close> of the operation,
  and so is a failed \<open>assert\<close>.  A search that never returns is \<open>None\<close> too: the searches are
  \<open>partial_function\<close>s and the theorems prove that they return.

  Writers are serialised by the caller; the concurrent readers the atomic links allow are not modelled.
\<close>

section \<open>Random numbers\<close>

definition Random_new :: "u32 \<Rightarrow> u32" where
  "Random_new s = s AND 0x7fffffff"

text \<open>The new seed is also the number returned.\<close>

definition Random_Next :: "u32 \<Rightarrow> u32" where
  "Random_Next seed =
     (let M = 2147483647 :: u32;
          product = ucast seed * 16807 :: u64;
          seed1 = ucast (drop_bit 31 product + (product AND ucast M)) :: u32
      in if seed1 > M then seed1 - M else seed1)"

section \<open>Nodes\<close>

datatype link = Unset | Link "nat option"

record 'k Node =
  node_key :: "'k option"
  node_next :: "link list"

record 'k SkipList =
  sl_nodes :: "'k Node list"
  sl_max_height :: nat
  sl_rnd :: u32

definition kMaxHeight :: nat where "kMaxHeight = 12"

abbreviation (input) head :: nat where "head \<equiv> 0"

definition Node_Next :: "'k SkipList \<Rightarrow> nat \<Rightarrow> nat \<Rightarrow> nat option option" where
  "Node_Next sl x n =
     (if x < length (sl_nodes sl) \<and> n < length (node_next (sl_nodes sl ! x)) then
        (case node_next (sl_nodes sl ! x) ! n of Unset \<Rightarrow> None | Link p \<Rightarrow> Some p)
      else None)"

definition Node_SetNext :: "'k SkipList \<Rightarrow> nat \<Rightarrow> nat \<Rightarrow> nat option \<Rightarrow> 'k SkipList option" where
  "Node_SetNext sl x n p =
     (if x < length (sl_nodes sl) \<and> n < length (node_next (sl_nodes sl ! x)) then
        let node = sl_nodes sl ! x in
        Some (sl\<lparr>sl_nodes := (sl_nodes sl)[x := node\<lparr>node_next := (node_next node)[n := Link p]\<rparr>]\<rparr>)
      else None)"

definition Node_key :: "'k SkipList \<Rightarrow> nat \<Rightarrow> 'k option" where
  "Node_key sl x = (if x < length (sl_nodes sl) then node_key (sl_nodes sl ! x) else None)"

definition NewNode :: "'k SkipList \<Rightarrow> 'k option \<Rightarrow> nat \<Rightarrow> nat \<times> 'k SkipList" where
  "NewNode sl key height =
     (length (sl_nodes sl),
      sl\<lparr>sl_nodes := sl_nodes sl @ [\<lparr>node_key = key, node_next = replicate height Unset\<rparr>]\<rparr>)"

fun clear_links :: "'k SkipList \<Rightarrow> nat \<Rightarrow> nat \<Rightarrow> 'k SkipList option" where
  "clear_links sl i 0 = Some sl"
| "clear_links sl i (Suc n) = do {
     sl1 \<leftarrow> Node_SetNext sl head i None;
     clear_links sl1 (Suc i) n
   }"

definition SkipList_new :: "'k SkipList option" where
  "SkipList_new =
     (let sl = snd (NewNode \<lparr>sl_nodes = [], sl_max_height = 1, sl_rnd = Random_new 0xdeadbeef\<rparr>
                      None kMaxHeight)
      in clear_links sl 0 kMaxHeight)"

section \<open>Searching\<close>

definition KeyIsAfterNode :: "('k \<Rightarrow> 'k \<Rightarrow> int option) \<Rightarrow> 'k SkipList \<Rightarrow> 'k \<Rightarrow> nat option \<Rightarrow> bool option" where
  "KeyIsAfterNode cmp sl key n =
     (case n of
        None \<Rightarrow> Some False
      | Some x \<Rightarrow> do { k \<leftarrow> Node_key sl x; r \<leftarrow> cmp k key; Some (r < 0) })"

text \<open>
  \<open>prev\<close> is \<open>None\<close> for a null pointer, else the caller's array, in which an entry not yet written
  is \<open>None\<close>.
\<close>

partial_function (option) FindGreaterOrEqual_loop ::
    "('k \<Rightarrow> 'k \<Rightarrow> int option) \<Rightarrow> 'k SkipList \<Rightarrow> 'k \<Rightarrow> nat \<Rightarrow> nat \<Rightarrow> nat option list option \<Rightarrow>
     (nat option \<times> nat option list option) option" where
  "FindGreaterOrEqual_loop cmp sl key x level prev = do {
     nxt \<leftarrow> Node_Next sl x level;
     after \<leftarrow> KeyIsAfterNode cmp sl key nxt;
     if after then FindGreaterOrEqual_loop cmp sl key (the nxt) level prev
     else
       let prev' = map_option (\<lambda>p. p[level := Some x]) prev in
       if level = 0 then Some (nxt, prev')
       else FindGreaterOrEqual_loop cmp sl key x (level - 1) prev'
   }"

definition FindGreaterOrEqual ::
    "('k \<Rightarrow> 'k \<Rightarrow> int option) \<Rightarrow> 'k SkipList \<Rightarrow> 'k \<Rightarrow> nat option list option \<Rightarrow>
     (nat option \<times> nat option list option) option" where
  "FindGreaterOrEqual cmp sl key prev =
     FindGreaterOrEqual_loop cmp sl key head (sl_max_height sl - 1) prev"

partial_function (option) FindLessThan_loop ::
    "('k \<Rightarrow> 'k \<Rightarrow> int option) \<Rightarrow> 'k SkipList \<Rightarrow> 'k \<Rightarrow> nat \<Rightarrow> nat \<Rightarrow> nat option" where
  "FindLessThan_loop cmp sl key x level = do {
     ok \<leftarrow> (if x = head then Some True else KeyIsAfterNode cmp sl key (Some x));
     nxt \<leftarrow> Node_Next sl x level;
     less \<leftarrow> KeyIsAfterNode cmp sl key nxt;
     if \<not> ok then None
     else if \<not> less then
       if level = 0 then Some x
       else FindLessThan_loop cmp sl key x (level - 1)
     else FindLessThan_loop cmp sl key (the nxt) level
   }"

definition FindLessThan :: "('k \<Rightarrow> 'k \<Rightarrow> int option) \<Rightarrow> 'k SkipList \<Rightarrow> 'k \<Rightarrow> nat option" where
  "FindLessThan cmp sl key = FindLessThan_loop cmp sl key head (sl_max_height sl - 1)"

partial_function (option) FindLast_loop :: "'k SkipList \<Rightarrow> nat \<Rightarrow> nat \<Rightarrow> nat option" where
  "FindLast_loop sl x level = do {
     nxt \<leftarrow> Node_Next sl x level;
     case nxt of
       None \<Rightarrow> if level = 0 then Some x else FindLast_loop sl x (level - 1)
     | Some y \<Rightarrow> FindLast_loop sl y level
   }"

definition FindLast :: "'k SkipList \<Rightarrow> nat option" where
  "FindLast sl = FindLast_loop sl head (sl_max_height sl - 1)"

definition Contains :: "('k \<Rightarrow> 'k \<Rightarrow> int option) \<Rightarrow> 'k SkipList \<Rightarrow> 'k \<Rightarrow> bool option" where
  "Contains cmp sl key = do {
     (x, _) \<leftarrow> FindGreaterOrEqual cmp sl key None;
     case x of
       None \<Rightarrow> Some False
     | Some n \<Rightarrow> do { k \<leftarrow> Node_key sl n; r \<leftarrow> cmp key k; Some (r = 0) }
   }"

section \<open>Insertion\<close>

function RandomHeight_loop :: "nat \<Rightarrow> u32 \<Rightarrow> nat \<times> u32" where
  "RandomHeight_loop height rnd =
     (if height < kMaxHeight then
        let rnd' = Random_Next rnd in
        if rnd' mod 4 = 0 then RandomHeight_loop (height + 1) rnd' else (height, rnd')
      else (height, rnd))"
  by pat_completeness auto
termination
  by (relation "measure (\<lambda>(height, _). kMaxHeight - height)") auto

declare RandomHeight_loop.simps [simp del]

definition RandomHeight :: "u32 \<Rightarrow> nat \<times> u32" where
  "RandomHeight rnd = RandomHeight_loop 1 rnd"

fun raise_prev :: "nat option list \<Rightarrow> nat \<Rightarrow> nat \<Rightarrow> nat option list" where
  "raise_prev prev i 0 = prev"
| "raise_prev prev i (Suc n) = raise_prev (prev[i := Some head]) (Suc i) n"

fun insert_links :: "'k SkipList \<Rightarrow> nat \<Rightarrow> nat option list \<Rightarrow> nat \<Rightarrow> nat \<Rightarrow> 'k SkipList option" where
  "insert_links sl x prev i 0 = Some sl"
| "insert_links sl x prev i (Suc n) = do {
     p \<leftarrow> (if i < length prev then prev ! i else None);
     q \<leftarrow> Node_Next sl p i;
     sl1 \<leftarrow> Node_SetNext sl x i q;
     sl2 \<leftarrow> Node_SetNext sl1 p i (Some x);
     insert_links sl2 x prev (Suc i) n
   }"

definition SkipList_Insert :: "('k \<Rightarrow> 'k \<Rightarrow> int option) \<Rightarrow> 'k SkipList \<Rightarrow> 'k \<Rightarrow> 'k SkipList option" where
  "SkipList_Insert cmp sl key = do {
     (x, prev) \<leftarrow> FindGreaterOrEqual cmp sl key (Some (replicate kMaxHeight None));
     prev \<leftarrow> prev;
     eq \<leftarrow> (case x of
              None \<Rightarrow> Some False
            | Some n \<Rightarrow> do { k \<leftarrow> Node_key sl n; r \<leftarrow> cmp key k; Some (r = 0) });
     if eq then None
     else
       let (height, rnd) = RandomHeight (sl_rnd sl);
           sl1 = sl\<lparr>sl_rnd := rnd\<rparr>;
           (prev', sl2) =
             (if height > sl_max_height sl1
              then (raise_prev prev (sl_max_height sl1) (height - sl_max_height sl1),
                    sl1\<lparr>sl_max_height := height\<rparr>)
              else (prev, sl1));
           (y, sl3) = NewNode sl2 (Some key) height
       in insert_links sl3 y prev' 0 height
   }"

section \<open>Iterators\<close>

text \<open>An iterator is its \<open>node_\<close>.\<close>

definition Iterator_key :: "'k SkipList \<Rightarrow> nat option \<Rightarrow> 'k option" where
  "Iterator_key sl it = do { n \<leftarrow> it; Node_key sl n }"

definition Iterator_Next :: "'k SkipList \<Rightarrow> nat option \<Rightarrow> nat option option" where
  "Iterator_Next sl it = do { n \<leftarrow> it; Node_Next sl n 0 }"

definition Iterator_Prev :: "('k \<Rightarrow> 'k \<Rightarrow> int option) \<Rightarrow> 'k SkipList \<Rightarrow> nat option \<Rightarrow> nat option option" where
  "Iterator_Prev cmp sl it = do {
     n \<leftarrow> it;
     k \<leftarrow> Node_key sl n;
     m \<leftarrow> FindLessThan cmp sl k;
     Some (if m = head then None else Some m)
   }"

definition Iterator_Seek :: "('k \<Rightarrow> 'k \<Rightarrow> int option) \<Rightarrow> 'k SkipList \<Rightarrow> 'k \<Rightarrow> nat option option" where
  "Iterator_Seek cmp sl target = do { (n, _) \<leftarrow> FindGreaterOrEqual cmp sl target None; Some n }"

definition Iterator_SeekToFirst :: "'k SkipList \<Rightarrow> nat option option" where
  "Iterator_SeekToFirst sl = Node_Next sl head 0"

definition Iterator_SeekToLast :: "'k SkipList \<Rightarrow> nat option option" where
  "Iterator_SeekToLast sl = do { n \<leftarrow> FindLast sl; Some (if n = head then None else Some n) }"

section \<open>The random numbers\<close>

lemma Random_Next_unat:
  assumes "0 < unat seed" "unat seed < 2147483647"
  shows "unat (Random_Next seed) = 16807 * unat seed mod 2147483647"
    and "0 < unat (Random_Next seed)" "unat (Random_Next seed) < 2147483647"
proof -
  define M :: nat where "M = 2147483647"
  define s where "s = unat seed"
  define p where "p = 16807 * s"
  have s: "0 < s" "s < M"
    using assms by (simp_all add: s_def M_def)
  have product: "unat (ucast seed * 16807 :: u64) = p"
    using s by (simp add: unat_word_ariths unat_ucast_up s_def p_def M_def)
  define h where "h = p div 2 ^ 31"
  define l where "l = p mod 2 ^ 31"
  have hl: "h \<le> 16807" "l \<le> M" "p = h * 2 ^ 31 + l"
    using s by (auto simp: h_def l_def p_def M_def)
  have take: "(ucast seed * 16807 :: u64) AND ucast (2147483647 :: u32) = take_bit 31 (ucast seed * 16807)"
    by (simp add: take_bit_eq_mask mask_eq_exp_minus_1)
  have low: "unat ((ucast seed * 16807 :: u64) AND ucast (2147483647 :: u32)) = l"
    unfolding take unsigned_take_bit_eq product l_def by (rule take_bit_eq_mod)
  have high: "unat (drop_bit 31 (ucast seed * 16807 :: u64)) = h"
    by (simp only: unat_drop_bit_div product h_def)
  have "h + l < 2 ^ 64"
    using hl by (simp add: M_def)
  then have sum: "unat (drop_bit 31 (ucast seed * 16807 :: u64) + ((ucast seed * 16807) AND ucast (2147483647 :: u32))) = h + l"
    unfolding unat_word_ariths(1) high low by simp
  define t :: u32 where "t = ucast (drop_bit 31 (ucast seed * 16807 :: u64) + ((ucast seed * 16807) AND ucast (2147483647 :: u32)))"
  have t: "unat t = h + l"
    unfolding t_def unsigned_ucast_eq sum using hl by (simp add: M_def take_bit_nat_eq_self)
  have cong: "(h + l) mod M = p mod M"
  proof -
    have "p = (h + l) + h * M"
      using hl(3) by (simp add: M_def)
    then show ?thesis
      by (metis mod_mult_self1)
  qed
  have nz: "p mod M \<noteq> 0"
  proof
    assume "p mod M = 0"
    then have "M dvd 16807 * s"
      by (simp add: p_def mod_eq_0_iff_dvd)
    moreover have "coprime M 16807"
      unfolding M_def by (simp add: coprime_iff_gcd_eq_1 gcd_nat.simps)
    ultimately have "M dvd s"
      by (simp add: coprime_dvd_mult_right_iff)
    then show False
      using s by (simp add: nat_dvd_not_less)
  qed
  have "unat (Random_Next seed) = (if M < h + l then h + l - M else h + l)"
    unfolding Random_Next_def Let_def t_def [symmetric]
    using t by (simp add: word_less_nat_alt M_def unat_sub_if')
  also have "\<dots> = p mod M"
  proof -
    have "h + l \<noteq> M"
      using cong nz by auto
    moreover have "(h + l - M) mod M = (h + l) mod M" if "M < h + l"
      using that by (simp add: le_mod_geq)
    ultimately show ?thesis
      using hl cong by (cases "M < h + l") (auto simp: M_def)
  qed
  finally have r: "unat (Random_Next seed) = p mod M" .
  then show "unat (Random_Next seed) = 16807 * unat seed mod 2147483647"
    by (simp add: p_def s_def M_def)
  show "0 < unat (Random_Next seed)" "unat (Random_Next seed) < 2147483647"
    using nz r mod_less_divisor [of M p] by (simp_all add: M_def)
qed

lemma RandomHeight_loop_bounds:
  "1 \<le> h \<Longrightarrow> h \<le> kMaxHeight \<Longrightarrow> 1 \<le> fst (RandomHeight_loop h r) \<and> fst (RandomHeight_loop h r) \<le> kMaxHeight"
proof (induction h r rule: RandomHeight_loop.induct)
  case (1 h r)
  then show ?case
    by (subst (1 2) RandomHeight_loop.simps) (simp add: Let_def)
qed

lemma RandomHeight_bounds: "1 \<le> fst (RandomHeight r)" "fst (RandomHeight r) \<le> kMaxHeight"
  using RandomHeight_loop_bounds [of 1 r] by (simp_all add: RandomHeight_def kMaxHeight_def)

section \<open>The shape of a skip list\<close>

definition height :: "'k SkipList \<Rightarrow> nat \<Rightarrow> nat" where
  "height sl a = (if a < length (sl_nodes sl) then length (node_next (sl_nodes sl ! a)) else 0)"

definition level :: "'k SkipList \<Rightarrow> nat \<Rightarrow> nat list \<Rightarrow> nat list" where
  "level sl l as = filter (\<lambda>a. l < height sl a) as"

definition first :: "nat list \<Rightarrow> nat option" where
  "first as = (case as of [] \<Rightarrow> None | a # _ \<Rightarrow> Some a)"

fun linked :: "'k SkipList \<Rightarrow> nat \<Rightarrow> nat \<Rightarrow> nat list \<Rightarrow> bool" where
  "linked sl l x [] \<longleftrightarrow> Node_Next sl x l = Some None"
| "linked sl l x (y # ys) \<longleftrightarrow> Node_Next sl x l = Some (Some y) \<and> linked sl l y ys"

lemma first_simps [simp]: "first [] = None" "first (a # as) = Some a"
  by (simp_all add: first_def)

lemma level_append [simp]: "level sl l (as @ bs) = level sl l as @ level sl l bs"
  by (simp add: level_def)

lemma level_Cons [simp]: "level sl l (a # as) = (if l < height sl a then a # level sl l as else level sl l as)"
  by (simp add: level_def)

lemma level_Nil [simp]: "level sl l [] = []"
  by (simp add: level_def)

lemma linked_first: "linked sl l x ys \<Longrightarrow> Node_Next sl x l = Some (first ys)"
  by (cases ys) simp_all

lemma linked_tail: "linked sl l x (ys @ y # zs) \<Longrightarrow> linked sl l y zs"
  by (induction ys arbitrary: x) auto

lemma linked_cong:
  "(\<And>y. y \<in> set (x # ys) \<Longrightarrow> Node_Next sl' y l = Node_Next sl y l) \<Longrightarrow> linked sl' l x ys = linked sl l x ys"
  by (induction ys arbitrary: x) auto

lemma linked_insert:
  assumes "linked sl l x (ys @ zs)" "distinct (x # ys @ zs)" "n \<notin> set (x # ys @ zs)"
    and "Node_Next sl' n l = Some (first zs)" "Node_Next sl' (last (x # ys)) l = Some (Some n)"
    and "\<And>y. y \<noteq> n \<Longrightarrow> y \<noteq> last (x # ys) \<Longrightarrow> Node_Next sl' y l = Node_Next sl y l"
  shows "linked sl' l x (ys @ n # zs)"
  using assms
proof (induction ys arbitrary: x)
  case Nil
  have "linked sl' l n zs"
  proof (cases zs)
    case Nil
    then show ?thesis using Nil.prems by simp
  next
    case (Cons z zs')
    then have "linked sl l z zs'" and fresh: "x \<notin> set (z # zs')" "n \<notin> set (z # zs')"
      using Nil.prems by auto
    moreover have "linked sl' l z zs' = linked sl l z zs'"
      by (rule linked_cong, rule Nil.prems(6)) (use fresh in auto)
    ultimately have "linked sl' l z zs'"
      by simp
    then show ?thesis using Nil.prems(4) Cons by simp
  qed
  then show ?case using Nil.prems by simp
next
  case (Cons y ys)
  then have "x \<noteq> n" "x \<noteq> last (x # y # ys)"
    by auto
  then have "Node_Next sl' x l = Node_Next sl x l"
    using Cons.prems(6) by blast
  moreover have "linked sl' l y (ys @ n # zs)"
    using Cons.prems by (intro Cons.IH) auto
  ultimately show ?case using Cons.prems(1) by simp
qed

definition skip_inv :: "('k \<Rightarrow> bool) \<Rightarrow> ('k \<Rightarrow> 'k \<Rightarrow> int) \<Rightarrow> 'k SkipList \<Rightarrow> nat list \<Rightarrow> bool" where
  "skip_inv valid ord sl as \<longleftrightarrow>
     height sl head = kMaxHeight \<and> distinct (head # as) \<and> set (head # as) = {..<length (sl_nodes sl)} \<and>
     1 \<le> sl_max_height sl \<and> sl_max_height sl \<le> kMaxHeight \<and>
     (\<forall>a\<in>set as. 1 \<le> height sl a \<and> height sl a \<le> sl_max_height sl \<and> (\<exists>k. Node_key sl a = Some k \<and> valid k)) \<and>
     (\<forall>l<kMaxHeight. linked sl l head (level sl l as)) \<and>
     sorted_wrt (\<lambda>a b. ord (the (Node_key sl a)) (the (Node_key sl b)) < 0) as"

text \<open>The sorted keys a skip list holds.\<close>

definition skip_holds :: "('k \<Rightarrow> bool) \<Rightarrow> ('k \<Rightarrow> 'k \<Rightarrow> int) \<Rightarrow> 'k SkipList \<Rightarrow> 'k list \<Rightarrow> bool" where
  "skip_holds valid ord sl ks \<longleftrightarrow> (\<exists>as. skip_inv valid ord sl as \<and> map (Node_key sl) as = map Some ks)"

lemma skip_invD:
  assumes "skip_inv valid ord sl as"
  shows "height sl head = kMaxHeight" "distinct (head # as)" "set (head # as) = {..<length (sl_nodes sl)}"
    "1 \<le> sl_max_height sl" "sl_max_height sl \<le> kMaxHeight"
    "\<And>a. a \<in> set as \<Longrightarrow> 1 \<le> height sl a" "\<And>a. a \<in> set as \<Longrightarrow> height sl a \<le> sl_max_height sl"
    "\<And>a. a \<in> set as \<Longrightarrow> \<exists>k. Node_key sl a = Some k \<and> valid k"
    "\<And>l. l < kMaxHeight \<Longrightarrow> linked sl l head (level sl l as)"
    "sorted_wrt (\<lambda>a b. ord (the (Node_key sl a)) (the (Node_key sl b)) < 0) as"
  using assms by (auto simp: skip_inv_def)

lemma level_0: "skip_inv valid ord sl as \<Longrightarrow> set bs \<subseteq> set as \<Longrightarrow> level sl 0 bs = bs"
  using skip_invD(6) [of valid ord sl as] by (force simp: level_def filter_id_conv)

text \<open>
  One step of a search at node \<open>x\<close> on level \<open>l\<close>, where the nodes are \<open>B @ A\<close> and \<open>R\<close> is the part
  of \<open>B\<close> behind \<open>x\<close>: either the level goes on inside \<open>B\<close>, or \<open>x\<close> is the last node of \<open>B\<close> on
  this level and the link leads into \<open>A\<close>.
\<close>

lemma search_step:
  assumes inv: "skip_inv valid ord sl (B @ A)" and l: "l < kMaxHeight" "l < height sl x"
    and pos: "head # B = P @ x # R"
  obtains (stop) "Node_Next sl x l = Some (first (level sl l A))" "x = last (head # level sl l B)"
  | (move) y R1 R2 where "Node_Next sl x l = Some (Some y)" "y \<in> set B" "l < height sl y"
      "head # B = (P @ x # R1) @ y # R2" "R = R1 @ y # R2"
proof -
  have h: "l < height sl head"
    using skip_invD(1) [OF inv] l by simp
  have all: "head # level sl l (B @ A) = level sl l P @ x # level sl l (R @ A)"
    using arg_cong [OF pos, of "\<lambda>xs. level sl l (xs @ A)"] h l by simp
  have link: "linked sl l x (level sl l (R @ A))"
  proof (cases "level sl l P")
    case Nil
    then show ?thesis
      using all skip_invD(9) [OF inv l(1)] by simp
  next
    case (Cons p ps)
    then have "level sl l (B @ A) = ps @ x # level sl l (R @ A)"
      using all by simp
    then show ?thesis
      using linked_tail skip_invD(9) [OF inv l(1)] by metis
  qed
  show thesis
  proof (cases "level sl l R")
    case Nil
    have "head # level sl l B = level sl l P @ [x]"
      using arg_cong [OF pos, of "level sl l"] h l Nil by simp
    then have "x = last (head # level sl l B)"
      by simp
    then show thesis
      using linked_first [OF link] Nil stop by simp
  next
    case (Cons y ys)
    then obtain R1 R2 where R: "R = R1 @ y # R2" "l < height sl y" "level sl l R1 = []"
      unfolding level_def filter_eq_Cons_iff filter_empty_conv by blast
    have "y \<in> set B"
      using pos R by (cases P) auto
    then show thesis
      using move [of y R1 R2] linked_first [OF link] Cons R pos by simp
  qed
qed

lemma search_stop_0:
  assumes "skip_inv valid ord sl (B @ A)"
  shows "first (level sl 0 A) = first A" "last (head # level sl 0 B) = last (head # B)"
  using level_0 [OF assms, of A] level_0 [OF assms, of B] by simp_all

lemma FindLast_loop_run:
  assumes "skip_inv valid ord sl B" "l < kMaxHeight" "l < height sl x" "head # B = P @ x # R"
  shows "FindLast_loop sl x l = Some (last (head # B))"
  using assms
proof (induction "l + length R" arbitrary: l x P R rule: less_induct)
  case less
  have inv: "skip_inv valid ord sl (B @ [])"
    using less.prems(1) by simp
  show ?case
  proof (cases rule: search_step [OF inv less.prems(2-4), case_names stop move])
    case stop
    then show ?thesis
      using search_stop_0 [OF inv] less.hyps [of "l - 1" R x P] less.prems
      by (subst FindLast_loop.simps) (cases l; simp)
  next
    case (move y R1 R2)
    then show ?thesis
      using less.hyps [of l R2 y "P @ x # R1"] less.prems
      by (subst FindLast_loop.simps) simp
  qed
qed

lemma FindLast_run: "skip_inv valid ord sl as \<Longrightarrow> FindLast sl = Some (last (head # as))"
  unfolding FindLast_def
  using FindLast_loop_run [of valid ord sl as "sl_max_height sl - 1" head "[]" as]
    skip_invD(1,4,5) [of valid ord sl as] by simp

definition last_at :: "'k SkipList \<Rightarrow> nat list \<Rightarrow> nat \<Rightarrow> nat" where
  "last_at sl B l = last (head # level sl l B)"

text \<open>What a search with \<open>prev\<close> leaves in the array for levels \<open>l\<close> down to 0.\<close>

fun set_prev :: "(nat \<Rightarrow> nat) \<Rightarrow> nat \<Rightarrow> nat option list \<Rightarrow> nat option list" where
  "set_prev g 0 p = p[0 := Some (g 0)]"
| "set_prev g (Suc l) p = set_prev g l (p[Suc l := Some (g (Suc l))])"

lemma length_set_prev [simp]: "length (set_prev g l p) = length p"
  by (induction l arbitrary: p) simp_all

lemma nth_set_prev:
  "i < length p \<Longrightarrow> set_prev g l p ! i = (if i \<le> l then Some (g i) else p ! i)"
  by (induction l arbitrary: p) (auto simp: nth_list_update le_Suc_eq)

lemma length_raise_prev [simp]: "length (raise_prev p i n) = length p"
  by (induction n arbitrary: p i) simp_all

lemma nth_raise_prev:
  "j < length p \<Longrightarrow> raise_prev p i n ! j = (if i \<le> j \<and> j < i + n then Some head else p ! j)"
  by (induction n arbitrary: p i) (auto simp: nth_list_update)

context key_order
begin

abbreviation node_less :: "'k SkipList \<Rightarrow> 'k \<Rightarrow> nat \<Rightarrow> bool" where
  "node_less sl key a \<equiv> ord (the (Node_key sl a)) key < 0"

lemma KeyIsAfterNode_run:
  assumes "skip_inv valid ord sl as" "valid key" "a \<in> set as"
  shows "KeyIsAfterNode cmp sl key (Some a) = Some (node_less sl key a)"
  using skip_invD(8) [OF assms(1,3)] assms(2) by (auto simp: KeyIsAfterNode_def cmp_ord)

lemma KeyIsAfterNode_first:
  assumes "skip_inv valid ord sl (B @ A)" "valid key" "\<And>a. a \<in> set A \<Longrightarrow> \<not> node_less sl key a"
  shows "KeyIsAfterNode cmp sl key (first (level sl l A)) = Some False"
proof (cases "level sl l A")
  case Nil
  then show ?thesis by (simp add: KeyIsAfterNode_def)
next
  case (Cons a as)
  then have "a \<in> set A"
    by (auto simp: level_def filter_eq_Cons_iff)
  then show ?thesis
    using KeyIsAfterNode_run [OF assms(1,2), of a] assms(3) Cons by simp
qed

lemma FindGreaterOrEqual_loop_run:
  assumes "skip_inv valid ord sl (B @ A)" "valid key"
    and "\<And>b. b \<in> set B \<Longrightarrow> node_less sl key b" "\<And>a. a \<in> set A \<Longrightarrow> \<not> node_less sl key a"
    and "l < kMaxHeight" "l < height sl x" "head # B = P @ x # R"
  shows "FindGreaterOrEqual_loop cmp sl key x l prev =
    Some (first A, map_option (set_prev (last_at sl B) l) prev)"
  using assms(5-7)
proof (induction "l + length R" arbitrary: l x P R prev rule: less_induct)
  case less
  show ?case
  proof (cases rule: search_step [OF assms(1) less.prems, case_names stop move])
    case stop
    have x: "x = last_at sl B l"
      using stop(2) by (simp add: last_at_def)
    show ?thesis
    proof (cases l)
      case 0
      then show ?thesis
        using stop(1) x search_stop_0(1) [OF assms(1)] KeyIsAfterNode_first [OF assms(1,2,4), of l]
        by (subst FindGreaterOrEqual_loop.simps) (cases prev; simp)
    next
      case (Suc k)
      then show ?thesis
        using stop(1) x KeyIsAfterNode_first [OF assms(1,2,4), of l] less.hyps [of k R x P] less.prems
        by (subst FindGreaterOrEqual_loop.simps) (cases prev; simp)
    qed
  next
    case (move y R1 R2)
    then show ?thesis
      using KeyIsAfterNode_run [OF assms(1,2), of y] assms(3) [of y] less.hyps [of l R2 y "P @ x # R1"] less.prems
      by (subst FindGreaterOrEqual_loop.simps) simp
  qed
qed

lemma FindGreaterOrEqual_run:
  assumes "skip_inv valid ord sl (B @ A)" "valid key"
    and "\<And>b. b \<in> set B \<Longrightarrow> node_less sl key b" "\<And>a. a \<in> set A \<Longrightarrow> \<not> node_less sl key a"
  shows "FindGreaterOrEqual cmp sl key prev =
    Some (first A, map_option (set_prev (last_at sl B) (sl_max_height sl - 1)) prev)"
  unfolding FindGreaterOrEqual_def
  using FindGreaterOrEqual_loop_run [OF assms, of "sl_max_height sl - 1" head "[]" B prev]
    skip_invD(1,4,5) [OF assms(1)] by simp

lemma FindLessThan_loop_run:
  assumes "skip_inv valid ord sl (B @ A)" "valid key"
    and "\<And>b. b \<in> set B \<Longrightarrow> node_less sl key b" "\<And>a. a \<in> set A \<Longrightarrow> \<not> node_less sl key a"
    and "l < kMaxHeight" "l < height sl x" "head # B = P @ x # R"
  shows "FindLessThan_loop cmp sl key x l = Some (last (head # B))"
  using assms(5-7)
proof (induction "l + length R" arbitrary: l x P R rule: less_induct)
  case less
  have ok: "(if x = head then Some True else KeyIsAfterNode cmp sl key (Some x)) = Some True"
    using less.prems(3) KeyIsAfterNode_run [OF assms(1,2), of x] assms(3) [of x] by (cases P) auto
  show ?case
  proof (cases rule: search_step [OF assms(1) less.prems, case_names stop move])
    case stop
    then show ?thesis
      using ok search_stop_0(2) [OF assms(1)] KeyIsAfterNode_first [OF assms(1,2,4), of l]
        less.hyps [of "l - 1" R x P] less.prems
      by (subst FindLessThan_loop.simps) (cases l; simp)
  next
    case (move y R1 R2)
    then show ?thesis
      using ok KeyIsAfterNode_run [OF assms(1,2), of y] assms(3) [of y] less.hyps [of l R2 y "P @ x # R1"] less.prems
      by (subst FindLessThan_loop.simps) simp
  qed
qed

lemma FindLessThan_run:
  assumes "skip_inv valid ord sl (B @ A)" "valid key"
    and "\<And>b. b \<in> set B \<Longrightarrow> node_less sl key b" "\<And>a. a \<in> set A \<Longrightarrow> \<not> node_less sl key a"
  shows "FindLessThan cmp sl key = Some (last (head # B))"
  unfolding FindLessThan_def
  using FindLessThan_loop_run [OF assms, of "sl_max_height sl - 1" head "[]" B]
    skip_invD(1,4,5) [OF assms(1)] by simp

end

section \<open>Storing links\<close>

lemma Node_SetNext_effect:
  assumes "Node_SetNext sl x n p = Some sl'"
  shows "Node_Next sl' y m = (if y = x \<and> m = n then Some p else Node_Next sl y m)"
    and "Node_key sl' = Node_key sl" "height sl' = height sl"
    and "length (sl_nodes sl') = length (sl_nodes sl)" "sl_max_height sl' = sl_max_height sl" "sl_rnd sl' = sl_rnd sl"
  using assms
  by (auto simp: Node_SetNext_def Node_Next_def Node_key_def height_def Let_def nth_list_update fun_eq_iff
      split: if_splits)

lemma Node_SetNext_defined: "n < height sl x \<Longrightarrow> \<exists>sl'. Node_SetNext sl x n p = Some sl'"
  by (simp add: Node_SetNext_def height_def Let_def split: if_splits)

lemma NewNode_effect:
  assumes "NewNode sl key h = (n, sl')"
  shows "n = length (sl_nodes sl)" "length (sl_nodes sl') = Suc n"
    and "a < n \<Longrightarrow> Node_Next sl' a l = Node_Next sl a l"
    and "Node_key sl' a = (if a = n then key else Node_key sl a)"
    and "height sl' a = (if a = n then h else height sl a)"
    and "sl_max_height sl' = sl_max_height sl" "sl_rnd sl' = sl_rnd sl"
  using assms by (auto simp: NewNode_def Node_Next_def Node_key_def height_def nth_append)

lemma linked_last: "linked sl l x (ys @ zs) \<Longrightarrow> Node_Next sl (last (x # ys)) l = Some (first zs)"
  by (induction ys arbitrary: x) (auto intro: linked_first)

lemma level_cong: "(\<And>a. a \<in> set as \<Longrightarrow> height sl a = height sl' a) \<Longrightarrow> level sl l as = level sl' l as"
  unfolding level_def by (rule filter_cong) simp_all

lemma set_level: "set (level sl l as) = {a \<in> set as. l < height sl a}"
  by (simp add: level_def)

lemma last_at_height: "l < height sl head \<Longrightarrow> l < height sl (last_at sl B l)"
  using last_in_set [of "head # level sl l B"] by (auto simp: last_at_def set_level split: if_splits)

lemma last_at_in: "last_at sl B l \<in> set (head # B)"
  using last_in_set [of "head # level sl l B"] by (auto simp: last_at_def set_level split: if_splits)

lemma insert_links_run:
  assumes "\<And>l. l < kMaxHeight \<Longrightarrow>
      linked sl l head (if l < i then level sl l (B @ n # A) else level sl l (B @ A))"
    and "distinct (head # B @ A)" "n \<notin> set (head # B @ A)"
    and "height sl n = i + m" "i + m \<le> kMaxHeight" "height sl head = kMaxHeight"
    and "\<And>l. i \<le> l \<Longrightarrow> l < i + m \<Longrightarrow> l < length prev \<and> prev ! l = Some (last_at sl B l)"
  shows "\<exists>sl'. insert_links sl n prev i m = Some sl' \<and> Node_key sl' = Node_key sl \<and> height sl' = height sl \<and>
      length (sl_nodes sl') = length (sl_nodes sl) \<and> sl_max_height sl' = sl_max_height sl \<and>
      (\<forall>l<kMaxHeight. linked sl' l head (level sl l (B @ n # A)))"
  using assms
proof (induction m arbitrary: sl i)
  case 0
  have "linked sl l head (level sl l (B @ n # A))" if "l < kMaxHeight" for l
    using 0(1) [OF that] 0(4) by (cases "l < i") simp_all
  then show ?case by simp
next
  case (Suc m)
  define p where "p = last_at sl B i"
  have i: "i < kMaxHeight"
    using Suc.prems(5) by simp
  have chain: "linked sl i head (level sl i B @ level sl i A)"
    using Suc.prems(1) [OF i] by simp
  have nxt: "Node_Next sl p i = Some (first (level sl i A))"
    using linked_last [OF chain] by (simp add: p_def last_at_def)
  obtain sl1 where sl1: "Node_SetNext sl n i (first (level sl i A)) = Some sl1"
    using Node_SetNext_defined [of i sl n] Suc.prems(4) by auto
  note e1 = Node_SetNext_effect [OF sl1]
  have "i < height sl p"
    unfolding p_def using Suc.prems(6) i by (intro last_at_height) simp
  then obtain sl2 where sl2: "Node_SetNext sl1 p i (Some n) = Some sl2"
    using Node_SetNext_defined [of i sl1 p] e1(3) by auto
  note e2 = Node_SetNext_effect [OF sl2]
  have h: "height sl2 = height sl" "Node_key sl2 = Node_key sl"
    using e1(2,3) e2(2,3) by simp_all
  then have lv: "level sl2 l as = level sl l as" "last_at sl2 as l = last_at sl as l" for l as
    by (simp_all add: level_def last_at_def)
  have pn: "p \<noteq> n"
    using last_at_in [of sl B i] Suc.prems(3) by (auto simp: p_def)
  have "linked sl2 i head (level sl i B @ n # level sl i A)"
  proof (rule linked_insert [OF chain])
    show "distinct (head # level sl i B @ level sl i A)" "n \<notin> set (head # level sl i B @ level sl i A)"
      using Suc.prems(2,3) by (auto simp: level_def)
    show "Node_Next sl2 n i = Some (first (level sl i A))"
      using pn by (simp add: e1(1) e2(1))
    show "Node_Next sl2 (last (head # level sl i B)) i = Some (Some n)"
      by (simp only: e2(1) p_def last_at_def) simp
    show "Node_Next sl2 y i = Node_Next sl y i" if "y \<noteq> n" "y \<noteq> last (head # level sl i B)" for y
      using that by (simp add: e1(1) e2(1) p_def last_at_def)
  qed
  moreover have "linked sl2 l head ys = linked sl l head ys" if "l \<noteq> i" for l ys
    using that by (intro linked_cong) (simp add: e1(1) e2(1))
  ultimately have link: "linked sl2 l head (if l < Suc i then level sl2 l (B @ n # A) else level sl2 l (B @ A))"
    if "l < kMaxHeight" for l
    using Suc.prems(1) [OF that] Suc.prems(4) by (cases "l = i") (auto simp: lv h)
  have "\<exists>sl'. insert_links sl2 n prev (Suc i) m = Some sl' \<and> Node_key sl' = Node_key sl2 \<and> height sl' = height sl2 \<and>
      length (sl_nodes sl') = length (sl_nodes sl2) \<and> sl_max_height sl' = sl_max_height sl2 \<and>
      (\<forall>l<kMaxHeight. linked sl' l head (level sl2 l (B @ n # A)))"
    using Suc.prems(2-7) h by (intro Suc.IH link) (simp_all add: lv)
  then obtain sl' where "insert_links sl2 n prev (Suc i) m = Some sl'" "Node_key sl' = Node_key sl"
      "height sl' = height sl" "length (sl_nodes sl') = length (sl_nodes sl)" "sl_max_height sl' = sl_max_height sl"
      "\<forall>l<kMaxHeight. linked sl' l head (level sl l (B @ n # A))"
    unfolding lv h e1(4,5) e2(4,5) by blast
  then show ?case
    using Suc.prems(7) [of i] nxt sl1 sl2 unfolding p_def by (intro exI [of _ sl']) simp
qed

section \<open>What the operations do to the keys\<close>

definition sorted_insert :: "('k \<Rightarrow> 'k \<Rightarrow> int) \<Rightarrow> 'k \<Rightarrow> 'k list \<Rightarrow> 'k list" where
  "sorted_insert ord key ks = takeWhile (\<lambda>k. ord k key < 0) ks @ key # dropWhile (\<lambda>k. ord k key < 0) ks"

lemma set_sorted_insert [simp]: "set (sorted_insert ord key ks) = insert key (set ks)"
proof -
  have "set (takeWhile (\<lambda>k. ord k key < 0) ks) \<union> set (dropWhile (\<lambda>k. ord k key < 0) ks) = set ks"
    by (metis set_append takeWhile_dropWhile_id)
  then show ?thesis by (auto simp: sorted_insert_def)
qed

lemma clear_links_run:
  assumes "i + n = height sl head" "\<And>l. l < i \<Longrightarrow> Node_Next sl head l = Some None"
  shows "\<exists>sl'. clear_links sl i n = Some sl' \<and> (\<forall>l<height sl head. Node_Next sl' head l = Some None) \<and>
      height sl' = height sl \<and> length (sl_nodes sl') = length (sl_nodes sl) \<and>
      sl_max_height sl' = sl_max_height sl"
  using assms
proof (induction n arbitrary: sl i)
  case 0
  then show ?case by simp
next
  case (Suc n)
  obtain sl1 where sl1: "Node_SetNext sl head i None = Some sl1"
    using Node_SetNext_defined [of i sl head] Suc.prems(1) by auto
  note e = Node_SetNext_effect [OF sl1]
  have "\<exists>sl'. clear_links sl1 (Suc i) n = Some sl' \<and> (\<forall>l<height sl1 head. Node_Next sl' head l = Some None) \<and>
      height sl' = height sl1 \<and> length (sl_nodes sl') = length (sl_nodes sl1) \<and>
      sl_max_height sl' = sl_max_height sl1"
    using Suc.prems e(3) by (intro Suc.IH) (auto simp: e(1) less_Suc_eq)
  then show ?case
    using sl1 e by auto
qed

lemma SkipList_new_run: "\<exists>sl. SkipList_new = Some sl \<and> skip_holds valid ord sl []"
proof -
  let ?e = "\<lparr>sl_nodes = [], sl_max_height = 1, sl_rnd = Random_new 0xdeadbeef\<rparr> :: 'a SkipList"
  let ?s = "snd (NewNode ?e None kMaxHeight)"
  have h: "height ?s head = kMaxHeight" "length (sl_nodes ?s) = 1" "sl_max_height ?s = 1"
    by (simp_all add: NewNode_def height_def)
  obtain sl where sl: "clear_links ?s 0 kMaxHeight = Some sl" "\<forall>l<kMaxHeight. Node_Next sl head l = Some None"
      "height sl = height ?s" "length (sl_nodes sl) = 1" "sl_max_height sl = 1"
    using clear_links_run [of 0 kMaxHeight ?s] h by auto
  have "skip_inv valid ord sl []"
    using sl h by (auto simp: skip_inv_def kMaxHeight_def)
  then show ?thesis
    using sl(1) by (auto simp: SkipList_new_def Let_def skip_holds_def)
qed

context key_order
begin

lemma sorted_dropWhile:
  assumes "sorted_wrt (\<lambda>a b. ord (f a) (f b) < 0) as" "\<And>a. a \<in> set as \<Longrightarrow> valid (f a)" "valid key"
    and "a \<in> set (dropWhile (\<lambda>a. ord (f a) key < 0) as)"
  shows "\<not> ord (f a) key < 0"
  using assms
proof (induction as)
  case (Cons b bs)
  show ?case
  proof (cases "ord (f b) key < 0")
    case True
    then show ?thesis using Cons by simp
  next
    case False
    have "\<not> ord (f a) key < 0" if "a \<in> set bs"
    proof
      assume "ord (f a) key < 0"
      moreover have "ord (f b) (f a) < 0"
        using Cons.prems(1) that by simp
      ultimately have "ord (f b) key < 0"
        using ord_less_le_trans [of "f b" "f a" key] Cons.prems(2,3) that by auto
      then show False using False by simp
    qed
    then show ?thesis using Cons.prems(4) False by auto
  qed
qed simp

lemma not_less_after:
  assumes "skip_inv valid ord sl as" "valid key" "a \<in> set (dropWhile (node_less sl key) as)"
  shows "\<not> node_less sl key a"
  using skip_invD(8) [OF assms(1)]
  by (intro sorted_dropWhile [OF skip_invD(10) [OF assms(1)] _ assms(2,3)]) force

lemma less_before: "a \<in> set (takeWhile (node_less sl key) as) \<Longrightarrow> node_less sl key a"
  by (auto dest: set_takeWhileD)

lemma split_at:
  assumes "skip_inv valid ord sl as"
  shows "skip_inv valid ord sl (takeWhile (node_less sl key) as @ dropWhile (node_less sl key) as)"
  using assms by simp

lemma FindGreaterOrEqual_split:
  assumes "skip_inv valid ord sl as" "valid key"
  shows "FindGreaterOrEqual cmp sl key prev =
    Some (first (dropWhile (node_less sl key) as),
      map_option (set_prev (last_at sl (takeWhile (node_less sl key) as)) (sl_max_height sl - 1)) prev)"
  by (rule FindGreaterOrEqual_run [OF split_at [OF assms(1)] assms(2)])
    (rule less_before, assumption, rule not_less_after [OF assms])

lemma FindLessThan_split:
  assumes "skip_inv valid ord sl as" "valid key"
  shows "FindLessThan cmp sl key = Some (last (head # takeWhile (node_less sl key) as))"
  by (rule FindLessThan_run [OF split_at [OF assms(1)] assms(2)])
    (rule less_before, assumption, rule not_less_after [OF assms])

lemma FindGreaterOrEqual_found:
  assumes "skip_inv valid ord sl as" "valid key"
  shows "(case first (dropWhile (node_less sl key) as) of
            None \<Rightarrow> Some False
          | Some n \<Rightarrow> do { k \<leftarrow> Node_key sl n; r \<leftarrow> cmp key k; Some (r = 0) }) =
         Some (\<exists>a\<in>set as. ord (the (Node_key sl a)) key = 0)"
proof -
  define A where "A = dropWhile (node_less sl key) as"
  define B where "B = takeWhile (node_less sl key) as"
  have s: "as = B @ A" "A = dropWhile (node_less sl key) as"
    by (simp_all add: A_def B_def)
  have less: "\<And>b. b \<in> set B \<Longrightarrow> node_less sl key b" "\<And>a. a \<in> set A \<Longrightarrow> \<not> node_less sl key a"
    unfolding B_def A_def by (rule less_before, assumption) (rule not_less_after [OF assms])
  have v: "valid (the (Node_key sl a))" "Node_key sl a = Some (the (Node_key sl a))" if "a \<in> set as" for a
    using skip_invD(8) [OF assms(1) that] by auto
  have B: "ord (the (Node_key sl b)) key \<noteq> 0" if "b \<in> set B" for b
    using less(1) [OF that] by simp
  have "(case first A of
            None \<Rightarrow> Some False
          | Some n \<Rightarrow> do { k \<leftarrow> Node_key sl n; r \<leftarrow> cmp key k; Some (r = 0) }) =
         Some (\<exists>a\<in>set as. ord (the (Node_key sl a)) key = 0)" (is ?found)
  proof (cases A)
    case Nil
    then show ?found using s(1) B by auto
  next
    case (Cons a A')
    have a: "a \<in> set as"
      using s(1) Cons by simp
    have "ord (the (Node_key sl c)) key \<noteq> 0" if "c \<in> set A'" for c
    proof
      assume z: "ord (the (Node_key sl c)) key = 0"
      have c: "c \<in> set as" "ord (the (Node_key sl a)) (the (Node_key sl c)) < 0"
        using skip_invD(10) [OF assms(1)] s(1) Cons that by (auto simp: sorted_wrt_append)
      then have "node_less sl key a"
        using z v a assms(2) ord_less_le_trans [of "the (Node_key sl a)" "the (Node_key sl c)" key] by simp
      then show False using less(2) Cons by simp
    qed
    then have "(\<exists>c\<in>set as. ord (the (Node_key sl c)) key = 0) \<longleftrightarrow> ord (the (Node_key sl a)) key = 0"
      using s(1) Cons B by auto
    moreover have "cmp key (the (Node_key sl a)) = Some (ord key (the (Node_key sl a)))"
      using v [OF a] assms(2) by (simp add: cmp_ord)
    ultimately show ?found
      using Cons v [OF a] ord_zero_sym [of key "the (Node_key sl a)"] assms(2)
      by (cases "Node_key sl a") simp_all
  qed
  then show ?thesis
    by (simp only: s(2) [symmetric])
qed

lemma SkipList_Insert_run:
  assumes inv: "skip_inv valid ord sl as" and v: "valid key"
    and new: "\<And>a. a \<in> set as \<Longrightarrow> ord (the (Node_key sl a)) key \<noteq> 0"
    and B_def: "B = takeWhile (node_less sl key) as" and A_def: "A = dropWhile (node_less sl key) as"
  defines "n \<equiv> length (sl_nodes sl)"
  shows "\<exists>sl'. SkipList_Insert cmp sl key = Some sl' \<and> skip_inv valid ord sl' (B @ n # A) \<and>
      Node_key sl' n = Some key \<and> (\<forall>a\<in>set as. Node_key sl' a = Node_key sl a)"
proof -
  have as: "as = B @ A"
    by (simp add: A_def B_def)
  have inv': "skip_inv valid ord sl (B @ A)"
    using inv as by simp
  have B: "\<And>b. b \<in> set B \<Longrightarrow> node_less sl key b" and A: "\<And>a. a \<in> set A \<Longrightarrow> \<not> node_less sl key a"
    unfolding B_def A_def by (rule less_before, assumption) (rule not_less_after [OF inv v])
  obtain h rnd where hr: "RandomHeight (sl_rnd sl) = (h, rnd)"
    by (cases "RandomHeight (sl_rnd sl)")
  have h: "1 \<le> h" "h \<le> kMaxHeight"
    using RandomHeight_bounds [of "sl_rnd sl"] hr by simp_all
  define mh where "mh = sl_max_height sl"
  define prev where "prev = set_prev (last_at sl B) (mh - 1) (replicate kMaxHeight None)"
  define sl2 where "sl2 = (if mh < h then sl\<lparr>sl_rnd := rnd, sl_max_height := h\<rparr> else sl\<lparr>sl_rnd := rnd\<rparr>)"
  define prev' where "prev' = (if mh < h then raise_prev prev mh (h - mh) else prev)"
  define sl3 where "sl3 = snd (NewNode sl2 (Some key) h)"
  have mh: "1 \<le> mh" "mh \<le> kMaxHeight"
    using skip_invD(4,5) [OF inv] by (simp_all add: mh_def)
  have same: "sl_nodes sl2 = sl_nodes sl" "sl_max_height sl2 = max mh h"
    using mh by (simp_all add: sl2_def mh_def)
  have nn: "NewNode sl2 (Some key) h = (n, sl3)"
    by (simp add: sl3_def NewNode_def same n_def)
  have nn_cases: "mh < h \<Longrightarrow> NewNode (sl\<lparr>sl_rnd := rnd, sl_max_height := h\<rparr>) (Some key) h = (n, sl3)"
      "\<not> mh < h \<Longrightarrow> NewNode (sl\<lparr>sl_rnd := rnd\<rparr>) (Some key) h = (n, sl3)"
    using nn by (simp_all add: sl2_def)
  note e = NewNode_effect [OF nn]
  have eh: "height sl3 a = (if a = n then h else height sl a)" and ek: "Node_key sl3 a = (if a = n then Some key else Node_key sl a)" for a
    using e(4,5) [of a] same by (simp_all add: height_def Node_key_def)
  have en: "Node_Next sl3 a l = Node_Next sl a l" if "a < n" for a l
    using e(3) [OF that, of l] same by (simp add: Node_Next_def)
  have dom: "set (head # as) = {..<n}"
    using skip_invD(3) [OF inv] by (simp add: n_def)
  have fresh: "n \<notin> set (head # B @ A)"
    using dom as by auto
  have lvl: "level sl3 l bs = level sl l bs" if "set bs \<subseteq> {..<n}" for l bs
    using that by (intro level_cong) (auto simp: eh)
  have subs: "set B \<subseteq> {..<n}" "set A \<subseteq> {..<n}"
    using dom as by auto
  have step: "SkipList_Insert cmp sl key = insert_links sl3 n prev' 0 h"
    using FindGreaterOrEqual_split [OF inv v, of "Some (replicate kMaxHeight None)"]
      FindGreaterOrEqual_found [OF inv v] new
    by (simp add: SkipList_Insert_def hr Let_def A_def [symmetric] B_def [symmetric] mh_def [symmetric] prev_def
        prev'_def nn_cases)
  have "\<exists>sl'. insert_links sl3 n prev' 0 h = Some sl' \<and> Node_key sl' = Node_key sl3 \<and> height sl' = height sl3 \<and>
      length (sl_nodes sl') = length (sl_nodes sl3) \<and> sl_max_height sl' = sl_max_height sl3 \<and>
      (\<forall>l<kMaxHeight. linked sl' l head (level sl3 l (B @ n # A)))"
  proof (rule insert_links_run)
    fix l
    assume l: "l < kMaxHeight"
    have "linked sl3 l head (level sl l as) = linked sl l head (level sl l as)"
      using dom by (intro linked_cong en) (auto simp: level_def)
    then show "linked sl3 l head (if l < 0 then level sl3 l (B @ n # A) else level sl3 l (B @ A))"
      using skip_invD(9) [OF inv l] lvl [of as l] subs as by simp
  next
    fix l
    assume l: "0 \<le> l" "l < 0 + h"
    have "last_at sl B l = head" if "mh \<le> l"
    proof -
      have "level sl l B = []"
        using skip_invD(7) [OF inv'] that by (force simp: level_def filter_empty_conv mh_def)
      then show ?thesis by (simp add: last_at_def)
    qed
    moreover have "last_at sl3 B l = last_at sl B l"
      using lvl [OF subs(1)] by (simp add: last_at_def)
    ultimately show "l < length prev' \<and> prev' ! l = Some (last_at sl3 B l)"
      using l h mh by (auto simp: prev'_def prev_def nth_raise_prev nth_set_prev)
  next
    show "height sl3 n = 0 + h" "height sl3 head = kMaxHeight"
      using eh [of n] eh [of head] fresh skip_invD(1) [OF inv'] by simp_all
    show "0 + h \<le> kMaxHeight"
      using h by simp
  qed (rule skip_invD(2) [OF inv'], rule fresh)
  then obtain sl' where sl': "insert_links sl3 n prev' 0 h = Some sl'" "Node_key sl' = Node_key sl3"
      "height sl' = height sl3" "length (sl_nodes sl') = Suc n" "sl_max_height sl' = max mh h"
      "\<And>l. l < kMaxHeight \<Longrightarrow> linked sl' l head (level sl3 l (B @ n # A))"
    using e(2,6) same by auto
  have keys: "Node_key sl' a = (if a = n then Some key else Node_key sl a)" for a
    using sl'(2) ek by simp
  have "skip_inv valid ord sl' (B @ n # A)"
    unfolding skip_inv_def
  proof (intro conjI allI impI ballI)
    show "set (head # B @ n # A) = {..<length (sl_nodes sl')}"
    proof -
      have "set (head # B @ n # A) = insert n (set (head # as))"
        using as by auto
      then show ?thesis
        by (simp only: dom sl'(4) lessThan_Suc)
    qed
    show "1 \<le> height sl' a" "height sl' a \<le> sl_max_height sl'" "\<exists>k. Node_key sl' a = Some k \<and> valid k"
      if "a \<in> set (B @ n # A)" for a
      using that skip_invD(6,7,8) [OF inv', of a] fresh h v by (auto simp: sl'(3,5) eh keys mh_def)
    show "linked sl' l head (level sl' l (B @ n # A))" if "l < kMaxHeight" for l
      using sl'(6) [OF that] sl'(3) by (simp add: level_def)
    have "ord key (the (Node_key sl a)) < 0" if "a \<in> set A" for a
      using A [OF that] new [of a] that as v ord_swap [of key "the (Node_key sl a)"] skip_invD(8) [OF inv, of a] by fastforce
    then show "sorted_wrt (\<lambda>a b. ord (the (Node_key sl' a)) (the (Node_key sl' b)) < 0) (B @ n # A)"
      using skip_invD(10) [OF inv'] B fresh
      by (auto simp: sorted_wrt_append keys intro: sorted_wrt_mono_rel [rotated])
    show "height sl' head = kMaxHeight"
      using sl'(3) eh [of head] fresh skip_invD(1) [OF inv'] by simp
    show "distinct (head # B @ n # A)"
      using skip_invD(2) [OF inv'] fresh by auto
    show "1 \<le> sl_max_height sl'" "sl_max_height sl' \<le> kMaxHeight"
      using sl'(5) h mh by simp_all
  qed
  then show ?thesis
    using step sl'(1) keys fresh as by auto
qed

text \<open>The same, for the sorted keys a list holds.\<close>

lemma skip_holds_keys:
  assumes "skip_inv valid ord sl as" "map (Node_key sl) as = map Some ks"
  shows "ks = map (\<lambda>a. the (Node_key sl a)) as" "\<And>k. k \<in> set ks \<Longrightarrow> valid k"
    "sorted_wrt (\<lambda>a b. ord a b < 0) ks"
proof -
  show ks: "ks = map (\<lambda>a. the (Node_key sl a)) as"
    using arg_cong [OF assms(2), of "map the"] by (simp add: comp_def)
  show "valid k" if "k \<in> set ks" for k
    using that skip_invD(8) [OF assms(1)] by (force simp: ks)
  show "sorted_wrt (\<lambda>a b. ord a b < 0) ks"
    unfolding ks sorted_wrt_map by (rule skip_invD(10) [OF assms(1)])
qed

lemma skip_holds_sorted:
  assumes "skip_holds valid ord sl ks"
  shows "sorted_wrt (\<lambda>a b. ord a b < 0) ks" "\<And>k. k \<in> set ks \<Longrightarrow> valid k"
  using assms skip_holds_keys by (auto simp: skip_holds_def)

lemma Insert_holds:
  assumes "skip_holds valid ord sl ks" "valid key" "\<And>k. k \<in> set ks \<Longrightarrow> ord k key \<noteq> 0"
  shows "\<exists>sl'. SkipList_Insert cmp sl key = Some sl' \<and> skip_holds valid ord sl' (sorted_insert ord key ks)"
proof -
  obtain as where as: "skip_inv valid ord sl as" "map (Node_key sl) as = map Some ks"
    using assms(1) by (auto simp: skip_holds_def)
  note ks = skip_holds_keys(1) [OF as]
  define B where "B = takeWhile (node_less sl key) as"
  define A where "A = dropWhile (node_less sl key) as"
  define n where "n = length (sl_nodes sl)"
  have "ord (the (Node_key sl a)) key \<noteq> 0" if "a \<in> set as" for a
    using assms(3) that by (simp add: ks)
  then obtain sl' where sl': "SkipList_Insert cmp sl key = Some sl'" "skip_inv valid ord sl' (B @ n # A)"
      "Node_key sl' n = Some key" "\<forall>a\<in>set as. Node_key sl' a = Node_key sl a"
    using SkipList_Insert_run [OF as(1) assms(2) _ B_def A_def] unfolding n_def by blast
  have "takeWhile (\<lambda>k. ord k key < 0) ks = map (\<lambda>a. the (Node_key sl a)) B"
    "dropWhile (\<lambda>k. ord k key < 0) ks = map (\<lambda>a. the (Node_key sl a)) A"
    by (simp_all add: ks B_def A_def takeWhile_map dropWhile_map comp_def)
  moreover have "Node_key sl' a = Some (the (Node_key sl a))" if "a \<in> set B \<union> set A" for a
  proof -
    have "a \<in> set as"
      using that by (auto simp: B_def A_def dest: set_takeWhileD set_dropWhileD)
    then show ?thesis
      using sl'(4) skip_invD(8) [OF as(1), of a] by auto
  qed
  ultimately have "map (Node_key sl') (B @ n # A) = map Some (sorted_insert ord key ks)"
    using sl'(3) by (simp add: sorted_insert_def)
  then show ?thesis
    using sl'(1,2) by (auto simp: skip_holds_def)
qed

lemma Insert_duplicate:
  assumes "skip_holds valid ord sl ks" "valid key" "k \<in> set ks" "ord k key = 0"
  shows "SkipList_Insert cmp sl key = None"
proof -
  obtain as where as: "skip_inv valid ord sl as" "map (Node_key sl) as = map Some ks"
    using assms(1) by (auto simp: skip_holds_def)
  have "\<exists>a\<in>set as. ord (the (Node_key sl a)) key = 0"
    using assms(3,4) by (auto simp: skip_holds_keys(1) [OF as])
  then show ?thesis
    using FindGreaterOrEqual_found [OF as(1) assms(2)]
    by (simp add: SkipList_Insert_def FindGreaterOrEqual_split [OF as(1) assms(2)])
qed

lemma Contains_holds:
  assumes "skip_holds valid ord sl ks" "valid key"
  shows "Contains cmp sl key = Some (\<exists>k\<in>set ks. ord k key = 0)"
proof -
  obtain as where as: "skip_inv valid ord sl as" "map (Node_key sl) as = map Some ks"
    using assms(1) by (auto simp: skip_holds_def)
  show ?thesis
    using FindGreaterOrEqual_found [OF as(1) assms(2)]
    by (simp add: Contains_def FindGreaterOrEqual_split [OF as(1) assms(2)] skip_holds_keys(1) [OF as])
qed

end

section \<open>Iterators over the keys\<close>

text \<open>The iterator stands at key number \<open>i\<close>; behind the last key it is not valid.\<close>

definition skip_pos :: "('k \<Rightarrow> bool) \<Rightarrow> ('k \<Rightarrow> 'k \<Rightarrow> int) \<Rightarrow> 'k SkipList \<Rightarrow> 'k list \<Rightarrow> nat \<Rightarrow> nat option \<Rightarrow> bool" where
  "skip_pos valid ord sl ks i it \<longleftrightarrow>
     (\<exists>as. skip_inv valid ord sl as \<and> map (Node_key sl) as = map Some ks \<and> i \<le> length ks \<and>
        it = (if i < length ks then Some (as ! i) else None))"

lemma linked_unique: "linked sl l x ys \<Longrightarrow> linked sl l x zs \<Longrightarrow> ys = zs"
proof (induction ys arbitrary: x zs)
  case Nil
  then show ?case by (cases zs) simp_all
next
  case (Cons y ys)
  then show ?case by (cases zs) auto
qed

lemma skip_inv_unique: "skip_inv valid ord sl as \<Longrightarrow> skip_inv valid ord sl bs \<Longrightarrow> as = bs"
  using skip_invD(9) [of valid ord sl as 0] skip_invD(9) [of valid ord sl bs 0]
    level_0 [of valid ord sl as as] level_0 [of valid ord sl bs bs] linked_unique [of sl 0 head as bs]
  by (simp add: kMaxHeight_def)

lemma skip_posE:
  assumes "skip_pos valid ord sl ks i it"
  obtains as where "skip_inv valid ord sl as" "map (Node_key sl) as = map Some ks" "length as = length ks"
    "i \<le> length ks" "it = (if i < length ks then Some (as ! i) else None)"
  using assms unfolding skip_pos_def by (metis map_eq_imp_length_eq)

lemma key_nth: "map (Node_key sl) as = map Some ks \<Longrightarrow> i < length ks \<Longrightarrow> Node_key sl (as ! i) = Some (ks ! i)"
  by (metis length_map nth_map)

lemma skip_pos_key:
  assumes "skip_pos valid ord sl ks i it"
  shows "it \<noteq> None \<longleftrightarrow> i < length ks" "i < length ks \<Longrightarrow> Iterator_key sl it = Some (ks ! i)"
proof -
  obtain as where as: "map (Node_key sl) as = map Some ks" "length as = length ks"
      "it = (if i < length ks then Some (as ! i) else None)"
    using assms by (rule skip_posE)
  then show "it \<noteq> None \<longleftrightarrow> i < length ks"
    by simp
  show "Iterator_key sl it = Some (ks ! i)" if "i < length ks"
    using key_nth [OF as(1) that] as(3) that by (simp add: Iterator_key_def)
qed

lemma linked_nth:
  "linked sl l x as \<Longrightarrow> i < length as \<Longrightarrow>
   Node_Next sl (as ! i) l = Some (if Suc i < length as then Some (as ! Suc i) else None)"
proof (induction as arbitrary: x i)
  case (Cons a as)
  show ?case
  proof (cases i)
    case 0
    then show ?thesis using Cons.prems by (cases as) simp_all
  next
    case (Suc j)
    then show ?thesis using Cons.IH [of a j] Cons.prems by simp
  qed
qed simp

lemma Iterator_Next_pos:
  assumes "skip_pos valid ord sl ks i it" "i < length ks"
  shows "\<exists>it'. Iterator_Next sl it = Some it' \<and> skip_pos valid ord sl ks (Suc i) it'"
proof -
  obtain as where as: "skip_inv valid ord sl as" "map (Node_key sl) as = map Some ks" "length as = length ks"
      "it = (if i < length ks then Some (as ! i) else None)"
    using assms(1) by (rule skip_posE)
  have "linked sl 0 head as"
    using skip_invD(9) [OF as(1), of 0] level_0 [OF as(1), of as] by (simp add: kMaxHeight_def)
  then show ?thesis
    using linked_nth [of sl 0 head as i] as assms(2) by (auto simp: Iterator_Next_def skip_pos_def)
qed

lemma Iterator_SeekToFirst_pos:
  assumes "skip_holds valid ord sl ks"
  shows "\<exists>it. Iterator_SeekToFirst sl = Some it \<and> skip_pos valid ord sl ks 0 it"
proof -
  obtain as where as: "skip_inv valid ord sl as" "map (Node_key sl) as = map Some ks"
    using assms by (auto simp: skip_holds_def)
  have "linked sl 0 head as"
    using skip_invD(9) [OF as(1), of 0] level_0 [OF as(1), of as] by (simp add: kMaxHeight_def)
  then have "Iterator_SeekToFirst sl = Some (first as)"
    by (simp add: Iterator_SeekToFirst_def linked_first)
  then show ?thesis
    using as map_eq_imp_length_eq [OF as(2)] by (cases as) (auto simp: skip_pos_def)
qed

lemma Iterator_SeekToLast_pos:
  assumes "skip_holds valid ord sl ks"
  shows "\<exists>it. Iterator_SeekToLast sl = Some it \<and> skip_pos valid ord sl ks (length ks - 1) it"
proof -
  obtain as where as: "skip_inv valid ord sl as" "map (Node_key sl) as = map Some ks"
    using assms by (auto simp: skip_holds_def)
  have len: "length as = length ks"
    using map_eq_imp_length_eq [OF as(2)] .
  have "head \<notin> set as"
    using skip_invD(2) [OF as(1)] by simp
  then have "as \<noteq> [] \<Longrightarrow> last as \<noteq> head"
    using last_in_set by metis
  then have "Iterator_SeekToLast sl = Some (if as = [] then None else Some (last as))"
    by (cases "as = []") (simp_all add: Iterator_SeekToLast_def FindLast_run [OF as(1)])
  then show ?thesis
    using as len by (cases ks) (auto simp: skip_pos_def last_conv_nth)
qed

context key_order
begin

lemma Iterator_Seek_pos:
  assumes "skip_holds valid ord sl ks" "valid target"
  shows "\<exists>it. Iterator_Seek cmp sl target = Some it \<and>
      skip_pos valid ord sl ks (length (takeWhile (\<lambda>k. ord k target < 0) ks)) it"
proof -
  obtain as where as: "skip_inv valid ord sl as" "map (Node_key sl) as = map Some ks"
    using assms(1) by (auto simp: skip_holds_def)
  have len: "length as = length ks"
    using map_eq_imp_length_eq [OF as(2)] .
  let ?B = "takeWhile (node_less sl target) as"
  let ?A = "dropWhile (node_less sl target) as"
  have n: "length (takeWhile (\<lambda>k. ord k target < 0) ks) = length ?B"
    by (simp add: skip_holds_keys(1) [OF as] takeWhile_map comp_def)
  have "first ?A = (if length ?B < length as then Some (as ! length ?B) else None)"
    by (cases ?A) (metis append_Nil2 less_irrefl first_simps(1) takeWhile_dropWhile_id,
      metis first_simps(2) length_append less_add_same_cancel1 length_greater_0_conv list.distinct(1)
        nth_append_length takeWhile_dropWhile_id)
  moreover have "length ?B \<le> length as"
    by (rule length_takeWhile_le)
  ultimately have "skip_pos valid ord sl ks (length ?B) (first ?A)"
    using as len by (auto simp: skip_pos_def)
  then show ?thesis
    by (simp add: Iterator_Seek_def FindGreaterOrEqual_split [OF as(1) assms(2)] n)
qed

lemma takeWhile_less_nth:
  assumes "sorted_wrt (\<lambda>a b. ord a b < 0) ks" "\<And>k. k \<in> set ks \<Longrightarrow> valid k" "i < length ks"
  shows "takeWhile (\<lambda>k. ord k (ks ! i) < 0) ks = take i ks"
proof (rule takeWhile_eq_take_P_nth)
  show "ord (ks ! j) (ks ! i) < 0" if "j < i" "j < length ks" for j
    using assms(1,3) that by (simp add: sorted_wrt_iff_nth_less)
  show "\<not> ord (ks ! i) (ks ! i) < 0" if "i < length ks"
    using ord_refl [of "ks ! i"] assms(2) that by simp
qed

lemma Iterator_Prev_pos:
  assumes "skip_pos valid ord sl ks i it" "i < length ks"
  shows "\<exists>it'. Iterator_Prev cmp sl it = Some it' \<and>
      skip_pos valid ord sl ks (if i = 0 then length ks else i - 1) it'"
proof -
  obtain as where as: "skip_inv valid ord sl as" "map (Node_key sl) as = map Some ks" "length as = length ks"
      "it = (if i < length ks then Some (as ! i) else None)"
    using assms(1) by (rule skip_posE)
  note ks = skip_holds_keys [OF as(1,2)]
  have key: "Node_key sl (as ! i) = Some (ks ! i)"
    using key_nth [OF as(2) assms(2)] .
  have "map (\<lambda>a. the (Node_key sl a)) (takeWhile (node_less sl (ks ! i)) as) = take i ks"
    using takeWhile_less_nth [OF ks(3,2) assms(2)] by (simp add: ks(1) [symmetric] takeWhile_map comp_def)
      (simp add: ks(1) takeWhile_map comp_def)
  then have "length (takeWhile (node_less sl (ks ! i)) as) = i"
    using assms(2) by (metis length_map length_take min.absorb4)
  then have B: "takeWhile (node_less sl (ks ! i)) as = take i as"
    by (metis takeWhile_eq_take)
  have "FindLessThan cmp sl (ks ! i) = Some (last (head # take i as))"
    using FindLessThan_split [OF as(1) ks(2) [of "ks ! i"]] B assms(2) by simp
  moreover have "last (head # take i as) = (if i = 0 then head else as ! (i - 1))"
    using as(3) assms(2) by (cases i) (simp_all add: take_Suc_conv_app_nth)
  moreover have "as ! (i - 1) \<noteq> head"
    using skip_invD(2) [OF as(1)] as(3) assms(2) by (metis distinct.simps(2) less_imp_diff_less nth_mem)
  ultimately show ?thesis
    using as key assms(2) by (auto simp: Iterator_Prev_def skip_pos_def)
qed

end

end
