(* ===== verification/Mem_Table.thy ===== *)
theory Mem_Table
  imports Skip_List
begin

unbundle bit_operations_syntax

text \<open>
  \<open>lib/leveldb/db/memtable.cc\<close> and the \<open>MemTableInserter\<close> of \<open>db/write_batch.cc\<close>: the in-memory
  table of a database, a skip list of byte strings that hold a length-prefixed internal key and a
  length-prefixed value.  The list's key, a \<open>const char*\<close> into the arena, is the bytes of the entry;
  an access behind them is \<open>None\<close>.

  The results: the entries are ordered by the internal comparator (\<open>mem\<close> is a \<open>key_order\<close>), a lookup
  finds the newest entry of its user key that its sequence number may see, and replaying a write
  batch makes every prefix of it readable at its own sequence number.
\<close>

record MemTable =
  mem_comparator :: Comparator
  mem_refs :: nat
  mem_table :: "bytes SkipList"

text \<open>\<open>GetVarint32Ptr(p, p + 5, &v)\<close>: the number and the bytes from the pointer it returns.\<close>

definition Varint32_at :: "bytes \<Rightarrow> (u32 \<times> bytes) option" where
  "Varint32_at p = do {
     (v, q) \<leftarrow> GetVarint32Ptr (take 5 p);
     Some (v, drop (length (take 5 p) - length q) p)
   }"

text \<open>The slice, and the bytes behind it.\<close>

definition LengthPrefixedSlice :: "bytes \<Rightarrow> (bytes \<times> bytes) option" where
  "LengthPrefixedSlice data = do {
     (len, p) \<leftarrow> Varint32_at data;
     if unat len \<le> length p then Some (take (unat len) p, drop (unat len) p) else None
   }"

definition KeyComparator :: "Comparator \<Rightarrow> bytes \<Rightarrow> bytes \<Rightarrow> int option" where
  "KeyComparator c aptr bptr = do {
     (a, _) \<leftarrow> LengthPrefixedSlice aptr;
     (b, _) \<leftarrow> LengthPrefixedSlice bptr;
     InternalKeyComparator_Compare c a b
   }"

definition EncodeKey :: "bytes \<Rightarrow> bytes" where
  "EncodeKey target = PutVarint32 [] (of_nat (length target)) @ target"

definition MemTable_new :: "Comparator \<Rightarrow> MemTable option" where
  "MemTable_new c = do {
     table \<leftarrow> SkipList_new;
     Some \<lparr>mem_comparator = c, mem_refs = 0, mem_table = table\<rparr>
   }"

definition MemTable_Ref :: "MemTable \<Rightarrow> MemTable" where
  "MemTable_Ref m = m\<lparr>mem_refs := mem_refs m + 1\<rparr>"

text \<open>\<open>Unref\<close> deletes the table with the last reference: \<open>Inl\<close>.\<close>

definition MemTable_Unref :: "MemTable \<Rightarrow> (unit + MemTable) option" where
  "MemTable_Unref m =
     (if mem_refs m = 0 then None
      else let m' = m\<lparr>mem_refs := mem_refs m - 1\<rparr> in
        if mem_refs m' \<le> 0 then Some (Inl ()) else Some (Inr m'))"

definition MemTable_Add :: "u64 \<Rightarrow> byte \<Rightarrow> bytes \<Rightarrow> bytes \<Rightarrow> MemTable \<Rightarrow> MemTable option" where
  "MemTable_Add s type key value m = do {
     let key_size = length key;
     let val_size = length value;
     let internal_key_size = key_size + 8;
     let encoded_len = VarintLength (of_nat internal_key_size) + internal_key_size +
                       VarintLength (of_nat val_size) + val_size;
     let buf = EncodeVarint32 (of_nat internal_key_size) @ key @ EncodeFixed64 (push_bit 8 s OR ucast type) @
               EncodeVarint32 (of_nat val_size) @ value;
     if length buf = encoded_len then do {
       table \<leftarrow> SkipList_Insert (KeyComparator (mem_comparator m)) (mem_table m) buf;
       Some (m\<lparr>mem_table := table\<rparr>)
     } else None
   }"

text \<open>The result is the returned flag with the two output parameters.\<close>

definition MemTable_Get :: "MemTable \<Rightarrow> LookupKey \<Rightarrow> bytes \<Rightarrow> Status \<Rightarrow> (bool \<times> bytes \<times> Status) option" where
  "MemTable_Get m key value s = do {
     let memkey = memtable_key key;
     it \<leftarrow> Iterator_Seek (KeyComparator (mem_comparator m)) (mem_table m) memkey;
     if it \<noteq> None then do {
       entry \<leftarrow> Iterator_key (mem_table m) it;
       (key_length, key_ptr) \<leftarrow> Varint32_at entry;
       let n = unat (key_length - 8);
       if n + 8 \<le> length key_ptr then do {
         r \<leftarrow> cmp_Compare (mem_comparator m) (take n key_ptr) (lookup_user_key key);
         if r = 0 then
           let tag = DecodeFixed64 (drop n key_ptr);
               t = ucast (tag AND 255) :: byte
           in if t = kTypeValue then do {
                (v, _) \<leftarrow> LengthPrefixedSlice (drop (unat key_length) key_ptr);
                Some (True, v, s)
              }
              else if t = kTypeDeletion then Some (True, value, Status_NotFound [])
              else Some (False, value, s)
         else Some (False, value, s)
       } else None
     } else Some (False, value, s)
   }"

section \<open>Iterating\<close>

definition MemTableIterator_Seek :: "MemTable \<Rightarrow> bytes \<Rightarrow> nat option option" where
  "MemTableIterator_Seek m k = Iterator_Seek (KeyComparator (mem_comparator m)) (mem_table m) (EncodeKey k)"

definition MemTableIterator_SeekToFirst :: "MemTable \<Rightarrow> nat option option" where
  "MemTableIterator_SeekToFirst m = Iterator_SeekToFirst (mem_table m)"

definition MemTableIterator_SeekToLast :: "MemTable \<Rightarrow> nat option option" where
  "MemTableIterator_SeekToLast m = Iterator_SeekToLast (mem_table m)"

definition MemTableIterator_Next :: "MemTable \<Rightarrow> nat option \<Rightarrow> nat option option" where
  "MemTableIterator_Next m it = Iterator_Next (mem_table m) it"

definition MemTableIterator_Prev :: "MemTable \<Rightarrow> nat option \<Rightarrow> nat option option" where
  "MemTableIterator_Prev m it = Iterator_Prev (KeyComparator (mem_comparator m)) (mem_table m) it"

definition MemTableIterator_key :: "MemTable \<Rightarrow> nat option \<Rightarrow> bytes option" where
  "MemTableIterator_key m it = do {
     p \<leftarrow> Iterator_key (mem_table m) it;
     (key_slice, _) \<leftarrow> LengthPrefixedSlice p;
     Some key_slice
   }"

definition MemTableIterator_value :: "MemTable \<Rightarrow> nat option \<Rightarrow> bytes option" where
  "MemTableIterator_value m it = do {
     p \<leftarrow> Iterator_key (mem_table m) it;
     (key_slice, q) \<leftarrow> LengthPrefixedSlice p;
     (v, _) \<leftarrow> LengthPrefixedSlice q;
     Some v
   }"

section \<open>Replaying a batch\<close>

type_synonym inserter = "(u64 \<times> MemTable) option"

definition Inserter_Put :: "bytes \<Rightarrow> bytes \<Rightarrow> inserter \<Rightarrow> inserter" where
  "Inserter_Put key value ins = do {
     (sequence, mem) \<leftarrow> ins;
     mem' \<leftarrow> MemTable_Add sequence kTypeValue key value mem;
     Some (sequence + 1, mem')
   }"

definition Inserter_Delete :: "bytes \<Rightarrow> inserter \<Rightarrow> inserter" where
  "Inserter_Delete key ins = do {
     (sequence, mem) \<leftarrow> ins;
     mem' \<leftarrow> MemTable_Add sequence kTypeDeletion key [] mem;
     Some (sequence + 1, mem')
   }"

definition MemTableInserter :: "inserter Handler" where
  "MemTableInserter = \<lparr>handler_Put = Inserter_Put, handler_Delete = Inserter_Delete\<rparr>"

definition InsertInto :: "WriteBatch \<Rightarrow> MemTable \<Rightarrow> (Status \<times> MemTable) option" where
  "InsertInto b memtable =
     (case Iterate MemTableInserter b (Some (Sequence b, memtable)) of
        (s, Some (_, mem)) \<Rightarrow> Some (s, mem)
      | (_, None) \<Rightarrow> None)"

section \<open>Entries\<close>

record Entry =
  e_seq :: u64
  e_type :: byte
  e_key :: bytes
  e_value :: bytes

definition entry_ikey :: "Entry \<Rightarrow> bytes" where
  "entry_ikey e = e_key e @ EncodeFixed64 (push_bit 8 (e_seq e) OR ucast (e_type e))"

definition entry_bytes :: "Entry \<Rightarrow> bytes" where
  "entry_bytes e = EncodeVarint32 (of_nat (length (entry_ikey e))) @ entry_ikey e @
     EncodeVarint32 (of_nat (length (e_value e))) @ e_value e"

definition good_entry :: "(bytes \<Rightarrow> bool) \<Rightarrow> Entry \<Rightarrow> bool" where
  "good_entry valid e \<longleftrightarrow> e_seq e \<le> kMaxSequenceNumber \<and> e_type e \<le> kTypeValue \<and> valid (e_key e) \<and>
     length (e_key e) + 8 < 2 ^ 32 \<and> length (e_value e) < 2 ^ 32"

definition mem_valid :: "(bytes \<Rightarrow> bool) \<Rightarrow> bytes \<Rightarrow> bool" where
  "mem_valid valid p \<longleftrightarrow>
     (case LengthPrefixedSlice p of None \<Rightarrow> False | Some (k, _) \<Rightarrow> internal_valid valid k)"

definition mem_order :: "(bytes \<Rightarrow> bytes \<Rightarrow> int) \<Rightarrow> bytes \<Rightarrow> bytes \<Rightarrow> int" where
  "mem_order ord p q = internal_order ord (fst (the (LengthPrefixedSlice p))) (fst (the (LengthPrefixedSlice q)))"

lemma Varint32_at_Encode [simp]: "Varint32_at (EncodeVarint32 v @ r) = Some (v, r)"
proof -
  have t: "take 5 (EncodeVarint32 v @ r) = EncodeVarint32 v @ take (5 - length (EncodeVarint32 v)) r"
    using length_EncodeVarint32 [of v] by simp
  have "GetVarint32Ptr (EncodeVarint32 v @ q) = Some (v, q)" for q
    using GetVarint32_EncodeVarint32 [of v q] by (auto simp: GetVarint32_def split: option.splits)
  then show ?thesis
    unfolding Varint32_at_def t by simp
qed

lemma LengthPrefixedSlice_Encode:
  "length k < 2 ^ 32 \<Longrightarrow> LengthPrefixedSlice (EncodeVarint32 (of_nat (length k)) @ k @ rest) = Some (k, rest)"
  by (simp add: LengthPrefixedSlice_def unat_of_nat)

lemma length_entry_ikey: "length (entry_ikey e) = length (e_key e) + 8"
  by (simp add: entry_ikey_def)

lemma entry_slice:
  "good_entry valid e \<Longrightarrow>
   LengthPrefixedSlice (entry_bytes e) =
     Some (entry_ikey e, EncodeVarint32 (of_nat (length (e_value e))) @ e_value e)"
  unfolding entry_bytes_def
  by (rule LengthPrefixedSlice_Encode) (simp add: length_entry_ikey good_entry_def)

lemma internal_valid_ikey [simp]: "internal_valid valid (entry_ikey e) \<longleftrightarrow> valid (e_key e)"
  by (simp add: entry_ikey_def)

lemma mem_valid_entry: "good_entry valid e \<Longrightarrow> mem_valid valid (entry_bytes e)"
  by (simp add: mem_valid_def entry_slice good_entry_def)

lemma entry_parts [simp]:
  "ukey (entry_ikey e) = e_key e"
  "tag (entry_ikey e) = push_bit 8 (e_seq e) OR ucast (e_type e)"
  by (simp_all add: entry_ikey_def)

lemma tag_less:
  assumes "good_entry valid e" "good_entry valid f"
  shows "(tag (entry_ikey e) < tag (entry_ikey f)) \<longleftrightarrow>
      e_seq e < e_seq f \<or> e_seq e = e_seq f \<and> e_type e < e_type f"
proof -
  have "unat (e_type e) \<le> 1" "unat (e_type f) \<le> 1"
    using assms by (simp_all add: good_entry_def kTypeValue_def word_le_nat_alt)
  then show ?thesis
    using assms pack_number [of "e_seq e" "e_type e"] pack_number [of "e_seq f" "e_type f"]
    by (auto simp: good_entry_def word_less_nat_alt word_unat_eq_iff)
qed

lemma mem_order_entries:
  "good_entry valid e \<Longrightarrow> good_entry valid f \<Longrightarrow>
   mem_order ord (entry_bytes e) (entry_bytes f) = internal_order ord (entry_ikey e) (entry_ikey f)"
  by (simp add: mem_order_def entry_slice)

lemma length_varint:
  assumes "n < 2 ^ 32"
  shows "length (EncodeVarint32 (of_nat n)) = VarintLength (of_nat n)"
proof -
  have "(ucast (of_nat n :: u32) :: u64) = of_nat n"
    using assms by (simp add: word_unat_eq_iff unat_ucast_up unat_of_nat)
  then show ?thesis
    by (simp add: EncodeVarint32_64 length_EncodeVarint64_VarintLength)
qed

lemma MemTable_Add_entry:
  assumes "good_entry valid e"
  shows "MemTable_Add (e_seq e) (e_type e) (e_key e) (e_value e) m = do {
     table \<leftarrow> SkipList_Insert (KeyComparator (mem_comparator m)) (mem_table m) (entry_bytes e);
     Some (m\<lparr>mem_table := table\<rparr>)
   }"
  using assms length_varint [of "length (e_key e) + 8"] length_varint [of "length (e_value e)"]
  by (simp add: MemTable_Add_def Let_def entry_bytes_def length_entry_ikey good_entry_def)
    (simp add: entry_ikey_def)

section \<open>What a table holds\<close>

definition mem_rep :: "(bytes \<Rightarrow> bool) \<Rightarrow> (bytes \<Rightarrow> bytes \<Rightarrow> int) \<Rightarrow> MemTable \<Rightarrow> Entry set \<Rightarrow> bool" where
  "mem_rep valid ord m E \<longleftrightarrow> (\<forall>e\<in>E. good_entry valid e) \<and>
     (\<exists>es. set es = E \<and> skip_holds (mem_valid valid) (mem_order ord) (mem_table m) (map entry_bytes es))"

lemma MemTable_new_rep: "\<exists>m. MemTable_new c = Some m \<and> mem_comparator m = c \<and> mem_rep valid ord m {}"
proof -
  obtain sl :: "bytes SkipList" where sl: "SkipList_new = Some sl" "skip_holds (mem_valid valid) (mem_order ord) sl []"
    using SkipList_new_run by blast
  then have "MemTable_new c = Some \<lparr>mem_comparator = c, mem_refs = 0, mem_table = sl\<rparr>"
    unfolding MemTable_new_def sl(1) by simp
  then show ?thesis
    using sl(2) by (simp add: mem_rep_def)
qed

text \<open>The entries a lookup of \<open>k\<close> at sequence number \<open>s\<close> may see.\<close>

definition visible :: "(bytes \<Rightarrow> bytes \<Rightarrow> int) \<Rightarrow> Entry set \<Rightarrow> bytes \<Rightarrow> u64 \<Rightarrow> Entry set" where
  "visible ord E k s = {e \<in> E. ord (e_key e) k = 0 \<and> e_seq e \<le> s}"

text \<open>What a lookup that finds the entry reports.\<close>

definition entry_result :: "Entry \<Rightarrow> bytes \<Rightarrow> Status \<Rightarrow> bool \<times> bytes \<times> Status" where
  "entry_result e value s =
     (if e_type e = kTypeValue then (True, e_value e, s) else (True, value, Status_NotFound []))"

lemma LookupKey_new_entry:
  assumes "s \<le> kMaxSequenceNumber"
  obtains lk where "LookupKey_new k s = Some lk" "lookup_user_key lk = k"
    "memtable_key lk = EncodeVarint32 (of_nat (length k + 8)) @ k @ EncodeFixed64 (push_bit 8 s OR 1)"
proof -
  have "PackSequenceAndType s kValueTypeForSeek = Some (push_bit 8 s OR 1)"
    using assms by (simp add: PackSequenceAndType_def kValueTypeForSeek_def kTypeValue_def)
  then show ?thesis
    by (intro that [of "\<lparr>lk_buf = EncodeVarint32 (of_nat (length k + 8)) @ k @ EncodeFixed64 (push_bit 8 s OR 1),
        lk_kstart = length (EncodeVarint32 (of_nat (length k + 8)))\<rparr>"])
      (simp_all add: LookupKey_new_def Let_def lookup_user_key_def memtable_key_def)
qed

text \<open>A lookup key compares like an entry of the highest type.\<close>

definition seek_entry :: "bytes \<Rightarrow> u64 \<Rightarrow> Entry" where
  "seek_entry k s = \<lparr>e_seq = s, e_type = kTypeValue, e_key = k, e_value = []\<rparr>"

lemma seek_key_slice:
  assumes "length k + 8 < 2 ^ 32"
  shows "LengthPrefixedSlice (EncodeVarint32 (of_nat (length k + 8)) @ k @ EncodeFixed64 (push_bit 8 s OR 1)) =
    Some (entry_ikey (seek_entry k s), [])"
  using LengthPrefixedSlice_Encode [of "entry_ikey (seek_entry k s)" "[]"] assms
  by (simp add: length_entry_ikey) (simp add: entry_ikey_def seek_entry_def kTypeValue_def)

lemma good_seek_entry:
  "s \<le> kMaxSequenceNumber \<Longrightarrow> valid k \<Longrightarrow> length k + 8 < 2 ^ 32 \<Longrightarrow> good_entry valid (seek_entry k s)"
  by (simp add: good_entry_def seek_entry_def)

text \<open>Reading the entry the iterator stands on.\<close>

lemma read_entry:
  assumes good: "good_entry valid e" and it: "Iterator_Seek (KeyComparator (mem_comparator m)) (mem_table m) (memtable_key lk) = Some it"
    and "it \<noteq> None" "Iterator_key (mem_table m) it = Some (entry_bytes e)"
    and c: "cmp_Compare (mem_comparator m) (e_key e) (lookup_user_key lk) = Some r"
  shows "MemTable_Get m lk value s = Some (if r = 0 then entry_result e value s else (False, value, s))"
proof -
  let ?n = "length (e_key e)"
  let ?rest = "EncodeVarint32 (of_nat (length (e_value e))) @ e_value e"
  let ?l = "EncodeVarint32 (of_nat (?n + 8))"
  have b: "entry_bytes e = ?l @ entry_ikey e @ ?rest"
    by (simp add: entry_bytes_def length_entry_ikey)
  have n: "?n + 8 < 2 ^ 32" "length (e_value e) < 2 ^ 32"
    using good by (simp_all add: good_entry_def)
  have g: "Varint32_at (entry_bytes e) = Some (of_nat (?n + 8), entry_ikey e @ ?rest)"
    unfolding b by (rule Varint32_at_Encode)
  have u: "unat (of_nat ?n + 8 :: u32) = ?n + 8" "unat (of_nat ?n :: u32) = ?n"
    using n unat_of_nat [where 'a = 32, of "?n + 8"] unat_of_nat [where 'a = 32, of ?n] by simp_all
  have d: "take ?n (entry_ikey e) = e_key e"
      "drop ?n (entry_ikey e) = EncodeFixed64 (push_bit 8 (e_seq e) OR ucast (e_type e))"
    by (simp_all add: entry_ikey_def)
  have v: "LengthPrefixedSlice ?rest = Some (e_value e, [])"
    using LengthPrefixedSlice_Encode [of "e_value e" "[]"] n by simp
  have ty: "(ucast ((push_bit 8 (e_seq e) OR ucast (e_type e) :: u64) AND 255) :: byte) = e_type e"
    using good by (intro pack_parts) (simp add: good_entry_def)
  have "e_type e = kTypeValue \<or> e_type e = kTypeDeletion"
  proof -
    have "unat (e_type e) = 0 \<or> unat (e_type e) = 1"
      using good by (auto simp: good_entry_def kTypeValue_def word_le_nat_alt)
    then show ?thesis
      by (auto simp: kTypeValue_def kTypeDeletion_def word_unat_eq_iff)
  qed
  then show ?thesis
    using assms(2-4) c
    by (auto simp add: MemTable_Get_def Let_def g u d v ty entry_result_def length_entry_ikey)
qed

context user_comparator
begin

lemma mem_key_order: "key_order (mem_valid valid) (KeyComparator c) (mem_order ord)"
proof
  fix p q r :: bytes
  assume p: "mem_valid valid p" and q: "mem_valid valid q"
  obtain a ar b br where ab: "LengthPrefixedSlice p = Some (a, ar)" "internal_valid valid a"
      "LengthPrefixedSlice q = Some (b, br)" "internal_valid valid b"
    using p q by (auto simp: mem_valid_def split: option.splits)
  then show "KeyComparator c p q = Some (mem_order ord p q)"
    by (simp add: KeyComparator_def mem_order_def internal.cmp_ord)
  show "mem_order ord p q < 0 \<longleftrightarrow> 0 < mem_order ord q p"
    using ab internal.ord_swap [of a b] by (simp add: mem_order_def)
  assume "mem_valid valid r" and le: "mem_order ord p q \<le> 0" "mem_order ord q r \<le> 0"
  then obtain d dr where "LengthPrefixedSlice r = Some (d, dr)" "internal_valid valid d"
    by (auto simp: mem_valid_def split: option.splits)
  then show "mem_order ord p r \<le> 0"
    using ab le internal.ord_trans [of a b d] by (simp add: mem_order_def)
qed

end

sublocale user_comparator \<subseteq> mem: key_order "mem_valid valid" "KeyComparator c" "mem_order ord"
  by (rule mem_key_order)

context user_comparator
begin

lemma Add_rep:
  assumes m: "mem_comparator m = c" "mem_rep valid ord m E" and e: "good_entry valid e"
    and new: "\<And>f. f \<in> E \<Longrightarrow> e_seq f \<noteq> e_seq e"
  shows "\<exists>m'. MemTable_Add (e_seq e) (e_type e) (e_key e) (e_value e) m = Some m' \<and> mem_comparator m' = c \<and>
      mem_refs m' = mem_refs m \<and> mem_rep valid ord m' (insert e E)"
proof -
  obtain es where es: "set es = E" "skip_holds (mem_valid valid) (mem_order ord) (mem_table m) (map entry_bytes es)"
    and good: "\<forall>f\<in>E. good_entry valid f"
    using m(2) by (auto simp: mem_rep_def)
  have "mem_order ord (entry_bytes f) (entry_bytes e) \<noteq> 0" if "f \<in> E" for f
  proof -
    have "tag (entry_ikey f) \<noteq> tag (entry_ikey e)"
      using tag_less [of valid f e] tag_less [of valid e f] good that e new [OF that] by (metis less_irrefl not_less_iff_gr_or_eq)
    then show ?thesis
      using good that e mem_order_entries [of valid f e ord] by (auto simp: internal_order_def Let_def not_less_iff_gr_or_eq)
  qed
  then obtain t where t: "SkipList_Insert (KeyComparator c) (mem_table m) (entry_bytes e) = Some t"
      "skip_holds (mem_valid valid) (mem_order ord) t (sorted_insert (mem_order ord) (entry_bytes e) (map entry_bytes es))"
    using mem.Insert_holds [OF es(2) mem_valid_entry [OF e]] es(1) by auto
  have "\<exists>es'. set es' = insert e E \<and> sorted_insert (mem_order ord) (entry_bytes e) (map entry_bytes es) = map entry_bytes es'"
  proof (intro exI conjI)
    let ?l = "\<lambda>f. mem_order ord (entry_bytes f) (entry_bytes e) < 0"
    have "set (takeWhile ?l es) \<union> set (dropWhile ?l es) = E"
      using es(1) by (metis set_append takeWhile_dropWhile_id)
    then show "set (takeWhile ?l es @ e # dropWhile ?l es) = insert e E"
      by auto
    show "sorted_insert (mem_order ord) (entry_bytes e) (map entry_bytes es) = map entry_bytes (takeWhile ?l es @ e # dropWhile ?l es)"
      by (simp add: sorted_insert_def takeWhile_map dropWhile_map comp_def)
  qed
  then show ?thesis
    using t good e m by (auto simp: MemTable_Add_entry [OF e] mem_rep_def)
qed

lemma Get_rep:
  assumes m: "mem_comparator m = c" "mem_rep valid ord m E"
    and k: "valid k" "length k + 8 < 2 ^ 32" "s \<le> kMaxSequenceNumber"
    and lk: "LookupKey_new k s = Some lk"
  shows "visible ord E k s = {} \<Longrightarrow> MemTable_Get m lk value st = Some (False, value, st)"
    and "e \<in> visible ord E k s \<Longrightarrow> (\<And>f. f \<in> visible ord E k s \<Longrightarrow> f \<noteq> e \<Longrightarrow> e_seq f < e_seq e) \<Longrightarrow>
      MemTable_Get m lk value st = Some (entry_result e value st)"
proof -
  obtain es where es: "set es = E" "skip_holds (mem_valid valid) (mem_order ord) (mem_table m) (map entry_bytes es)"
    and good: "\<And>f. f \<in> E \<Longrightarrow> good_entry valid f"
    using m(2) by (auto simp: mem_rep_def)
  have mk: "memtable_key lk = EncodeVarint32 (of_nat (length k + 8)) @ k @ EncodeFixed64 (push_bit 8 s OR 1)"
    and uk: "lookup_user_key lk = k"
    using LookupKey_new_entry [OF k(3), of k] lk by auto
  let ?t = "memtable_key lk"
  let ?q = "seek_entry k s"
  have sl: "LengthPrefixedSlice ?t = Some (entry_ikey ?q, [])"
    unfolding mk by (rule seek_key_slice [OF k(2)])
  have q: "good_entry valid ?q"
    using k by (intro good_seek_entry)
  have vt: "mem_valid valid ?t"
    using sl k by (simp add: mem_valid_def seek_entry_def)
  have before: "mem_order ord (entry_bytes f) ?t < 0 \<longleftrightarrow>
      ord (e_key f) k < 0 \<or> ord (e_key f) k = 0 \<and> \<not> e_seq f \<le> s" if "f \<in> E" for f
  proof -
    have "e_type f \<le> kTypeValue"
      using good [OF that] by (simp add: good_entry_def)
    then show ?thesis
      using tag_less [OF q good [OF that]]
      by (auto simp: mem_order_def sl entry_slice [OF good [OF that]] internal_order_def Let_def seek_entry_def not_less)
  qed
  define i where "i = length (takeWhile (\<lambda>p. mem_order ord p ?t < 0) (map entry_bytes es))"
  obtain it where it: "Iterator_Seek (KeyComparator c) (mem_table m) ?t = Some it"
      "skip_pos (mem_valid valid) (mem_order ord) (mem_table m) (map entry_bytes es) i it"
    using mem.Iterator_Seek_pos [OF es(2) vt] i_def by blast
  have early: "mem_order ord (entry_bytes (es ! j)) ?t < 0" if "j < i" for j
  proof -
    have "i \<le> length es"
      using length_takeWhile_le [of "\<lambda>p. mem_order ord p ?t < 0" "map entry_bytes es"] by (simp add: i_def)
    then show ?thesis
      using that takeWhile_nth [of j "\<lambda>p. mem_order ord p ?t < 0" "map entry_bytes es"]
        nth_mem [of j "takeWhile (\<lambda>p. mem_order ord p ?t < 0) (map entry_bytes es)"]
      by (auto simp: i_def dest!: set_takeWhileD)
  qed
  have stop: "\<not> mem_order ord (entry_bytes (es ! i)) ?t < 0" if "i < length es"
    using that nth_length_takeWhile [of "\<lambda>p. mem_order ord p ?t < 0" "map entry_bytes es"] by (simp add: i_def)
  have read: "MemTable_Get m lk value st =
      Some (if ord (e_key (es ! i)) k = 0 then entry_result (es ! i) value st else (False, value, st))"
    if "i < length es"
  proof (rule read_entry)
    have "es ! i \<in> E"
      using that es(1) nth_mem by blast
    then show g: "good_entry valid (es ! i)"
      by (rule good)
    show "it \<noteq> None" "Iterator_key (mem_table m) it = Some (entry_bytes (es ! i))"
      using skip_pos_key [OF it(2)] that by simp_all
    show "cmp_Compare (mem_comparator m) (e_key (es ! i)) (lookup_user_key lk) = Some (ord (e_key (es ! i)) k)"
      using g k by (simp add: m(1) uk cmp_ord good_entry_def)
  qed (use it(1) m(1) in simp)
  have none: "MemTable_Get m lk value st = Some (False, value, st)" if "\<not> i < length es"
    using that it(1) skip_pos_key(1) [OF it(2)] by (simp add: MemTable_Get_def m(1))
  show "MemTable_Get m lk value st = Some (False, value, st)" if "visible ord E k s = {}"
  proof (cases "i < length es")
    case True
    then have "es ! i \<in> E"
      using es(1) nth_mem by blast
    then have "ord (e_key (es ! i)) k \<noteq> 0"
      using stop [OF True] before that by (auto simp: visible_def)
    then show ?thesis
      using read [OF True] by simp
  qed (rule none)
  show "MemTable_Get m lk value st = Some (entry_result e value st)"
    if e: "e \<in> visible ord E k s" and newest: "\<And>f. f \<in> visible ord E k s \<Longrightarrow> f \<noteq> e \<Longrightarrow> e_seq f < e_seq e"
  proof -
    have eE: "e \<in> E" "ord (e_key e) k = 0" "e_seq e \<le> s"
      using e by (auto simp: visible_def)
    then obtain j where j: "j < length es" "es ! j = e"
      using es(1) in_set_conv_nth by metis
    have ij: "i \<le> j"
      using early [of j] before [OF eE(1)] eE j by (cases "j < i") auto
    then have i: "i < length es"
      using j by simp
    then have xE: "es ! i \<in> E"
      using es(1) nth_mem by blast
    have "es ! i = e"
    proof (rule ccontr)
      assume ne: "es ! i \<noteq> e"
      then have "i < j"
        using ij j by (cases "i = j") auto
      then have less: "internal_order ord (entry_ikey (es ! i)) (entry_ikey e) < 0"
        using sorted_wrt_nth_less [OF mem.skip_holds_sorted(1) [OF es(2)], of i j] j i
          mem_order_entries [OF good [OF xE] good [OF eE(1)], of ord] by simp
      have v: "valid (e_key (es ! i))" "valid (e_key e)"
        using good xE eE(1) by (auto simp: good_entry_def)
      have "ord (e_key (es ! i)) (e_key e) \<le> 0"
        using less by (auto simp: internal_order_def Let_def split: if_splits)
      then have "ord (e_key (es ! i)) k \<le> 0"
        using ord_trans [OF v k(1)] eE(2) by simp
      then have z: "ord (e_key (es ! i)) k = 0" "e_seq (es ! i) \<le> s"
        using stop [OF i] before [OF xE] by auto
      then have "ord (e_key (es ! i)) (e_key e) = 0"
        using ord_zero_trans [of "e_key (es ! i)" k "e_key e"] ord_zero_sym [of "e_key e" k] v k(1) eE(2) by simp
      then have "tag (entry_ikey e) < tag (entry_ikey (es ! i))"
        using less by (auto simp: internal_order_def Let_def split: if_splits)
      then have "e_seq e \<le> e_seq (es ! i)"
        using tag_less [OF good [OF eE(1)] good [OF xE]] by auto
      moreover have "e_seq (es ! i) < e_seq e"
        using newest [of "es ! i"] z xE ne by (auto simp: visible_def)
      ultimately show False
        by simp
    qed
    then show ?thesis
      using read [OF i] eE(2) by simp
  qed
qed

end

section \<open>Batches in the table\<close>

primrec update_key :: "update \<Rightarrow> bytes" where
  "update_key (Put k v) = k"
| "update_key (Delete k) = k"

primrec update_entry :: "u64 \<Rightarrow> update \<Rightarrow> Entry" where
  "update_entry s (Put k v) = \<lparr>e_seq = s, e_type = kTypeValue, e_key = k, e_value = v\<rparr>"
| "update_entry s (Delete k) = \<lparr>e_seq = s, e_type = kTypeDeletion, e_key = k, e_value = []\<rparr>"

primrec batch_entries :: "u64 \<Rightarrow> update list \<Rightarrow> Entry list" where
  "batch_entries s [] = []"
| "batch_entries s (u # us) = update_entry s u # batch_entries (s + 1) us"

primrec fits_update :: "update \<Rightarrow> bool" where
  "fits_update (Put k v) \<longleftrightarrow> length k + 8 < 2 ^ 32 \<and> length v < 2 ^ 32"
| "fits_update (Delete k) \<longleftrightarrow> length k + 8 < 2 ^ 32"

text \<open>The last update of a key, and what a lookup reports for it.\<close>

definition latest :: "bytes \<Rightarrow> update list \<Rightarrow> update option" where
  "latest k us = fold (\<lambda>u r. if update_key u = k then Some u else r) us None"

definition update_result :: "update option \<Rightarrow> bytes \<Rightarrow> Status \<Rightarrow> bool \<times> bytes \<times> Status" where
  "update_result r value s =
     (case r of
        None \<Rightarrow> (False, value, s)
      | Some (Put k v) \<Rightarrow> (True, v, s)
      | Some (Delete k) \<Rightarrow> (True, value, Status_NotFound []))"

definition mem_log :: "MemTable \<Rightarrow> u64 \<Rightarrow> update list \<Rightarrow> bool" where
  "mem_log m s us \<longleftrightarrow> mem_comparator m = BytewiseComparator \<and>
     mem_rep (\<lambda>_. True) Slice_compare m (set (batch_entries s us))"

lemma update_entry_parts [simp]:
  "e_seq (update_entry s u) = s" "e_key (update_entry s u) = update_key u"
  "entry_result (update_entry s u) value st = update_result (Some u) value st"
  by (cases u; simp add: entry_result_def update_result_def kTypeValue_def kTypeDeletion_def)+

lemma good_update_entry:
  "fits_update u \<Longrightarrow> s \<le> kMaxSequenceNumber \<Longrightarrow> good_entry (\<lambda>_. True) (update_entry s u)"
  by (cases u) (simp_all add: good_entry_def kTypeValue_def kTypeDeletion_def)

lemma small_if_fits: "fits_update u \<Longrightarrow> small_update u"
  by (cases u) simp_all

lemma batch_entries_append:
  "batch_entries s (us @ vs) = batch_entries s us @ batch_entries (s + of_nat (length us)) vs"
  by (induction us arbitrary: s) (simp_all add: algebra_simps)

lemma batch_entries_nth: "batch_entries s us = map (\<lambda>j. update_entry (s + of_nat j) (us ! j)) [0..<length us]"
proof (induction us rule: rev_induct)
  case (snoc u us)
  then show ?case
    by (simp add: batch_entries_append nth_append cong: map_cong)
qed simp

lemma unat_seq: "unat s + j \<le> 2 ^ 56 \<Longrightarrow> unat (s + of_nat j :: u64) = unat s + j"
  by (simp add: unat_word_ariths unat_of_nat)

lemma seq_le_max: "unat s < 2 ^ 56 \<Longrightarrow> s \<le> kMaxSequenceNumber"
  by (simp add: word_le_nat_alt kMaxSequenceNumber_unat)

lemma handle_update_Inserter:
  "handle_update MemTableInserter u (Some (s, m)) =
   (case MemTable_Add (e_seq (update_entry s u)) (e_type (update_entry s u)) (e_key (update_entry s u))
      (e_value (update_entry s u)) m of None \<Rightarrow> None | Some m' \<Rightarrow> Some (s + 1, m'))"
  by (cases u) (simp_all add: MemTableInserter_def Inserter_Put_def Inserter_Delete_def split: option.split)

lemma Inserter_run:
  assumes "mem_log m s us" "list_all fits_update vs" "unat s + length us + length vs \<le> 2 ^ 56"
  shows "\<exists>m'. fold (handle_update MemTableInserter) vs (Some (s + of_nat (length us), m)) =
      Some (s + of_nat (length us + length vs), m') \<and> mem_log m' s (us @ vs)"
  using assms
proof (induction vs arbitrary: m us)
  case (Cons v vs)
  let ?s = "s + of_nat (length us)"
  have s: "unat ?s = unat s + length us"
    using Cons.prems(3) by (intro unat_seq) simp
  have g: "good_entry (\<lambda>_. True) (update_entry ?s v)"
    using Cons.prems s by (intro good_update_entry seq_le_max) simp_all
  have "e_seq f \<noteq> e_seq (update_entry ?s v)" if f: "f \<in> set (batch_entries s us)" for f
  proof -
    obtain j where "j < length us" "e_seq f = s + of_nat j"
      using f by (auto simp: batch_entries_nth)
    then have "unat (e_seq f) \<noteq> unat ?s"
      using s unat_seq [of s j] Cons.prems(3) by simp
    then show ?thesis
      by auto
  qed
  then obtain m' where m': "MemTable_Add (e_seq (update_entry ?s v)) (e_type (update_entry ?s v))
        (e_key (update_entry ?s v)) (e_value (update_entry ?s v)) m = Some m'"
      "mem_log m' s (us @ [v])"
    using bytewise.Add_rep [of m "set (batch_entries s us)" "update_entry ?s v"] Cons.prems(1) g
    by (auto simp: mem_log_def batch_entries_append)
  then show ?case
    using Cons.IH [of m' "us @ [v]"] Cons.prems by (simp add: handle_update_Inserter algebra_simps)
qed simp

lemma InsertInto_log:
  assumes "mem_log m s us" "list_all fits_update vs" "unat s + length us + length vs \<le> 2 ^ 56"
  shows "\<exists>m'. InsertInto (SetSequence (batch_of vs) (s + of_nat (length us))) m = Some (StatusOK, m') \<and>
      mem_log m' s (us @ vs)"
proof -
  have "list_all small_update vs"
    using assms(2) small_if_fits by (auto simp: list_all_iff)
  then show ?thesis
    using Inserter_run [OF assms]
    by (auto simp: InsertInto_def batch_of_rep Iterate_batch_rep)
qed

lemma latest_snoc: "latest k (us @ [u]) = (if update_key u = k then Some u else latest k us)"
  by (simp add: latest_def)

lemma latest_spec:
  "latest k us = None \<and> (\<forall>j<length us. update_key (us ! j) \<noteq> k) \<or>
   (\<exists>j<length us. latest k us = Some (us ! j) \<and> update_key (us ! j) = k \<and>
     (\<forall>l. j < l \<and> l < length us \<longrightarrow> update_key (us ! l) \<noteq> k))" (is "?P us")
proof (induction us rule: rev_induct)
  case Nil
  then show ?case by (simp add: latest_def)
next
  case (snoc u us)
  show ?case
  proof (cases "update_key u = k")
    case True
    then show ?thesis
      by (intro disjI2 exI [of _ "length us"]) (auto simp: latest_snoc)
  next
    case u: False
    from snoc show ?thesis
    proof (elim disjE exE conjE)
      fix j
      assume "j < length us" "latest k us = Some (us ! j)" "update_key (us ! j) = k"
        "\<forall>l. j < l \<and> l < length us \<longrightarrow> update_key (us ! l) \<noteq> k"
      then show ?thesis
        using u by (intro disjI2 exI [of _ j]) (simp add: latest_snoc nth_append less_Suc_eq)
    qed (simp add: latest_snoc nth_append u)
  qed
qed

lemma latest_cases:
  obtains (none) "latest k us = None" "\<And>j. j < length us \<Longrightarrow> update_key (us ! j) \<noteq> k"
  | (some) j where "j < length us" "latest k us = Some (us ! j)" "update_key (us ! j) = k"
      "\<And>l. j < l \<Longrightarrow> l < length us \<Longrightarrow> update_key (us ! l) \<noteq> k"
  using latest_spec [of k us] by metis

text \<open>A lookup at the sequence number of update \<open>i\<close> sees the updates up to \<open>i\<close>.\<close>

lemma Get_log:
  assumes m: "mem_log m s us" and i: "unat s + i < 2 ^ 56" and b: "unat s + length us \<le> 2 ^ 56"
    and k: "length k + 8 < 2 ^ 32" and lk: "LookupKey_new k (s + of_nat i) = Some lk"
  shows "MemTable_Get m lk value st = Some (update_result (latest k (take (Suc i) us)) value st)"
proof -
  let ?E = "set (batch_entries s us)"
  have rep: "mem_comparator m = BytewiseComparator" "mem_rep (\<lambda>_. True) Slice_compare m ?E"
    using m by (simp_all add: mem_log_def)
  have si: "unat (s + of_nat i) = unat s + i"
    using i by (intro unat_seq) simp
  have sq: "unat (s + of_nat j) = unat s + j" if "j < length us" for j
    using b that by (intro unat_seq) simp
  have mx: "s + of_nat i \<le> kMaxSequenceNumber"
    using si i by (intro seq_le_max) simp
  have vis: "visible Slice_compare ?E k (s + of_nat i) =
      {update_entry (s + of_nat j) (us ! j) | j. j \<le> i \<and> j < length us \<and> update_key (us ! j) = k}"
    using si sq by (auto simp: visible_def batch_entries_nth Slice_compare_zero_iff word_le_nat_alt)
  show ?thesis
  proof (cases rule: latest_cases [of k "take (Suc i) us", case_names none some])
    case none
    then have "visible Slice_compare ?E k (s + of_nat i) = {}"
      by (auto simp: vis)
    then show ?thesis
      using bytewise.Get_rep(1) [OF rep _ k mx lk] none(1) by (simp add: update_result_def)
  next
    case (some j)
    have j: "j \<le> i" "j < length us" "update_key (us ! j) = k" "latest k (take (Suc i) us) = Some (us ! j)"
      using some by auto
    have "MemTable_Get m lk value st = Some (entry_result (update_entry (s + of_nat j) (us ! j)) value st)"
    proof (rule bytewise.Get_rep(2) [OF rep _ k mx lk])
      show "update_entry (s + of_nat j) (us ! j) \<in> visible Slice_compare ?E k (s + of_nat i)"
        using j by (auto simp: vis)
      show "e_seq f < e_seq (update_entry (s + of_nat j) (us ! j))"
        if f: "f \<in> visible Slice_compare ?E k (s + of_nat i)" "f \<noteq> update_entry (s + of_nat j) (us ! j)" for f
      proof -
        obtain l where l: "l \<le> i" "l < length us" "update_key (us ! l) = k" "f = update_entry (s + of_nat l) (us ! l)"
          using f(1) by (auto simp: vis)
        have "\<not> j < l"
          using some(4) [of l] l by auto
        then have "l < j"
          using f(2) l(4) by (cases "l = j") auto
        then show ?thesis
          using sq [of l] sq [of j] l(4) j(2) by (simp add: word_less_nat_alt)
      qed
    qed simp
    then show ?thesis
      using j(4) by simp
  qed
qed

text \<open>A lookup at or behind the last update sees all of them.\<close>

lemma Get_log_all:
  assumes "mem_log m s us" "unat s + length us \<le> Suc (unat q)" "unat s \<le> unat q" "unat q < 2 ^ 56"
    "length k + 8 < 2 ^ 32" "LookupKey_new k q = Some lk"
  shows "MemTable_Get m lk value st = Some (update_result (latest k us) value st)"
proof -
  let ?i = "unat q - unat s"
  have "q = s + of_nat ?i"
    using assms(3,4) unat_seq [of s ?i] by (simp add: word_unat_eq_iff)
  then show ?thesis
    using Get_log [OF assms(1), of ?i k lk] assms(2-) by simp
qed

end
