(* ===== verification/Crc32c.thy ===== *)
theory Crc32c
  imports Coding Crc_Tables
begin

unbundle bit_operations_syntax

text \<open>
  \<open>lib/leveldb/util/crc32c.cc\<close> and \<open>crc32c.h\<close>: the checksum of log records and table blocks.  The
  four tables are in \<open>Crc_Tables\<close>.  \<open>Extend\<close> takes bytes one by one up to a 4-byte aligned
  address, then four at a time through the four tables; the address of the buffer is its argument
  \<open>addr\<close>.

  The main result is that this equals the bit-by-bit division by the reflected Castagnoli
  polynomial, for every alignment; it follows that extending in pieces is extending at once, and
  that unmasking inverts masking.
\<close>

section \<open>The checksum\<close>

definition STEP1 :: "byte \<Rightarrow> u32 \<Rightarrow> u32" where
  "STEP1 b l = (let c = (l AND 0xff) XOR ucast b in table0 ! unat c XOR drop_bit 8 l)"

definition STEP4 :: "bytes \<Rightarrow> u32 \<Rightarrow> u32" where
  "STEP4 p l =
     (let c = l XOR DecodeFixed32 p in
      table3 ! unat (c AND 0xff) XOR
      table2 ! unat (drop_bit 8 c AND 0xff) XOR
      table1 ! unat (drop_bit 16 c AND 0xff) XOR
      table0 ! unat (drop_bit 24 c))"

function extend16 :: "bytes \<Rightarrow> u32 \<Rightarrow> bytes \<times> u32" where
  "extend16 p l =
     (if length p \<ge> 16 then
        extend16 (drop 16 p) (STEP4 (drop 12 p) (STEP4 (drop 8 p) (STEP4 (drop 4 p) (STEP4 p l))))
      else (p, l))"
  by pat_completeness auto
termination by (relation "measure (length \<circ> fst)") auto

function extend4 :: "bytes \<Rightarrow> u32 \<Rightarrow> bytes \<times> u32" where
  "extend4 p l = (if length p \<ge> 4 then extend4 (drop 4 p) (STEP4 p l) else (p, l))"
  by pat_completeness auto
termination by (relation "measure (length \<circ> fst)") auto

declare extend16.simps [simp del] extend4.simps [simp del]

definition Crc_Extend :: "nat \<Rightarrow> u32 \<Rightarrow> bytes \<Rightarrow> u32" where
  "Crc_Extend addr crc buf =
     (let l = crc XOR 0xffffffff;
          x = (addr + 3) div 4 * 4 - addr;
          (p1, l1) = (if x \<le> length buf then (drop x buf, fold STEP1 (take x buf) l) else (buf, l));
          (p2, l2) = extend16 p1 l1;
          (p3, l3) = extend4 p2 l2
      in fold STEP1 p3 l3 XOR 0xffffffff)"

definition Crc_Value :: "nat \<Rightarrow> bytes \<Rightarrow> u32" where
  "Crc_Value addr data = Crc_Extend addr 0 data"

definition kMaskDelta :: u32 where "kMaskDelta = 0xa282ead8"

definition Crc_Mask :: "u32 \<Rightarrow> u32" where
  "Crc_Mask crc = (drop_bit 15 crc OR push_bit 17 crc) + kMaskDelta"

definition Crc_Unmask :: "u32 \<Rightarrow> u32" where
  "Crc_Unmask masked_crc = (let rot = masked_crc - kMaskDelta in drop_bit 17 rot OR push_bit 15 rot)"

section \<open>The reference\<close>

definition crc_ref :: "u32 \<Rightarrow> bytes \<Rightarrow> u32" where
  "crc_ref crc data = fold (\<lambda>b l. crc_byte (l XOR ucast b)) data (crc XOR 0xffffffff) XOR 0xffffffff"

lemma length_table0: "length table0 = 256"
  by (simp add: table0_values)

lemma unat_byte_less: "unat (ucast (b :: byte) :: u32) < 256"
  using unsigned_less [of b, where 'a = nat] by (simp add: unat_ucast_up)

lemma unat_and_255_less: "unat (l AND 0xff :: u32) < 256"
proof -
  have "l AND 0xff = take_bit 8 l"
    by (simp add: take_bit_eq_mask mask_eq_exp_minus_1)
  then have "unat (l AND 0xff) = take_bit 8 (unat l)"
    by (simp only: unsigned_take_bit_eq)
  then show ?thesis
    using take_bit_nat_less_exp [of 8 "unat l"] by simp
qed

lemma table_nth:
  assumes "unat c < 256"
  shows "table0 ! unat c = crc_byte c" "table1 ! unat c = crc_byte (crc_byte c)"
    "table2 ! unat c = crc_byte (crc_byte (crc_byte c))"
    "table3 ! unat c = crc_byte (crc_byte (crc_byte (crc_byte c)))"
proof -
  show 0: "table0 ! unat c = crc_byte c"
    using assms by (simp add: table0_values small_words del: list.map)
  show 1: "table1 ! unat c = crc_byte (crc_byte c)"
    using assms 0 by (simp add: table1_values length_table0)
  show 2: "table2 ! unat c = crc_byte (crc_byte (crc_byte c))"
    using assms 1 by (simp add: table2_values length_table0 table1_values)
  show "table3 ! unat c = crc_byte (crc_byte (crc_byte (crc_byte c)))"
    using assms 2 by (simp add: table3_values length_table0 table1_values table2_values)
qed

section \<open>Linearity\<close>

lemma crc_bit_xor: "crc_bit (a XOR b) = crc_bit a XOR crc_bit b"
proof -
  have "odd (a XOR b) \<longleftrightarrow> odd a \<noteq> odd b"
    using bit_xor_iff [of a b 0] by (simp add: bit_0)
  then show ?thesis
    by (simp add: crc_bit_def xor.assoc xor.left_commute xor.commute)
qed

lemma crc_byte_xor: "crc_byte (a XOR b) = crc_byte a XOR crc_byte b"
  by (simp add: crc_byte_def crc_bit_xor)

lemma crc_bit_push: "n < 8 \<Longrightarrow> crc_bit (push_bit (Suc n) (drop_bit 8 x)) = push_bit n (drop_bit 8 x)"
proof -
  assume n: "n < 8"
  have "even (push_bit (Suc n) (drop_bit 8 x) :: u32)"
    by (simp flip: bit_0 add: bit_push_bit_iff)
  moreover have "drop_bit 1 (push_bit (Suc n) (drop_bit 8 x)) = (push_bit n (drop_bit 8 x) :: u32)"
    using n by (intro bit_word_eqI) (auto simp: bit_simps simp del: push_bit_Suc dest: bit_imp_le_length)
  ultimately show ?thesis
    by (simp add: crc_bit_def)
qed

lemma crc_byte_push: "crc_byte (push_bit 8 (drop_bit 8 x)) = drop_bit 8 x"
  using crc_bit_push [of 7 x] crc_bit_push [of 6 x] crc_bit_push [of 5 x] crc_bit_push [of 4 x]
    crc_bit_push [of 3 x] crc_bit_push [of 2 x] crc_bit_push [of 1 x] crc_bit_push [of 0 x]
  by (simp add: crc_byte_def eval_nat_numeral)

lemma low_high: "x = (x AND 0xff) XOR push_bit 8 (drop_bit 8 (x :: u32))"
proof -
  have "x AND 0xff = take_bit 8 x"
    by (simp add: take_bit_eq_mask mask_eq_exp_minus_1)
  then show ?thesis
    by (intro bit_word_eqI) (auto simp: bit_simps)
qed

lemma crc_byte_split: "crc_byte x = crc_byte (x AND 0xff) XOR drop_bit 8 x"
  using arg_cong [OF low_high, of crc_byte x] by (simp only: crc_byte_xor crc_byte_push)

lemma byte_and: "((ucast (b :: byte) :: u32) AND 0xff) = ucast b"
  by (rule bit_word_eqI) (auto simp: bit_simps bit_numeral_rec split: nat.split dest: bit_imp_le_length)

lemma byte_drop: "drop_bit 8 (ucast (b :: byte) :: u32) = 0"
  by (rule bit_word_eqI) (auto simp: bit_simps dest: bit_imp_le_length)

lemma STEP1_crc_byte: "STEP1 b l = crc_byte (l XOR ucast b)"
proof -
  let ?c = "(l AND 0xff) XOR ucast b"
  have c: "?c = (l XOR ucast b) AND 0xff"
    by (simp only: bit.conj_xor_distrib2 byte_and)
  have "unat ?c < 256"
    unfolding c by (rule unat_and_255_less)
  then have "STEP1 b l = crc_byte ?c XOR drop_bit 8 l"
    by (simp add: STEP1_def table_nth)
  also have "\<dots> = crc_byte (l XOR ucast b)"
    unfolding crc_byte_split [of "l XOR ucast b"] c by (simp add: byte_drop)
  finally show ?thesis .
qed

lemma fold_STEP1: "fold STEP1 p l = fold (\<lambda>b l. crc_byte (l XOR ucast b)) p l"
  by (rule fold_cong) (simp_all add: STEP1_crc_byte fun_eq_iff)

text \<open>Four bytes at once.\<close>

lemma crc_byte_byte_at:
  "n \<le> 16 \<Longrightarrow> crc_byte (push_bit (n + 8) (ucast (b :: byte))) = push_bit n (ucast b :: u32)"
proof -
  assume n: "n \<le> 16"
  have "drop_bit 8 (push_bit (n + 8) (ucast b)) = (push_bit n (ucast b) :: u32)"
      "push_bit 8 (push_bit n (ucast b)) = (push_bit (n + 8) (ucast b) :: u32)"
    using n by (intro bit_word_eqI; auto simp: bit_simps add.commute dest: bit_imp_le_length)+
  then show ?thesis
    using crc_byte_push [of "push_bit (n + 8) (ucast b)"] by simp
qed

lemma DecodeFixed32_bytes:
  "DecodeFixed32 (b0 # b1 # b2 # b3 # p) =
     ucast b0 XOR push_bit 8 (ucast b1) XOR push_bit 16 (ucast b2) XOR push_bit 24 (ucast b3)"
  by (simp add: DecodeFixed32_def, rule bit_word_eqI) (auto simp: bit_simps dest: bit_imp_le_length)

lemma four_bytes:
  "crc_byte (crc_byte (crc_byte (crc_byte (l XOR ucast b0) XOR ucast b1) XOR ucast b2) XOR ucast b3) =
   crc_byte (crc_byte (crc_byte (crc_byte (l XOR DecodeFixed32 (b0 # b1 # b2 # b3 # p)))))"
  using crc_byte_byte_at [of 0 b1] crc_byte_byte_at [of 0 b2] crc_byte_byte_at [of 8 b2]
    crc_byte_byte_at [of 0 b3] crc_byte_byte_at [of 8 b3] crc_byte_byte_at [of 16 b3]
  by (simp add: DecodeFixed32_bytes crc_byte_xor xor.assoc)

lemma word_bytes:
  "c = (c AND 0xff) XOR push_bit 8 (drop_bit 8 c AND 0xff) XOR push_bit 16 (drop_bit 16 c AND 0xff) XOR
     push_bit 24 (drop_bit 24 (c :: u32))"
proof -
  have m: "x AND 0xff = take_bit 8 x" for x :: u32
    by (simp add: take_bit_eq_mask mask_eq_exp_minus_1)
  show ?thesis
    unfolding m by (intro bit_word_eqI) (auto simp: bit_simps dest: bit_imp_le_length)
qed

lemma crc_byte_small_at:
  assumes "unat c < 256" "n \<le> 16"
  shows "crc_byte (push_bit (n + 8) c) = push_bit n (c :: u32)"
proof -
  have "ucast (ucast c :: byte) = c"
    using assms(1)
    by (simp add: word_unat_eq_iff unat_ucast_up unsigned_ucast_eq unsigned_take_bit_eq take_bit_nat_eq_self)
  then show ?thesis
    using crc_byte_byte_at [OF assms(2), of "ucast c"] by simp
qed

lemma STEP4_crc_byte:
  "STEP4 (b0 # b1 # b2 # b3 # p) l = STEP1 b3 (STEP1 b2 (STEP1 b1 (STEP1 b0 l)))"
proof -
  define c where "c = l XOR DecodeFixed32 (b0 # b1 # b2 # b3 # p)"
  define c0 where "c0 = c AND 0xff"
  define c1 where "c1 = drop_bit 8 c AND 0xff"
  define c2 where "c2 = drop_bit 16 c AND 0xff"
  define c3 where "c3 = drop_bit 24 c"
  have small: "unat c0 < 256" "unat c1 < 256" "unat c2 < 256" "unat c3 < 256"
  proof -
    show "unat c0 < 256" "unat c1 < 256" "unat c2 < 256"
      unfolding c0_def c1_def c2_def by (rule unat_and_255_less)+
    have "unat c < 2 ^ 32"
      using unsigned_less [of c, where 'a = nat] by simp
    then show "unat c3 < 256"
      by (simp add: c3_def unat_drop_bit_div)
  qed
  have c: "c = c0 XOR push_bit 8 c1 XOR push_bit 16 c2 XOR push_bit 24 c3"
    unfolding c0_def c1_def c2_def c3_def by (rule word_bytes)
  have p: "crc_byte (push_bit 8 c1) = c1" "crc_byte (push_bit 16 c2) = push_bit 8 c2" "crc_byte (push_bit 8 c2) = c2"
      "crc_byte (push_bit 24 c3) = push_bit 16 c3" "crc_byte (push_bit 16 c3) = push_bit 8 c3" "crc_byte (push_bit 8 c3) = c3"
    using crc_byte_small_at [OF small(2), of 0] crc_byte_small_at [OF small(3), of 8] crc_byte_small_at [OF small(3), of 0]
      crc_byte_small_at [OF small(4), of 16] crc_byte_small_at [OF small(4), of 8] crc_byte_small_at [OF small(4), of 0]
    by simp_all
  have "STEP4 (b0 # b1 # b2 # b3 # p) l = table3 ! unat c0 XOR table2 ! unat c1 XOR table1 ! unat c2 XOR table0 ! unat c3"
    by (simp add: STEP4_def Let_def c_def c0_def c1_def c2_def c3_def)
  also have "\<dots> = crc_byte (crc_byte (crc_byte (crc_byte c)))"
    using small by (simp only: table_nth) (simp only: c crc_byte_xor p)
  also have "\<dots> = STEP1 b3 (STEP1 b2 (STEP1 b1 (STEP1 b0 l)))"
    unfolding c_def STEP1_crc_byte by (rule four_bytes [symmetric])
  finally show ?thesis .
qed

lemma STEP4_fold: "4 \<le> length p \<Longrightarrow> fold STEP1 p l = fold STEP1 (drop 4 p) (STEP4 p l)"
proof -
  assume "4 \<le> length p"
  then obtain b0 b1 b2 b3 p' where "p = b0 # b1 # b2 # b3 # p'"
    by (auto simp: Suc_le_length_iff eval_nat_numeral)
  then show ?thesis
    by (simp add: STEP4_crc_byte)
qed

lemma extend4_fold: "case extend4 p l of (p', l') \<Rightarrow> fold STEP1 p' l' = fold STEP1 p l"
proof (induction p l rule: extend4.induct)
  case (1 p l)
  then show ?case
    using STEP4_fold [of p l] by (subst extend4.simps) simp
qed

lemma extend16_fold: "case extend16 p l of (p', l') \<Rightarrow> fold STEP1 p' l' = fold STEP1 p l"
proof (induction p l rule: extend16.induct)
  case (1 p l)
  show ?case
  proof (cases "16 \<le> length p")
    case True
    then show ?thesis
      using 1 STEP4_fold [of p l] STEP4_fold [of "drop 4 p"] STEP4_fold [of "drop 8 p"] STEP4_fold [of "drop 12 p"]
      by (subst extend16.simps) simp
  next
    case False
    then show ?thesis
      by (subst extend16.simps) simp
  qed
qed

section \<open>Correctness\<close>

lemma Crc_Extend_ref: "Crc_Extend addr crc buf = crc_ref crc buf"
proof -
  let ?l = "crc XOR 0xffffffff"
  let ?x = "(addr + 3) div 4 * 4 - addr"
  obtain p1 l1 where 1: "(if ?x \<le> length buf then (drop ?x buf, fold STEP1 (take ?x buf) ?l) else (buf, ?l)) = (p1, l1)"
    by (metis surj_pair)
  obtain p2 l2 where 2: "extend16 p1 l1 = (p2, l2)"
    by (metis surj_pair)
  obtain p3 l3 where 3: "extend4 p2 l2 = (p3, l3)"
    by (metis surj_pair)
  have "fold STEP1 (drop n buf) (fold STEP1 (take n buf) l) = fold STEP1 buf l" for n l
    by (metis append_take_drop_id comp_apply fold_append)
  then have "fold STEP1 p1 l1 = fold STEP1 buf ?l"
    using 1 by (auto split: if_splits)
  then have "fold STEP1 p3 l3 = fold STEP1 buf ?l"
    using extend16_fold [of p1 l1] extend4_fold [of p2 l2] 2 3 by simp
  then show ?thesis
    unfolding Crc_Extend_def crc_ref_def Let_def 1 2 3 by (simp add: 2 3 fold_STEP1)
qed

lemma Crc_Extend_append: "Crc_Extend a (Crc_Extend b crc xs) ys = Crc_Extend c crc (xs @ ys)"
  by (simp add: Crc_Extend_ref crc_ref_def xor.assoc)

lemma rotate_inverse: "drop_bit 17 r OR push_bit 15 r = x" if "r = drop_bit 15 x OR push_bit 17 (x :: u32)"
  unfolding that
  by (intro bit_word_eqI) (auto simp: bit_simps dest: bit_imp_le_length, metis le_add_diff_inverse not_le)

lemma Crc_Unmask_Mask: "Crc_Unmask (Crc_Mask crc) = crc"
  by (simp add: Crc_Unmask_def Crc_Mask_def Let_def rotate_inverse del: drop_bit_or push_bit_or)

end
