(* ===== verification/Mem_Env.thy ===== *)
theory Mem_Env
  imports Status
begin

text \<open>
  The file interface of LevelDB's environment (\<open>lib/leveldb/include/leveldb/env.h\<close>) and its
  in-memory implementation, \<open>helpers/memenv/memenv.cc\<close>.  The virtual classes \<open>WritableFile\<close> and
  \<open>SequentialFile\<close> are records of their operations on a file state \<open>'f\<close>.  What their clients rely
  on are the locales \<open>writable_file\<close> (an append that succeeds adds the bytes at the end) and
  \<open>sequential_file\<close> (a read delivers the next bytes); the in-memory files interpret both.

  An in-memory file is a list of blocks of 8192 bytes.  A new block is not initialised by the code;
  here it is zero, and no byte behind the file's size is ever read.
\<close>

section \<open>The interface\<close>

record 'f WritableFile =
  wf_Append :: "bytes \<Rightarrow> 'f \<Rightarrow> Status \<times> 'f"
  wf_Flush :: "'f \<Rightarrow> Status \<times> 'f"
  wf_Sync :: "'f \<Rightarrow> Status \<times> 'f"

record 's SequentialFile =
  sf_Read :: "nat \<Rightarrow> 's \<Rightarrow> Status \<times> bytes \<times> 's"
  sf_Skip :: "nat \<Rightarrow> 's \<Rightarrow> Status \<times> 's"

locale writable_file =
  fixes dest :: "'f WritableFile"
    and good :: "'f \<Rightarrow> bool"
    and contents :: "'f \<Rightarrow> bytes"
  assumes append_ok: "good f \<Longrightarrow>
      \<exists>f'. wf_Append dest data f = (StatusOK, f') \<and> good f' \<and> contents f' = contents f @ data"
    and flush_ok: "good f \<Longrightarrow>
      \<exists>f'. wf_Flush dest f = (StatusOK, f') \<and> good f' \<and> contents f' = contents f"
    and sync_ok: "good f \<Longrightarrow>
      \<exists>f'. wf_Sync dest f = (StatusOK, f') \<and> good f' \<and> contents f' = contents f"

locale sequential_file =
  fixes source :: "'s SequentialFile"
    and readable :: "'s \<Rightarrow> bool"
    and rest :: "'s \<Rightarrow> bytes"
  assumes read_ok: "readable s \<Longrightarrow>
      \<exists>s'. sf_Read source n s = (StatusOK, take n (rest s), s') \<and> readable s' \<and> rest s' = drop n (rest s)"
    and skip_ok: "readable s \<Longrightarrow> n \<le> length (rest s) \<Longrightarrow>
      \<exists>s'. sf_Skip source n s = (StatusOK, s') \<and> readable s' \<and> rest s' = drop n (rest s)"

section \<open>Files in memory\<close>

definition Status_IOError :: "bytes \<Rightarrow> bytes \<Rightarrow> Status" where
  "Status_IOError msg msg2 = Status_make kIOError msg msg2"

record FileState =
  file_refs :: nat
  file_size :: nat
  file_blocks :: "bytes list"

definition kMemBlockSize :: nat where "kMemBlockSize = 8 * 1024"

definition FileState_new :: FileState where
  "FileState_new = \<lparr>file_refs = 0, file_size = 0, file_blocks = []\<rparr>"

definition FileState_Ref :: "FileState \<Rightarrow> FileState" where
  "FileState_Ref f = f\<lparr>file_refs := file_refs f + 1\<rparr>"

text \<open>\<open>Inl\<close>: the last reference is gone and the file is deleted.\<close>

definition FileState_Unref :: "FileState \<Rightarrow> (unit + FileState) option" where
  "FileState_Unref f =
     (if file_refs f = 0 then None
      else let f' = f\<lparr>file_refs := file_refs f - 1\<rparr> in
        if file_refs f' \<le> 0 then Some (Inl ()) else Some (Inr f'))"

function copy_blocks :: "bytes list \<Rightarrow> nat \<Rightarrow> nat \<Rightarrow> nat \<Rightarrow> bytes" where
  "copy_blocks blocks block block_offset bytes_to_copy =
     (if bytes_to_copy > 0 \<and> block_offset < kMemBlockSize then
        let avail = (let a = kMemBlockSize - block_offset in if a > bytes_to_copy then bytes_to_copy else a)
        in take avail (drop block_offset (blocks ! block)) @
           copy_blocks blocks (block + 1) 0 (bytes_to_copy - avail)
      else [])"
  by pat_completeness auto
termination
  by (relation "measure (\<lambda>(_, _, _, n). n)") (auto simp: Let_def)

declare copy_blocks.simps [simp del]

definition FileState_Read :: "nat \<Rightarrow> nat \<Rightarrow> FileState \<Rightarrow> Status \<times> bytes" where
  "FileState_Read offset n f =
     (if offset > file_size f then (Status_IOError (cstr ''Offset greater than file size.'') [], [])
      else
        let available = file_size f - offset;
            n = (if n > available then available else n)
        in if n = 0 then (StatusOK, [])
           else
             let block = offset div kMemBlockSize;
                 block_offset = offset mod kMemBlockSize
             in if n \<le> kMemBlockSize - block_offset
                then (StatusOK, take n (drop block_offset (file_blocks f ! block)))
                else (StatusOK, copy_blocks (file_blocks f) block block_offset n))"

definition append_step :: "FileState \<Rightarrow> bytes \<Rightarrow> FileState \<times> bytes" where
  "append_step f src =
     (let offset = file_size f mod kMemBlockSize;
          (avail, blocks) =
            (if offset \<noteq> 0 then (kMemBlockSize - offset, file_blocks f)
             else (kMemBlockSize, file_blocks f @ [replicate kMemBlockSize 0]));
          avail = (if avail > length src then length src else avail);
          b = last blocks
      in (f\<lparr>file_blocks := butlast blocks @ [take offset b @ take avail src @ drop (offset + avail) b],
            file_size := file_size f + avail\<rparr>, drop avail src))"

lemma append_step_shorter: "src \<noteq> [] \<Longrightarrow> length (snd (append_step f src)) < length src"
  by (auto simp: append_step_def Let_def kMemBlockSize_def)

function FileState_Append :: "bytes \<Rightarrow> FileState \<Rightarrow> FileState" where
  "FileState_Append src f =
     (if length src > 0 then FileState_Append (snd (append_step f src)) (fst (append_step f src)) else f)"
  by pat_completeness auto
termination
  by (relation "measure (length \<circ> fst)") (auto intro: append_step_shorter)

declare FileState_Append.simps [simp del]

text \<open>The reader of a file: the file and \<open>pos_\<close>.\<close>

definition SequentialFileImpl_Read :: "nat \<Rightarrow> FileState \<times> nat \<Rightarrow> Status \<times> bytes \<times> FileState \<times> nat" where
  "SequentialFileImpl_Read n s =
     (let (fl, pos) = s;
          (st, result) = FileState_Read pos n fl
      in if Status_ok st then (st, result, fl, pos + length result) else (st, result, fl, pos))"

definition SequentialFileImpl_Skip :: "nat \<Rightarrow> FileState \<times> nat \<Rightarrow> Status \<times> FileState \<times> nat" where
  "SequentialFileImpl_Skip n s =
     (let (fl, pos) = s in
      if pos > file_size fl then (Status_IOError (cstr ''pos_ > file_->Size()'') [], s)
      else let available = file_size fl - pos;
               n = (if n > available then available else n)
           in (StatusOK, fl, pos + n))"

definition SequentialFileImpl :: "(FileState \<times> nat) SequentialFile" where
  "SequentialFileImpl = \<lparr>sf_Read = SequentialFileImpl_Read, sf_Skip = SequentialFileImpl_Skip\<rparr>"

definition WritableFileImpl :: "FileState WritableFile" where
  "WritableFileImpl =
     \<lparr>wf_Append = (\<lambda>data f. (StatusOK, FileState_Append data f)), wf_Flush = (\<lambda>f. (StatusOK, f)),
      wf_Sync = (\<lambda>f. (StatusOK, f))\<rparr>"

section \<open>The contents of a file\<close>

definition file_contents :: "FileState \<Rightarrow> bytes" where
  "file_contents f = take (file_size f) (concat (file_blocks f))"

definition file_inv :: "FileState \<Rightarrow> bool" where
  "file_inv f \<longleftrightarrow> (\<forall>b\<in>set (file_blocks f). length b = kMemBlockSize) \<and>
     length (file_blocks f) = (file_size f + (kMemBlockSize - 1)) div kMemBlockSize"

lemma length_concat_blocks:
  "\<forall>b\<in>set bs. length b = n \<Longrightarrow> length (concat bs) = length bs * n"
  by (induction bs) simp_all

lemma file_inv_fits: "file_inv f \<Longrightarrow> file_size f \<le> length (concat (file_blocks f))"
  using length_concat_blocks [of "file_blocks f" kMemBlockSize]
  by (simp add: file_inv_def kMemBlockSize_def)

lemma length_file_contents: "file_inv f \<Longrightarrow> length (file_contents f) = file_size f"
  using file_inv_fits by (simp add: file_contents_def)

lemma block_index:
  assumes "\<forall>b\<in>set bs. length b = n" "i * n + k + m \<le> length (concat bs)" "0 < m"
  shows "i < length bs"
proof (rule ccontr)
  assume "\<not> i < length bs"
  then have "length bs * n \<le> i * n"
    by simp
  then show False
    using assms(2,3) unfolding length_concat_blocks [OF assms(1)] by linarith
qed

lemma drop_concat_blocks:
  assumes "\<forall>b\<in>set bs. length b = n" "i < length bs"
  shows "drop (i * n) (concat bs) = bs ! i @ drop (Suc i * n) (concat bs)"
  using assms
proof (induction bs arbitrary: i)
  case (Cons b bs)
  then show ?case
    by (cases i) (simp_all add: algebra_simps)
qed simp

lemma drop_in_block:
  assumes "\<forall>b\<in>set bs. length b = n" "i < length bs" "k \<le> n"
  shows "drop (i * n + k) (concat bs) = drop k (bs ! i) @ drop (Suc i * n) (concat bs)"
proof -
  have "drop (i * n + k) (concat bs) = drop k (drop (i * n) (concat bs))"
    by (simp add: add.commute)
  also have "\<dots> = drop k (bs ! i @ drop (Suc i * n) (concat bs))"
    using drop_concat_blocks [OF assms(1,2)] by simp
  finally show ?thesis
    using assms by simp
qed

lemma append_step_inv:
  assumes inv: "file_inv f" and src: "src \<noteq> []"
  shows "file_inv (fst (append_step f src))"
    and "file_contents (fst (append_step f src)) @ snd (append_step f src) = file_contents f @ src"
    and "file_refs (fst (append_step f src)) = file_refs f"
proof -
  define n where "n = kMemBlockSize"
  define q where "q = file_size f div n"
  define r where "r = file_size f mod n"
  define bs where "bs = (if r \<noteq> 0 then file_blocks f else file_blocks f @ [replicate n 0])"
  define avail where "avail = min (n - r) (length src)"
  have n: "0 < n" "r < n" "file_size f = q * n + r"
    by (simp_all add: n_def kMemBlockSize_def q_def r_def)
  have len: "length (file_blocks f) = (if r = 0 then q else Suc q)"
  proof (cases "r = 0")
    case True
    then have "file_size f + (n - 1) = q * n + (n - 1)"
      using n by simp
    then have "(file_size f + (n - 1)) div n = q"
      using n by (metis div_mult_self3 div_less add.right_neutral diff_less less_one not_gr_zero)
    then show ?thesis
      using inv True by (simp add: file_inv_def n_def)
  next
    case False
    then have "file_size f + (n - 1) = Suc q * n + (r - 1)"
      using n by (simp add: algebra_simps)
    then have "(file_size f + (n - 1)) div n = Suc q"
      using n by (metis div_mult_self3 div_less add.right_neutral less_imp_diff_less not_gr_zero)
    then show ?thesis
      using inv False by (simp add: file_inv_def n_def)
  qed
  have bs: "length bs = Suc q" "\<forall>b\<in>set bs. length b = n" "bs \<noteq> []" "take (file_size f) (concat bs) = file_contents f"
    using len inv file_inv_fits [OF inv] by (auto simp: bs_def file_inv_def n_def file_contents_def)
  define b where "b = last bs"
  define b' where "b' = take r b @ take avail src @ drop (r + avail) b"
  have step: "append_step f src =
      (f\<lparr>file_blocks := butlast bs @ [b'], file_size := file_size f + avail\<rparr>, drop avail src)"
    by (simp add: append_step_def Let_def bs_def r_def n_def avail_def b'_def b_def min_def)
  have b: "length b = n"
    using bs by (simp add: b_def)
  have av: "0 < avail" "r + avail \<le> n" "avail \<le> length src"
    using n src by (auto simp: avail_def)
  have b': "length b' = n"
    using b av by (simp add: b'_def)
  have "(file_size f + avail + (n - 1)) div n = Suc q"
  proof -
    have "file_size f + avail + (n - 1) = Suc q * n + (r + avail - 1)" "r + avail - 1 < n"
      using n av by (simp_all add: algebra_simps)
    then show ?thesis
      using n by (metis div_mult_self3 div_less add.right_neutral not_gr_zero)
  qed
  then show "file_inv (fst (append_step f src))"
    using bs b' by (auto simp: step file_inv_def n_def [symmetric] dest: in_set_butlastD)
  have old: "concat bs = concat (butlast bs) @ b" and lb: "length (concat (butlast bs)) = q * n"
    using bs length_concat_blocks [of "butlast bs" n]
    by (simp_all add: b_def in_set_butlastD) (metis append_butlast_last_id concat.simps concat_append append_Nil2)
  have "file_contents f = concat (butlast bs) @ take r b"
    using bs(4) old lb n by simp
  then show "file_contents (fst (append_step f src)) @ snd (append_step f src) = file_contents f @ src"
    using lb n b av by (simp add: step file_contents_def b'_def)
  show "file_refs (fst (append_step f src)) = file_refs f"
    by (simp add: step)
qed

lemma FileState_Append_contents:
  "file_inv f \<Longrightarrow> file_inv (FileState_Append src f) \<and>
     file_contents (FileState_Append src f) = file_contents f @ src \<and>
     file_refs (FileState_Append src f) = file_refs f"
proof (induction src f rule: FileState_Append.induct)
  case (1 src f)
  then show ?case
    using append_step_inv [of f src] by (cases "src = []") (simp_all add: FileState_Append.simps [of src f] FileState_Append.simps [of "[]" f])
qed

section \<open>Reading\<close>

lemma copy_blocks_take:
  assumes "\<forall>b\<in>set bs. length b = kMemBlockSize" "k < kMemBlockSize" "i * kMemBlockSize + k + m \<le> length (concat bs)"
  shows "copy_blocks bs i k m = take m (drop (i * kMemBlockSize + k) (concat bs))"
  using assms
proof (induction bs i k m rule: copy_blocks.induct)
  case (1 bs i k m)
  let ?n = kMemBlockSize
  show ?case
  proof (cases "m = 0")
    case True
    then show ?thesis by (simp add: copy_blocks.simps)
  next
    case False
    let ?a = "if m < ?n - k then m else ?n - k"
    have i: "i < length bs"
      using block_index [OF 1(2,4)] False by simp
    have len: "length (bs ! i) = ?n"
      using 1(2) i by simp
    have next_block: "copy_blocks bs (i + 1) 0 (m - ?a) = take (m - ?a) (drop (Suc i * ?n) (concat bs))"
    proof (cases "m - ?a = 0")
      case True
      then show ?thesis by (simp add: copy_blocks.simps)
    next
      case nz: False
      have "copy_blocks bs (i + 1) 0 (m - ?a) = take (m - ?a) (drop ((i + 1) * ?n + 0) (concat bs))"
        by (rule "1.IH") (use 1 False nz in \<open>auto simp: Let_def kMemBlockSize_def split: if_splits\<close>)
      then show ?thesis by simp
    qed
    have "copy_blocks bs i k m = take ?a (drop k (bs ! i)) @ take (m - ?a) (drop (Suc i * ?n) (concat bs))"
      using False 1(3) next_block by (subst copy_blocks.simps) (simp add: Let_def)
    also have "\<dots> = take m (drop k (bs ! i) @ drop (Suc i * ?n) (concat bs))"
      using len by (auto simp: take_append)
    finally show ?thesis
      using drop_in_block [OF 1(2) i, of k] 1(3) by simp
  qed
qed

lemma FileState_Read_contents:
  assumes inv: "file_inv f" and off: "offset \<le> file_size f"
  shows "FileState_Read offset n f = (StatusOK, take n (drop offset (file_contents f)))"
proof -
  let ?n = kMemBlockSize
  define m where "m = min n (file_size f - offset)"
  define i where "i = offset div ?n"
  define k where "k = offset mod ?n"
  have ik: "offset = i * ?n + k" "k < ?n"
    by (simp_all add: i_def k_def kMemBlockSize_def)
  have bl: "\<forall>b\<in>set (file_blocks f). length b = ?n"
    using inv by (simp add: file_inv_def)
  have fits: "i * ?n + k + m \<le> length (concat (file_blocks f))"
    using file_inv_fits [OF inv] off ik by (simp add: m_def)
  have spec: "take n (drop offset (file_contents f)) = take m (drop (i * ?n + k) (concat (file_blocks f)))"
    by (simp add: file_contents_def drop_take m_def ik(1) [symmetric])
  have one: "take m (drop k (file_blocks f ! i)) = take m (drop (i * ?n + k) (concat (file_blocks f)))"
    if "m \<le> ?n - k" "0 < m"
  proof -
    have i: "i < length (file_blocks f)"
      by (rule block_index [OF bl fits that(2)])
    then have "length (file_blocks f ! i) = ?n"
      using bl by simp
    then show ?thesis
      using drop_in_block [OF bl i, of k] ik that by simp
  qed
  have "(if n > file_size f - offset then file_size f - offset else n) = m"
    by (simp add: m_def min_def)
  then show ?thesis
    unfolding spec FileState_Read_def Let_def i_def [symmetric] k_def [symmetric]
    using off one copy_blocks_take [OF bl ik(2) fits] by simp
qed

interpretation mem_file: writable_file WritableFileImpl file_inv file_contents
  by unfold_locales (simp_all add: WritableFileImpl_def FileState_Append_contents)

definition reader_ok :: "FileState \<times> nat \<Rightarrow> bool" where
  "reader_ok s \<longleftrightarrow> file_inv (fst s) \<and> snd s \<le> file_size (fst s)"

definition reader_rest :: "FileState \<times> nat \<Rightarrow> bytes" where
  "reader_rest s = drop (snd s) (file_contents (fst s))"

interpretation mem_reader: sequential_file SequentialFileImpl reader_ok reader_rest
proof
  fix s :: "FileState \<times> nat" and n :: nat
  assume "reader_ok s"
  then obtain f pos where s: "s = (f, pos)" "file_inv f" "pos \<le> file_size f"
    by (cases s) (auto simp: reader_ok_def)
  have len: "length (file_contents f) = file_size f"
    by (rule length_file_contents [OF s(2)])
  show "\<exists>s'. sf_Read SequentialFileImpl n s = (StatusOK, take n (reader_rest s), s') \<and> reader_ok s' \<and>
      reader_rest s' = drop n (reader_rest s)"
    using s len
    by (auto simp: SequentialFileImpl_def SequentialFileImpl_Read_def FileState_Read_contents reader_rest_def reader_ok_def
        min_def add.commute)
  show "\<exists>s'. sf_Skip SequentialFileImpl n s = (StatusOK, s') \<and> reader_ok s' \<and> reader_rest s' = drop n (reader_rest s)"
    if "n \<le> length (reader_rest s)"
    using s len that
    by (auto simp: SequentialFileImpl_def SequentialFileImpl_Skip_def Let_def reader_rest_def reader_ok_def add.commute)
qed

section \<open>The environment\<close>

text \<open>
  \<open>file_map_\<close> maps names to pointers, of which \<open>None\<close> is \<open>NULL\<close>; the heap maps the addresses of the
  live \<open>FileState\<close> objects.  A use of a deleted object is \<open>None\<close>.
\<close>

record MemEnv =
  env_map :: "bytes \<rightharpoonup> nat option"
  env_heap :: "nat \<rightharpoonup> FileState"
  env_fresh :: nat

definition with_file :: "nat option \<Rightarrow> (FileState \<Rightarrow> FileState) \<Rightarrow> MemEnv \<Rightarrow> MemEnv option" where
  "with_file p g e =
     (case p of
        None \<Rightarrow> None
      | Some a \<Rightarrow> (case env_heap e a of None \<Rightarrow> None | Some f \<Rightarrow> Some (e\<lparr>env_heap := (env_heap e)(a \<mapsto> g f)\<rparr>)))"

definition Env_Unref :: "nat option \<Rightarrow> MemEnv \<Rightarrow> MemEnv option" where
  "Env_Unref p e =
     (case p of
        None \<Rightarrow> None
      | Some a \<Rightarrow>
          (case env_heap e a of
             None \<Rightarrow> None
           | Some f \<Rightarrow>
               (case FileState_Unref f of
                  None \<Rightarrow> None
                | Some (Inl _) \<Rightarrow> Some (e\<lparr>env_heap := (env_heap e)(a := None)\<rparr>)
                | Some (Inr f') \<Rightarrow> Some (e\<lparr>env_heap := (env_heap e)(a \<mapsto> f')\<rparr>))))"

text \<open>\<open>file_map_[fname]\<close>, which inserts \<open>NULL\<close> for a name that is missing.\<close>

definition map_slot :: "bytes \<Rightarrow> MemEnv \<Rightarrow> nat option \<times> MemEnv" where
  "map_slot fname e =
     (case env_map e fname of
        Some p \<Rightarrow> (p, e)
      | None \<Rightarrow> (None, e\<lparr>env_map := (env_map e)(fname \<mapsto> None)\<rparr>))"

definition FileExists :: "bytes \<Rightarrow> MemEnv \<Rightarrow> bool" where
  "FileExists fname e \<longleftrightarrow> env_map e fname \<noteq> None"

text \<open>A new file object is the address of its \<open>FileState\<close>, which it references.\<close>

definition NewSequentialFile :: "bytes \<Rightarrow> MemEnv \<Rightarrow> (Status \<times> nat option \<times> MemEnv) option" where
  "NewSequentialFile fname e =
     (if env_map e fname = None then Some (Status_IOError fname (cstr ''File not found''), None, e)
      else
        let (p, e1) = map_slot fname e in
        (case with_file p FileState_Ref e1 of None \<Rightarrow> None | Some e2 \<Rightarrow> Some (StatusOK, p, e2)))"

definition NewRandomAccessFile :: "bytes \<Rightarrow> MemEnv \<Rightarrow> (Status \<times> nat option \<times> MemEnv) option" where
  "NewRandomAccessFile fname e =
     (if env_map e fname = None then Some (Status_IOError fname (cstr ''File not found''), None, e)
      else
        let (p, e1) = map_slot fname e in
        (case with_file p FileState_Ref e1 of None \<Rightarrow> None | Some e2 \<Rightarrow> Some (StatusOK, p, e2)))"

definition DeleteFileInternal :: "bytes \<Rightarrow> MemEnv \<Rightarrow> MemEnv option" where
  "DeleteFileInternal fname e =
     (if env_map e fname = None then Some e
      else
        let (p, e1) = map_slot fname e in
        (case Env_Unref p e1 of
           None \<Rightarrow> None
         | Some e2 \<Rightarrow> Some (e2\<lparr>env_map := (env_map e2)(fname := None)\<rparr>)))"

definition NewWritableFile :: "bytes \<Rightarrow> MemEnv \<Rightarrow> (Status \<times> nat \<times> MemEnv) option" where
  "NewWritableFile fname e =
     (case (if env_map e fname \<noteq> None then DeleteFileInternal fname e else Some e) of
        None \<Rightarrow> None
      | Some e1 \<Rightarrow>
          let a = env_fresh e1;
              f = FileState_Ref (FileState_Ref FileState_new)
          in Some (StatusOK, a,
               e1\<lparr>env_heap := (env_heap e1)(a \<mapsto> f), env_map := (env_map e1)(fname \<mapsto> Some a),
                  env_fresh := a + 1\<rparr>))"

definition Env_DeleteFile :: "bytes \<Rightarrow> MemEnv \<Rightarrow> (Status \<times> MemEnv) option" where
  "Env_DeleteFile fname e =
     (if env_map e fname = None then Some (Status_IOError fname (cstr ''File not found''), e)
      else (case DeleteFileInternal fname e of None \<Rightarrow> None | Some e1 \<Rightarrow> Some (StatusOK, e1)))"

definition GetFileSize :: "bytes \<Rightarrow> MemEnv \<Rightarrow> (Status \<times> nat) option" where
  "GetFileSize fname e =
     (case env_map e fname of
        None \<Rightarrow> Some (Status_IOError fname (cstr ''File not found''), 0)
      | Some None \<Rightarrow> None
      | Some (Some a) \<Rightarrow> (case env_heap e a of None \<Rightarrow> None | Some f \<Rightarrow> Some (StatusOK, file_size f)))"

definition RenameFile :: "bytes \<Rightarrow> bytes \<Rightarrow> MemEnv \<Rightarrow> (Status \<times> MemEnv) option" where
  "RenameFile src target e =
     (if env_map e src = None then Some (Status_IOError src (cstr ''File not found''), e)
      else
        (case DeleteFileInternal target e of
           None \<Rightarrow> None
         | Some e1 \<Rightarrow>
             let (p, e2) = map_slot src e1;
                 e3 = e2\<lparr>env_map := (env_map e2)(target \<mapsto> p)\<rparr>
             in Some (StatusOK, e3\<lparr>env_map := (env_map e3)(src := None)\<rparr>)))"

text \<open>Every name leads to a live file of its own with a reference.\<close>

definition env_inv :: "MemEnv \<Rightarrow> bool" where
  "env_inv e \<longleftrightarrow>
     (\<forall>n p. env_map e n = Some p \<longrightarrow> (\<exists>a f. p = Some a \<and> a < env_fresh e \<and> env_heap e a = Some f \<and> 0 < file_refs f)) \<and>
     (\<forall>n m p. env_map e n = Some p \<and> env_map e m = Some p \<longrightarrow> n = m)"

text \<open>The file a name leads to.\<close>

definition env_file :: "MemEnv \<Rightarrow> bytes \<Rightarrow> FileState option" where
  "env_file e n = (case env_map e n of Some (Some a) \<Rightarrow> env_heap e a | _ \<Rightarrow> None)"

lemma env_invE:
  assumes "env_inv e" "env_map e n \<noteq> None"
  obtains a f where "env_map e n = Some (Some a)" "a < env_fresh e" "env_heap e a = Some f" "0 < file_refs f"
  using assms unfolding env_inv_def by (metis option.exhaust)

lemma DeleteFileInternal_run:
  assumes inv: "env_inv e"
  shows "\<exists>e'. DeleteFileInternal n e = Some e' \<and> env_inv e' \<and> env_map e' = (env_map e)(n := None) \<and>
      env_fresh e' = env_fresh e \<and> (\<forall>m. m \<noteq> n \<longrightarrow> env_file e' m = env_file e m)"
proof (cases "env_map e n = None")
  case True
  then have "(env_map e)(n := None) = env_map e"
    by auto
  then show ?thesis
    using True inv by (simp add: DeleteFileInternal_def)
next
  case False
  obtain a f where a: "env_map e n = Some (Some a)" "env_heap e a = Some f" "0 < file_refs f"
    using inv False by (rule env_invE)
  have other: "p \<noteq> Some a" if "env_map e m = Some p" "m \<noteq> n" for m p
    using inv a(1) that unfolding env_inv_def by metis
  obtain h where h: "Env_Unref (Some a) e = Some (e\<lparr>env_heap := h\<rparr>)" "\<And>b. b \<noteq> a \<Longrightarrow> h b = env_heap e b"
  proof (cases "file_refs f = 1")
    case True
    then show ?thesis
      using a by (intro that [of "(env_heap e)(a := None)"]) (simp_all add: Env_Unref_def FileState_Unref_def Let_def)
  next
    case False
    then show ?thesis
      using a by (intro that [of "(env_heap e)(a \<mapsto> f\<lparr>file_refs := file_refs f - 1\<rparr>)"])
        (simp_all add: Env_Unref_def FileState_Unref_def Let_def)
  qed
  let ?e = "e\<lparr>env_heap := h, env_map := (env_map e)(n := None)\<rparr>"
  have "DeleteFileInternal n e = Some ?e"
    using a h(1) by (simp add: DeleteFileInternal_def map_slot_def)
  moreover have "env_file ?e m = env_file e m" if "m \<noteq> n" for m
    using other [of m] that h(2) by (auto simp: env_file_def split: option.splits)
  moreover have "env_inv ?e"
    unfolding env_inv_def
  proof (intro conjI allI impI)
    fix m p
    assume m: "env_map ?e m = Some p"
    then have "m \<noteq> n" "env_map e m = Some p"
      by (auto split: if_splits)
    then obtain b g where "p = Some b" "b < env_fresh e" "env_heap e b = Some g" "0 < file_refs g" "b \<noteq> a"
      using inv other [of m p] unfolding env_inv_def by (metis option.inject)
    then show "\<exists>b g. p = Some b \<and> b < env_fresh ?e \<and> env_heap ?e b = Some g \<and> 0 < file_refs g"
      using h(2) by simp
  next
    fix m k p
    assume "env_map ?e m = Some p \<and> env_map ?e k = Some p"
    then show "m = k"
      using inv unfolding env_inv_def by (metis (no_types, lifting) MemEnv.select_convs(1) MemEnv.surjective
        MemEnv.update_convs(1,2) fun_upd_apply option.distinct(1))
  qed
  ultimately show ?thesis
    by auto
qed

lemma RenameFile_moves:
  assumes inv: "env_inv e" and src: "env_map e src \<noteq> None" and ne: "src \<noteq> target"
  shows "\<exists>e'. RenameFile src target e = Some (StatusOK, e') \<and> env_inv e' \<and>
      env_file e' target = env_file e src \<and> \<not> FileExists src e' \<and>
      (\<forall>n. n \<noteq> src \<and> n \<noteq> target \<longrightarrow> env_file e' n = env_file e n)"
proof -
  obtain e1 where e1: "DeleteFileInternal target e = Some e1" "env_inv e1" "env_map e1 = (env_map e)(target := None)"
      "\<And>m. m \<noteq> target \<Longrightarrow> env_file e1 m = env_file e m"
    using DeleteFileInternal_run [OF inv, of target] by auto
  obtain p where p: "env_map e src = Some p" "env_map e1 src = Some p"
    using src ne e1(3) by auto
  let ?m = "(env_map e1)(target \<mapsto> p, src := None)"
  let ?e = "e1\<lparr>env_map := ?m\<rparr>"
  have parts: "env_map ?e = ?m" "env_heap ?e = env_heap e1" "env_fresh ?e = env_fresh e1"
    by simp_all
  have run: "RenameFile src target e = Some (StatusOK, ?e)"
    using p e1(1) by (simp add: RenameFile_def map_slot_def)
  have live: "\<exists>a f. q = Some a \<and> a < env_fresh e1 \<and> env_heap e1 a = Some f \<and> 0 < file_refs f"
    if "env_map e1 n = Some q" for n q
    using e1(2) that unfolding env_inv_def by blast
  have own: "n = m" if "env_map e1 n = Some q" "env_map e1 m = Some q" for n m q
    using e1(2) that unfolding env_inv_def by blast
  have "env_inv ?e"
    unfolding env_inv_def parts
  proof (intro conjI allI impI)
    show "\<exists>a f. q = Some a \<and> a < env_fresh e1 \<and> env_heap e1 a = Some f \<and> 0 < file_refs f" if "?m n = Some q" for n q
      using that live [of n q] live [OF p(2)] by (auto split: if_splits)
    show "n = m" if "?m n = Some q \<and> ?m m = Some q" for n m q
      using that own p(2) by (metis fun_upd_apply option.distinct(1))
  qed
  moreover have "env_file ?e target = env_file e src"
    using ne p e1(4) [of src] unfolding env_file_def parts by simp
  moreover have "env_file ?e n = env_file e n" if "n \<noteq> src" "n \<noteq> target" for n
    using that e1(4) [of n] unfolding env_file_def parts by simp
  ultimately show ?thesis
    using run by (auto simp: FileExists_def)
qed

text \<open>Renaming a file to its own name deletes it.\<close>

lemma RenameFile_self:
  assumes inv: "env_inv e" and src: "env_map e src \<noteq> None"
  shows "\<exists>e'. RenameFile src src e = Some (StatusOK, e') \<and> \<not> FileExists src e'"
proof -
  obtain e1 where "DeleteFileInternal src e = Some e1" "env_map e1 = (env_map e)(src := None)"
    using DeleteFileInternal_run [OF inv, of src] by auto
  moreover obtain p where "env_map e src = Some p"
    using src by blast
  ultimately show ?thesis
    by (simp add: RenameFile_def map_slot_def FileExists_def)
qed

end
