(* ===== verification/Decimal.thy ===== *)
theory Decimal
  imports Prelude
begin

text \<open>
  Numbers as decimal text: the conversions \<open>%u\<close>, \<open>%d\<close> and \<open>%llu\<close> of the \<open>printf\<close> family the program
  builds paths, counters and messages with, and the digits \<open>fscanf\<close> and the parsers read back.
\<close>

text \<open>\<open>%u\<close> and \<open>%d\<close>.\<close>

function print_nat :: "nat \<Rightarrow> bytes" where
  "print_nat n = (if n < 10 then [of_nat (48 + n)] else print_nat (n div 10) @ [of_nat (48 + n mod 10)])"
  by auto

termination print_nat
  by (relation "measure id") auto

definition print_int :: "int \<Rightarrow> bytes" where
  "print_int i = (if i < 0 then 45 # print_nat (nat (- i)) else print_nat (nat i))"

text \<open>The digits at the front of a text, as \<open>%u\<close> of \<open>fscanf\<close> reads them after white space.\<close>

definition is_digit :: "byte \<Rightarrow> bool" where
  "is_digit c \<longleftrightarrow> 48 \<le> c \<and> c \<le> 57"

definition is_space :: "byte \<Rightarrow> bool" where
  "is_space c \<longleftrightarrow> c = 32 \<or> 9 \<le> c \<and> c \<le> 13"

definition digits_value :: "bytes \<Rightarrow> nat" where
  "digits_value ds = fold (\<lambda>d n. 10 * n + (unat d - 48)) ds 0"

definition scan_nat :: "bytes \<Rightarrow> nat option" where
  "scan_nat text =
     (let ds = takeWhile is_digit (dropWhile is_space text)
      in if ds = [] then None else Some (digits_value ds))"

declare print_nat.simps [simp del]

lemma unat_digit [simp]:
  assumes "k < 10"
  shows "unat (48 + of_nat k :: byte) = 48 + k"
proof -
  have "unat (of_nat (48 + k) :: byte) = 48 + k"
    using assms by (simp only: unat_of_nat) (simp add: take_bit_nat_eq_self)
  then show ?thesis
    by simp
qed

lemma is_digit_print_nat: "c \<in> set (print_nat n) \<Longrightarrow> is_digit c"
proof (induction n rule: print_nat.induct)
  case (1 n)
  have digit: "is_digit (of_nat (48 + k))" if "k < 10" for k
    using that by (auto simp: is_digit_def word_le_nat_alt)
  show ?case
    using 1 digit [of n] digit [of "n mod 10"] by (subst (asm) (2) print_nat.simps) (auto split: if_splits)
qed

lemma digits_value_snoc: "digits_value (ds @ [d]) = 10 * digits_value ds + (unat d - 48)"
  by (simp add: digits_value_def)

lemma digits_value_print_nat: "digits_value (print_nat n) = n"
proof (induction n rule: print_nat.induct)
  case (1 n)
  show ?case
  proof (cases "n < 10")
    case True
    then show ?thesis
      by (simp add: print_nat.simps digits_value_def)
  next
    case False
    then show ?thesis
      using 1 by (subst print_nat.simps) (simp add: digits_value_snoc)
  qed
qed

lemma print_nat_not_Nil [simp]: "print_nat n \<noteq> []"
  by (subst print_nat.simps) simp

lemma print_nat_inject [simp]: "print_nat m = print_nat n \<longleftrightarrow> m = n"
  by (metis digits_value_print_nat)

text \<open>What \<open>fprintf("%u\n")\<close> wrote, \<open>fscanf("%u")\<close> reads.\<close>

lemma scan_print_nat: "\<not> is_digit c \<Longrightarrow> scan_nat (print_nat n @ c # rest) = Some n"
proof -
  assume c: "\<not> is_digit c"
  obtain d ds where ds: "print_nat n = d # ds"
    by (cases "print_nat n") auto
  have "is_digit d"
    using is_digit_print_nat [of d n] ds by simp
  then have "\<not> is_space d"
    by (auto simp: is_digit_def is_space_def word_le_nat_alt)
  then have "dropWhile is_space (print_nat n @ c # rest) = print_nat n @ c # rest"
    using ds by simp
  moreover have "takeWhile is_digit (print_nat n @ c # rest) = print_nat n"
    using is_digit_print_nat c by (subst takeWhile_append2) auto
  ultimately show ?thesis
    by (simp add: scan_nat_def digits_value_print_nat)
qed

end
