(* ===== verification/Log_Format.thy ===== *)
theory Log_Format
  imports Crc32c Mem_Env Decimal "HOL-Library.Monad_Syntax"
begin

unbundle bit_operations_syntax

text \<open>
  The write-ahead log: \<open>lib/leveldb/db/log_format.h\<close>, \<open>log_writer.cc\<close> and \<open>log_reader.cc\<close>.  The file
  is cut into blocks of 32768 bytes; a record is written as fragments, each with a checksum, that
  never cross a block.  Both sides work on the file interface of \<open>Mem_Env\<close>.  A failed \<open>assert\<close> and a
  loop that does not end are \<open>None\<close>; the reports of the reader are collected in \<open>lr_reports\<close>.

  The main result is the round trip: whatever records are added to an empty log, reading the file
  returns those records in order and then the end, with no corruption reported.
\<close>

section \<open>Format\<close>

definition kZeroType :: byte where "kZeroType = 0"
definition kFullType :: byte where "kFullType = 1"
definition kFirstType :: byte where "kFirstType = 2"
definition kMiddleType :: byte where "kMiddleType = 3"
definition kLastType :: byte where "kLastType = 4"
definition kLogBlockSize :: nat where "kLogBlockSize = 32768"
definition kHeaderSize :: nat where "kHeaderSize = 4 + 1 + 2"
definition kEof :: u32 where "kEof = 4 + 1"
definition kBadRecord :: u32 where "kBadRecord = 4 + 2"

section \<open>Writer\<close>

record 'f LogWriter =
  lw_dest :: 'f
  lw_block_offset :: nat

definition Writer_new :: "'f \<Rightarrow> 'f LogWriter" where
  "Writer_new dest = \<lparr>lw_dest = dest, lw_block_offset = 0\<rparr>"

definition type_crc :: "byte \<Rightarrow> u32" where
  "type_crc t = Crc_Value 0 [t]"

definition EmitPhysicalRecord ::
    "'f WritableFile \<Rightarrow> byte \<Rightarrow> bytes \<Rightarrow> 'f LogWriter \<Rightarrow> (Status \<times> 'f LogWriter) option" where
  "EmitPhysicalRecord file t ptr w =
     (let n = length ptr in
      if n \<le> 0xffff \<and> lw_block_offset w + kHeaderSize + n \<le> kLogBlockSize then
        let crc = Crc_Mask (Crc_Extend 0 (type_crc t) ptr);
            buf = EncodeFixed32 crc @ [of_nat (n mod 256), of_nat (n div 256), t];
            (s, d) = wf_Append file buf (lw_dest w);
            (s, d) = (if Status_ok s then
                        let (s, d) = wf_Append file ptr d in
                        if Status_ok s then wf_Flush file d else (s, d)
                      else (s, d))
        in Some (s, w\<lparr>lw_dest := d, lw_block_offset := lw_block_offset w + kHeaderSize + n\<rparr>)
      else None)"

definition switch_block :: "'f WritableFile \<Rightarrow> 'f LogWriter \<Rightarrow> 'f LogWriter" where
  "switch_block file w =
     (let leftover = kLogBlockSize - lw_block_offset w in
      if leftover < kHeaderSize then
        let d = (if leftover > 0 then snd (wf_Append file (replicate leftover 0) (lw_dest w)) else lw_dest w)
        in w\<lparr>lw_dest := d, lw_block_offset := 0\<rparr>
      else w)"

definition fragment_type :: "bool \<Rightarrow> bool \<Rightarrow> byte" where
  "fragment_type is_begin is_end =
     (if is_begin \<and> is_end then kFullType
      else if is_begin then kFirstType
      else if is_end then kLastType
      else kMiddleType)"

partial_function (option) AddRecord_loop ::
    "'f WritableFile \<Rightarrow> bytes \<Rightarrow> bool \<Rightarrow> 'f LogWriter \<Rightarrow> (Status \<times> 'f LogWriter) option" where
  "AddRecord_loop file ptr is_begin w =
     (if lw_block_offset w > kLogBlockSize then None
      else
        let w1 = switch_block file w in
        if lw_block_offset w1 + kHeaderSize > kLogBlockSize then None
        else
          let left = length ptr;
              avail = kLogBlockSize - lw_block_offset w1 - kHeaderSize;
              fragment_length = (if left < avail then left else avail);
              is_end = (left = fragment_length)
          in do {
            (s, w2) \<leftarrow> EmitPhysicalRecord file (fragment_type is_begin is_end) (take fragment_length ptr) w1;
            if Status_ok s \<and> left - fragment_length > 0
            then AddRecord_loop file (drop fragment_length ptr) False w2
            else Some (s, w2)
          })"

definition AddRecord :: "'f WritableFile \<Rightarrow> bytes \<Rightarrow> 'f LogWriter \<Rightarrow> (Status \<times> 'f LogWriter) option" where
  "AddRecord file record w = AddRecord_loop file record True w"

section \<open>Reader\<close>

record 's LogReader =
  lr_file :: 's
  lr_reporter :: bool
  lr_checksum :: bool
  lr_buffer :: bytes
  lr_eof :: bool
  lr_last_record_offset :: u64
  lr_end_of_buffer_offset :: u64
  lr_initial_offset :: u64
  lr_reports :: "(nat \<times> Status) list"

definition Reader_new :: "'s \<Rightarrow> bool \<Rightarrow> bool \<Rightarrow> u64 \<Rightarrow> 's LogReader" where
  "Reader_new file reporter checksum initial_offset =
     \<lparr>lr_file = file, lr_reporter = reporter, lr_checksum = checksum, lr_buffer = [], lr_eof = False,
      lr_last_record_offset = 0, lr_end_of_buffer_offset = 0, lr_initial_offset = initial_offset,
      lr_reports = []\<rparr>"

definition ReportDrop :: "nat \<Rightarrow> Status \<Rightarrow> 's LogReader \<Rightarrow> 's LogReader" where
  "ReportDrop bytes reason r =
     (if lr_reporter r \<and>
         lr_end_of_buffer_offset r - of_nat (length (lr_buffer r)) - of_nat bytes \<ge> lr_initial_offset r
      then r\<lparr>lr_reports := lr_reports r @ [(bytes, reason)]\<rparr> else r)"

definition ReportCorruption :: "nat \<Rightarrow> bytes \<Rightarrow> 's LogReader \<Rightarrow> 's LogReader" where
  "ReportCorruption bytes reason r = ReportDrop bytes (Status_Corruption reason) r"

definition SkipToInitialBlock :: "'s SequentialFile \<Rightarrow> 's LogReader \<Rightarrow> bool \<times> 's LogReader" where
  "SkipToInitialBlock file r =
     (let offset_in_block = unat (lr_initial_offset r) mod kLogBlockSize;
          start = lr_initial_offset r - of_nat offset_in_block;
          start = (if offset_in_block > kLogBlockSize - 6 then start + of_nat kLogBlockSize else start);
          r1 = r\<lparr>lr_end_of_buffer_offset := start\<rparr>
      in if start > 0 then
           let (skip_status, f) = sf_Skip file (unat start) (lr_file r1);
               r2 = r1\<lparr>lr_file := f\<rparr>
           in if \<not> Status_ok skip_status then (False, ReportDrop (unat start) skip_status r2) else (True, r2)
         else (True, r1))"

text \<open>The result parameter keeps its old value on an early return.\<close>

partial_function (option) ReadPhysicalRecord ::
    "'s SequentialFile \<Rightarrow> bytes \<Rightarrow> 's LogReader \<Rightarrow> (u32 \<times> bytes \<times> 's LogReader) option" where
  "ReadPhysicalRecord file result r =
     (if length (lr_buffer r) < kHeaderSize then
        if \<not> lr_eof r then
          let (status, buf, f) = sf_Read file kLogBlockSize (lr_file r);
              r1 = r\<lparr>lr_file := f, lr_buffer := buf,
                     lr_end_of_buffer_offset := lr_end_of_buffer_offset r + of_nat (length buf)\<rparr>
          in if \<not> Status_ok status then
               Some (kEof, result, (ReportDrop kLogBlockSize status (r1\<lparr>lr_buffer := []\<rparr>))\<lparr>lr_eof := True\<rparr>)
             else if length buf < kLogBlockSize then ReadPhysicalRecord file result (r1\<lparr>lr_eof := True\<rparr>)
             else ReadPhysicalRecord file result r1
        else if length (lr_buffer r) = 0 then Some (kEof, result, r)
        else
          let drop_size = length (lr_buffer r)
          in Some (kEof, result,
               ReportCorruption drop_size (cstr ''truncated record at end of file'') (r\<lparr>lr_buffer := []\<rparr>))
      else
        let header = lr_buffer r;
            a = unat (header ! 4);
            b = unat (header ! 5);
            type = scast (header ! 6) :: u32;
            len = a + b * 256
        in if kHeaderSize + len > length (lr_buffer r) then
             let drop_size = length (lr_buffer r)
             in Some (kBadRecord, result, ReportCorruption drop_size (cstr ''bad record length'') (r\<lparr>lr_buffer := []\<rparr>))
           else if type = ucast kZeroType \<and> len = 0 then Some (kBadRecord, result, r\<lparr>lr_buffer := []\<rparr>)
           else if lr_checksum r \<and>
                   Crc_Value 0 (take (1 + len) (drop 6 header)) \<noteq> Crc_Unmask (DecodeFixed32 header) then
             let drop_size = length (lr_buffer r)
             in Some (kBadRecord, result, ReportCorruption drop_size (cstr ''checksum mismatch'') (r\<lparr>lr_buffer := []\<rparr>))
           else
             let r1 = r\<lparr>lr_buffer := drop (kHeaderSize + len) (lr_buffer r)\<rparr> in
             if lr_end_of_buffer_offset r1 - of_nat (length (lr_buffer r1)) - of_nat kHeaderSize - of_nat len <
                lr_initial_offset r1
             then Some (kBadRecord, [], r1)
             else Some (type, take len (drop kHeaderSize header), r1))"

partial_function (option) ReadRecord_loop ::
    "'s SequentialFile \<Rightarrow> bool \<Rightarrow> u64 \<Rightarrow> bytes \<Rightarrow> bytes \<Rightarrow> 's LogReader \<Rightarrow>
     (bool \<times> bytes \<times> 's LogReader) option" where
  "ReadRecord_loop file in_fragmented prospective scratch fragment r = do {
     let physical = lr_end_of_buffer_offset r - of_nat (length (lr_buffer r));
     (type, fragment, r1) \<leftarrow> ReadPhysicalRecord file fragment r;
     if type = ucast kFullType then
       let r2 = (if in_fragmented \<and> scratch \<noteq> []
                 then ReportCorruption (length scratch) (cstr ''partial record without end(1)'') r1 else r1)
       in Some (True, fragment, r2\<lparr>lr_last_record_offset := physical\<rparr>)
     else if type = ucast kFirstType then
       let r2 = (if in_fragmented \<and> scratch \<noteq> []
                 then ReportCorruption (length scratch) (cstr ''partial record without end(2)'') r1 else r1)
       in ReadRecord_loop file True physical fragment fragment r2
     else if type = ucast kMiddleType then
       if \<not> in_fragmented then
         ReadRecord_loop file in_fragmented prospective scratch fragment
           (ReportCorruption (length fragment) (cstr ''missing start of fragmented record(1)'') r1)
       else ReadRecord_loop file in_fragmented prospective (scratch @ fragment) fragment r1
     else if type = ucast kLastType then
       if \<not> in_fragmented then
         ReadRecord_loop file in_fragmented prospective scratch fragment
           (ReportCorruption (length fragment) (cstr ''missing start of fragmented record(2)'') r1)
       else Some (True, scratch @ fragment, r1\<lparr>lr_last_record_offset := prospective\<rparr>)
     else if type = kEof then
       Some (False, [],
         if in_fragmented then ReportCorruption (length scratch) (cstr ''partial record without end(3)'') r1 else r1)
     else if type = kBadRecord then
       if in_fragmented then
         ReadRecord_loop file False prospective [] fragment
           (ReportCorruption (length scratch) (cstr ''error in middle of record'') r1)
       else ReadRecord_loop file in_fragmented prospective scratch fragment r1
     else
       ReadRecord_loop file False prospective [] fragment
         (ReportCorruption (length fragment + (if in_fragmented then length scratch else 0))
            (cstr ''unknown record type '' @ print_nat (unat type)) r1)
   }"

text \<open>The returned flag with the record.\<close>

definition ReadRecord :: "'s SequentialFile \<Rightarrow> 's LogReader \<Rightarrow> (bool \<times> bytes \<times> 's LogReader) option" where
  "ReadRecord file r =
     (if lr_last_record_offset r < lr_initial_offset r then
        let (ok, r1) = SkipToInitialBlock file r in
        if \<not> ok then Some (False, [], r1) else ReadRecord_loop file False 0 [] [] r1
      else ReadRecord_loop file False 0 [] [] r)"

section \<open>The layout of a log\<close>

definition pad_len :: "nat \<Rightarrow> nat" where
  "pad_len off = (let left = kLogBlockSize - off mod kLogBlockSize in if left < kHeaderSize then left else 0)"

definition phys :: "byte \<Rightarrow> bytes \<Rightarrow> bytes" where
  "phys t d = EncodeFixed32 (Crc_Mask (Crc_Extend 0 (type_crc t) d)) @
     [of_nat (length d mod 256), of_nat (length d div 256), t] @ d"

fun emit :: "nat \<Rightarrow> (byte \<times> bytes) list \<Rightarrow> bytes" where
  "emit off [] = []"
| "emit off ((t, d) # rs) =
     replicate (pad_len off) 0 @ phys t d @ emit (off + pad_len off + kHeaderSize + length d) rs"

fun fits :: "nat \<Rightarrow> (byte \<times> bytes) list \<Rightarrow> bool" where
  "fits off [] \<longleftrightarrow> True"
| "fits off ((t, d) # rs) \<longleftrightarrow>
     (off + pad_len off) mod kLogBlockSize + kHeaderSize + length d \<le> kLogBlockSize \<and>
     t \<in> {kFullType, kFirstType, kMiddleType, kLastType} \<and> fits (off + pad_len off + kHeaderSize + length d) rs"

text \<open>The fragments of one record.\<close>

fun fragments :: "bool \<Rightarrow> (byte \<times> bytes) list \<Rightarrow> bytes \<Rightarrow> bool" where
  "fragments b [] data \<longleftrightarrow> False"
| "fragments b ((t, d) # rs) data \<longleftrightarrow>
     (if rs = [] then t = fragment_type b True \<and> d = data
      else t = fragment_type b False \<and> (\<exists>e. data = d @ e \<and> fragments False rs e))"

lemma log_sizes [simp]: "kHeaderSize = 7" "kLogBlockSize = 32768"
  by (simp_all add: kHeaderSize_def kLogBlockSize_def)

lemma length_phys [simp]: "length (phys t d) = 7 + length d"
  by (simp add: phys_def)

lemma emit_append: "emit off (rs @ ss) = emit off rs @ emit (off + length (emit off rs)) ss"
proof (induction rs arbitrary: off)
  case (Cons r rs)
  obtain t d where "r = (t, d)"
    by (cases r)
  then show ?case
    using Cons by (simp add: add.assoc)
qed simp

lemma fits_append: "fits off (rs @ ss) \<longleftrightarrow> fits off rs \<and> fits (off + length (emit off rs)) ss"
proof (induction rs arbitrary: off)
  case (Cons r rs)
  obtain t d where "r = (t, d)"
    by (cases r)
  then show ?case
    using Cons by (simp add: add.assoc)
qed simp

lemma mod_fill: "(off :: nat) mod k + n = k \<Longrightarrow> (off + n) mod k = 0"
  by (metis mod_add_left_eq mod_self)

lemma pad_len_fill: "pad_len off \<noteq> 0 \<Longrightarrow> (off + pad_len off) mod 32768 = 0"
  by (rule mod_fill) (auto simp: pad_len_def Let_def split: if_splits)

lemma pad_len_end: "(off + pad_len off) mod 32768 + 7 \<le> 32768"
proof (cases "pad_len off = 0")
  case True
  then have "\<not> 32768 - off mod 32768 < 7"
    using mod_less_divisor [of 32768 off] by (auto simp: pad_len_def Let_def split: if_splits)
  then show ?thesis
    using True by simp
qed (simp add: pad_len_fill)

lemma fragment_type_cases: "fragment_type b e \<in> {kFullType, kFirstType, kMiddleType, kLastType}"
  by (simp add: fragment_type_def)

text \<open>Where the writer stands in the block, for a file of \<open>off\<close> bytes.\<close>

definition offset_ok :: "nat \<Rightarrow> nat \<Rightarrow> bool" where
  "offset_ok off bo \<longleftrightarrow> bo = off mod kLogBlockSize \<or> bo = kLogBlockSize \<and> off mod kLogBlockSize = 0"

lemma offset_ok_le: "offset_ok off bo \<Longrightarrow> bo \<le> 32768"
  using mod_less_divisor [of 32768 off] by (auto simp: offset_ok_def)

lemma offset_ok_add:
  assumes "off mod 32768 + n \<le> 32768"
  shows "offset_ok (off + n) (off mod 32768 + n)"
proof (cases "off mod 32768 + n = 32768")
  case True
  then have "(off + n) mod 32768 = 0"
    by (rule mod_fill)
  then show ?thesis using True by (simp add: offset_ok_def)
next
  case False
  then have "off mod 32768 + n < 32768"
    using assms by simp
  then have "(off + n) mod 32768 = off mod 32768 + n"
    by (metis mod_add_left_eq mod_less)
  then show ?thesis by (simp add: offset_ok_def)
qed

context writable_file
begin

definition w_at :: "nat \<Rightarrow> bytes \<Rightarrow> 'f LogWriter \<Rightarrow> bool" where
  "w_at off C w \<longleftrightarrow> good (lw_dest w) \<and> contents (lw_dest w) = C \<and> length C = off \<and> offset_ok off (lw_block_offset w)"

lemma switch_block_run:
  assumes "w_at off C w"
  shows "w_at (off + pad_len off) (C @ replicate (pad_len off) 0) (switch_block dest w) \<and>
    lw_block_offset (switch_block dest w) = (off + pad_len off) mod 32768"
proof -
  have g: "good (lw_dest w)" "contents (lw_dest w) = C" "length C = off" "offset_ok off (lw_block_offset w)"
    using assms by (simp_all add: w_at_def)
  consider (full) "lw_block_offset w = 32768" "off mod 32768 = 0"
    | (short) "lw_block_offset w = off mod 32768" "32768 - off mod 32768 < 7"
    | (room) "lw_block_offset w = off mod 32768" "\<not> 32768 - off mod 32768 < 7"
    using g(4) by (auto simp: offset_ok_def)
  then show ?thesis
  proof cases
    case full
    then show ?thesis
      using g by (simp add: switch_block_def pad_len_def Let_def w_at_def offset_ok_def)
  next
    case short
    have m: "off mod 32768 < 32768"
      by simp
    obtain d where d: "wf_Append dest (replicate (32768 - off mod 32768) 0) (lw_dest w) = (StatusOK, d)" "good d"
        "contents d = C @ replicate (32768 - off mod 32768) 0"
      using append_ok [OF g(1), of "replicate (32768 - off mod 32768) 0"] g(2) by auto
    have "(off + (32768 - off mod 32768)) mod 32768 = 0"
      by (rule mod_fill) simp
    then show ?thesis
      using short m d g by (simp add: switch_block_def pad_len_def Let_def w_at_def offset_ok_def)
  next
    case room
    then show ?thesis
      using g by (simp add: switch_block_def pad_len_def Let_def w_at_def)
  qed
qed

lemma EmitPhysicalRecord_run:
  assumes "w_at off C w" "lw_block_offset w = off mod 32768" "off mod 32768 + 7 + length d \<le> 32768"
  shows "\<exists>w'. EmitPhysicalRecord dest t d w = Some (StatusOK, w') \<and> w_at (off + 7 + length d) (C @ phys t d) w' \<and>
      lw_block_offset w' = off mod 32768 + 7 + length d"
proof -
  let ?buf = "EncodeFixed32 (Crc_Mask (Crc_Extend 0 (type_crc t) d)) @
      [of_nat (length d mod 256), of_nat (length d div 256), t]"
  have g: "good (lw_dest w)" "contents (lw_dest w) = C" "length C = off"
    using assms(1) by (simp_all add: w_at_def)
  obtain d1 where d1: "wf_Append dest ?buf (lw_dest w) = (StatusOK, d1)" "good d1" "contents d1 = C @ ?buf"
    using append_ok [OF g(1), of ?buf] g(2) by auto
  obtain d2 where d2: "wf_Append dest d d1 = (StatusOK, d2)" "good d2" "contents d2 = (C @ ?buf) @ d"
    using append_ok [OF d1(2), of d] d1(3) by auto
  obtain d3 where d3: "wf_Flush dest d2 = (StatusOK, d3)" "good d3" "contents d3 = (C @ ?buf) @ d"
    using flush_ok [OF d2(2)] d2(3) by auto
  have "offset_ok (off + (7 + length d)) (off mod 32768 + (7 + length d))"
    by (rule offset_ok_add) (use assms(3) in simp)
  then show ?thesis
    using assms d1(1) d2(1) d3 g(3)
    by (auto simp: EmitPhysicalRecord_def Let_def w_at_def phys_def add.assoc)
qed

lemma AddRecord_loop_run:
  assumes "w_at off C w"
  shows "\<exists>rs w'. AddRecord_loop dest ptr b w = Some (StatusOK, w') \<and> fits off rs \<and> fragments b rs ptr \<and>
      w_at (off + length (emit off rs)) (C @ emit off rs) w'"
  using assms
proof (induction "2 * length ptr + (if lw_block_offset w + 7 = 32768 then 1 else 0)"
    arbitrary: ptr b w off C rule: less_induct)
  case less
  define w1 where "w1 = switch_block dest w"
  define q where "q = off + pad_len off"
  have w1: "w_at q (C @ replicate (pad_len off) 0) w1" "lw_block_offset w1 = q mod 32768"
    using switch_block_run [OF less.prems] by (simp_all add: w1_def q_def)
  have room: "q mod 32768 + 7 \<le> 32768"
    unfolding q_def by (rule pad_len_end)
  define avail where "avail = 32768 - q mod 32768 - 7"
  define n where "n = (if length ptr < avail then length ptr else avail)"
  define t where "t = fragment_type b (length ptr = n)"
  have n: "n \<le> length ptr" "q mod 32768 + 7 + n \<le> 32768"
    using room by (auto simp: n_def avail_def)
  obtain w2 where w2: "EmitPhysicalRecord dest t (take n ptr) w1 = Some (StatusOK, w2)"
      "w_at (q + 7 + n) (C @ replicate (pad_len off) 0 @ phys t (take n ptr)) w2"
      "lw_block_offset w2 = q mod 32768 + 7 + n"
    using EmitPhysicalRecord_run [OF w1, of "take n ptr" t] n by auto
  have bo: "lw_block_offset w \<le> 32768"
    using less.prems offset_ok_le by (auto simp: w_at_def)
  have avail: "kLogBlockSize - lw_block_offset w1 - kHeaderSize = avail"
    by (simp add: w1(2) avail_def)
  have step: "AddRecord_loop dest ptr b w =
      (if length ptr - n > 0 then AddRecord_loop dest (drop n ptr) False w2 else Some (StatusOK, w2))"
    unfolding AddRecord_loop.simps [of dest ptr b w] Let_def w1_def [symmetric] avail n_def [symmetric]
      t_def [symmetric] w2(1)
    using bo room w1(2) by simp
  have t: "t \<in> {kFullType, kFirstType, kMiddleType, kLastType}"
    unfolding t_def by (rule fragment_type_cases)
  show ?case
  proof (cases "length ptr - n > 0")
    case False
    then have "n = length ptr"
      using n by simp
    then show ?thesis
      using step w2(2) n t by (intro exI [of _ "[(t, ptr)]"] exI [of _ w2]) (simp add: q_def t_def add.assoc)
  next
    case True
    then have na: "n = avail" "\<not> length ptr < avail"
      by (auto simp: n_def split: if_splits)
    have "2 * length (drop n ptr) + (if lw_block_offset w2 + 7 = 32768 then 1 else 0) <
        2 * length ptr + (if lw_block_offset w + 7 = 32768 then 1 else 0)"
    proof (cases "n = 0")
      case True
      then have z: "q mod 32768 = 32761"
        using na room by (simp add: avail_def)
      then have "pad_len off = 0"
        using pad_len_fill [of off] by (auto simp: q_def)
      then have "switch_block dest w = w"
        using z less.prems by (auto simp: q_def switch_block_def Let_def w_at_def offset_ok_def)
      then have "lw_block_offset w + 7 = 32768"
        using w1(2) z by (simp add: w1_def)
      then show ?thesis
        using True z w2(3) by simp
    next
      case False
      then show ?thesis
        using True n(1) by auto
    qed
    then obtain rs w' where rs: "AddRecord_loop dest (drop n ptr) False w2 = Some (StatusOK, w')" "fits (q + 7 + n) rs"
        "fragments False rs (drop n ptr)"
        "w_at (q + 7 + n + length (emit (q + 7 + n) rs))
           ((C @ replicate (pad_len off) 0 @ phys t (take n ptr)) @ emit (q + 7 + n) rs) w'"
      using less.hyps [OF _ w2(2), of "drop n ptr" False] by blast
    have "rs \<noteq> []"
      using rs(3) by auto
    then have "fragments b ((t, take n ptr) # rs) ptr"
      using rs(3) True by (auto simp: t_def intro!: exI [of _ "drop n ptr"])
    then show ?thesis
      using step True rs n t
      by (intro exI [of _ "(t, take n ptr) # rs"] exI [of _ w']) (simp add: q_def add.assoc)
  qed
qed

lemma AddRecord_run:
  assumes "w_at off C w"
  shows "\<exists>rs w'. AddRecord dest data w = Some (StatusOK, w') \<and> fits off rs \<and> fragments True rs data \<and>
      w_at (off + length (emit off rs)) (C @ emit off rs) w'"
  unfolding AddRecord_def by (rule AddRecord_loop_run [OF assms])

end

section \<open>Reading what was written\<close>

lemma type_cast [simp]:
  "(scast kFullType :: u32) = 1" "(scast kFirstType :: u32) = 2" "(scast kMiddleType :: u32) = 3"
  "(scast kLastType :: u32) = 4" "(ucast kZeroType :: u32) = 0" "(ucast kFullType :: u32) = 1"
  "(ucast kFirstType :: u32) = 2" "(ucast kMiddleType :: u32) = 3" "(ucast kLastType :: u32) = 4"
  by (simp_all add: kFullType_def kFirstType_def kMiddleType_def kLastType_def kZeroType_def)

lemma type_distinct [simp]: "kEof = 5" "kBadRecord = 6"
  by (simp_all add: kEof_def kBadRecord_def)

lemma phys_header:
  assumes "length d < 65536"
  shows "unat ((phys t d @ z) ! 4) + unat ((phys t d @ z) ! 5) * 256 = length d" "(phys t d @ z) ! 6 = t"
    "DecodeFixed32 (phys t d @ z) = Crc_Mask (Crc_Extend 0 (type_crc t) d)"
    "take (1 + length d) (drop 6 (phys t d @ z)) = t # d" "take (length d) (drop 7 (phys t d @ z)) = d"
    "drop (7 + length d) (phys t d @ z) = z"
proof -
  have "(phys t d @ z) ! 4 = of_nat (length d mod 256)" "(phys t d @ z) ! 5 = of_nat (length d div 256)"
    by (simp_all add: phys_def nth_append)
  moreover have "unat (of_nat (length d mod 256) :: byte) = length d mod 256"
      "unat (of_nat (length d div 256) :: byte) = length d div 256"
    using assms by (simp_all add: unat_of_nat)
  ultimately show "unat ((phys t d @ z) ! 4) + unat ((phys t d @ z) ! 5) * 256 = length d"
    by simp
  show "drop (7 + length d) (phys t d @ z) = z"
    by simp
qed (simp_all add: phys_def nth_append)

definition block_end :: "nat \<Rightarrow> nat" where
  "block_end p = p div 32768 * 32768 + 32768"

lemma block_end_less: "p < block_end p"
  using div_mult_mod_eq [of p 32768] mod_less_divisor [of 32768 p] by (simp add: block_end_def)

lemma block_end_mod: "block_end p = p + (32768 - p mod 32768)"
  unfolding block_end_def
  using div_mult_mod_eq [of p 32768] mod_less_divisor [of 32768 p] by linarith

lemma block_end_inside: "p \<le> q \<Longrightarrow> q < block_end p \<Longrightarrow> block_end q = block_end p"
proof -
  assume "p \<le> q" "q < block_end p"
  then have "q div 32768 = p div 32768"
    using div_le_mono [of p q 32768] less_mult_imp_div_less [of q "p div 32768 + 1" 32768]
    by (simp add: block_end_def)
  then show ?thesis by (simp add: block_end_def)
qed

context sequential_file
begin

text \<open>The reader stands at position \<open>p\<close> of the file \<open>C\<close>, of which it has read \<open>e\<close> bytes.\<close>

definition r_at :: "bytes \<Rightarrow> nat \<Rightarrow> nat \<Rightarrow> 's LogReader \<Rightarrow> bool" where
  "r_at C p e r \<longleftrightarrow> readable (lr_file r) \<and> p \<le> e \<and> e \<le> length C \<and> lr_buffer r = drop p (take e C) \<and>
     rest (lr_file r) = drop e C \<and> (if lr_eof r then e = length C else 32768 dvd e) \<and>
     (p = e \<or> e = min (length C) (block_end p)) \<and> lr_initial_offset r = 0"

definition keeps :: "'s LogReader \<Rightarrow> 's LogReader \<Rightarrow> bool" where
  "keeps r r' \<longleftrightarrow> lr_reports r' = lr_reports r \<and> lr_checksum r' = lr_checksum r \<and> lr_reporter r' = lr_reporter r"

lemma refill:
  assumes at: "r_at C p e r" and "length (lr_buffer r) < 7" "\<not> lr_eof r"
  shows "\<exists>r' e'. ReadPhysicalRecord source result r = ReadPhysicalRecord source result r' \<and> r_at C e e' r' \<and>
      keeps r r' \<and> e' = min (length C) (e + 32768) \<and> (lr_eof r' \<longleftrightarrow> length C < e + 32768)"
proof -
  have r: "readable (lr_file r)" "e \<le> length C" "rest (lr_file r) = drop e C" "32768 dvd e" "lr_initial_offset r = 0"
    using at assms(3) by (simp_all add: r_at_def)
  define buf where "buf = take 32768 (drop e C)"
  define e' where "e' = min (length C) (e + 32768)"
  obtain f where f: "sf_Read source 32768 (lr_file r) = (StatusOK, buf, f)" "readable f" "rest f = drop 32768 (drop e C)"
    using read_ok [OF r(1), of 32768] r(3) by (auto simp: buf_def)
  let ?r1 = "r\<lparr>lr_file := f, lr_buffer := buf, lr_end_of_buffer_offset := lr_end_of_buffer_offset r + of_nat (length buf)\<rparr>"
  let ?r2 = "if length buf < 32768 then ?r1\<lparr>lr_eof := True\<rparr> else ?r1"
  have "ReadPhysicalRecord source result r = ReadPhysicalRecord source result ?r2"
    using assms(2,3) f(1) by (subst ReadPhysicalRecord.simps) (simp add: Let_def)
  moreover have len: "length buf = e' - e"
    using r(2) by (auto simp: buf_def e'_def min_def)
  moreover have "r_at C e e' ?r2"
  proof -
    have "buf = drop e (take e' C)"
      by (simp add: buf_def e'_def drop_take min_def)
    moreover have "rest f = drop e' C"
      using f(3) r(2) by (auto simp: e'_def min_def add.commute)
    moreover have "e' = min (length C) (block_end e)"
      using r(4) by (simp add: e'_def block_end_mod dvd_imp_mod_0)
    moreover have "e' = length C" if "length buf < 32768"
      using that len by (simp add: e'_def min_def split: if_splits)
    moreover have "32768 dvd e'" if "\<not> length buf < 32768"
    proof -
      have "e' = e + 32768"
        using that len r(2) by (auto simp: e'_def)
      then show ?thesis
        using r(4) by simp
    qed
    moreover have "e \<le> e'" "e' \<le> length C"
      using r(2) by (simp_all add: e'_def)
    ultimately show ?thesis
      using f(2) r(1,3-5) assms(3) by (cases "length buf < 32768") (simp_all add: r_at_def)
  qed
  moreover have "lr_eof ?r2 \<longleftrightarrow> length C < e + 32768"
    using assms(3) len r(2) by (auto simp: e'_def)
  ultimately show ?thesis
    by (intro exI [of _ ?r2] exI [of _ e']) (auto simp: keeps_def e'_def)
qed

lemma parse:
  assumes at: "r_at C q e r" and C: "drop q C = phys t d @ z"
    and block: "q mod 32768 + 7 + length d \<le> 32768" and e: "q < e" "block_end q = e \<or> e = length C"
    and t: "t \<in> {kFullType, kFirstType, kMiddleType, kLastType}"
  shows "\<exists>r'. ReadPhysicalRecord source result r = Some (scast t, d, r') \<and> r_at C (q + 7 + length d) e r' \<and> keeps r r'"
proof -
  have r: "readable (lr_file r)" "e \<le> length C" "rest (lr_file r) = drop e C" "lr_initial_offset r = 0"
      "lr_buffer r = drop q (take e C)" "if lr_eof r then e = length C else 32768 dvd e" "e = min (length C) (block_end q)"
    using at e(1) by (auto simp: r_at_def)
  have len: "length d < 65536"
    using block by simp
  have Clen: "length C = q + 7 + length d + length z"
  proof -
    have "length (drop q C) = 7 + length d + length z"
      by (simp add: C)
    then show ?thesis
      using e(1) r(2) by simp
  qed
  have fit: "q + 7 + length d \<le> e"
    using r(7) block Clen by (simp add: block_end_mod)
  have buf: "lr_buffer r = phys t d @ take (e - (q + 7 + length d)) z"
  proof -
    have "lr_buffer r = take (e - q) (drop q C)"
      by (simp add: r(5) drop_take)
    then show ?thesis
      using fit by (simp add: C diff_diff_left add.assoc)
  qed
  define zz where "zz = take (e - (q + 7 + length d)) z"
  note h = phys_header [OF len, of t zz]
  have crc: "Crc_Value 0 (t # d) = Crc_Extend 0 (type_crc t) d"
    using Crc_Extend_append [of 0 0 0 "[t]" d 0] by (simp add: type_crc_def Crc_Value_def)
  let ?r = "r\<lparr>lr_buffer := zz\<rparr>"
  have "ReadPhysicalRecord source result r = Some (scast t, d, ?r)"
    using r(4) h t
    by (subst ReadPhysicalRecord.simps) (auto simp: Let_def buf zz_def [symmetric] crc Crc_Unmask_Mask)
  moreover have "r_at C (q + 7 + length d) e ?r"
  proof -
    have "zz = drop (q + 7 + length d) (take e C)"
    proof -
      have "drop (q + 7 + length d) (take e C) = drop (7 + length d) (drop q (take e C))"
        by (simp add: ac_simps)
      also have "\<dots> = drop (7 + length d) (phys t d @ zz)"
        using r(5) buf zz_def by simp
      finally show ?thesis by (simp add: h)
    qed
    moreover have "q + 7 + length d = e \<or> e = min (length C) (block_end (q + 7 + length d))"
    proof (cases "q + 7 + length d = e")
      case False
      moreover have "e \<le> block_end q"
        using r(7) by simp
      ultimately have "q + 7 + length d < block_end q"
        using fit by simp
      then show ?thesis
        using r(7) block_end_inside [of q "q + 7 + length d"] by simp
    qed simp
    ultimately show ?thesis
      using r(1-6) fit by (simp add: r_at_def)
  qed
  ultimately show ?thesis
    by (auto simp: keeps_def)
qed

lemma keeps_trans: "keeps r r' \<Longrightarrow> keeps r' r'' \<Longrightarrow> keeps r r''"
  by (simp add: keeps_def)

lemma ReadPhysicalRecord_run:
  assumes at: "r_at C p e r" and C: "drop p C = replicate (pad_len p) 0 @ phys t d @ z"
    and block: "(p + pad_len p) mod 32768 + 7 + length d \<le> 32768"
    and t: "t \<in> {kFullType, kFirstType, kMiddleType, kLastType}"
  shows "\<exists>r' e'. ReadPhysicalRecord source result r = Some (scast t, d, r') \<and>
      r_at C (p + pad_len p + 7 + length d) e' r' \<and> keeps r r'"
proof -
  define q where "q = p + pad_len p"
  have r: "p \<le> e" "e \<le> length C" "lr_buffer r = drop p (take e C)" "if lr_eof r then e = length C else 32768 dvd e"
      "p = e \<or> e = min (length C) (block_end p)"
    using at by (simp_all add: r_at_def)
  have "drop q C = drop (pad_len p) (drop p C)"
    by (simp add: q_def add.commute)
  then have Cq: "drop q C = phys t d @ z"
    by (simp add: C)
  have "length (drop p C) = pad_len p + 7 + length d + length z"
    by (simp add: C)
  then have Clen: "q + 7 \<le> length C"
    using r(1,2) by (simp add: q_def)
  have buf: "length (lr_buffer r) = e - p"
    using r(1,2) by (simp add: r(3))
  show ?thesis
  proof (cases "length (lr_buffer r) < 7")
    case False
    then have e: "p < e" "e = min (length C) (block_end p)"
      using r(5) buf by auto
    have "pad_len p = 0"
    proof (rule ccontr)
      assume "pad_len p \<noteq> 0"
      then have "block_end p - p < 7"
        by (auto simp: block_end_mod pad_len_def Let_def split: if_splits)
      then show False
        using False buf e(2) by simp
    qed
    then have q: "q = p"
      by (simp add: q_def)
    have "q mod 32768 + 7 + length d \<le> 32768"
      using block by (simp add: q_def)
    moreover have "block_end p = e \<or> e = length C"
      using e(2) by (auto simp: min_def)
    ultimately show ?thesis
      using parse [OF at Cq [unfolded q], of result] t e(1) q unfolding q_def by auto
  next
    case True
    have eq: "e = q \<and> \<not> lr_eof r"
    proof (cases "p = e")
      case True
      then have "\<not> lr_eof r"
        using r(4) Clen by (auto simp: q_def split: if_splits)
      then have "p mod 32768 = 0"
        using r(4) True by simp
      then show ?thesis
        using True \<open>\<not> lr_eof r\<close> by (simp add: q_def pad_len_def)
    next
      case False
      then have e: "e = min (length C) (block_end p)" "p < e"
        using r(1,5) by auto
      have "pad_len p \<noteq> 0"
      proof
        assume "pad_len p = 0"
        then have "7 \<le> block_end p - p"
          using mod_less_divisor [of 32768 p] by (auto simp: block_end_mod pad_len_def Let_def split: if_splits)
        then show False
          using True buf e Clen by (simp add: q_def min_def split: if_splits)
      qed
      then have "q = block_end p"
        by (auto simp: q_def block_end_mod pad_len_def Let_def split: if_splits)
      then show ?thesis
        using e Clen r(4) by (auto split: if_splits)
    qed
    obtain r1 e1 where r1: "ReadPhysicalRecord source result r = ReadPhysicalRecord source result r1" "r_at C q e1 r1"
        "keeps r r1" "e1 = min (length C) (q + 32768)"
      using refill [OF at True, of result] eq by blast
    have "32768 dvd q"
      using eq r(4) by simp
    then have "block_end q = q + 32768"
      by (simp add: block_end_mod dvd_imp_mod_0)
    then have "block_end q = e1 \<or> e1 = length C" "q < e1"
      using r1(4) Clen by (auto simp: min_def)
    moreover have "q mod 32768 + 7 + length d \<le> 32768"
      using block by (simp add: q_def)
    ultimately obtain r2 where r2: "ReadPhysicalRecord source result r1 = Some (scast t, d, r2)"
        "r_at C (q + 7 + length d) e1 r2" "keeps r1 r2"
      using parse [OF r1(2) Cq _ _ _ t, of result] by blast
    show ?thesis
      unfolding q_def [symmetric] r1(1) using r2 keeps_trans [OF r1(3)] by blast
  qed
qed

lemma ReadPhysicalRecord_end:
  assumes at: "r_at C (length C) e r"
  shows "\<exists>r' e'. ReadPhysicalRecord source result r = Some (kEof, result, r') \<and> r_at C (length C) e' r' \<and> keeps r r'"
proof -
  have e: "e = length C"
    using at by (simp add: r_at_def)
  have eof: "ReadPhysicalRecord source result s = Some (kEof, result, s)"
    if "r_at C (length C) (length C) s" "lr_eof s" for s
    using that by (subst ReadPhysicalRecord.simps) (simp add: r_at_def)
  show ?thesis
  proof (cases "lr_eof r")
    case True
    then show ?thesis
      using eof at e by (auto simp: keeps_def)
  next
    case False
    have "lr_buffer r = []"
      using at e by (simp add: r_at_def)
    then obtain r' e' where "ReadPhysicalRecord source result r = ReadPhysicalRecord source result r'"
        "r_at C (length C) e' r'" "keeps r r'" "e' = length C" "lr_eof r'"
      using refill [OF at _ False, of result] e by auto
    then show ?thesis
      using eof [of r'] by auto
  qed
qed

lemma ReadRecord_loop_run:
  assumes "r_at C p e r" "fits p rs" "fragments b rs data" "drop p C = emit p rs @ z"
  shows "\<exists>r' e'. ReadRecord_loop source (\<not> b) pros scratch frag r =
      Some (True, if b then data else scratch @ data, r') \<and> r_at C (p + length (emit p rs)) e' r' \<and> keeps r r'"
  using assms
proof (induction rs arbitrary: p e r b data pros scratch frag)
  case (Cons f rs)
  obtain t d where f: "f = (t, d)"
    by (cases f)
  let ?p = "p + pad_len p + 7 + length d"
  have t: "t \<in> {kFullType, kFirstType, kMiddleType, kLastType}" and fit: "fits ?p rs"
      "(p + pad_len p) mod 32768 + 7 + length d \<le> 32768"
    using Cons.prems(2) by (simp_all add: f)
  have C: "drop p C = replicate (pad_len p) 0 @ phys t d @ emit ?p rs @ z"
    using Cons.prems(4) by (simp add: f)
  obtain r1 e1 where r1: "ReadPhysicalRecord source frag r = Some (scast t, d, r1)" "r_at C ?p e1 r1" "keeps r r1"
    using ReadPhysicalRecord_run [OF Cons.prems(1) C fit(2) t] by blast
  have len: "length (emit p (f # rs)) = pad_len p + 7 + length d + length (emit ?p rs)"
    by (simp add: f)
  show ?case
  proof (cases "rs = []")
    case True
    then have td: "t = fragment_type b True" "d = data"
      using Cons.prems(3) by (simp_all add: f)
    have at: "r_at C ?p e1 (r1\<lparr>lr_last_record_offset := x\<rparr>)" "keeps r (r1\<lparr>lr_last_record_offset := x\<rparr>)" for x
      using r1(2,3) by (simp_all add: r_at_def keeps_def)
    show ?thesis
      using r1(1) td at len True
      by (cases b; subst ReadRecord_loop.simps) (auto simp: fragment_type_def Let_def add.assoc)
  next
    case False
    then obtain e' where td: "t = fragment_type b False" "data = d @ e'" "fragments False rs e'"
      using Cons.prems(3) by (auto simp: f)
    have Cz: "drop ?p C = emit ?p rs @ z"
    proof -
      have "drop ?p C = drop (pad_len p + (7 + length d)) (drop p C)"
        by (simp add: ac_simps)
      then show ?thesis
        by (simp add: C)
    qed
    note IH = Cons.IH [OF r1(2) fit(1) td(3) Cz]
    show ?thesis
    proof (cases b)
      case True
      then show ?thesis
        using IH [of "lr_end_of_buffer_offset r - of_nat (length (lr_buffer r))" d d] r1(1,3) td(1,2) len keeps_trans
        by (subst ReadRecord_loop.simps) (auto simp: fragment_type_def Let_def add.assoc)
    next
      case b: False
      then show ?thesis
        using IH [of pros "scratch @ d" d] r1(1,3) td(1,2) len keeps_trans
        by (subst ReadRecord_loop.simps) (auto simp: fragment_type_def Let_def add.assoc)
    qed
  qed
qed simp

end

section \<open>Whole logs\<close>

fun add_records :: "'f WritableFile \<Rightarrow> bytes list \<Rightarrow> 'f LogWriter \<Rightarrow> 'f LogWriter option" where
  "add_records file [] w = Some w"
| "add_records file (x # xs) w = do {
     (s, w1) \<leftarrow> AddRecord file x w;
     if Status_ok s then add_records file xs w1 else None
   }"

fun read_records :: "'s SequentialFile \<Rightarrow> nat \<Rightarrow> 's LogReader \<Rightarrow> (bytes list \<times> 's LogReader) option" where
  "read_records file 0 r = Some ([], r)"
| "read_records file (Suc n) r = do {
     (ok, x, r1) \<leftarrow> ReadRecord file r;
     if ok then do { (xs, r2) \<leftarrow> read_records file n r1; Some (x # xs, r2) } else None
   }"

context writable_file
begin

text \<open>The writer has written these records from the start of its file.\<close>

definition log_holds :: "bytes list \<Rightarrow> 'f LogWriter \<Rightarrow> bool" where
  "log_holds xs w \<longleftrightarrow> (\<exists>rss. list_all2 (fragments True) rss xs \<and> fits 0 (concat rss) \<and>
     w_at (length (emit 0 (concat rss))) (emit 0 (concat rss)) w)"

lemma log_holds_new: "good f \<Longrightarrow> contents f = [] \<Longrightarrow> log_holds [] (Writer_new f)"
  by (auto simp: log_holds_def w_at_def Writer_new_def offset_ok_def)

lemma AddRecord_holds:
  assumes "log_holds xs w"
  shows "\<exists>w'. AddRecord dest x w = Some (StatusOK, w') \<and> log_holds (xs @ [x]) w'"
proof -
  obtain rss where rss: "list_all2 (fragments True) rss xs" "fits 0 (concat rss)"
      "w_at (length (emit 0 (concat rss))) (emit 0 (concat rss)) w"
    using assms by (auto simp: log_holds_def)
  then obtain rs w' where 1: "AddRecord dest x w = Some (StatusOK, w')" "fits (length (emit 0 (concat rss))) rs"
      "fragments True rs x" "w_at (length (emit 0 (concat rss)) + length (emit (length (emit 0 (concat rss))) rs))
        (emit 0 (concat rss) @ emit (length (emit 0 (concat rss))) rs) w'"
    using AddRecord_run [OF rss(3), of x] by blast
  have "list_all2 (fragments True) (rss @ [rs]) (xs @ [x])"
    using rss(1) 1(3) by (simp add: list_all2_appendI)
  then show ?thesis
    using 1 rss(2) unfolding log_holds_def
    by (intro exI [of _ w'] conjI exI [of _ "rss @ [rs]"]) (simp_all add: fits_append emit_append)
qed

lemma add_records_holds:
  "log_holds ys w \<Longrightarrow> \<exists>w'. add_records dest xs w = Some w' \<and> log_holds (ys @ xs) w'"
proof (induction xs arbitrary: ys w)
  case (Cons x xs)
  obtain w1 where "AddRecord dest x w = Some (StatusOK, w1)" "log_holds (ys @ [x]) w1"
    using AddRecord_holds [OF Cons.prems] by blast
  then show ?case
    using Cons.IH [of "ys @ [x]" w1] by simp
qed simp

end

context sequential_file
begin

text \<open>The reader has these records still to read.\<close>

definition log_left :: "bytes list \<Rightarrow> 's LogReader \<Rightarrow> bool" where
  "log_left xs r \<longleftrightarrow> (\<exists>C p e rss. r_at C p e r \<and> list_all2 (fragments True) rss xs \<and> fits p (concat rss) \<and>
     drop p C = emit p (concat rss) \<and> p \<le> length C)"

lemma ReadRecord_at: "r_at C p e r \<Longrightarrow> ReadRecord source r = ReadRecord_loop source False 0 [] [] r"
  by (simp add: ReadRecord_def r_at_def)

lemma ReadRecord_next:
  assumes "log_left (x # xs) r"
  shows "\<exists>r'. ReadRecord source r = Some (True, x, r') \<and> log_left xs r' \<and> lr_reports r' = lr_reports r"
proof -
  obtain C p e rs rss where r: "r_at C p e r" "fragments True rs x" "list_all2 (fragments True) rss xs"
      "fits p (rs @ concat rss)" "drop p C = emit p (rs @ concat rss)" "p \<le> length C"
    using assms by (fastforce simp: log_left_def list_all2_Cons2)
  let ?p = "p + length (emit p rs)"
  have C: "drop p C = emit p rs @ emit ?p (concat rss)" and fit: "fits p rs" "fits ?p (concat rss)"
    using r(4,5) by (simp_all add: emit_append fits_append)
  obtain r1 e1 where 1: "ReadRecord_loop source False 0 [] [] r = Some (True, x, r1)" "r_at C ?p e1 r1" "keeps r r1"
    using ReadRecord_loop_run [OF r(1) fit(1) r(2) C, of 0 "[]" "[]"] by auto
  have "drop ?p C = drop (length (emit p rs)) (drop p C)"
    by (simp add: add.commute)
  then have "drop ?p C = emit ?p (concat rss)"
    by (simp add: C)
  moreover have "?p \<le> length C"
    using arg_cong [OF C, of length] r(6) by simp
  ultimately have "log_left xs r1"
    using 1(2) r(3) fit(2) by (auto simp: log_left_def)
  then show ?thesis
    using 1 ReadRecord_at [OF r(1)] by (auto simp: keeps_def)
qed

lemma ReadRecord_end:
  assumes "log_left [] r"
  shows "\<exists>r'. ReadRecord source r = Some (False, [], r') \<and> lr_reports r' = lr_reports r"
proof -
  obtain C p e where r: "r_at C p e r" "drop p C = []" "p \<le> length C"
    using assms by (auto simp: log_left_def)
  then have at: "r_at C (length C) e r"
    by simp
  show ?thesis
    using ReadPhysicalRecord_end [OF at, of "[]"] ReadRecord_at [OF at]
    by (subst (asm) ReadRecord_loop.simps) (auto simp: Let_def keeps_def)
qed

lemma read_records_left:
  "log_left (xs @ ys) r \<Longrightarrow>
   \<exists>r'. read_records source (length xs) r = Some (xs, r') \<and> log_left ys r' \<and> lr_reports r' = lr_reports r"
proof (induction xs arbitrary: r)
  case (Cons x xs)
  obtain r1 where "ReadRecord source r = Some (True, x, r1)" "log_left (xs @ ys) r1" "lr_reports r1 = lr_reports r"
    using ReadRecord_next [of x "xs @ ys" r] Cons.prems by auto
  then show ?case
    using Cons.IH [of r1] by auto
qed simp

lemma log_left_new:
  assumes "readable s" "rest s = emit 0 (concat rss)" "list_all2 (fragments True) rss xs" "fits 0 (concat rss)"
  shows "log_left xs (Reader_new s reporter checksum 0)"
proof -
  have "r_at (rest s) 0 0 (Reader_new s reporter checksum 0)"
    using assms(1) by (simp add: r_at_def Reader_new_def)
  then show ?thesis
    using assms unfolding log_left_def by (intro exI) auto
qed

end

text \<open>What is written to an in-memory file is what a reader of the file has to read.\<close>

lemma mem_log_left:
  assumes "mem_file.log_holds xs w"
  shows "mem_reader.log_left xs (Reader_new (lw_dest w, 0) reporter checksum 0)"
proof -
  obtain rss where rss: "list_all2 (fragments True) rss xs" "fits 0 (concat rss)"
      "mem_file.w_at (length (emit 0 (concat rss))) (emit 0 (concat rss)) w"
    using assms by (auto simp: mem_file.log_holds_def)
  then show ?thesis
    by (intro mem_reader.log_left_new) (simp_all add: mem_file.w_at_def reader_ok_def reader_rest_def)
qed

lemma mem_log_new: "mem_file.log_holds [] (Writer_new FileState_new)"
  by (intro mem_file.log_holds_new) (simp_all add: FileState_new_def file_inv_def file_contents_def kMemBlockSize_def)

lemma mem_log_reads_back:
  "\<exists>w r r'. add_records WritableFileImpl xs (Writer_new FileState_new) = Some w \<and>
     read_records SequentialFileImpl (length xs) (Reader_new (lw_dest w, 0) reporter checksum 0) = Some (xs, r) \<and>
     ReadRecord SequentialFileImpl r = Some (False, [], r') \<and> lr_reports r' = []"
proof -
  obtain w where w: "add_records WritableFileImpl xs (Writer_new FileState_new) = Some w" "mem_file.log_holds xs w"
    using mem_file.add_records_holds [OF mem_log_new, of xs] by auto
  let ?r = "Reader_new (lw_dest w, 0) reporter checksum 0"
  have "mem_reader.log_left (xs @ []) ?r"
    using mem_log_left [OF w(2)] by simp
  from mem_reader.read_records_left [OF this]
  obtain r where r: "read_records SequentialFileImpl (length xs) ?r = Some (xs, r)" "mem_reader.log_left [] r"
      "lr_reports r = []"
    by (auto simp: Reader_new_def)
  then show ?thesis
    using w(1) mem_reader.ReadRecord_end [OF r(2)] by auto
qed

end
