(* ===== verification/Byte_Order.thy ===== *)
theory Byte_Order
  imports Prelude
begin

text \<open>
  The bytewise order of strings, which is that of \<open>std::string\<close>, of \<open>memcmp\<close> and of the comparator of
  the log-structured stores, and lists of entries kept in it: the model of a \<open>std::map\<close> keyed by
  strings and of an ordered index.
\<close>

fun bytes_less_eq :: "bytes \<Rightarrow> bytes \<Rightarrow> bool" where
  "bytes_less_eq [] ys \<longleftrightarrow> True"
| "bytes_less_eq (x # xs) [] \<longleftrightarrow> False"
| "bytes_less_eq (x # xs) (y # ys) \<longleftrightarrow> x < y \<or> x = y \<and> bytes_less_eq xs ys"

lemma bytes_less_eq_refl [simp]: "bytes_less_eq xs xs"
  by (induction xs) auto

lemma bytes_less_eq_trans: "bytes_less_eq xs ys \<Longrightarrow> bytes_less_eq ys zs \<Longrightarrow> bytes_less_eq xs zs"
proof (induction xs ys arbitrary: zs rule: bytes_less_eq.induct)
  case (3 x xs y ys)
  then show ?case by (cases zs) auto
qed auto

lemma bytes_less_eq_Nil [simp]: "bytes_less_eq xs [] \<longleftrightarrow> xs = []"
  by (cases xs) auto

lemma bytes_less_eq_antisym: "bytes_less_eq xs ys \<Longrightarrow> bytes_less_eq ys xs \<Longrightarrow> xs = ys"
  by (induction xs ys rule: bytes_less_eq.induct) auto

lemma bytes_less_eq_linear: "bytes_less_eq xs ys \<or> bytes_less_eq ys xs"
  by (induction xs ys rule: bytes_less_eq.induct) auto

text \<open>Entries in the order of their keys.\<close>

fun list_put :: "bytes \<Rightarrow> bytes \<Rightarrow> (bytes \<times> bytes) list \<Rightarrow> (bytes \<times> bytes) list" where
  "list_put k v [] = [(k, v)]"
| "list_put k v ((k', v') # xs) =
     (if k = k' then (k, v) # xs
      else if bytes_less_eq k k' then (k, v) # (k', v') # xs
      else (k', v') # list_put k v xs)"

definition list_delete :: "bytes \<Rightarrow> (bytes \<times> bytes) list \<Rightarrow> (bytes \<times> bytes) list" where
  "list_delete k xs = filter (\<lambda>e. fst e \<noteq> k) xs"

definition list_ok :: "(bytes \<times> bytes) list \<Rightarrow> bool" where
  "list_ok xs \<longleftrightarrow> sorted_wrt (\<lambda>k k'. k \<noteq> k' \<and> bytes_less_eq k k') (map fst xs)"

lemma map_of_list_put: "map_of (list_put k v xs) = (map_of xs)(k \<mapsto> v)"
  by (induction k v xs rule: list_put.induct) auto

lemma map_of_list_delete: "map_of (list_delete k xs) = (map_of xs)(k := None)"
  by (induction xs) (auto simp: list_delete_def)

lemma set_list_put: "fst ` set (list_put k v xs) = insert k (fst ` set xs)"
  by (induction k v xs rule: list_put.induct) auto

lemma sorted_list_put:
  "sorted_wrt (\<lambda>k k'. k \<noteq> k' \<and> bytes_less_eq k k') (map fst xs) \<Longrightarrow>
    sorted_wrt (\<lambda>k k'. k \<noteq> k' \<and> bytes_less_eq k k') (map fst (list_put k v xs))"
proof (induction k v xs rule: list_put.induct)
  case (2 k v k' v' xs)
  have "\<forall>x \<in> fst ` set (list_put k v xs). k' \<noteq> x \<and> bytes_less_eq k' x"
    if "k \<noteq> k'" "\<not> bytes_less_eq k k'"
    using 2(2) that bytes_less_eq_linear [of k k'] unfolding set_list_put by auto
  moreover have "k \<noteq> x \<and> bytes_less_eq k x" if "k \<noteq> k'" "bytes_less_eq k k'" "x \<in> fst ` set xs" for x
    using 2(2) that bytes_less_eq_trans [of k k' x] bytes_less_eq_antisym [of k k'] by auto
  ultimately show ?case
    using 2 by (cases "k = k'"; cases "bytes_less_eq k k'") simp_all
qed simp

lemma list_ok_delete: "list_ok xs \<Longrightarrow> list_ok (list_delete k xs)"
  by (simp add: list_ok_def list_delete_def sorted_wrt_map sorted_wrt_filter)

lemma list_ok_put: "list_ok xs \<Longrightarrow> list_ok (list_put k v xs)"
  by (simp add: list_ok_def sorted_list_put)

lemma list_ok_distinct: "list_ok xs \<Longrightarrow> distinct (map fst xs)"
  unfolding list_ok_def by (induction xs) auto

text \<open>A sorted list is built by putting its entries, in any order that ends with it.\<close>

lemma list_put_last:
  assumes "list_ok (xs @ [(k, v)])"
  shows "list_put k v xs = xs @ [(k, v)]"
  using assms
proof (induction xs)
  case (Cons x xs)
  obtain k' v' where x: "x = (k', v')"
    by (cases x)
  have "k' \<noteq> k" "bytes_less_eq k' k"
    using Cons.prems by (auto simp: list_ok_def x sorted_wrt_append)
  then have "\<not> bytes_less_eq k k'"
    using bytes_less_eq_antisym by blast
  then show ?case
    using Cons \<open>k' \<noteq> k\<close> by (auto simp: x list_ok_def)
qed simp

lemma fold_list_put:
  assumes "list_ok (xs @ ys)"
  shows "fold (\<lambda>(k, v). list_put k v) ys xs = xs @ ys"
  using assms
proof (induction ys arbitrary: xs)
  case (Cons y ys)
  obtain k v where y: "y = (k, v)"
    by (cases y)
  have "list_ok (xs @ [(k, v)])"
    using Cons.prems by (auto simp: list_ok_def y sorted_wrt_append)
  then show ?case
    using Cons.IH [of "xs @ [(k, v)]"] Cons.prems by (simp add: y list_put_last)
qed simp

end
