(* ===== verification/Kv_Wrapper.thy ===== *)
theory Kv_Wrapper
  imports Write_Batch Byte_Order
begin

text \<open>
  The key-value interface of the file system, \<open>adaptor/kv_wrapper.h\<close>, and the operation counters of
  \<open>adaptor/statistics.cc\<close>.  The virtual class is a record of functions on the state of the store; the
  iterator a new \<open>Seek\<close> leaves is the list of the entries it still visits, so that \<open>Valid\<close> is that
  the list is not empty and \<open>Next\<close> drops its head.  The locale \<open>kv_store\<close> is what the file system
  relies on: the store is a map from keys to values, and a batch is applied in order.
\<close>

section \<open>The interface\<close>

record 'db KvWrapper =
  kv_Init :: "'db \<Rightarrow> int \<times> 'db"
  kv_Cleanup :: "'db \<Rightarrow> 'db"
  kv_Put :: "bytes \<Rightarrow> bytes \<Rightarrow> 'db \<Rightarrow> int \<times> 'db"
  kv_Get :: "bytes \<Rightarrow> 'db \<Rightarrow> int \<times> bytes \<times> 'db"
  kv_Delete :: "bytes \<Rightarrow> 'db \<Rightarrow> int \<times> 'db"
  kv_Write :: "WriteBatch \<Rightarrow> 'db \<Rightarrow> int \<times> 'db"
  kv_Sync :: "'db \<Rightarrow> int \<times> 'db"
  kv_Seek :: "bytes \<Rightarrow> 'db \<Rightarrow> (bytes \<times> bytes) list \<times> 'db"

section \<open>Operation counters\<close>

datatype OperationType = PUT | GET | DELETE | PSCAN

record Statistics =
  num_put :: u64
  num_get :: u64
  num_delete :: u64
  num_pscan :: u64

definition Statistics_new :: Statistics where
  "Statistics_new = \<lparr>num_put = 0, num_get = 0, num_delete = 0, num_pscan = 0\<rparr>"

definition RecordKVOperations :: "OperationType \<Rightarrow> Statistics \<Rightarrow> Statistics" where
  "RecordKVOperations oper s =
     (case oper of
        PUT \<Rightarrow> s\<lparr>num_put := num_put s + 1\<rparr>
      | GET \<Rightarrow> s\<lparr>num_get := num_get s + 1\<rparr>
      | DELETE \<Rightarrow> s\<lparr>num_delete := num_delete s + 1\<rparr>
      | PSCAN \<Rightarrow> s\<lparr>num_pscan := num_pscan s + 1\<rparr>)"

text \<open>The counters count: after any sequence of operations each is the number of its kind.\<close>

lemma fold_RecordKVOperations:
  "fold RecordKVOperations ops s =
     \<lparr>num_put = num_put s + of_nat (count_list ops PUT), num_get = num_get s + of_nat (count_list ops GET),
      num_delete = num_delete s + of_nat (count_list ops DELETE),
      num_pscan = num_pscan s + of_nat (count_list ops PSCAN)\<rparr>"
proof (induction ops arbitrary: s)
  case (Cons oper ops)
  then show ?case
    by (cases oper) (simp_all add: RecordKVOperations_def)
qed simp

section \<open>The contract\<close>

primrec apply_update :: "update \<Rightarrow> (bytes \<Rightarrow> bytes option) \<Rightarrow> bytes \<Rightarrow> bytes option" where
  "apply_update (Put k v) m = m(k \<mapsto> v)"
| "apply_update (Delete k) m = m(k := None)"

text \<open>The updates of the file system: 16-byte keys, and values short enough for the batch format.\<close>

primrec meta_update :: "update \<Rightarrow> bool" where
  "meta_update (Put k v) \<longleftrightarrow> length k = 16 \<and> length v < 2 ^ 32"
| "meta_update (Delete k) \<longleftrightarrow> length k = 16"

lemma meta_update_small: "meta_update u \<Longrightarrow> small_update u"
  by (cases u) auto

lemma meta_updates_small: "list_all meta_update us \<Longrightarrow> list_all small_update us"
  by (auto simp: list_all_iff meta_update_small)

text \<open>
  \<open>contents\<close> is the map a state of the store stands for and \<open>ok\<close> the invariant of the store.  \<open>Get\<close>
  returns exactly 1 on a hit.  \<open>Sync\<close> may write a marker under a key that is not a metadata key.
\<close>

locale kv_store =
  fixes kv :: "'db KvWrapper"
    and contents :: "'db \<Rightarrow> bytes \<Rightarrow> bytes option"
    and ok :: "'db \<Rightarrow> bool"
  assumes put_ok: "ok db \<Longrightarrow> meta_update (Put k v) \<Longrightarrow>
      fst (kv_Put kv k v db) = 0 \<and> ok (snd (kv_Put kv k v db)) \<and>
      contents (snd (kv_Put kv k v db)) = (contents db)(k \<mapsto> v)"
    and get_ok: "ok db \<Longrightarrow> length k = 16 \<Longrightarrow> (case contents db k of
        Some v \<Rightarrow> fst (kv_Get kv k db) = 1 \<and> fst (snd (kv_Get kv k db)) = v
      | None \<Rightarrow> fst (kv_Get kv k db) \<le> 0)"
    and get_state: "ok db \<Longrightarrow> length k = 16 \<Longrightarrow> ok (snd (snd (kv_Get kv k db))) \<and>
      contents (snd (snd (kv_Get kv k db))) = contents db"
    and delete_ok: "ok db \<Longrightarrow> meta_update (Delete k) \<Longrightarrow>
      ok (snd (kv_Delete kv k db)) \<and> contents (snd (kv_Delete kv k db)) = (contents db)(k := None)"
    and write_ok: "ok db \<Longrightarrow> list_all meta_update us \<Longrightarrow>
      ok (snd (kv_Write kv (batch_of us) db)) \<and>
      contents (snd (kv_Write kv (batch_of us) db)) = fold apply_update us (contents db)"
    and sync_ok: "ok db \<Longrightarrow> ok (snd (kv_Sync kv db)) \<and>
      (\<forall>k. length k = 16 \<longrightarrow> contents (snd (kv_Sync kv db)) k = contents db k)"
begin

lemma get_hit: "ok db \<Longrightarrow> length k = 16 \<Longrightarrow> contents db k = Some v \<Longrightarrow> fst (kv_Get kv k db) = 1 \<and> fst (snd (kv_Get kv k db)) = v"
  using get_ok [of db k] by simp

lemma get_miss: "ok db \<Longrightarrow> length k = 16 \<Longrightarrow> contents db k = None \<Longrightarrow> fst (kv_Get kv k db) \<le> 0"
  using get_ok [of db k] by simp

text \<open>What was put is read back, and a batch that puts last wins.\<close>

lemma get_after_put:
  assumes "ok db" "meta_update (Put k v)"
  shows "fst (kv_Get kv k (snd (kv_Put kv k v db))) = 1 \<and> fst (snd (kv_Get kv k (snd (kv_Put kv k v db)))) = v"
  using put_ok [OF assms] assms(2) by (intro get_hit) auto

lemma get_after_delete:
  assumes "ok db" "meta_update (Delete k)"
  shows "fst (kv_Get kv k (snd (kv_Delete kv k db))) \<le> 0"
  using delete_ok [OF assms] assms(2) by (intro get_miss) auto

end

text \<open>
  A store that keeps its keys in the bytewise order, as the comparator of the log-structured stores
  does: \<open>Seek\<close> visits every entry from the target on, in that order.
\<close>

locale ordered_kv_store = kv_store +
  assumes seek_state: "ok db \<Longrightarrow> ok (snd (kv_Seek kv target db)) \<and>
      contents (snd (kv_Seek kv target db)) = contents db"
    and seek_entries: "ok db \<Longrightarrow>
      set (fst (kv_Seek kv target db)) = {(k, v). contents db k = Some v \<and> bytes_less_eq target k}"
    and seek_sorted: "ok db \<Longrightarrow>
      sorted_wrt (\<lambda>k k'. k \<noteq> k' \<and> bytes_less_eq k k') (map fst (fst (kv_Seek kv target db)))"

end
