(* ===== verification/My_Hash.thy ===== *)
theory My_Hash
  imports Coding
begin

unbundle bit_operations_syntax

text \<open>
  The hash functions: \<open>murmur64\<close> of \<open>util/myhash.cpp\<close>, which turns a file name into the second
  half of a metadata key, and \<open>Hash\<close> of \<open>lib/leveldb/util/hash.cc\<close>, which places a key in the
  inode cache.  A \<open>(key, len)\<close> argument pair is the list of the \<open>len\<close> bytes.  The results show
  that \<open>murmur64\<close> separates names of equal length up to eight bytes: the file system identifies a
  name with its hash, so this is where names cannot be confused.
\<close>

section \<open>murmur64\<close>

definition murmur_m :: u64 where "murmur_m = 0xc6a4a7935bd1e995"

definition murmur_mix :: "u64 \<Rightarrow> u64" where
  "murmur_mix k = k XOR drop_bit 47 k"

text \<open>The body of the loop over the eight-byte blocks.\<close>

definition murmur_block :: "u64 \<Rightarrow> u64 \<Rightarrow> u64" where
  "murmur_block k h =
     (let k1 = k * murmur_m;
          k2 = murmur_mix k1;
          k3 = k2 * murmur_m;
          h1 = h XOR k3
      in h1 * murmur_m)"

function murmur_blocks :: "bytes \<Rightarrow> u64 \<Rightarrow> bytes \<times> u64" where
  "murmur_blocks data h =
     (if 8 \<le> length data then murmur_blocks (drop 8 data) (murmur_block (le_word (take 8 data)) h)
      else (data, h))"
  by pat_completeness auto
termination
  by (relation "measure (\<lambda>(data, h). length data)") auto

declare murmur_blocks.simps [simp del]

text \<open>The fall-through \<open>switch (len & 7)\<close> over the bytes \<open>data2\<close> that are left.\<close>

definition murmur_tail :: "bytes \<Rightarrow> u64 \<Rightarrow> u64" where
  "murmur_tail data2 h =
     (let n = length data2;
          h = (if n \<ge> 7 then h XOR push_bit 48 (ucast (data2 ! 6)) else h);
          h = (if n \<ge> 6 then h XOR push_bit 40 (ucast (data2 ! 5)) else h);
          h = (if n \<ge> 5 then h XOR push_bit 32 (ucast (data2 ! 4)) else h);
          h = (if n \<ge> 4 then h XOR push_bit 24 (ucast (data2 ! 3)) else h);
          h = (if n \<ge> 3 then h XOR push_bit 16 (ucast (data2 ! 2)) else h);
          h = (if n \<ge> 2 then h XOR push_bit 8 (ucast (data2 ! 1)) else h)
      in if n \<ge> 1 then (h XOR ucast (data2 ! 0)) * murmur_m else h)"

definition murmur64 :: "bytes \<Rightarrow> u64 \<Rightarrow> u64" where
  "murmur64 key seed =
     (let h = seed XOR (of_nat (length key) * murmur_m);
          (data2, h) = murmur_blocks key h;
          h = murmur_tail data2 h;
          h = h XOR drop_bit 47 h;
          h = h * murmur_m;
          h = h XOR drop_bit 47 h
      in h)"

section \<open>The hash of the cache\<close>

text \<open>\<open>char\<close> is signed on the target, so the trailing bytes are sign-extended.\<close>

function Hash_words :: "bytes \<Rightarrow> u32 \<Rightarrow> bytes \<times> u32" where
  "Hash_words data h =
     (if 4 \<le> length data then
        (let w = DecodeFixed32 data;
             h1 = h + w;
             h2 = h1 * 0xc6a4a793
         in Hash_words (drop 4 data) (h2 XOR drop_bit 16 h2))
      else (data, h))"
  by pat_completeness auto
termination
  by (relation "measure (\<lambda>(data, h). length data)") auto

declare Hash_words.simps [simp del]

definition Hash_tail :: "bytes \<Rightarrow> u32 \<Rightarrow> u32" where
  "Hash_tail data h =
     (let n = length data;
          h = (if n = 3 then h + push_bit 16 (scast (data ! 2)) else h);
          h = (if n = 3 \<or> n = 2 then h + push_bit 8 (scast (data ! 1)) else h)
      in if n = 3 \<or> n = 2 \<or> n = 1 then
           (let h1 = h + scast (data ! 0); h2 = h1 * 0xc6a4a793 in h2 XOR drop_bit 24 h2)
         else h)"

definition Hash :: "bytes \<Rightarrow> u32 \<Rightarrow> u32" where
  "Hash data seed =
     (let h = seed XOR (of_nat (length data) * 0xc6a4a793);
          (rest, h) = Hash_words data h
      in Hash_tail rest h)"

section \<open>murmur64 is injective on names of one length up to eight bytes\<close>

lemma drop_bit_94: "drop_bit 94 (x :: u64) = 0"
  by (rule bit_word_eqI) (auto simp: bit_simps dest: bit_imp_le_length)

lemma xor_cancel: "((x :: 'a::len word) XOR y) XOR y = x"
  by (simp add: xor.assoc)

lemma murmur_mix_mix [simp]: "murmur_mix (murmur_mix x) = x"
  by (simp add: murmur_mix_def drop_bit_94 xor_cancel)

lemma murmur_mix_inject [simp]: "murmur_mix x = murmur_mix y \<longleftrightarrow> x = y"
  by (metis murmur_mix_mix)

definition murmur_m_inverse :: u64 where "murmur_m_inverse = 0x5f7a0ea7e59b19bd"

lemma murmur_m_unit: "murmur_m * murmur_m_inverse = 1"
  by (simp add: murmur_m_def murmur_m_inverse_def)

lemma times_murmur_m_inject [simp]: "x * murmur_m = y * murmur_m \<longleftrightarrow> x = y"
proof
  assume "x * murmur_m = y * murmur_m"
  then have "x * murmur_m * murmur_m_inverse = y * murmur_m * murmur_m_inverse"
    by simp
  then show "x = y"
    by (simp only: mult.assoc murmur_m_unit mult.right_neutral)
qed simp

lemma xor_right_inject [simp]: "(x :: 'a::len word) XOR h = y XOR h \<longleftrightarrow> x = y"
proof
  assume "x XOR h = y XOR h"
  then have "(x XOR h) XOR h = (y XOR h) XOR h" by simp
  then show "x = y" by (simp only: xor_cancel)
qed simp

lemma xor_left_inject [simp]: "(h :: 'a::len word) XOR x = h XOR y \<longleftrightarrow> x = y"
  using xor_right_inject [of x h y] by (simp add: xor.commute)

lemma murmur_block_inject: "murmur_block k h = murmur_block k' h \<longleftrightarrow> k = k'"
  by (simp add: murmur_block_def Let_def)

lemma length_lt_8_cases:
  "length xs < 8 \<Longrightarrow>
   xs = [] \<or> (\<exists>a. xs = [a]) \<or> (\<exists>a b. xs = [a, b]) \<or> (\<exists>a b c. xs = [a, b, c]) \<or>
   (\<exists>a b c d. xs = [a, b, c, d]) \<or> (\<exists>a b c d e. xs = [a, b, c, d, e]) \<or>
   (\<exists>a b c d e f. xs = [a, b, c, d, e, f]) \<or> (\<exists>a b c d e f g. xs = [a, b, c, d, e, f, g])"
  by (auto simp: less_Suc_eq numeral_eq_Suc length_Suc_conv)

lemma push_bit_8_low: "ucast (b :: byte) OR push_bit 8 (w :: u64) = ucast b XOR push_bit 8 w"
proof (rule bit_word_eqI)
  fix i
  show "bit (ucast b OR push_bit 8 w) i = bit (ucast b XOR push_bit 8 w) i"
    using bit_imp_le_length [of b i] by (auto simp: bit_simps)
qed

lemma le_word_Cons_xor: "(le_word (b # bs) :: u64) = ucast b XOR push_bit 8 (le_word bs)"
  by (simp add: push_bit_8_low)

lemma murmur_tail_word:
  assumes "length data2 < 8"
  shows "murmur_tail data2 h = (if data2 = [] then h else (h XOR le_word data2) * murmur_m)"
  using length_lt_8_cases [OF assms]
  by (elim disjE exE)
    (simp_all add: murmur_tail_def Let_def le_word_Cons_xor push_bit_xor ac_simps del: le_word.simps(2))

lemma murmur_blocks_short: "length data < 8 \<Longrightarrow> murmur_blocks data h = (data, h)"
  by (simp add: murmur_blocks.simps)

lemma murmur_blocks_8: "length data = 8 \<Longrightarrow> murmur_blocks data h = ([], murmur_block (le_word data) h)"
  by (simp add: murmur_blocks.simps [of data] murmur_blocks_short)

lemma murmur64_eq:
  "murmur64 key seed =
     (let (data2, h) = murmur_blocks key (seed XOR (of_nat (length key) * murmur_m))
      in murmur_mix (murmur_mix (murmur_tail data2 h) * murmur_m))"
  by (simp add: murmur64_def murmur_mix_def Let_def split: prod.splits)

lemma murmur64_inject_short:
  assumes "length xs = length ys" "length xs \<le> 8" "murmur64 xs seed = murmur64 ys seed"
  shows "xs = ys"
proof (cases "length xs = 8")
  case True
  then have "le_word xs = (le_word ys :: u64)"
    using assms by (simp add: murmur64_eq murmur_blocks_8 murmur_tail_word murmur_block_inject)
  then show ?thesis
    using assms True by (intro le_word_inject [where 'a = 64]) simp_all
next
  case False
  then have "length xs < 8" "length ys < 8" using assms by simp_all
  then show ?thesis
    using assms le_word_inject [of xs ys, where 'a = 64]
    by (cases "xs = []"; cases "ys = []") (simp_all add: murmur64_eq murmur_blocks_short murmur_tail_word)
qed

end
