(* ===== verification/Tfs_Inode.thy ===== *)
theory Tfs_Inode
  imports My_Hash "HOL-Library.Monad_Syntax"
begin

unbundle bit_operations_syntax

text \<open>
  The keys and values of the metadata table, \<open>fs/tfs_inode.h\<close>, and the functions of
  \<open>fs/tablefs.cpp\<close> that read and edit a value.  A value is the memory image of a
  \<open>tfs_inode_header\<close> (256 bytes on x86-64: a 144-byte \<open>struct stat\<close>, 104 bytes of padding and two
  32-bit words), the file name, a NUL and the inline data.  A function that would read past the end
  of a value returns \<open>None\<close>.  The lemmas show that on the image of an inode the functions are the
  edits of its parts they are meant to be.
\<close>

section \<open>Keys\<close>

definition PATH_DELIMITER :: byte where "PATH_DELIMITER = 47"

definition INODE_PADDING :: nat where "INODE_PADDING = 104"

definition ROOT_INODE_ID :: u64 where "ROOT_INODE_ID = 0"

definition NUM_FILES_IN_DATADIR_BITS :: nat where "NUM_FILES_IN_DATADIR_BITS = 14"

definition NUM_FILES_IN_DATADIR :: nat where "NUM_FILES_IN_DATADIR = 16384"

definition MAX_OPEN_FILES :: nat where "MAX_OPEN_FILES = 512"

record tfs_meta_key_t =
  inode_id :: u64
  hash_id :: u64

definition ToSlice :: "tfs_meta_key_t \<Rightarrow> bytes" where
  "ToSlice key = le_bytes 8 (inode_id key) @ le_bytes 8 (hash_id key)"

definition BuildMetaKey :: "u64 \<Rightarrow> u64 \<Rightarrow> tfs_meta_key_t" where
  "BuildMetaKey inode hash = \<lparr>inode_id = inode, hash_id = hash\<rparr>"

text \<open>\<open>BuildMetaKey(path, len, inode_id, key)\<close>: the \<open>len\<close> bytes are a name.\<close>

definition BuildMetaKey_name :: "bytes \<Rightarrow> u64 \<Rightarrow> tfs_meta_key_t" where
  "BuildMetaKey_name name inode = BuildMetaKey inode (murmur64 name 123)"

text \<open>The inode number that starts a stored key; a key shorter than that is read past its end.\<close>

definition IsKeyInDir :: "bytes \<Rightarrow> tfs_meta_key_t \<Rightarrow> bool option" where
  "IsKeyInDir key dirkey =
     (if length key < 8 then None else Some (le_word (take 8 key) = inode_id dirkey))"

lemma length_ToSlice [simp]: "length (ToSlice key) = 16"
  by (simp add: ToSlice_def)

lemma ToSlice_inject [simp]: "ToSlice k = ToSlice k' \<longleftrightarrow> k = k'"
  by (cases k; cases k') (simp add: ToSlice_def le_bytes_inject)

lemma IsKeyInDir_ToSlice [simp]:
  "IsKeyInDir (ToSlice key) dirkey = Some (inode_id key = inode_id dirkey)"
  by (simp add: IsKeyInDir_def ToSlice_def bytes_simps)

section \<open>The inode header\<close>

text \<open>\<open>struct stat\<close> of glibc on x86-64, the gaps between its members included.\<close>

record tfs_stat_t =
  st_dev :: u64
  st_ino :: u64
  st_nlink :: u64
  st_mode :: u32
  st_uid :: u32
  st_gid :: u32
  st_pad0 :: u32
  st_rdev :: u64
  st_size :: u64
  st_blksize :: u64
  st_blocks :: u64
  st_atim_sec :: u64
  st_atim_nsec :: u64
  st_mtim_sec :: u64
  st_mtim_nsec :: u64
  st_ctim_sec :: u64
  st_ctim_nsec :: u64
  st_reserved0 :: u64
  st_reserved1 :: u64
  st_reserved2 :: u64

record tfs_inode_header =
  fstat :: tfs_stat_t
  padding :: bytes
  has_blob :: u32
  namelen :: u32

definition TFS_INODE_HEADER_SIZE :: nat where "TFS_INODE_HEADER_SIZE = 256"

definition TFS_INODE_ATTR_SIZE :: nat where "TFS_INODE_ATTR_SIZE = 144"

definition stat_bytes :: "tfs_stat_t \<Rightarrow> bytes" where
  "stat_bytes s =
     le_bytes 8 (st_dev s) @ le_bytes 8 (st_ino s) @ le_bytes 8 (st_nlink s) @ le_bytes 4 (st_mode s) @
     le_bytes 4 (st_uid s) @ le_bytes 4 (st_gid s) @ le_bytes 4 (st_pad0 s) @ le_bytes 8 (st_rdev s) @
     le_bytes 8 (st_size s) @ le_bytes 8 (st_blksize s) @ le_bytes 8 (st_blocks s) @
     le_bytes 8 (st_atim_sec s) @ le_bytes 8 (st_atim_nsec s) @ le_bytes 8 (st_mtim_sec s) @
     le_bytes 8 (st_mtim_nsec s) @ le_bytes 8 (st_ctim_sec s) @ le_bytes 8 (st_ctim_nsec s) @
     le_bytes 8 (st_reserved0 s) @ le_bytes 8 (st_reserved1 s) @ le_bytes 8 (st_reserved2 s)"

definition field :: "nat \<Rightarrow> nat \<Rightarrow> bytes \<Rightarrow> 'a::len word" where
  "field off n bs = le_word (take n (drop off bs))"

definition stat_of_bytes :: "bytes \<Rightarrow> tfs_stat_t" where
  "stat_of_bytes bs =
     \<lparr>st_dev = field 0 8 bs, st_ino = field 8 8 bs, st_nlink = field 16 8 bs, st_mode = field 24 4 bs,
      st_uid = field 28 4 bs, st_gid = field 32 4 bs, st_pad0 = field 36 4 bs, st_rdev = field 40 8 bs,
      st_size = field 48 8 bs, st_blksize = field 56 8 bs, st_blocks = field 64 8 bs,
      st_atim_sec = field 72 8 bs, st_atim_nsec = field 80 8 bs, st_mtim_sec = field 88 8 bs,
      st_mtim_nsec = field 96 8 bs, st_ctim_sec = field 104 8 bs, st_ctim_nsec = field 112 8 bs,
      st_reserved0 = field 120 8 bs, st_reserved1 = field 128 8 bs, st_reserved2 = field 136 8 bs\<rparr>"

definition header_bytes :: "tfs_inode_header \<Rightarrow> bytes" where
  "header_bytes h = stat_bytes (fstat h) @ padding h @ le_bytes 4 (has_blob h) @ le_bytes 4 (namelen h)"

definition header_of_bytes :: "bytes \<Rightarrow> tfs_inode_header" where
  "header_of_bytes bs =
     \<lparr>fstat = stat_of_bytes bs, padding = take INODE_PADDING (drop 144 bs), has_blob = field 248 4 bs,
      namelen = field 252 4 bs\<rparr>"

section \<open>Reading and editing a value\<close>

definition GetInodeHeader :: "bytes \<Rightarrow> tfs_inode_header option" where
  "GetInodeHeader value =
     (if length value < TFS_INODE_HEADER_SIZE then None else Some (header_of_bytes value))"

definition GetAttribute :: "bytes \<Rightarrow> tfs_stat_t option" where
  "GetAttribute value =
     (if length value < TFS_INODE_ATTR_SIZE then None else Some (stat_of_bytes value))"

text \<open>\<open>TFS_INODE_HEADER_SIZE + header->namelen + 1 + offset\<close>, a \<open>size_t\<close>.\<close>

definition real_offset :: "tfs_inode_header \<Rightarrow> u64 \<Rightarrow> u64" where
  "real_offset header offset = of_nat TFS_INODE_HEADER_SIZE + ucast (namelen header) + 1 + offset"

text \<open>The bytes that \<open>GetInlineData\<close> copies to \<open>buf\<close>; their number is what it returns.\<close>

definition GetInlineData :: "bytes \<Rightarrow> u64 \<Rightarrow> u64 \<Rightarrow> bytes option" where
  "GetInlineData value offset len =
     do {
       header \<leftarrow> GetInodeHeader value;
       let realoffset = real_offset header offset;
       let value_size = of_nat (length value);
       if realoffset < value_size
       then let n = (if realoffset + len > value_size then value_size - realoffset else len)
            in if unat realoffset + unat n \<le> length value
               then Some (take (unat n) (drop (unat realoffset) value)) else None
       else Some []
     }"

definition UpdateIhandleValue :: "bytes \<Rightarrow> bytes \<Rightarrow> nat \<Rightarrow> bytes" where
  "UpdateIhandleValue value buf offset =
     (let value1 = (if offset > length value then string_resize offset value else value)
      in string_replace offset (length buf) buf value1)"

definition UpdateInodeHeader :: "bytes \<Rightarrow> tfs_inode_header \<Rightarrow> bytes" where
  "UpdateInodeHeader value new_header = UpdateIhandleValue value (header_bytes new_header) 0"

definition UpdateAttribute :: "bytes \<Rightarrow> tfs_stat_t \<Rightarrow> bytes" where
  "UpdateAttribute value new_fstat = UpdateIhandleValue value (stat_bytes new_fstat) 0"

definition UpdateInlineData :: "bytes \<Rightarrow> bytes \<Rightarrow> u64 \<Rightarrow> bytes option" where
  "UpdateInlineData value buf offset =
     do {
       header \<leftarrow> GetInodeHeader value;
       Some (UpdateIhandleValue value buf (unat (real_offset header offset)))
     }"

definition TruncateInlineData :: "bytes \<Rightarrow> u64 \<Rightarrow> bytes option" where
  "TruncateInlineData value new_size =
     do {
       header \<leftarrow> GetInodeHeader value;
       Some (string_resize (unat (of_nat TFS_INODE_HEADER_SIZE + ucast (namelen header) + new_size + 1 :: u64)) value)
     }"

definition DropInlineData :: "bytes \<Rightarrow> bytes option" where
  "DropInlineData value =
     do {
       header \<leftarrow> GetInodeHeader value;
       Some (string_resize (unat (of_nat TFS_INODE_HEADER_SIZE + ucast (namelen header) + 1 :: u64)) value)
     }"

section \<open>New values\<close>

text \<open>
  What \<open>InitStat\<close> reads from its surroundings: the clock, and the ids of the calling process, which
  FUSE provides.
\<close>

record sys_env =
  env_time :: u64
  env_uid :: u32
  env_gid :: u32

definition S_IFMT :: u32 where "S_IFMT = 0xF000"
definition S_IFREG :: u32 where "S_IFREG = 0x8000"
definition S_IFDIR :: u32 where "S_IFDIR = 0x4000"
definition S_IFLNK :: u32 where "S_IFLNK = 0xA000"

definition S_ISREG :: "u32 \<Rightarrow> bool" where
  "S_ISREG mode \<longleftrightarrow> mode AND S_IFMT = S_IFREG"

text \<open>
  \<open>InitStat\<close> assigns members of a structure in place; the others (\<open>st_rdev\<close>, the seconds of
  \<open>st_atim\<close> and \<open>st_mtim\<close>) keep what the memory held.
\<close>

definition InitStat :: "sys_env \<Rightarrow> bool \<Rightarrow> tfs_stat_t \<Rightarrow> u64 \<Rightarrow> u32 \<Rightarrow> u64 \<Rightarrow> tfs_stat_t" where
  "InitStat env flag_fuse_enabled statbuf inode mode dev =
     statbuf\<lparr>st_ino := inode, st_mode := mode, st_dev := dev,
       st_gid := (if flag_fuse_enabled then env_gid env else 0),
       st_uid := (if flag_fuse_enabled then env_uid env else 0),
       st_size := 0, st_blksize := 0, st_blocks := 0,
       st_nlink := (if S_ISREG mode then 1 else 2),
       st_atim_nsec := 0, st_mtim_nsec := 0, st_ctim_sec := env_time env, st_ctim_nsec := 0\<rparr>"

text \<open>
  \<open>InitInodeValue\<close> for a new inode; \<open>mem\<close> is what the memory from \<open>new char[]\<close> happens to hold.  A
  \<open>tfs_inode_val_t\<close> is its \<open>size\<close> bytes.
\<close>

definition InitInodeValue ::
  "sys_env \<Rightarrow> bool \<Rightarrow> bytes \<Rightarrow> u64 \<Rightarrow> u32 \<Rightarrow> u64 \<Rightarrow> bytes \<Rightarrow> bytes" where
  "InitInodeValue env flag_fuse_enabled mem inum mode dev filename =
     (let header = header_of_bytes (string_resize TFS_INODE_HEADER_SIZE mem);
          header = header\<lparr>fstat := InitStat env flag_fuse_enabled (fstat header) inum mode dev,
                          has_blob := 0, namelen := of_nat (length filename)\<rparr>
      in header_bytes header @ filename @ [0])"

text \<open>
  \<open>InitInodeValue\<close> for a renamed inode.  The file name is the tail of a path, so that the byte after
  it, which \<open>filename.size()+1\<close> includes, is the NUL that ends the path.
\<close>

definition InitInodeValue_renamed :: "bytes \<Rightarrow> bytes \<Rightarrow> bytes option" where
  "InitInodeValue_renamed old_value filename =
     do {
       header \<leftarrow> GetInodeHeader old_value;
       let new_value = string_replace TFS_INODE_HEADER_SIZE (unat (namelen header + 1)) (filename @ [0]) old_value;
       Some (UpdateInodeHeader new_value (header\<lparr>namelen := of_nat (length filename)\<rparr>))
     }"

section \<open>Values as inodes\<close>

text \<open>An inode is a header, a name and inline data; \<open>inode_value\<close> is its image.\<close>

definition inode_value :: "tfs_inode_header \<Rightarrow> bytes \<Rightarrow> bytes \<Rightarrow> bytes" where
  "inode_value h name data = header_bytes h @ name @ 0 # data"

definition wf_header :: "tfs_inode_header \<Rightarrow> bytes \<Rightarrow> bool" where
  "wf_header h name \<longleftrightarrow> length (padding h) = INODE_PADDING \<and> unat (namelen h) = length name"

lemma length_stat_bytes [simp, length_simps]: "length (stat_bytes s) = 144"
  by (simp add: stat_bytes_def)

lemma length_header_bytes [simp, length_simps]:
  "length (padding h) = INODE_PADDING \<Longrightarrow> length (header_bytes h) = 256"
  by (simp add: header_bytes_def INODE_PADDING_def)

lemma stat_of_bytes_stat_bytes [simp]: "stat_of_bytes (stat_bytes s @ rest) = s"
  by (cases s) (simp add: stat_of_bytes_def stat_bytes_def field_def bytes_simps)

lemma header_of_bytes_header_bytes [simp]:
  assumes "length (padding h) = INODE_PADDING"
  shows "header_of_bytes (header_bytes h @ rest) = h"
  using assms
  by (cases h) (simp add: header_of_bytes_def header_bytes_def field_def bytes_simps INODE_PADDING_def)

lemma le_bytes_field:
  assumes "off + n \<le> length bs" "8 * n \<le> LENGTH('a)"
  shows "le_bytes n (field off n bs :: 'a::len word) = take n (drop off bs)"
proof -
  have "length (take n (drop off bs)) = n"
    using assms by simp
  then show ?thesis
    using le_bytes_le_word [of "take n (drop off bs)", where 'a = 'a] assms(2) by (simp add: field_def)
qed

lemma take_drop_join: "k' = k + a \<Longrightarrow> take a (drop k bs) @ take b (drop k' bs) = take (a + b) (drop k bs)"
  by (simp add: take_add add.commute)

lemma stat_bytes_stat_of_bytes:
  assumes "144 \<le> length bs"
  shows "stat_bytes (stat_of_bytes bs) = take 144 bs"
  using assms take_drop_join [of 8 0 8 bs 136]
  by (simp add: stat_bytes_def stat_of_bytes_def le_bytes_field take_drop_join)

lemma header_bytes_header_of_bytes:
  assumes "256 \<le> length bs"
  shows "header_bytes (header_of_bytes bs) = take 256 bs"
  using assms take_drop_join [of 144 0 144 bs 112]
  by (simp add: header_bytes_def header_of_bytes_def stat_bytes_stat_of_bytes le_bytes_field take_drop_join
      INODE_PADDING_def)

text \<open>Every value that ends its name where the header says is the image of an inode.\<close>

lemma inode_value_cases:
  assumes "GetInodeHeader v = Some h" "257 + unat (namelen h) \<le> length v" "v ! (256 + unat (namelen h)) = 0"
  obtains name data where "v = inode_value h name data" "wf_header h name"
proof -
  let ?n = "unat (namelen h)"
  have len: "256 \<le> length v" and h: "h = header_of_bytes v"
    using assms(1) by (simp_all add: GetInodeHeader_def TFS_INODE_HEADER_SIZE_def split: if_splits)
  have "v = take 256 v @ take ?n (drop 256 v) @ drop (256 + ?n) v"
    using append_take_drop_id [of ?n "drop 256 v"] append_take_drop_id [of 256 v] by (simp add: add.commute)
  moreover have "drop (256 + ?n) v = 0 # drop (257 + ?n) v"
    using assms(2,3) Cons_nth_drop_Suc [of "256 + ?n" v] by simp
  ultimately have "v = inode_value h (take ?n (drop 256 v)) (drop (257 + ?n) v)"
    by (simp add: inode_value_def h header_bytes_header_of_bytes len)
  moreover have "wf_header h (take ?n (drop 256 v))"
    using assms(2) by (simp add: wf_header_def h header_of_bytes_def INODE_PADDING_def)
  ultimately show thesis
    by (rule that)
qed

subsection \<open>The functions on the image of an inode\<close>

lemma length_inode_value [simp]:
  "wf_header h name \<Longrightarrow> length (inode_value h name data) = 257 + length name + length data"
  by (simp add: inode_value_def wf_header_def)

lemma GetInodeHeader_value [simp]:
  "wf_header h name \<Longrightarrow> GetInodeHeader (inode_value h name data) = Some h"
  by (simp add: GetInodeHeader_def TFS_INODE_HEADER_SIZE_def) (simp add: inode_value_def wf_header_def)

lemma GetAttribute_value [simp]:
  "wf_header h name \<Longrightarrow> GetAttribute (inode_value h name data) = Some (fstat h)"
  by (simp add: GetAttribute_def TFS_INODE_ATTR_SIZE_def) (simp add: inode_value_def header_bytes_def)

lemma UpdateInodeHeader_value [simp]:
  assumes "wf_header h name" "length (padding h') = INODE_PADDING"
  shows "UpdateInodeHeader (inode_value h name data) h' = inode_value h' name data"
  using assms by (simp add: UpdateInodeHeader_def UpdateIhandleValue_def string_replace_def)
    (simp add: inode_value_def wf_header_def)

lemma UpdateAttribute_value [simp]:
  assumes "wf_header h name"
  shows "UpdateAttribute (inode_value h name data) s = inode_value (h\<lparr>fstat := s\<rparr>) name data"
  by (simp add: UpdateAttribute_def UpdateIhandleValue_def string_replace_def inode_value_def header_bytes_def)

lemma unat_plus_small: "unat (a :: u64) + n < 2 ^ 64 \<Longrightarrow> unat (a + of_nat n) = unat a + n"
  by (simp add: unat_word_ariths unat_of_nat take_bit_nat_eq_self)

lemma unat_real_offset:
  assumes "wf_header h name" "257 + length name + unat offset < 2 ^ 64"
  shows "unat (real_offset h offset) = 257 + length name + unat offset"
proof -
  have "(ucast (namelen h) :: u64) = of_nat (unat (namelen h))"
    by simp
  then have "real_offset h offset = 257 + of_nat (length name) + offset"
    using assms(1) by (simp add: real_offset_def TFS_INODE_HEADER_SIZE_def wf_header_def del: of_nat_unat)
  then have "real_offset h offset = of_nat (257 + length name + unat offset)"
    by simp
  then show ?thesis
    using assms(2) by (simp only: unat_of_nat) (simp add: take_bit_nat_eq_self)
qed

text \<open>Writing into the inline data is \<open>UpdateIhandleValue\<close> on the data alone.\<close>

lemma UpdateIhandleValue_append:
  assumes "length pre \<le> offset"
  shows "UpdateIhandleValue (pre @ data) buf offset = pre @ UpdateIhandleValue data buf (offset - length pre)"
  using assms by (auto simp: UpdateIhandleValue_def string_replace_def string_resize_def Let_def)

lemma UpdateIhandleValue_value:
  "wf_header h name \<Longrightarrow> UpdateIhandleValue (inode_value h name data) buf (257 + length name + k) =
    inode_value h name (UpdateIhandleValue data buf k)"
  using UpdateIhandleValue_append [of "header_bytes h @ name @ [0]" "257 + length name + k" data buf]
  by (simp add: inode_value_def wf_header_def)

lemma string_resize_append:
  "length pre \<le> n \<Longrightarrow> string_resize n (pre @ data) = pre @ string_resize (n - length pre) data"
  by (simp add: string_resize_def)

lemma string_resize_value:
  "wf_header h name \<Longrightarrow> string_resize (257 + length name + k) (inode_value h name data) =
    inode_value h name (string_resize k data)"
  using string_resize_append [of "header_bytes h @ name @ [0]" "257 + length name + k" data]
  by (simp add: inode_value_def wf_header_def)

lemma UpdateInlineData_value:
  assumes wf: "wf_header h name" and "257 + length name + unat offset < 2 ^ 64"
  shows "UpdateInlineData (inode_value h name data) buf offset =
    Some (inode_value h name (UpdateIhandleValue data buf (unat offset)))"
  using wf by (simp add: UpdateInlineData_def unat_real_offset [OF assms] UpdateIhandleValue_value)

lemma TruncateInlineData_value:
  assumes wf: "wf_header h name" and "257 + length name + unat n < 2 ^ 64"
  shows "TruncateInlineData (inode_value h name data) n = Some (inode_value h name (string_resize (unat n) data))"
proof -
  have "of_nat TFS_INODE_HEADER_SIZE + ucast (namelen h) + n + 1 = real_offset h n"
    by (simp add: real_offset_def)
  then show ?thesis
    using wf by (simp only: TruncateInlineData_def GetInodeHeader_value Option.bind.bind_lunit
        unat_real_offset [OF assms] string_resize_value)
qed

lemma DropInlineData_value:
  assumes wf: "wf_header h name" and "257 + length name < 2 ^ 64"
  shows "DropInlineData (inode_value h name data) = Some (inode_value h name [])"
proof -
  have "DropInlineData v = TruncateInlineData v 0" for v
    by (simp add: DropInlineData_def TruncateInlineData_def)
  then show ?thesis
    using TruncateInlineData_value [OF wf, of 0] assms(2) by (simp add: string_resize_def)
qed

lemma GetInlineData_value:
  assumes wf: "wf_header h name" and "257 + length name + unat offset + unat n < 2 ^ 64"
    and "257 + length name + length data < 2 ^ 64"
  shows "GetInlineData (inode_value h name data) offset n = Some (take (unat n) (drop (unat offset) data))"
proof -
  let ?v = "inode_value h name data"
  let ?r = "real_offset h offset"
  let ?size = "of_nat (length ?v) :: u64"
  have r: "unat ?r = 257 + length name + unat offset"
    using assms by (intro unat_real_offset) auto
  have len: "unat ?size = 257 + length name + length data"
    using assms(3) wf by (simp only: unat_of_nat length_inode_value) (simp add: take_bit_nat_eq_self)
  have sum: "unat (?r + n) = 257 + length name + unat offset + unat n"
    using assms(2) r by (simp add: unat_word_ariths take_bit_nat_eq_self)
  have lt: "?r < ?size \<longleftrightarrow> unat offset < length data"
    using r len by (simp add: word_less_nat_alt)
  have gt: "?r + n > ?size \<longleftrightarrow> length data < unat offset + unat n"
    using sum len by (simp add: word_less_nat_alt)
  have drop: "drop (257 + length name + k) ?v = drop k data" for k
    using wf by (simp add: inode_value_def wf_header_def)
  have sub: "unat (?size - ?r) = length data - unat offset" if "unat offset < length data"
    using that lt r len by (simp add: unat_sub word_le_nat_alt)
  show ?thesis
  proof (cases "unat offset < length data")
    case False
    then show ?thesis
      using wf lt by (simp add: GetInlineData_def)
  next
    case True
    then show ?thesis
      using wf lt gt r sub [OF True] drop [of "unat offset"]
      by (simp add: GetInlineData_def Let_def)
  qed
qed

lemma InitInodeValue_renamed_value:
  assumes wf: "wf_header h name" and "length filename < 2 ^ 32" "length name < 2 ^ 32 - 1"
  shows "InitInodeValue_renamed (inode_value h name data) filename =
    Some (inode_value (h\<lparr>namelen := of_nat (length filename)\<rparr>) filename data)"
proof -
  have "unat (namelen h + 1) = length name + 1"
    using wf assms(3) by (simp add: wf_header_def unat_word_ariths take_bit_nat_eq_self)
  moreover have "wf_header (h\<lparr>namelen := of_nat (length filename)\<rparr>) filename"
    using wf assms(2) by (simp add: wf_header_def unat_of_nat take_bit_nat_eq_self)
  moreover have "string_replace 256 (length name + 1) (filename @ [0]) (inode_value h name data) =
      header_bytes h @ filename @ 0 # data"
    using wf by (simp add: string_replace_def inode_value_def wf_header_def)
  moreover have "UpdateInodeHeader (header_bytes h @ rest) h' = header_bytes h' @ rest"
    if "length (padding h') = INODE_PADDING" for rest h'
    using wf that by (simp add: UpdateInodeHeader_def UpdateIhandleValue_def string_replace_def wf_header_def)
  ultimately show ?thesis
    using wf by (simp add: InitInodeValue_renamed_def TFS_INODE_HEADER_SIZE_def)
      (simp add: inode_value_def wf_header_def)
qed

lemma InitInodeValue_value:
  assumes "length filename < 2 ^ 32"
  obtains h where "InitInodeValue env fuse mem inum mode dev filename = inode_value h filename []"
    "wf_header h filename" "st_ino (fstat h) = inum" "st_mode (fstat h) = mode" "st_size (fstat h) = 0"
    "has_blob h = 0"
proof -
  let ?h0 = "header_of_bytes (string_resize TFS_INODE_HEADER_SIZE mem)"
  let ?h = "?h0\<lparr>fstat := InitStat env fuse (fstat ?h0) inum mode dev, has_blob := 0,
    namelen := of_nat (length filename)\<rparr>"
  have "length (padding ?h) = INODE_PADDING"
    by (simp add: header_of_bytes_def INODE_PADDING_def TFS_INODE_HEADER_SIZE_def)
  then have "wf_header ?h filename"
    using assms by (simp add: wf_header_def unat_of_nat take_bit_nat_eq_self)
  then show thesis
    by (intro that [of ?h]) (simp_all add: InitInodeValue_def inode_value_def InitStat_def Let_def)
qed

end
