(* ===== verification/Posix_Files.thy ===== *)
theory Posix_Files
  imports Tfs_Inode Decimal
begin

text \<open>
  The calls of the operating system that the program makes on the files below its data directory:
  \<open>open\<close>, \<open>close\<close>, \<open>pread\<close>, \<open>pwrite\<close>, \<open>ftruncate\<close>, \<open>truncate\<close>, \<open>fsync\<close>, \<open>unlink\<close>, \<open>mkdir\<close>, and the
  formatted output of numbers it builds their paths with.  A path leads to the number of a file, so
  that a file that is unlinked while it is open keeps its data; descriptors are numbered from the
  lowest free one.  The disk neither fills up nor fails, and permissions are not modelled.
\<close>

section \<open>The files\<close>

record Posix =
  px_links :: "bytes \<Rightarrow> nat option"
  px_files :: "nat \<Rightarrow> bytes"
  px_dirs :: "bytes \<Rightarrow> bool"
  px_fds :: "(nat \<times> u32) option list"
  px_next :: nat
  px_errno :: int

definition ENOENT :: int where "ENOENT = 2"
definition EBADF :: int where "EBADF = 9"
definition EEXIST :: int where "EEXIST = 17"
definition EISDIR :: int where "EISDIR = 21"
definition EINVAL :: int where "EINVAL = 22"

definition O_WRONLY :: u32 where "O_WRONLY = 1"
definition O_RDWR :: u32 where "O_RDWR = 2"
definition O_ACCMODE :: u32 where "O_ACCMODE = 3"
definition O_CREAT :: u32 where "O_CREAT = 0x40"
definition O_EXCL :: u32 where "O_EXCL = 0x80"
definition O_TRUNC :: u32 where "O_TRUNC = 0x200"
definition O_APPEND :: u32 where "O_APPEND = 0x400"

definition flag :: "u32 \<Rightarrow> u32 \<Rightarrow> bool" where
  "flag flags f \<longleftrightarrow> flags AND f \<noteq> 0"

definition can_read :: "u32 \<Rightarrow> bool" where
  "can_read flags \<longleftrightarrow> flags AND O_ACCMODE \<noteq> O_WRONLY"

definition can_write :: "u32 \<Rightarrow> bool" where
  "can_write flags \<longleftrightarrow> flags AND O_ACCMODE \<noteq> 0"

text \<open>One call moves at most this many bytes.\<close>

definition MAX_RW_COUNT :: nat where "MAX_RW_COUNT = 0x7ffff000"

definition px_fail :: "int \<Rightarrow> Posix \<Rightarrow> int \<times> Posix" where
  "px_fail err s = (-1, s\<lparr>px_errno := err\<rparr>)"

definition dirname :: "bytes \<Rightarrow> bytes" where
  "dirname path = rev (drop 1 (dropWhile (\<lambda>c. c \<noteq> 47) (rev path)))"

fun lowest_free :: "'a option list \<Rightarrow> nat" where
  "lowest_free [] = 0"
| "lowest_free (None # fds) = 0"
| "lowest_free (Some _ # fds) = Suc (lowest_free fds)"

definition fd_install :: "nat \<times> u32 \<Rightarrow> Posix \<Rightarrow> int \<times> Posix" where
  "fd_install f s =
     (let fd = lowest_free (px_fds s)
      in (int fd, s\<lparr>px_fds := (if fd < length (px_fds s) then (px_fds s)[fd := Some f] else px_fds s @ [Some f])\<rparr>))"

definition fd_lookup :: "int \<Rightarrow> Posix \<Rightarrow> (nat \<times> u32) option" where
  "fd_lookup fd s = (if 0 \<le> fd \<and> nat fd < length (px_fds s) then px_fds s ! nat fd else None)"

definition posix_open :: "bytes \<Rightarrow> u32 \<Rightarrow> Posix \<Rightarrow> int \<times> Posix" where
  "posix_open path flags s =
     (case px_links s path of
        Some f \<Rightarrow>
          if flag flags O_CREAT \<and> flag flags O_EXCL then px_fail EEXIST s
          else fd_install (f, flags) (if flag flags O_TRUNC then s\<lparr>px_files := (px_files s)(f := [])\<rparr> else s)
      | None \<Rightarrow>
          if px_dirs s path then px_fail EISDIR s
          else if flag flags O_CREAT \<and> px_dirs s (dirname path)
          then fd_install (px_next s, flags)
                 (s\<lparr>px_links := (px_links s)(path \<mapsto> px_next s), px_files := (px_files s)(px_next s := []),
                    px_next := px_next s + 1\<rparr>)
          else px_fail ENOENT s)"

definition posix_close :: "int \<Rightarrow> Posix \<Rightarrow> int \<times> Posix" where
  "posix_close fd s =
     (case fd_lookup fd s of
        None \<Rightarrow> px_fail EBADF s
      | Some _ \<Rightarrow> (0, s\<lparr>px_fds := (px_fds s)[nat fd := None]\<rparr>))"

definition posix_pread :: "int \<Rightarrow> nat \<Rightarrow> int \<Rightarrow> Posix \<Rightarrow> (int \<times> bytes) \<times> Posix" where
  "posix_pread fd len offset s =
     (case fd_lookup fd s of
        None \<Rightarrow> ((-1, []), s\<lparr>px_errno := EBADF\<rparr>)
      | Some (f, flags) \<Rightarrow>
          if \<not> can_read flags then ((-1, []), s\<lparr>px_errno := EBADF\<rparr>)
          else if offset < 0 then ((-1, []), s\<lparr>px_errno := EINVAL\<rparr>)
          else let buf = take (min len MAX_RW_COUNT) (drop (nat offset) (px_files s f))
               in ((int (length buf), buf), s))"

text \<open>On this system \<open>O_APPEND\<close> makes \<open>pwrite\<close> append, whatever the offset.\<close>

definition write_at :: "nat \<Rightarrow> bytes \<Rightarrow> bytes \<Rightarrow> bytes" where
  "write_at offset buf data =
     (if buf = [] then data
      else take offset (string_resize (max offset (length data)) data) @ buf @ drop (offset + length buf) data)"

definition posix_pwrite :: "int \<Rightarrow> bytes \<Rightarrow> int \<Rightarrow> Posix \<Rightarrow> int \<times> Posix" where
  "posix_pwrite fd buf offset s =
     (case fd_lookup fd s of
        None \<Rightarrow> px_fail EBADF s
      | Some (f, flags) \<Rightarrow>
          if \<not> can_write flags then px_fail EBADF s
          else if offset < 0 then px_fail EINVAL s
          else let data = px_files s f; buf = take MAX_RW_COUNT buf
               in (int (length buf),
                   s\<lparr>px_files := (px_files s)
                       (f := if flag flags O_APPEND then data @ buf else write_at (nat offset) buf data)\<rparr>))"

definition posix_ftruncate :: "int \<Rightarrow> int \<Rightarrow> Posix \<Rightarrow> int \<times> Posix" where
  "posix_ftruncate fd len s =
     (case fd_lookup fd s of
        None \<Rightarrow> px_fail EBADF s
      | Some (f, flags) \<Rightarrow>
          if \<not> can_write flags \<or> len < 0 then px_fail EINVAL s
          else (0, s\<lparr>px_files := (px_files s)(f := string_resize (nat len) (px_files s f))\<rparr>))"

definition posix_truncate :: "bytes \<Rightarrow> int \<Rightarrow> Posix \<Rightarrow> int \<times> Posix" where
  "posix_truncate path len s =
     (if len < 0 then px_fail EINVAL s
      else case px_links s path of
             None \<Rightarrow> px_fail (if px_dirs s path then EISDIR else ENOENT) s
           | Some f \<Rightarrow> (0, s\<lparr>px_files := (px_files s)(f := string_resize (nat len) (px_files s f))\<rparr>))"

definition posix_fsync :: "int \<Rightarrow> Posix \<Rightarrow> int \<times> Posix" where
  "posix_fsync fd s = (if fd_lookup fd s = None then px_fail EBADF s else (0, s))"

definition posix_unlink :: "bytes \<Rightarrow> Posix \<Rightarrow> int \<times> Posix" where
  "posix_unlink path s =
     (case px_links s path of
        None \<Rightarrow> px_fail (if px_dirs s path then EISDIR else ENOENT) s
      | Some _ \<Rightarrow> (0, s\<lparr>px_links := (px_links s)(path := None)\<rparr>))"

definition posix_mkdir :: "bytes \<Rightarrow> Posix \<Rightarrow> int \<times> Posix" where
  "posix_mkdir path s =
     (if px_dirs s path \<or> px_links s path \<noteq> None then px_fail EEXIST s
      else if px_dirs s (dirname path) then (0, s\<lparr>px_dirs := (px_dirs s)(path := True)\<rparr>)
      else px_fail ENOENT s)"

text \<open>Reading a whole file (\<open>fopen(path, "r")\<close>), and replacing its contents (\<open>fopen(path, "w")\<close>, \<open>fprintf\<close>, \<open>fclose\<close>).\<close>

definition file_read :: "bytes \<Rightarrow> Posix \<Rightarrow> bytes option" where
  "file_read path s = map_option (px_files s) (px_links s path)"

definition file_write :: "bytes \<Rightarrow> bytes \<Rightarrow> Posix \<Rightarrow> bool \<times> Posix" where
  "file_write path data s =
     (case px_links s path of
        Some f \<Rightarrow> (True, s\<lparr>px_files := (px_files s)(f := data)\<rparr>)
      | None \<Rightarrow>
          if px_dirs s path \<or> \<not> px_dirs s (dirname path)
          then (False, s\<lparr>px_errno := (if px_dirs s path then EISDIR else ENOENT)\<rparr>)
          else (True, s\<lparr>px_links := (px_links s)(path \<mapsto> px_next s), px_files := (px_files s)(px_next s := data),
                        px_next := px_next s + 1\<rparr>))"

section \<open>Descriptors and data\<close>

lemma lowest_free_le: "lowest_free fds \<le> length fds"
  by (induction fds rule: lowest_free.induct) auto

lemma lowest_free_None: "lowest_free fds < length fds \<Longrightarrow> fds ! lowest_free fds = None"
  by (induction fds rule: lowest_free.induct) auto

lemma fd_install_spec:
  assumes "fd_install f s = (fd, s')"
  shows "0 \<le> fd" and "fd_lookup fd s = None" and "fd_lookup fd s' = Some f"
    and "fd' \<noteq> fd \<Longrightarrow> fd_lookup fd' s' = fd_lookup fd' s"
    and "px_links s' = px_links s" "px_files s' = px_files s" "px_dirs s' = px_dirs s" "px_next s' = px_next s"
      "px_errno s' = px_errno s"
proof -
  let ?fd = "lowest_free (px_fds s)"
  let ?fds = "if ?fd < length (px_fds s) then (px_fds s)[?fd := Some f] else px_fds s @ [Some f]"
  have eq: "fd = int ?fd" "s' = s\<lparr>px_fds := ?fds\<rparr>"
    using assms by (auto simp: fd_install_def Let_def)
  have full: "?fd = length (px_fds s)" if "\<not> ?fd < length (px_fds s)"
    using lowest_free_le [of "px_fds s"] that by simp
  show "0 \<le> fd" "fd_lookup fd s = None" "fd_lookup fd s' = Some f"
    using lowest_free_None [of "px_fds s"] full by (auto simp: eq fd_lookup_def nth_append)
  show "fd_lookup fd' s' = fd_lookup fd' s" if "fd' \<noteq> fd"
  proof (cases "0 \<le> fd'")
    case True
    then have "nat fd' \<noteq> ?fd"
      using that eq(1) by auto
    then show ?thesis
      using full by (auto simp: eq(2) fd_lookup_def nth_append nth_list_update)
  qed (simp add: fd_lookup_def)
  show "px_links s' = px_links s" "px_files s' = px_files s" "px_dirs s' = px_dirs s" "px_next s' = px_next s"
      "px_errno s' = px_errno s"
    by (simp_all add: eq)
qed

lemma posix_close_spec:
  assumes "fd_lookup fd s = Some f"
  obtains s' where "posix_close fd s = (0, s')" "fd_lookup fd s' = None"
    "\<And>fd'. fd' \<noteq> fd \<Longrightarrow> fd_lookup fd' s' = fd_lookup fd' s"
    "px_links s' = px_links s" "px_files s' = px_files s" "px_dirs s' = px_dirs s" "px_errno s' = px_errno s"
proof -
  let ?s = "s\<lparr>px_fds := (px_fds s)[nat fd := None]\<rparr>"
  have "fd_lookup fd' ?s = fd_lookup fd' s" if "fd' \<noteq> fd" for fd'
    using that assms by (auto simp: fd_lookup_def nth_list_update split: if_splits)
  moreover have "fd_lookup fd ?s = None"
    by (auto simp: fd_lookup_def)
  ultimately show thesis
    using assms by (intro that [of ?s]) (simp_all add: posix_close_def)
qed

lemma read_write_at [simp]: "take (length buf) (drop offset (write_at offset buf data)) = buf"
  by (cases "buf = []") (simp_all add: write_at_def)

lemma write_at_append: "write_at (length data) buf data = data @ buf"
  by (cases "buf = []") (simp_all add: write_at_def)

lemma length_write_at:
  "length (write_at offset buf data) = (if buf = [] then length data else max (length data) (offset + length buf))"
  by (auto simp: write_at_def max_def)

lemma nth_write_at_other:
  assumes "i < length data" "i < offset \<or> offset + length buf \<le> i"
  shows "write_at offset buf data ! i = data ! i"
  using assms by (auto simp: write_at_def nth_append string_resize_def min_def)

end
