(* ===== verification/Properties.thy ===== *)
theory Properties
  imports Byte_Order Posix_Files
begin

text \<open>
  The configuration, \<open>util/properties.cpp\<close>: a \<open>std::map\<close> of strings, filled from the command line or
  from a file of \<open>key=value\<close> lines.  A command line that ends in an option without a value makes the
  program dereference a null pointer: \<open>parseOpts\<close> is then \<open>None\<close>.  Floating-point properties are not
  modelled.
\<close>

section \<open>Reading and setting\<close>

record Properties =
  plist :: "(bytes \<times> bytes) list"

definition Properties_new :: Properties where
  "Properties_new = \<lparr>plist = []\<rparr>"

definition setProperty :: "bytes \<Rightarrow> bytes \<Rightarrow> Properties \<Rightarrow> Properties" where
  "setProperty key val p = p\<lparr>plist := list_put key val (plist p)\<rparr>"

definition setPropertyInt :: "bytes \<Rightarrow> int \<Rightarrow> Properties \<Rightarrow> Properties" where
  "setPropertyInt key val p = p\<lparr>plist := list_put key (print_int val) (plist p)\<rparr>"

definition getProperty :: "bytes \<Rightarrow> Properties \<Rightarrow> bytes" where
  "getProperty key p = (case map_of (plist p) key of Some v \<Rightarrow> v | None \<Rightarrow> cstr ''/'')"

definition getProperty_default :: "bytes \<Rightarrow> bytes \<Rightarrow> Properties \<Rightarrow> bytes" where
  "getProperty_default key defaultVal p = (case map_of (plist p) key of Some v \<Rightarrow> v | None \<Rightarrow> defaultVal)"

text \<open>\<open>atoi\<close> skips white space, takes a sign and reads digits; the result is an \<open>int\<close>, 32 bits wide.\<close>

definition atoi :: "bytes \<Rightarrow> int" where
  "atoi text =
     (let s = dropWhile is_space text;
          neg = (s \<noteq> [] \<and> hd s = 45);
          s' = (if s \<noteq> [] \<and> (hd s = 45 \<or> hd s = 43) then tl s else s);
          n = int (digits_value (takeWhile is_digit s'))
      in sint (of_int (if neg then - n else n) :: 32 word))"

definition getPropertyInt :: "bytes \<Rightarrow> int \<Rightarrow> Properties \<Rightarrow> int" where
  "getPropertyInt key defaultVal p = (case map_of (plist p) key of Some v \<Rightarrow> atoi v | None \<Rightarrow> defaultVal)"

definition getPropertyBool :: "bytes \<Rightarrow> bool \<Rightarrow> Properties \<Rightarrow> bool" where
  "getPropertyBool key defaultVal p =
     (case map_of (plist p) key of Some v \<Rightarrow> v = cstr ''true'' | None \<Rightarrow> defaultVal)"

section \<open>Files\<close>

text \<open>
  One line of \<open>load\<close>: what \<open>getline\<close> left in the buffer, up to its NUL, split at the first \<open>=\<close>.
\<close>

definition load_line :: "bytes \<Rightarrow> Properties \<Rightarrow> Properties" where
  "load_line buf p =
     (let line = takeWhile (\<lambda>c. c \<noteq> 0) buf; key = takeWhile (\<lambda>c. c \<noteq> 61) line
      in if length key < length line then setProperty key (drop (length key + 1) line) p else p)"

text \<open>
  The loop of \<open>load\<close>.  \<open>getline(line, 1024)\<close> takes a line of at most 1023 bytes; a longer one fills the
  buffer and fails the stream, which ends the loop, as the end of the file does.
\<close>

function load_lines :: "bytes \<Rightarrow> Properties \<Rightarrow> Properties" where
  "load_lines text p =
     (let line = takeWhile (\<lambda>c. c \<noteq> 10) text; rest = drop (length line) text
      in if 1023 < length line then load_line (take 1023 line) p
         else if rest = [] then load_line line p
         else load_lines (drop 1 rest) (load_line line p))"
  by auto

termination load_lines
  by (relation "measure (\<lambda>(text, _). length text)") (auto simp: Let_def)

definition Properties_load :: "bytes \<Rightarrow> Posix \<Rightarrow> Properties \<Rightarrow> Properties" where
  "Properties_load filename s p = (case file_read filename s of None \<Rightarrow> p | Some text \<Rightarrow> load_lines text p)"

definition store_text :: "Properties \<Rightarrow> bytes" where
  "store_text p = concat (map (\<lambda>(k, v). k @ 61 # v @ [10]) (plist p))"

definition Properties_store :: "bytes \<Rightarrow> Properties \<Rightarrow> Posix \<Rightarrow> Posix" where
  "Properties_store filename p s = snd (file_write filename (store_text p) s)"

definition Report_text :: "Properties \<Rightarrow> bytes" where
  "Report_text p = concat (map (\<lambda>(k, v). k @ 32 # v @ [10]) (plist p))"

section \<open>The command line\<close>

fun parse_args :: "bytes list \<Rightarrow> Properties \<Rightarrow> Properties option" where
  "parse_args [] p = Some p"
| "parse_args (a # args) p =
     (if a \<noteq> [] \<and> hd a = 45
      then (case args of [] \<Rightarrow> None | v # args' \<Rightarrow> parse_args args' (setProperty (tl a) v p))
      else parse_args args p)"

definition parseOpts :: "bytes list \<Rightarrow> Properties \<Rightarrow> Properties option" where
  "parseOpts argv p = parse_args (drop 1 argv) p"

section \<open>What was set is found\<close>

lemma getProperty_set:
  "getProperty_default k d (setProperty key v p) = (if k = key then v else getProperty_default k d p)"
  "getProperty k (setProperty key v p) = (if k = key then v else getProperty k p)"
  "getPropertyBool k b (setProperty key v p) = (if k = key then v = cstr ''true'' else getPropertyBool k b p)"
  by (simp_all add: getProperty_default_def getProperty_def getPropertyBool_def setProperty_def map_of_list_put)

lemma not_digit_sign [simp]: "\<not> is_digit 45" "\<not> is_space 45"
  by (simp_all add: is_digit_def is_space_def word_le_nat_alt)

lemma digit_not_space: "is_digit c \<Longrightarrow> \<not> is_space c"
  by (auto simp: is_digit_def is_space_def word_le_nat_alt)

lemma atoi_print_int:
  assumes "- (2 ^ 31) \<le> i" "i < 2 ^ 31"
  shows "atoi (print_int i) = i"
proof -
  have digits: "takeWhile is_digit (print_nat n) = print_nat n" for n
    using is_digit_print_nat [of _ n] by (simp add: takeWhile_eq_all_conv)
  have hd: "is_digit (hd (print_nat n))" for n
    using is_digit_print_nat [of "hd (print_nat n)" n] by simp
  then have sp: "dropWhile is_space (print_nat n) = print_nat n" for n
    using digit_not_space [OF hd [of n]] by (cases "print_nat n") auto
  have ne: "hd (print_nat n) \<noteq> 45" "hd (print_nat n) \<noteq> 43" for n
    using hd [of n] by (auto simp: is_digit_def)
  have "sint (of_int i :: 32 word) = i"
    using assms by (simp add: sint_sbintrunc' signed_take_bit_int_eq_self)
  then show ?thesis
    unfolding atoi_def print_int_def Let_def
    by (cases "i < 0") (simp_all add: digits sp ne digits_value_print_nat del: of_int_minus of_int_of_nat_eq takeWhile_eq_all_conv)
qed

lemma getPropertyInt_set:
  "- (2 ^ 31) \<le> i \<Longrightarrow> i < 2 ^ 31 \<Longrightarrow> getPropertyInt key d (setPropertyInt key i p) = i"
  by (simp add: getPropertyInt_def setPropertyInt_def map_of_list_put atoi_print_int)

text \<open>A stored configuration is loaded back.\<close>

definition storable :: "bytes \<times> bytes \<Rightarrow> bool" where
  "storable e \<longleftrightarrow>
     0 \<notin> set (fst e) \<and> 10 \<notin> set (fst e) \<and> 61 \<notin> set (fst e) \<and> 0 \<notin> set (snd e) \<and> 10 \<notin> set (snd e) \<and>
     length (fst e) + length (snd e) < 1023"

lemma takeWhile_stop: "(\<And>x. x \<in> set xs \<Longrightarrow> P x) \<Longrightarrow> \<not> P y \<Longrightarrow> takeWhile P (xs @ y # ys) = xs"
  by (simp add: takeWhile_append2)

lemma load_line_entry:
  assumes "storable (k, v)"
  shows "load_line (k @ 61 # v) p = setProperty k v p"
proof -
  have all: "takeWhile (\<lambda>c. c \<noteq> 0) (k @ 61 # v) = k @ 61 # v"
    using assms by (intro takeWhile_eq_all_conv [THEN iffD2]) (auto simp: storable_def)
  have key: "takeWhile (\<lambda>c. c \<noteq> 61) (k @ 61 # v) = k"
    using assms by (intro takeWhile_stop) (auto simp: storable_def)
  show ?thesis
    unfolding load_line_def Let_def all key by simp
qed

declare load_lines.simps [simp del]

lemma load_lines_entry:
  assumes "storable (k, v)"
  shows "load_lines (k @ 61 # v @ 10 # text) p = load_lines text (setProperty k v p)"
proof -
  have "takeWhile (\<lambda>c. c \<noteq> 10) ((k @ 61 # v) @ 10 # text) = k @ 61 # v"
    using assms by (intro takeWhile_stop) (auto simp: storable_def)
  then show ?thesis
    using assms load_line_entry [OF assms] by (subst load_lines.simps) (simp add: storable_def)
qed

lemma load_lines_store:
  "list_all storable es \<Longrightarrow> load_lines (concat (map (\<lambda>(k, v). k @ 61 # v @ [10]) es)) p =
    p\<lparr>plist := fold (\<lambda>(k, v). list_put k v) es (plist p)\<rparr>"
proof (induction es arbitrary: p)
  case Nil
  then show ?case
    by (simp add: load_lines.simps load_line_def)
next
  case (Cons e es)
  then show ?case
    by (cases e) (simp add: load_lines_entry setProperty_def)
qed

lemma load_store:
  assumes "list_ok (plist p)" "list_all storable (plist p)"
  shows "load_lines (store_text p) Properties_new = p"
  using assms load_lines_store [of "plist p" Properties_new] fold_list_put [of "[]" "plist p"]
  by (simp add: store_text_def Properties_new_def)

lemma list_ok_setProperty: "list_ok (plist p) \<Longrightarrow> list_ok (plist (setProperty k v p))"
  by (simp add: setProperty_def list_ok_put)

lemma list_ok_parse_args:
  "parse_args args p = Some p' \<Longrightarrow> list_ok (plist p) \<Longrightarrow> list_ok (plist p')"
  by (induction args p rule: parse_args.induct) (auto simp: list_ok_setProperty split: if_splits list.splits)

text \<open>The command line gives every option its last value.\<close>

fun option_args :: "(bytes \<times> bytes) list \<Rightarrow> bytes list" where
  "option_args [] = []"
| "option_args ((k, v) # opts) = (45 # k) # v # option_args opts"

lemma parse_option_args:
  "parse_args (option_args opts) p = Some (fold (\<lambda>(k, v). setProperty k v) opts p)"
  by (induction opts arbitrary: p rule: option_args.induct) simp_all

end
