(* ===== verification/Log_Stores.thy ===== *)
theory Log_Stores
  imports Kv_Wrapper Properties Status
begin

text \<open>
  The adaptors of the two log-structured stores, \<open>adaptor/leveldb_wrapper.cc\<close> and
  \<open>adaptor/rocksdb_wrapper.cc\<close>.  The database is the interface of \<open>leveldb/db.h\<close>: a record of functions
  on the state of the machine, of which the files of the database are a part, so that a database can
  be opened again by its name.  The adaptors add the choice of when a write is synchronous and the
  return codes.  The messages to the log are left out.

  For the adaptor of LevelDB, which no build option of the file system selects, the rule for synchronous
  writes is shown to bound what has not been asked to be synchronous.  RocksDB is not part of the repository: what
  its documentation promises is the locale \<open>rocks_database\<close>, under which its adaptor is an ordered store
  that a new adaptor finds again after \<open>Cleanup\<close>.
\<close>

section \<open>The database\<close>

record WriteOptions =
  wo_sync :: bool
  wo_writeahead :: bool

definition WriteOptions_new :: WriteOptions where
  "WriteOptions_new = \<lparr>wo_sync = False, wo_writeahead = True\<rparr>"

text \<open>The options of \<open>leveldb/options.h\<close> that the adaptors set.\<close>

record DBOptions =
  create_if_missing :: bool
  block_cache :: "int option"
  block_size :: int
  write_buffer_size :: int
  max_open_files :: int
  filter_bits :: int
  limit_sst_file_size :: int
  limit_level_zero :: int
  factor_level_files :: int

text \<open>
  \<open>db_time\<close> is \<open>time(nullptr)\<close>; \<open>db_Seek\<close> a new iterator after \<open>Seek\<close>, as the list of the entries it visits.
\<close>

record ('o, 'b, 'st, 'd) DB =
  db_Open :: "'o \<Rightarrow> bytes \<Rightarrow> 'd \<Rightarrow> 'st \<times> 'd"
  db_close :: "'d \<Rightarrow> 'd"
  db_Put :: "WriteOptions \<Rightarrow> bytes \<Rightarrow> bytes \<Rightarrow> 'd \<Rightarrow> 'st \<times> 'd"
  db_Delete :: "WriteOptions \<Rightarrow> bytes \<Rightarrow> 'd \<Rightarrow> 'st \<times> 'd"
  db_Write :: "WriteOptions \<Rightarrow> 'b \<Rightarrow> 'd \<Rightarrow> 'st \<times> 'd"
  db_Get :: "bytes \<Rightarrow> 'd \<Rightarrow> 'st \<times> bytes \<times> 'd"
  db_Seek :: "bytes \<Rightarrow> 'd \<Rightarrow> (bytes \<times> bytes) list \<times> 'd"
  db_time :: "'d \<Rightarrow> int"

section \<open>LeveldbWrapper\<close>

text \<open>
  The members of the adaptor.  \<open>lw_p\<close> is its own \<open>p_\<close>: \<open>SetProperties\<close> of the base class sets another
  member of that name.  \<open>lw_failed\<close> records a failed assertion, where the process stops.
\<close>

record 'd LeveldbWrapper =
  lw_p :: Properties
  lw_name :: bytes
  lw_statistics :: Statistics
  lw_writeahead :: bool
  lw_last_sync_time :: int
  lw_sync_time_limit :: int
  lw_async_data_size :: "32 word"
  lw_sync_size_limit :: int
  lw_open :: bool
  lw_failed :: bool
  lw_db :: 'd

type_synonym 'd leveldb_DB = "(DBOptions, WriteBatch, Status, 'd) DB"

definition lw_record :: "OperationType \<Rightarrow> 'd LeveldbWrapper \<Rightarrow> 'd LeveldbWrapper" where
  "lw_record oper s = s\<lparr>lw_statistics := RecordKVOperations oper (lw_statistics s)\<rparr>"

definition Leveldb_Options :: "Properties \<Rightarrow> DBOptions" where
  "Leveldb_Options p =
     (let F_cache_size = getPropertyInt (cstr ''leveldb.cache.size'') (2 ^ 24) p
      in \<lparr>create_if_missing = getPropertyBool (cstr ''leveldb.create.if.missing.db'') True p,
          block_cache = (if F_cache_size \<ge> 0 then Some F_cache_size else None),
          block_size = getPropertyInt (cstr ''leveldb_block_size'') (2 ^ 12) p,
          write_buffer_size = getPropertyInt (cstr ''leveldb_write_buffer_size'') (2 ^ 24) p,
          max_open_files = getPropertyInt (cstr ''leveldb.max.open.files'') 800 p,
          filter_bits = 12,
          limit_sst_file_size = getPropertyInt (cstr ''leveldb_limit_sst_file_size'') 2097152 p,
          limit_level_zero = getPropertyInt (cstr ''leveldb_limit_level_zero'') 10 p,
          factor_level_files = getPropertyInt (cstr ''leveldb_factor_level_files'') 10 p\<rparr>)"

definition Leveldb_Init :: "'d leveldb_DB \<Rightarrow> 'd LeveldbWrapper \<Rightarrow> int \<times> 'd LeveldbWrapper" where
  "Leveldb_Init db s =
     (let p = lw_p s; name = getProperty_default (cstr ''leveldb.db'') (cstr ''/mnt/pmem/db'') p;
          s1 = s\<lparr>lw_failed := lw_failed s \<or> lw_open s, lw_name := name,
                 lw_writeahead := getPropertyBool (cstr ''leveldb.writeahead'') True p,
                 lw_sync_time_limit := getPropertyInt (cstr ''leveldb.sync.time.limit'') 5 p,
                 lw_sync_size_limit := getPropertyInt (cstr ''leveldb.sync.size.limit'') (- 1) p,
                 lw_last_sync_time := db_time db (lw_db s), lw_async_data_size := 0\<rparr>;
          (st, d) = db_Open db (Leveldb_Options p) name (lw_db s1)
      in if \<not> Status_ok st then (- 1, s1\<lparr>lw_db := d\<rparr>) else (0, s1\<lparr>lw_db := d, lw_open := True\<rparr>))"

definition Leveldb_Cleanup :: "'d leveldb_DB \<Rightarrow> 'd LeveldbWrapper \<Rightarrow> 'd LeveldbWrapper" where
  "Leveldb_Cleanup db s = s\<lparr>lw_db := db_close db (lw_db s), lw_open := False\<rparr>"

text \<open>
  When a write of \<open>n\<close> bytes is synchronous.  The size counter is an \<open>int\<close> to which a \<open>size_t\<close> is added.
\<close>

definition sync_policy :: "int \<Rightarrow> nat \<Rightarrow> 'd LeveldbWrapper \<Rightarrow> bool \<times> 'd LeveldbWrapper" where
  "sync_policy now n s =
     (if lw_sync_size_limit s > 0
      then let s1 = s\<lparr>lw_async_data_size := lw_async_data_size s + of_nat n\<rparr>
           in if sint (lw_async_data_size s1) > lw_sync_size_limit s1 then (True, s1\<lparr>lw_async_data_size := 0\<rparr>)
              else (False, s1)
      else if lw_sync_time_limit s > 0 \<and> now - lw_last_sync_time s > lw_sync_time_limit s
           then (True, s\<lparr>lw_last_sync_time := now\<rparr>)
           else (False, s))"

definition Leveldb_Put :: "'d leveldb_DB \<Rightarrow> bytes \<Rightarrow> bytes \<Rightarrow> 'd LeveldbWrapper \<Rightarrow> int \<times> 'd LeveldbWrapper" where
  "Leveldb_Put db key value s =
     (let (sync, s1) = sync_policy (db_time db (lw_db s)) (length key + length value) (lw_record PUT s);
          (st, d) = db_Put db \<lparr>wo_sync = sync, wo_writeahead = lw_writeahead s1\<rparr> key value (lw_db s1);
          s2 = s1\<lparr>lw_db := d\<rparr>
      in if Status_ok st then (0, s2) else (- 1, s2))"

definition Leveldb_Get :: "'d leveldb_DB \<Rightarrow> bytes \<Rightarrow> 'd LeveldbWrapper \<Rightarrow> int \<times> bytes \<times> 'd LeveldbWrapper" where
  "Leveldb_Get db key s =
     (let (st, result, d) = db_Get db key (lw_db s);
          s1 = (lw_record GET s)\<lparr>lw_db := d\<rparr>
      in if \<not> Status_ok st then (- 1, Status_ToString st, s1)
         else (if IsNotFound st then 0 else 1, result, s1))"

definition Leveldb_Delete :: "'d leveldb_DB \<Rightarrow> bytes \<Rightarrow> 'd LeveldbWrapper \<Rightarrow> int \<times> 'd LeveldbWrapper" where
  "Leveldb_Delete db key s =
     (0, (lw_record DELETE s)\<lparr>lw_db := snd (db_Delete db WriteOptions_new key (lw_db s))\<rparr>)"

definition Leveldb_Write :: "'d leveldb_DB \<Rightarrow> WriteBatch \<Rightarrow> 'd LeveldbWrapper \<Rightarrow> int \<times> 'd LeveldbWrapper" where
  "Leveldb_Write db batch s =
     (let (st, d) = db_Write db WriteOptions_new batch (lw_db s);
          s1 = (lw_record DELETE (lw_record PUT s))\<lparr>lw_db := d\<rparr>
      in if \<not> Status_ok st then (- 1, s1) else (0, s1))"

definition Leveldb_Sync :: "'d leveldb_DB \<Rightarrow> 'd LeveldbWrapper \<Rightarrow> int \<times> 'd LeveldbWrapper" where
  "Leveldb_Sync db s =
     (let (st, d) = db_Put db (WriteOptions_new\<lparr>wo_sync := True\<rparr>) (cstr ''sync'') [] (lw_db s);
          s1 = (lw_record PUT s)\<lparr>lw_db := d\<rparr>
      in if Status_ok st then (0, s1) else (- 1, s1))"

definition Leveldb_Seek :: "'d leveldb_DB \<Rightarrow> bytes \<Rightarrow> 'd LeveldbWrapper \<Rightarrow> (bytes \<times> bytes) list \<times> 'd LeveldbWrapper" where
  "Leveldb_Seek db target s =
     (let (entries, d) = db_Seek db target (lw_db s) in (entries, (lw_record PSCAN s)\<lparr>lw_db := d\<rparr>))"

definition LeveldbKv :: "'d leveldb_DB \<Rightarrow> 'd LeveldbWrapper KvWrapper" where
  "LeveldbKv db =
     \<lparr>kv_Init = Leveldb_Init db, kv_Cleanup = Leveldb_Cleanup db, kv_Put = Leveldb_Put db, kv_Get = Leveldb_Get db,
      kv_Delete = Leveldb_Delete db, kv_Write = Leveldb_Write db, kv_Sync = Leveldb_Sync db, kv_Seek = Leveldb_Seek db\<rparr>"

text \<open>A new adaptor: the members are zero, and its properties empty.\<close>

definition LeveldbWrapper_new :: "'d \<Rightarrow> 'd LeveldbWrapper" where
  "LeveldbWrapper_new d =
     \<lparr>lw_p = Properties_new, lw_name = [], lw_statistics = Statistics_new, lw_writeahead = False,
      lw_last_sync_time = 0, lw_sync_time_limit = 0, lw_async_data_size = 0, lw_sync_size_limit = 0,
      lw_open = False, lw_failed = False, lw_db = d\<rparr>"

text \<open>An iterator of the database, and the adaptor's, which forwards every call; \<open>Prev\<close> calls \<open>Next\<close>.\<close>

record 'i db_iterator =
  di_Valid :: "'i \<Rightarrow> bool"
  di_SeekToFirst :: "'i \<Rightarrow> 'i"
  di_SeekToLast :: "'i \<Rightarrow> 'i"
  di_Seek :: "bytes \<Rightarrow> 'i \<Rightarrow> 'i"
  di_Next :: "'i \<Rightarrow> 'i"
  di_Prev :: "'i \<Rightarrow> 'i"
  di_key :: "'i \<Rightarrow> bytes"
  di_value :: "'i \<Rightarrow> bytes"

definition LeveldbIterator :: "'i db_iterator \<Rightarrow> 'i db_iterator" where
  "LeveldbIterator iter =
     \<lparr>di_Valid = di_Valid iter, di_SeekToFirst = di_SeekToFirst iter, di_SeekToLast = di_SeekToLast iter,
      di_Seek = di_Seek iter, di_Next = di_Next iter, di_Prev = di_Next iter, di_key = di_key iter,
      di_value = di_value iter\<rparr>"

section \<open>RocksdbWrapper\<close>

text \<open>
  RocksDB is not part of the repository; of its statuses the adaptor tells three kinds apart, and its
  batch is the list of the updates put into it.  The state is as above.
\<close>

datatype rocks_status = RocksOk | RocksNotFound | RocksError bytes

type_synonym 'd rocks_DB = "(Properties, update list, rocks_status, 'd) DB"

text \<open>\<open>new RocksdbWrapper()\<close>, whose members have the same names.\<close>

definition RocksdbWrapper_new :: "'d \<Rightarrow> 'd LeveldbWrapper" where
  "RocksdbWrapper_new d = LeveldbWrapper_new d"

definition Rocksdb_Init :: "'d rocks_DB \<Rightarrow> 'd LeveldbWrapper \<Rightarrow> int \<times> 'd LeveldbWrapper" where
  "Rocksdb_Init db s =
     (let p = lw_p s; name = getProperty_default (cstr ''leveldb.db'') (cstr ''/mnt/pmem/rocksdb'') p;
          s1 = s\<lparr>lw_failed := lw_failed s \<or> lw_open s, lw_name := name,
                 lw_writeahead := getPropertyBool (cstr ''leveldb.writeahead'') True p,
                 lw_sync_time_limit := getPropertyInt (cstr ''leveldb.sync.time.limit'') 5 p,
                 lw_sync_size_limit := getPropertyInt (cstr ''leveldb.sync.size.limit'') (- 1) p,
                 lw_last_sync_time := db_time db (lw_db s), lw_async_data_size := 0\<rparr>;
          (st, d) = db_Open db p name (lw_db s1)
      in if st \<noteq> RocksOk then (- 1, s1\<lparr>lw_db := d\<rparr>) else (0, s1\<lparr>lw_db := d, lw_open := True\<rparr>))"

definition Rocksdb_Cleanup :: "'d rocks_DB \<Rightarrow> 'd LeveldbWrapper \<Rightarrow> 'd LeveldbWrapper" where
  "Rocksdb_Cleanup db s = s\<lparr>lw_db := db_close db (lw_db s), lw_open := False\<rparr>"

text \<open>\<open>Put\<close> computes whether to write synchronously, and then passes options without that choice.\<close>

definition Rocksdb_Put :: "'d rocks_DB \<Rightarrow> bytes \<Rightarrow> bytes \<Rightarrow> 'd LeveldbWrapper \<Rightarrow> int \<times> 'd LeveldbWrapper" where
  "Rocksdb_Put db key value s =
     (let (sync, s1) = sync_policy (db_time db (lw_db s)) (length key + length value) (lw_record PUT s);
          (st, d) = db_Put db WriteOptions_new key value (lw_db s1);
          s2 = s1\<lparr>lw_db := d\<rparr>
      in if st = RocksOk then (0, s2) else (- 1, s2))"

definition Rocksdb_Get :: "'d rocks_DB \<Rightarrow> bytes \<Rightarrow> 'd LeveldbWrapper \<Rightarrow> int \<times> bytes \<times> 'd LeveldbWrapper" where
  "Rocksdb_Get db key s =
     (let (st, result, d) = db_Get db key (lw_db s);
          s1 = (lw_record GET s)\<lparr>lw_db := d\<rparr>
      in (case st of
            RocksNotFound \<Rightarrow> (0, result, s1)
          | RocksError msg \<Rightarrow> (- 1, msg, s1)
          | RocksOk \<Rightarrow> (1, result, s1)))"

definition Rocksdb_Delete :: "'d rocks_DB \<Rightarrow> bytes \<Rightarrow> 'd LeveldbWrapper \<Rightarrow> int \<times> 'd LeveldbWrapper" where
  "Rocksdb_Delete db key s =
     (0, (lw_record DELETE s)\<lparr>lw_db := snd (db_Delete db WriteOptions_new key (lw_db s))\<rparr>)"

definition RocksDBWriteBachHandler :: "update list Handler" where
  "RocksDBWriteBachHandler =
     \<lparr>handler_Put = (\<lambda>key value batch. batch @ [Put key value]), handler_Delete = (\<lambda>key batch. batch @ [Delete key])\<rparr>"

definition Rocksdb_Write :: "'d rocks_DB \<Rightarrow> WriteBatch \<Rightarrow> 'd LeveldbWrapper \<Rightarrow> int \<times> 'd LeveldbWrapper" where
  "Rocksdb_Write db batch s =
     (let (status, rbatch) = Iterate RocksDBWriteBachHandler batch [];
          (st, d) = db_Write db WriteOptions_new rbatch (lw_db s);
          s1 = (lw_record DELETE (lw_record PUT s))\<lparr>lw_db := d\<rparr>
      in if st \<noteq> RocksOk then (- 1, s1) else (0, s1))"

definition Rocksdb_Sync :: "'d rocks_DB \<Rightarrow> 'd LeveldbWrapper \<Rightarrow> int \<times> 'd LeveldbWrapper" where
  "Rocksdb_Sync db s =
     (let (st, d) = db_Put db (WriteOptions_new\<lparr>wo_sync := True\<rparr>) (cstr ''sync'') [] (lw_db s);
          s1 = (lw_record PUT s)\<lparr>lw_db := d\<rparr>
      in if st = RocksOk then (0, s1) else (- 1, s1))"

definition Rocksdb_Seek :: "'d rocks_DB \<Rightarrow> bytes \<Rightarrow> 'd LeveldbWrapper \<Rightarrow> (bytes \<times> bytes) list \<times> 'd LeveldbWrapper" where
  "Rocksdb_Seek db target s =
     (let (entries, d) = db_Seek db target (lw_db s) in (entries, (lw_record PSCAN s)\<lparr>lw_db := d\<rparr>))"

definition RocksdbKv :: "'d rocks_DB \<Rightarrow> 'd LeveldbWrapper KvWrapper" where
  "RocksdbKv db =
     \<lparr>kv_Init = Rocksdb_Init db, kv_Cleanup = Rocksdb_Cleanup db, kv_Put = Rocksdb_Put db, kv_Get = Rocksdb_Get db,
      kv_Delete = Rocksdb_Delete db, kv_Write = Rocksdb_Write db, kv_Sync = Rocksdb_Sync db, kv_Seek = Rocksdb_Seek db\<rparr>"

definition RocksdbIterator :: "'i db_iterator \<Rightarrow> 'i db_iterator" where
  "RocksdbIterator iter =
     \<lparr>di_Valid = di_Valid iter, di_SeekToFirst = di_SeekToFirst iter, di_SeekToLast = di_SeekToLast iter,
      di_Seek = di_Seek iter, di_Next = di_Next iter, di_Prev = di_Next iter, di_key = di_key iter,
      di_value = di_value iter\<rparr>"

section \<open>When LevelDB is asked to be synchronous\<close>

text \<open>
  A database that records the calls of \<open>Put\<close>: whether they were synchronous, their time and their bytes.
  \<open>timed_puts\<close> calls the adaptor at given times.
\<close>

type_synonym put_calls = "(bool \<times> int \<times> nat) list"

definition put_recorder :: "(int \<times> put_calls) leveldb_DB" where
  "put_recorder =
     \<lparr>db_Open = (\<lambda>_ _ d. (StatusOK, d)), db_close = (\<lambda>d. d),
      db_Put = (\<lambda>wo k v d. (StatusOK, (fst d, snd d @ [(wo_sync wo, fst d, length k + length v)]))),
      db_Delete = (\<lambda>_ _ d. (StatusOK, d)), db_Write = (\<lambda>_ _ d. (StatusOK, d)), db_Get = (\<lambda>_ d. (Status_NotFound [], [], d)),
      db_Seek = (\<lambda>_ d. ([], d)), db_time = fst\<rparr>"

definition timed_puts ::
    "(int \<times> bytes \<times> bytes) list \<Rightarrow> (int \<times> put_calls) LeveldbWrapper \<Rightarrow> (int \<times> put_calls) LeveldbWrapper" where
  "timed_puts events s =
     fold (\<lambda>(t, k, v) s. snd (Leveldb_Put put_recorder k v (s\<lparr>lw_db := (t, snd (lw_db s))\<rparr>))) events s"

definition unsynced :: "put_calls \<Rightarrow> nat" where
  "unsynced calls = sum_list (map (\<lambda>(_, _, n). n) (takeWhile (\<lambda>(sync, _, _). \<not> sync) (rev calls)))"

definition last_sync :: "int \<Rightarrow> put_calls \<Rightarrow> int" where
  "last_sync start calls = (case filter fst (rev calls) of [] \<Rightarrow> start | (_, t, _) # _ \<Rightarrow> t)"

lemma unsynced_snoc [simp]:
  "unsynced [] = 0" "unsynced (calls @ [(sync, t, n)]) = (if sync then 0 else n + unsynced calls)"
  by (simp_all add: unsynced_def)

lemma last_sync_snoc [simp]:
  "last_sync start [] = start" "last_sync start (calls @ [(sync, t, n)]) = (if sync then t else last_sync start calls)"
  by (simp_all add: last_sync_def)

text \<open>The members that \<open>Put\<close> does not touch, and the call that it makes.\<close>

lemma timed_puts_Nil [simp]: "timed_puts [] s = s"
  by (simp add: timed_puts_def)

lemma timed_puts_snoc:
  "timed_puts (events @ [(t, k, v)]) s =
     (let s1 = timed_puts events s;
          (sync, s2) = sync_policy t (length k + length v) (lw_record PUT (s1\<lparr>lw_db := (t, snd (lw_db s1))\<rparr>))
      in s2\<lparr>lw_db := (t, snd (lw_db s1) @ [(sync, t, length k + length v)])\<rparr>)"
  by (simp add: timed_puts_def Leveldb_Put_def put_recorder_def case_prod_beta Let_def)
    (simp add: sync_policy_def lw_record_def Let_def)

lemma timed_puts_limits:
  "lw_sync_size_limit (timed_puts events s) = lw_sync_size_limit s"
  "lw_sync_time_limit (timed_puts events s) = lw_sync_time_limit s"
proof (induction events rule: rev_induct)
  case (snoc e events)
  obtain t k v where e: "e = (t, k, v)"
    by (cases e)
  show "lw_sync_size_limit (timed_puts (events @ [e]) s) = lw_sync_size_limit s"
    "lw_sync_time_limit (timed_puts (events @ [e]) s) = lw_sync_time_limit s"
    using snoc unfolding e timed_puts_snoc by (auto simp: sync_policy_def lw_record_def Let_def)
qed simp_all

lemma timed_puts_calls:
  "map snd (snd (lw_db (timed_puts events s))) =
     map snd (snd (lw_db s)) @ map (\<lambda>(t, k, v). (t, length k + length v)) events"
proof (induction events rule: rev_induct)
  case (snoc e events)
  obtain t k v where e: "e = (t, k, v)"
    by (cases e)
  show ?case
    using snoc unfolding e timed_puts_snoc by (auto simp: Let_def case_prod_beta)
qed simp

lemma timed_puts_size:
  assumes "0 < lw_sync_size_limit s" "lw_async_data_size s = 0" "snd (lw_db s) = []"
    and "\<forall>(t, k, v) \<in> set events. lw_sync_size_limit s + int (length k + length v) < 2 ^ 31"
  shows "sint (lw_async_data_size (timed_puts events s)) = int (unsynced (snd (lw_db (timed_puts events s)))) \<and>
    int (unsynced (snd (lw_db (timed_puts events s)))) \<le> lw_sync_size_limit s"
  using assms(4)
proof (induction events rule: rev_induct)
  case Nil
  then show ?case
    using assms by simp
next
  case (snoc e events)
  obtain t k v where e: "e = (t, k, v)"
    by (cases e)
  let ?s = "timed_puts events s" and ?n = "length k + length v"
  have IH: "sint (lw_async_data_size ?s) = int (unsynced (snd (lw_db ?s)))" "int (unsynced (snd (lw_db ?s))) \<le> lw_sync_size_limit s"
    using snoc by auto
  have n: "lw_sync_size_limit s + int ?n < 2 ^ 31"
    using snoc.prems by (simp add: e)
  have "lw_async_data_size ?s = word_of_int (int (unsynced (snd (lw_db ?s))))"
    unfolding IH(1) [symmetric] by simp
  then have "lw_async_data_size ?s + of_nat ?n = word_of_int (int (unsynced (snd (lw_db ?s)) + ?n))"
    by simp
  then have "sint (lw_async_data_size ?s + of_nat ?n) = signed_take_bit 31 (int (unsynced (snd (lw_db ?s)) + ?n))"
    by (simp only: signed_of_int) simp
  also have "\<dots> = int (unsynced (snd (lw_db ?s)) + ?n)"
    using IH(2) n by (intro signed_take_bit_int_eq_self) auto
  finally show ?case
    using assms(1) IH(2) unfolding e timed_puts_snoc
    by (auto simp: sync_policy_def lw_record_def Let_def timed_puts_limits)
qed

lemma timed_puts_time:
  assumes "lw_sync_size_limit s \<le> 0" "0 < lw_sync_time_limit s" "lw_last_sync_time s = start" "snd (lw_db s) = []"
  shows "lw_last_sync_time (timed_puts events s) = last_sync start (snd (lw_db (timed_puts events s))) \<and>
    (\<forall>i < length (snd (lw_db (timed_puts events s))). let calls = snd (lw_db (timed_puts events s)) in
       fst (calls ! i) \<longleftrightarrow> fst (snd (calls ! i)) - last_sync start (take i calls) > lw_sync_time_limit s)"
proof (induction events rule: rev_induct)
  case Nil
  then show ?case
    using assms by simp
next
  case (snoc e events)
  obtain t k v where e: "e = (t, k, v)"
    by (cases e)
  show ?case
    using snoc assms(1,2) unfolding e timed_puts_snoc
    by (auto simp: sync_policy_def lw_record_def Let_def timed_puts_limits nth_append less_Suc_eq)
qed

section \<open>What RocksDB promises\<close>

text \<open>
  \<open>files d name\<close> is the map stored under \<open>name\<close>, and \<open>opened d\<close> the name of the database that is open.  A
  write with its record in the write-ahead log is there when the database is opened again after it
  was closed; of other writes nothing is promised.
\<close>

locale rocks_database =
  fixes db :: "'d rocks_DB"
    and opened :: "'d \<Rightarrow> bytes option"
    and files :: "'d \<Rightarrow> bytes \<Rightarrow> bytes \<Rightarrow> bytes option"
    and healthy :: "'d \<Rightarrow> bool"
  assumes open_ok: "healthy d \<Longrightarrow> opened d = None \<Longrightarrow>
      getPropertyBool (cstr ''leveldb.create.if.missing.db'') True opts \<Longrightarrow>
      fst (db_Open db opts name d) = RocksOk \<and> healthy (snd (db_Open db opts name d)) \<and>
      opened (snd (db_Open db opts name d)) = Some name \<and> files (snd (db_Open db opts name d)) = files d"
    and close_ok: "healthy d \<Longrightarrow> healthy (db_close db d) \<and> opened (db_close db d) = None \<and> files (db_close db d) = files d"
    and db_put_ok: "healthy d \<Longrightarrow> opened d = Some name \<Longrightarrow> wo_writeahead wo \<Longrightarrow>
      fst (db_Put db wo k v d) = RocksOk \<and> healthy (snd (db_Put db wo k v d)) \<and> opened (snd (db_Put db wo k v d)) = Some name \<and>
      files (snd (db_Put db wo k v d)) = (files d)(name := (files d name)(k \<mapsto> v))"
    and db_delete_ok: "healthy d \<Longrightarrow> opened d = Some name \<Longrightarrow> wo_writeahead wo \<Longrightarrow>
      healthy (snd (db_Delete db wo k d)) \<and> opened (snd (db_Delete db wo k d)) = Some name \<and>
      files (snd (db_Delete db wo k d)) = (files d)(name := (files d name)(k := None))"
    and db_write_ok: "healthy d \<Longrightarrow> opened d = Some name \<Longrightarrow> wo_writeahead wo \<Longrightarrow> list_all small_update us \<Longrightarrow>
      fst (db_Write db wo us d) = RocksOk \<and> healthy (snd (db_Write db wo us d)) \<and>
      opened (snd (db_Write db wo us d)) = Some name \<and>
      files (snd (db_Write db wo us d)) = (files d)(name := fold apply_update us (files d name))"
    and db_get_ok: "healthy d \<Longrightarrow> opened d = Some name \<Longrightarrow> (case files d name k of
        Some v \<Rightarrow> fst (db_Get db k d) = RocksOk \<and> fst (snd (db_Get db k d)) = v
      | None \<Rightarrow> fst (db_Get db k d) = RocksNotFound)"
    and db_get_state: "healthy d \<Longrightarrow> opened d = Some name \<Longrightarrow> healthy (snd (snd (db_Get db k d))) \<and>
      opened (snd (snd (db_Get db k d))) = Some name \<and> files (snd (snd (db_Get db k d))) = files d"
    and db_seek_state: "healthy d \<Longrightarrow> opened d = Some name \<Longrightarrow> healthy (snd (db_Seek db target d)) \<and>
      opened (snd (db_Seek db target d)) = Some name \<and> files (snd (db_Seek db target d)) = files d"
    and db_seek_entries: "healthy d \<Longrightarrow> opened d = Some name \<Longrightarrow>
      set (fst (db_Seek db target d)) = {(k, v). files d name k = Some v \<and> bytes_less_eq target k}"
    and db_seek_sorted: "healthy d \<Longrightarrow> opened d = Some name \<Longrightarrow>
      sorted_wrt (\<lambda>k k'. k \<noteq> k' \<and> bytes_less_eq k k') (map fst (fst (db_Seek db target d)))"

text \<open>The map a state of the adaptor stands for, and the states between \<open>Init\<close> and \<open>Cleanup\<close>.\<close>

definition lw_contents :: "('d \<Rightarrow> bytes \<Rightarrow> bytes \<Rightarrow> bytes option) \<Rightarrow> 'd LeveldbWrapper \<Rightarrow> bytes \<Rightarrow> bytes option" where
  "lw_contents files s = files (lw_db s) (lw_name s)"

definition rocks_ok :: "('d \<Rightarrow> bytes option) \<Rightarrow> ('d \<Rightarrow> bool) \<Rightarrow> 'd LeveldbWrapper \<Rightarrow> bool" where
  "rocks_ok opened healthy s \<longleftrightarrow>
     healthy (lw_db s) \<and> opened (lw_db s) = Some (lw_name s) \<and>
     lw_name s = getProperty_default (cstr ''leveldb.db'') (cstr ''/mnt/pmem/rocksdb'') (lw_p s)"

lemma WriteOptions_new_writeahead [simp]: "wo_writeahead WriteOptions_new"
  by (simp add: WriteOptions_new_def)

lemma lw_record_simps [simp]:
  "lw_db (lw_record oper s) = lw_db s" "lw_name (lw_record oper s) = lw_name s" "lw_p (lw_record oper s) = lw_p s"
  by (simp_all add: lw_record_def)

lemma sync_policy_simps [simp]:
  "lw_db (snd (sync_policy now n s)) = lw_db s" "lw_name (snd (sync_policy now n s)) = lw_name s"
  "lw_p (snd (sync_policy now n s)) = lw_p s"
  by (simp_all add: sync_policy_def Let_def)

lemma rocks_batch: "list_all small_update us \<Longrightarrow> Iterate RocksDBWriteBachHandler (batch_of us) [] = (StatusOK, us)"
proof -
  have "fold (handle_update RocksDBWriteBachHandler) us xs = xs @ us" for xs
  proof (induction us arbitrary: xs)
    case (Cons u us)
    then show ?case
      by (cases u) (simp_all add: RocksDBWriteBachHandler_def)
  qed simp
  then show "list_all small_update us \<Longrightarrow> Iterate RocksDBWriteBachHandler (batch_of us) [] = (StatusOK, us)"
    by (simp add: Iterate_batch_of)
qed

sublocale rocks_database \<subseteq> rk: ordered_kv_store "RocksdbKv db" "lw_contents files" "rocks_ok opened healthy"
proof (standard, goal_cases)
  case (1 s k v)
  then show ?case
    using db_put_ok [of "lw_db s" "lw_name s", OF _ _ WriteOptions_new_writeahead]
    by (auto simp: RocksdbKv_def Rocksdb_Put_def rocks_ok_def lw_contents_def case_prod_beta Let_def)
next
  case (2 s k)
  then show ?case
    using db_get_ok [of "lw_db s" "lw_name s" k]
    by (auto simp: RocksdbKv_def Rocksdb_Get_def rocks_ok_def lw_contents_def case_prod_beta Let_def split: option.splits)
next
  case (3 s k)
  then show ?case
    using db_get_state [of "lw_db s" "lw_name s" k]
    by (simp add: RocksdbKv_def Rocksdb_Get_def rocks_ok_def lw_contents_def case_prod_beta Let_def split: rocks_status.splits)
next
  case (4 s k)
  then show ?case
    using db_delete_ok [of "lw_db s" "lw_name s", OF _ _ WriteOptions_new_writeahead]
    by (auto simp: RocksdbKv_def Rocksdb_Delete_def rocks_ok_def lw_contents_def fun_eq_iff)
next
  case (5 s us)
  then show ?case
    using db_write_ok [of "lw_db s" "lw_name s" WriteOptions_new us] meta_updates_small [of us]
    by (simp add: RocksdbKv_def Rocksdb_Write_def rocks_batch rocks_ok_def lw_contents_def case_prod_beta Let_def)
next
  case (6 s)
  then show ?case
    using db_put_ok [of "lw_db s" "lw_name s" "WriteOptions_new\<lparr>wo_sync := True\<rparr>"]
    by (auto simp: RocksdbKv_def Rocksdb_Sync_def rocks_ok_def lw_contents_def case_prod_beta Let_def cstr_def)
next
  case (7 s target)
  then show ?case
    using db_seek_state [of "lw_db s" "lw_name s" target]
    by (simp add: RocksdbKv_def Rocksdb_Seek_def rocks_ok_def lw_contents_def case_prod_beta)
next
  case (8 s target)
  then show ?case
    using db_seek_entries [of "lw_db s" "lw_name s" target]
    by (simp add: RocksdbKv_def Rocksdb_Seek_def rocks_ok_def lw_contents_def case_prod_beta)
next
  case (9 s target)
  then show ?case
    using db_seek_sorted [of "lw_db s" "lw_name s" target]
    by (simp add: RocksdbKv_def Rocksdb_Seek_def rocks_ok_def case_prod_beta)
qed

section \<open>Closing and opening again\<close>

context rocks_database
begin

lemma rocks_stores: "ordered_kv_store (RocksdbKv db) (lw_contents files) (rocks_ok opened healthy)"
  by (rule rk.ordered_kv_store_axioms)

text \<open>
  A new adaptor, whose properties are empty, opens the database that another one with empty properties
  has closed.
\<close>

lemma Rocksdb_reopen:
  assumes "rocks_ok opened healthy s" "lw_p s = Properties_new"
  defines "s' \<equiv> Rocksdb_Init db (RocksdbWrapper_new (lw_db (Rocksdb_Cleanup db s)))"
  shows "fst s' = 0" "rocks_ok opened healthy (snd s')" "lw_contents files (snd s') = lw_contents files s"
    "\<not> lw_failed (snd s')"
proof -
  have "getPropertyBool (cstr ''leveldb.create.if.missing.db'') True Properties_new"
    by (simp add: getPropertyBool_def Properties_new_def)
  then show "fst s' = 0" "rocks_ok opened healthy (snd s')" "lw_contents files (snd s') = lw_contents files s"
    "\<not> lw_failed (snd s')"
    using assms close_ok [of "lw_db s"] open_ok [of "db_close db (lw_db s)" Properties_new "lw_name s"]
    by (simp_all add: Rocksdb_Init_def Rocksdb_Cleanup_def RocksdbWrapper_new_def LeveldbWrapper_new_def rocks_ok_def
        lw_contents_def case_prod_beta Let_def)
qed

end

section \<open>A reference database\<close>

text \<open>
  The contract can be kept: named lists of entries in the order of their keys, one of which may be open.
\<close>

record machine =
  mc_opened :: "bytes option"
  mc_files :: "bytes \<Rightarrow> (bytes \<times> bytes) list"
  mc_time :: int

primrec mc_update :: "update \<Rightarrow> machine \<Rightarrow> machine" where
  "mc_update (Put k v) d =
     (case mc_opened d of
        None \<Rightarrow> d
      | Some name \<Rightarrow> d\<lparr>mc_files := (mc_files d)(name := list_put k v (mc_files d name))\<rparr>)"
| "mc_update (Delete k) d =
     (case mc_opened d of
        None \<Rightarrow> d
      | Some name \<Rightarrow> d\<lparr>mc_files := (mc_files d)(name := list_delete k (mc_files d name))\<rparr>)"

definition mc_current :: "machine \<Rightarrow> (bytes \<times> bytes) list" where
  "mc_current d = (case mc_opened d of None \<Rightarrow> [] | Some name \<Rightarrow> mc_files d name)"

definition list_rocks :: "machine rocks_DB" where
  "list_rocks =
     \<lparr>db_Open = (\<lambda>opts name d. (RocksOk, d\<lparr>mc_opened := Some name\<rparr>)), db_close = (\<lambda>d. d\<lparr>mc_opened := None\<rparr>),
      db_Put = (\<lambda>wo k v d. (RocksOk, mc_update (Put k v) d)), db_Delete = (\<lambda>wo k d. (RocksOk, mc_update (Delete k) d)),
      db_Write = (\<lambda>wo us d. (RocksOk, fold mc_update us d)),
      db_Get = (\<lambda>k d. case map_of (mc_current d) k of Some v \<Rightarrow> (RocksOk, v, d) | None \<Rightarrow> (RocksNotFound, [], d)),
      db_Seek = (\<lambda>target d. (filter (\<lambda>e. bytes_less_eq target (fst e)) (mc_current d), d)), db_time = mc_time\<rparr>"

definition mc_contents :: "machine \<Rightarrow> bytes \<Rightarrow> bytes \<Rightarrow> bytes option" where
  "mc_contents d name = map_of (mc_files d name)"

definition mc_ok :: "machine \<Rightarrow> bool" where
  "mc_ok d \<longleftrightarrow> (\<forall>name. list_ok (mc_files d name))"

lemma mc_update_ok:
  assumes "mc_ok d" "mc_opened d = Some name"
  shows "mc_ok (mc_update u d) \<and> mc_opened (mc_update u d) = Some name \<and>
    mc_contents (mc_update u d) = (mc_contents d)(name := apply_update u (mc_contents d name))"
  using assms
  by (cases u) (auto simp: mc_ok_def mc_contents_def list_ok_put list_ok_delete map_of_list_put map_of_list_delete fun_eq_iff)

lemma mc_updates_ok:
  assumes "mc_ok d" "mc_opened d = Some name"
  shows "mc_ok (fold mc_update us d) \<and> mc_opened (fold mc_update us d) = Some name \<and>
    mc_contents (fold mc_update us d) = (mc_contents d)(name := fold apply_update us (mc_contents d name))"
  using assms
proof (induction us arbitrary: d)
  case (Cons u us)
  have u: "mc_ok (mc_update u d)" "mc_opened (mc_update u d) = Some name"
    "mc_contents (mc_update u d) = (mc_contents d)(name := apply_update u (mc_contents d name))"
    using mc_update_ok [OF Cons.prems, of u] by simp_all
  then show ?case
    using Cons.IH [OF u(1,2)] by (simp add: fun_eq_iff)
qed simp

lemma mc_entries:
  assumes "mc_ok d" "mc_opened d = Some name"
  shows "set (mc_current d) = {(k, v). mc_contents d name k = Some v}"
    "sorted_wrt (\<lambda>k k'. k \<noteq> k' \<and> bytes_less_eq k k') (map fst (filter P (mc_current d)))"
proof -
  have ok: "list_ok (mc_files d name)"
    using assms(1) by (simp add: mc_ok_def)
  have "map_of (mc_files d name) k = Some v \<longleftrightarrow> (k, v) \<in> set (mc_files d name)" for k v
    using list_ok_distinct [OF ok] by simp
  then show "set (mc_current d) = {(k, v). mc_contents d name k = Some v}"
    using assms(2) by (auto simp: mc_current_def mc_contents_def)
  show "sorted_wrt (\<lambda>k k'. k \<noteq> k' \<and> bytes_less_eq k k') (map fst (filter P (mc_current d)))"
    using ok assms(2) by (simp add: mc_current_def list_ok_def sorted_wrt_map sorted_wrt_filter)
qed

interpretation list_rk: rocks_database list_rocks mc_opened mc_contents mc_ok
proof (standard, goal_cases)
  case (1 d opts name)
  then show ?case
    by (simp add: list_rocks_def mc_ok_def mc_contents_def fun_eq_iff)
next
  case (2 d)
  then show ?case
    by (simp add: list_rocks_def mc_ok_def mc_contents_def fun_eq_iff)
next
  case (3 d name wo k v)
  then show ?case
    using mc_update_ok [OF 3(1,2), of "Put k v"] by (simp add: list_rocks_def)
next
  case (4 d name wo k)
  then show ?case
    using mc_update_ok [OF 4(1,2), of "Delete k"] by (simp add: list_rocks_def)
next
  case (5 d name wo us)
  then show ?case
    using mc_updates_ok [OF 5(1,2), of us] by (simp add: list_rocks_def)
next
  case (6 d name k)
  then show ?case
    by (auto simp: list_rocks_def mc_current_def mc_contents_def split: option.splits)
next
  case (7 d name k)
  then show ?case
    by (simp add: list_rocks_def split: option.splits)
next
  case (8 d name target)
  then show ?case
    by (simp add: list_rocks_def)
next
  case (9 d name target)
  then show ?case
    using mc_entries(1) [OF 9] by (auto simp: list_rocks_def)
next
  case (10 d name target)
  then show ?case
    using mc_entries(2) [OF 10] by (simp add: list_rocks_def)
qed

end
