(* ===== verification/Db_Write.thy ===== *)
theory Db_Write
  imports Mem_Table Log_Format Log_Stores
begin

text \<open>
  The write path of the database and the replay of its log (\<open>DBImpl\<close> in \<open>lib/leveldb/db/db_impl.cc\<close>):
  \<open>MakeRoomForWrite\<close> finds room in the memtable or switches to a new memtable and a new log, waiting
  writers are gathered into a group by \<open>BuildBatchGroup\<close>, the writer at the front of the queue appends
  the group to the log and inserts it into the memtable, and \<open>RecoverLogFile\<close> reads the log back into
  memtables.

  A \<open>Writer\<close> is the entry of one thread in the queue, with the options of its call.  One run of
  \<open>Write\<close> from the point where the thread is at the front of the queue is \<open>write_front\<close>.  What the
  other threads do while the mutex is released, the files of the environment and whether a memtable
  exceeds the write buffer are the parameters of \<open>write_env\<close>.  In the recovery \<open>WriteLevel0Table\<close>, which
  builds a table file, is a parameter as well.  The counts of a batch are \<open>int\<close>s, and are extended with
  their sign where they are added to a sequence number.

  While there is room, every writer with a batch is served in a bounded number of rounds; the memtable
  then holds all updates in the order of the queue, the log holds them in groups if the writers asked
  for it (\<open>writeahead\<close>), and the recovery from such a log hands memtables with the same updates at the
  same sequence numbers to \<open>WriteLevel0Table\<close>.  A writer without a batch switches the memtable.
\<close>

section \<open>Groups of writers\<close>

record Writer =
  wr_batch :: "WriteBatch option"
  wr_options :: WriteOptions

definition ByteSize :: "WriteBatch \<Rightarrow> nat" where
  "ByteSize b = length (wb_rep b)"

text \<open>\<open>result\<close> is \<open>None\<close> as long as it points to the batch of the first writer.\<close>

fun group_loop :: "bool \<Rightarrow> WriteBatch \<Rightarrow> WriteBatch \<Rightarrow> nat \<Rightarrow> Writer list \<Rightarrow> nat \<Rightarrow> WriteBatch option \<Rightarrow> nat \<Rightarrow>
    (WriteBatch option \<times> nat) option" where
  "group_loop first_sync first_batch tmp max_size [] sz result last_writer = Some (result, last_writer)"
| "group_loop first_sync first_batch tmp max_size (w # ws) sz result last_writer =
     (if wo_sync (wr_options w) \<and> \<not> first_sync then Some (result, last_writer)
      else (case wr_batch w of
        None \<Rightarrow> group_loop first_sync first_batch tmp max_size ws sz result (last_writer + 1)
      | Some b \<Rightarrow>
          let sz = sz + ByteSize b in
          if sz > max_size then Some (result, last_writer)
          else (case result of
            None \<Rightarrow>
              if Count tmp \<noteq> 0 then None
              else group_loop first_sync first_batch tmp max_size ws sz
                     (Some (WriteBatch_Append (WriteBatch_Append tmp first_batch) b)) (last_writer + 1)
          | Some r \<Rightarrow>
              group_loop first_sync first_batch tmp max_size ws sz (Some (WriteBatch_Append r b)) (last_writer + 1))))"

text \<open>The batch of the group, whether it is the temporary one, and the position of the last writer.\<close>

definition BuildBatchGroup :: "Writer list \<Rightarrow> WriteBatch \<Rightarrow> (WriteBatch \<times> bool \<times> nat) option" where
  "BuildBatchGroup writers tmp_batch =
     (case writers of
        [] \<Rightarrow> None
      | w # ws \<Rightarrow>
          (case wr_batch w of
             None \<Rightarrow> None
           | Some batch \<Rightarrow>
               let sz = ByteSize batch;
                   max_size = (if sz \<le> 128 * 1024 then sz + 128 * 1024 else 1024 * 1024)
               in do {
                 (result, last_writer) \<leftarrow>
                   group_loop (wo_sync (wr_options w)) batch tmp_batch max_size ws sz None 0;
                 Some (case result of None \<Rightarrow> (batch, False, last_writer) | Some r \<Rightarrow> (r, True, last_writer))
               }))"

section \<open>Writing\<close>

record 'f DBImpl =
  db_mem :: MemTable
  db_imm :: "MemTable option"
  db_log :: "'f LogWriter"
  db_logfile_number :: u64
  db_next_file_number :: u64
  db_prev_log_number :: u64
  db_level0_files :: int
  db_bg_error :: Status
  db_last_sequence :: u64
  db_writers :: "Writer list"
  db_tmp_batch :: WriteBatch
  db_bytes_written :: u64
  db_num_syncs :: u64
  db_write_count :: u64

text \<open>
  \<open>we_full\<close> is \<open>ApproximateMemoryUsage() > write_buffer_size\<close>, \<open>we_NewWritableFile\<close> the log file of a number
  or the error, and \<open>we_sleep\<close> and \<open>we_wait\<close> what happens during \<open>SleepForMicroseconds\<close> and \<open>bg_cv_.Wait\<close>.
\<close>

record 'f write_env =
  we_comparator :: Comparator
  we_full :: "MemTable \<Rightarrow> bool"
  we_NewWritableFile :: "u64 \<Rightarrow> Status + 'f"
  we_sleep :: "'f DBImpl \<Rightarrow> 'f DBImpl"
  we_wait :: "'f DBImpl \<Rightarrow> 'f DBImpl"

definition kL0_SlowdownWritesTrigger :: int where "kL0_SlowdownWritesTrigger = 8"

definition kL0_StopWritesTrigger :: int where "kL0_StopWritesTrigger = 12"

definition NewFileNumber :: "'f DBImpl \<Rightarrow> u64 \<times> 'f DBImpl" where
  "NewFileNumber db = (db_next_file_number db, db\<lparr>db_next_file_number := db_next_file_number db + 1\<rparr>)"

definition ReuseFileNumber :: "u64 \<Rightarrow> 'f DBImpl \<Rightarrow> 'f DBImpl" where
  "ReuseFileNumber file_number db =
     (if db_next_file_number db = file_number + 1 then db\<lparr>db_next_file_number := file_number\<rparr> else db)"

text \<open>
  The last branch: \<open>Inl\<close> is the status of a file that could not be created.  \<open>MaybeScheduleCompaction\<close>
  starts the other thread, whose effects are those of \<open>we_sleep\<close> and \<open>we_wait\<close>.
\<close>

definition switch_memtable :: "'f write_env \<Rightarrow> 'f DBImpl \<Rightarrow> ((Status \<times> 'f DBImpl) + 'f DBImpl) option" where
  "switch_memtable env db =
     (if db_prev_log_number db \<noteq> 0 then None
      else
        let (new_log_number, db1) = NewFileNumber db
        in (case we_NewWritableFile env new_log_number of
              Inl s \<Rightarrow> Some (Inl (s, ReuseFileNumber new_log_number db1))
            | Inr lfile \<Rightarrow> do {
                mem \<leftarrow> MemTable_new (we_comparator env);
                Some (Inr (db1\<lparr>db_logfile_number := new_log_number, db_log := Writer_new lfile,
                               db_imm := Some (db_mem db), db_mem := MemTable_Ref mem\<rparr>))
              }))"

partial_function (option) room_loop ::
    "'f write_env \<Rightarrow> bool \<Rightarrow> bool \<Rightarrow> 'f DBImpl \<Rightarrow> (Status \<times> 'f DBImpl) option" where
  "room_loop env force allow_delay db =
     (if \<not> Status_ok (db_bg_error db) then Some (db_bg_error db, db)
      else if allow_delay \<and> db_level0_files db \<ge> kL0_SlowdownWritesTrigger
      then room_loop env force False (we_sleep env db)
      else if \<not> force \<and> \<not> we_full env (db_mem db) then Some (StatusOK, db)
      else if db_imm db \<noteq> None then room_loop env force allow_delay (we_wait env db)
      else if db_level0_files db \<ge> kL0_StopWritesTrigger then room_loop env force allow_delay (we_wait env db)
      else do {
        r \<leftarrow> switch_memtable env db;
        (case r of Inl err \<Rightarrow> Some err | Inr db1 \<Rightarrow> room_loop env False allow_delay db1)
      })"

definition MakeRoomForWrite :: "'f write_env \<Rightarrow> bool \<Rightarrow> 'f DBImpl \<Rightarrow> (Status \<times> 'f DBImpl) option" where
  "MakeRoomForWrite env force db = (if db_writers db = [] then None else room_loop env force (\<not> force) db)"

definition log_group ::
    "'f WritableFile \<Rightarrow> WriteOptions \<Rightarrow> WriteBatch \<Rightarrow> 'f DBImpl \<Rightarrow> (Status \<times> 'f DBImpl) option" where
  "log_group file options updates db =
     (if wo_writeahead options then do {
        let content = wb_rep updates;
        (status, lg) \<leftarrow> AddRecord file content (db_log db);
        let db1 = db\<lparr>db_log := lg, db_bytes_written := db_bytes_written db + of_nat (length content)\<rparr>;
        if Status_ok status \<and> wo_sync options then
          let (status, d) = wf_Sync file (lw_dest lg)
          in Some (status, db1\<lparr>db_log := lg\<lparr>lw_dest := d\<rparr>, db_num_syncs := db_num_syncs db1 + 1\<rparr>)
        else Some (status, db1)
      } else Some (StatusOK, db))"

definition insert_group :: "WriteBatch \<Rightarrow> Status \<Rightarrow> 'f DBImpl \<Rightarrow> (Status \<times> 'f DBImpl) option" where
  "insert_group updates status db =
     (if Status_ok status then do {
        (status, m) \<leftarrow> InsertInto updates (db_mem db);
        Some (status, db\<lparr>db_mem := m\<rparr>)
      } else Some (status, db))"

text \<open>The thread at the front: the status it and its group receive, and the new state.\<close>

definition write_front :: "'f WritableFile \<Rightarrow> 'f write_env \<Rightarrow> 'f DBImpl \<Rightarrow> (Status \<times> 'f DBImpl) option" where
  "write_front file env db =
     (case db_writers db of
        [] \<Rightarrow> None
      | w # _ \<Rightarrow> do {
          (status, db) \<leftarrow> MakeRoomForWrite env (wr_batch w = None) db;
          (status, last_writer, db1) \<leftarrow>
            (if Status_ok status \<and> wr_batch w \<noteq> None then do {
               (updates, is_tmp, last_writer) \<leftarrow> BuildBatchGroup (db_writers db) (db_tmp_batch db);
               let updates = SetSequence updates (db_last_sequence db + 1);
               let last_sequence = db_last_sequence db + scast (Count updates);
               (status, db1) \<leftarrow> log_group file (wr_options w) updates db;
               (status, db2) \<leftarrow> insert_group updates status db1;
               let db3 = (if is_tmp then db2\<lparr>db_tmp_batch := WriteBatch_Clear updates\<rparr> else db2);
               Some (status, last_writer, db3\<lparr>db_last_sequence := last_sequence\<rparr>)
             } else Some (status, 0, db));
          Some (status, db1\<lparr>db_writers := drop (last_writer + 1) (db_writers db1),
                            db_write_count := db_write_count db1 + 1\<rparr>)
        })"

text \<open>The threads of the queue one after another; \<open>n\<close> bounds the rounds.\<close>

fun serve :: "'f WritableFile \<Rightarrow> 'f write_env \<Rightarrow> nat \<Rightarrow> 'f DBImpl \<Rightarrow> 'f DBImpl option" where
  "serve file env n db =
     (if db_writers db = [] then Some db
      else (case n of
        0 \<Rightarrow> None
      | Suc n' \<Rightarrow> (case write_front file env db of
          None \<Rightarrow> None
        | Some (s, db1) \<Rightarrow> if Status_ok s then serve file env n' db1 else None)))"

section \<open>Recovery\<close>

definition MaybeIgnoreError :: "bool \<Rightarrow> Status \<Rightarrow> Status" where
  "MaybeIgnoreError paranoid_checks s = (if Status_ok s \<or> paranoid_checks then s else StatusOK)"

text \<open>\<open>LogReporter::Corruption\<close> for a list of reports.\<close>

definition note_reports :: "bool \<Rightarrow> (nat \<times> Status) list \<Rightarrow> Status \<Rightarrow> Status" where
  "note_reports paranoid_checks reports status =
     fold (\<lambda>(_, s) st. if paranoid_checks \<and> Status_ok st then s else st) reports status"

partial_function (option) recover_loop ::
    "'s SequentialFile \<Rightarrow> bool \<Rightarrow> Comparator \<Rightarrow> (MemTable \<Rightarrow> bool) \<Rightarrow> (MemTable \<Rightarrow> 'v \<Rightarrow> Status \<times> 'v) \<Rightarrow>
     's LogReader \<Rightarrow> Status \<Rightarrow> MemTable option \<Rightarrow> u64 \<Rightarrow> 'v \<Rightarrow>
     (Status \<times> MemTable option \<times> u64 \<times> 'v) option" where
  "recover_loop file paranoid cmp full WriteLevel0Table reader status mem max_sequence v = do {
     (ok, record, reader1) \<leftarrow> ReadRecord file reader;
     let status = note_reports paranoid (drop (length (lr_reports reader)) (lr_reports reader1)) status;
     if \<not> (ok \<and> Status_ok status) then Some (status, mem, max_sequence, v)
     else if length record < 12 then
       recover_loop file paranoid cmp full WriteLevel0Table reader1
         (note_reports paranoid [(length record, Status_Corruption (cstr ''log record too small''))] status)
         mem max_sequence v
     else do {
       let batch = WriteBatch_SetContents WriteBatch_new record;
       m \<leftarrow> (case mem of None \<Rightarrow> do { m \<leftarrow> MemTable_new cmp; Some (MemTable_Ref m) } | Some m \<Rightarrow> Some m);
       (status, m) \<leftarrow> InsertInto batch m;
       let status = MaybeIgnoreError paranoid status;
       if \<not> Status_ok status then Some (status, Some m, max_sequence, v)
       else do {
         let last_seq = Sequence batch + scast (Count batch) - 1;
         let max_sequence = (if last_seq > max_sequence then last_seq else max_sequence);
         if full m then
           let (status, v) = WriteLevel0Table m v in
           if \<not> Status_ok status then Some (status, Some m, max_sequence, v)
           else do {
             _ \<leftarrow> MemTable_Unref m;
             recover_loop file paranoid cmp full WriteLevel0Table reader1 status None max_sequence v
           }
         else recover_loop file paranoid cmp full WriteLevel0Table reader1 status (Some m) max_sequence v
       }
     }
   }"

text \<open>\<open>opened\<close> is the result of \<open>NewSequentialFile\<close>.\<close>

definition RecoverLogFile ::
    "'s SequentialFile \<Rightarrow> bool \<Rightarrow> Comparator \<Rightarrow> (MemTable \<Rightarrow> bool) \<Rightarrow> (MemTable \<Rightarrow> 'v \<Rightarrow> Status \<times> 'v) \<Rightarrow>
     Status + 's \<Rightarrow> u64 \<Rightarrow> 'v \<Rightarrow> (Status \<times> u64 \<times> 'v) option" where
  "RecoverLogFile file paranoid cmp full WriteLevel0Table opened max_sequence v =
     (case opened of
        Inl status \<Rightarrow> Some (MaybeIgnoreError paranoid status, max_sequence, v)
      | Inr f \<Rightarrow> do {
          (status, mem, max_sequence, v) \<leftarrow>
            recover_loop file paranoid cmp full WriteLevel0Table (Reader_new f True True 0) StatusOK None max_sequence v;
          let (status, v) = (case mem of
                Some m \<Rightarrow> if Status_ok status then WriteLevel0Table m v else (status, v)
              | None \<Rightarrow> (status, v));
          _ \<leftarrow> (case mem of Some m \<Rightarrow> MemTable_Unref m | None \<Rightarrow> Some (Inl ()));
          Some (status, max_sequence, v)
        })"

section \<open>A writer without a batch\<close>

text \<open>
  It switches the memtable, unless one is still being compacted; the number of a log that could not
  be created is given back.
\<close>

lemma write_front_null:
  assumes "db_writers db = w # ws" "wr_batch w = None" "Status_ok (db_bg_error db)" "db_imm db = None"
    "db_level0_files db < kL0_StopWritesTrigger" "db_prev_log_number db = 0"
  shows "we_NewWritableFile env (db_next_file_number db) = Inl s \<Longrightarrow>
      write_front file env db = Some (s, db\<lparr>db_writers := ws, db_write_count := db_write_count db + 1\<rparr>)"
    and "\<lbrakk>we_NewWritableFile env (db_next_file_number db) = Inr lfile; MemTable_new (we_comparator env) = Some m;
      \<not> we_full env (MemTable_Ref m)\<rbrakk> \<Longrightarrow>
      write_front file env db = Some (StatusOK, db\<lparr>db_next_file_number := db_next_file_number db + 1,
        db_logfile_number := db_next_file_number db, db_log := Writer_new lfile, db_imm := Some (db_mem db),
        db_mem := MemTable_Ref m, db_writers := ws, db_write_count := db_write_count db + 1\<rparr>)"
  using assms
  by (simp_all add: write_front_def MakeRoomForWrite_def room_loop.simps switch_memtable_def NewFileNumber_def
      ReuseFileNumber_def)

section \<open>What a group holds\<close>

definition writer_holds :: "Writer \<Rightarrow> update list \<Rightarrow> bool" where
  "writer_holds w us \<longleftrightarrow> (case wr_batch w of None \<Rightarrow> us = [] | Some b \<Rightarrow> b = batch_of us)"

lemma Append_batch_of: "WriteBatch_Append (batch_of us) (batch_of vs) = batch_of (us @ vs)"
  by (simp add: batch_of_rep Append_batch_rep)

lemma Append_new: "WriteBatch_Append WriteBatch_new (batch_of vs) = batch_of vs"
  using Append_batch_of [of "[]" vs] by (simp add: batch_of_def)

lemma Count_batch_of: "Count (batch_of us) = of_nat (length us)"
  by (simp add: batch_of_rep)

lemma Count_new: "Count WriteBatch_new = 0"
  using Count_batch_of [of "[]"] by (simp add: batch_of_def)

lemma concat_take_drop: "concat xss = concat (take k xss) @ concat (drop k xss)"
  by (metis append_take_drop_id concat_append)

lemma group_loop_run:
  assumes "list_all2 writer_holds ws uss" "(case result of None \<Rightarrow> batch_of acc = fb | Some r \<Rightarrow> r = batch_of acc)"
  shows "\<exists>k res. group_loop fs fb WriteBatch_new mx ws sz result lst = Some (res, lst + k) \<and> k \<le> length ws \<and>
    (case res of None \<Rightarrow> fb | Some r \<Rightarrow> r) = batch_of (acc @ concat (take k uss))"
  using assms
proof (induction arbitrary: sz result acc lst rule: list_all2_induct)
  case Nil
  then show ?case
    by (auto split: option.splits)
next
  case (Cons w ws us uss)
  have stop: ?case if "group_loop fs fb WriteBatch_new mx (w # ws) sz result lst = Some (result, lst)"
    using that Cons.prems by (intro exI [of _ 0]) (auto split: option.splits)
  have go: ?case
    if run: "group_loop fs fb WriteBatch_new mx (w # ws) sz result lst = group_loop fs fb WriteBatch_new mx ws sz' result' (lst + 1)"
      and res: "case result' of None \<Rightarrow> batch_of (acc @ us) = fb | Some r \<Rightarrow> r = batch_of (acc @ us)" for sz' result'
  proof -
    obtain k res where "group_loop fs fb WriteBatch_new mx ws sz' result' (lst + 1) = Some (res, lst + 1 + k)" "k \<le> length ws"
        "(case res of None \<Rightarrow> fb | Some r \<Rightarrow> r) = batch_of ((acc @ us) @ concat (take k uss))"
      using Cons.IH [OF res, of sz' "lst + 1"] by blast
    then show ?thesis
      using run by (intro exI [of _ "Suc k"] exI [of _ res]) simp
  qed
  show ?case
  proof (cases "wo_sync (wr_options w) \<and> \<not> fs")
    case True
    then show ?thesis
      by (intro stop) simp
  next
    case sync: False
    show ?thesis
    proof (cases "wr_batch w")
      case None
      then show ?thesis
        using sync Cons.hyps(1) Cons.prems by (intro go [of sz result]) (auto simp: writer_holds_def split: option.splits)
    next
      case (Some b)
      then have b: "b = batch_of us"
        using Cons.hyps(1) by (simp add: writer_holds_def)
      show ?thesis
      proof (cases "sz + ByteSize b > mx")
        case True
        then show ?thesis
          using sync Some by (intro stop) simp
      next
        case fit: False
        show ?thesis
        proof (cases result)
          case None
          then show ?thesis
            using sync Some fit Cons.prems b
            by (intro go [of "sz + ByteSize b" "Some (batch_of (acc @ us))"])
              (auto simp: Count_new Append_new Append_batch_of)
        next
          case (Some r)
          then show ?thesis
            using sync \<open>wr_batch w = Some b\<close> fit Cons.prems b
            by (intro go [of "sz + ByteSize b" "Some (batch_of (acc @ us))"]) (auto simp: Append_batch_of)
        qed
      qed
    qed
  qed
qed

lemma BuildBatchGroup_run:
  assumes "list_all2 writer_holds (w # ws) uss" "wr_batch w \<noteq> None"
  shows "\<exists>k is_tmp. BuildBatchGroup (w # ws) WriteBatch_new = Some (batch_of (concat (take (k + 1) uss)), is_tmp, k) \<and>
    k \<le> length ws"
proof -
  obtain us vss where u: "uss = us # vss" "writer_holds w us" "list_all2 writer_holds ws vss"
    using assms(1) by (auto simp: list_all2_Cons1)
  then have b: "wr_batch w = Some (batch_of us)"
    using assms(2) by (auto simp: writer_holds_def split: option.splits)
  let ?sz = "ByteSize (batch_of us)"
  let ?mx = "if ?sz \<le> 128 * 1024 then ?sz + 128 * 1024 else 1024 * 1024"
  obtain k res where k: "group_loop (wo_sync (wr_options w)) (batch_of us) WriteBatch_new ?mx ws ?sz None 0 = Some (res, 0 + k)"
      "k \<le> length ws" "(case res of None \<Rightarrow> batch_of us | Some r \<Rightarrow> r) = batch_of (us @ concat (take k vss))"
    using group_loop_run [OF u(3), where result = None and acc = us and fb = "batch_of us"] by fastforce
  show ?thesis
    using k(2,3) unfolding BuildBatchGroup_def list.case b option.case Let_def k(1)
    by (cases res) (auto simp: u(1))
qed

section \<open>Groups in the log\<close>

fun group_records :: "u64 \<Rightarrow> update list list \<Rightarrow> bytes list" where
  "group_records s [] = []"
| "group_records s (us # gs) = batch_rep s (of_nat (length us)) us # group_records (s + of_nat (length us)) gs"

lemma group_records_snoc:
  "group_records s (gs @ [us]) = group_records s gs @ [batch_rep (s + of_nat (length (concat gs))) (of_nat (length us)) us]"
  by (induction gs arbitrary: s) (simp_all add: algebra_simps)

lemma SetSequence_batch_of: "SetSequence (batch_of us) s = \<lparr>wb_rep = batch_rep s (of_nat (length us)) us\<rparr>"
  by (simp add: batch_of_rep)

lemma scast_count: "n < 2 ^ 31 \<Longrightarrow> (scast (of_nat n :: u32) :: u64) = of_nat n"
  by (simp add: signed_of_nat signed_take_bit_int_eq_self)

context writable_file
begin

definition db_ok :: "u64 \<Rightarrow> update list list \<Rightarrow> 'f DBImpl \<Rightarrow> bool" where
  "db_ok s gs db \<longleftrightarrow> mem_log (db_mem db) (s + 1) (concat gs) \<and> db_last_sequence db = s + of_nat (length (concat gs)) \<and>
     db_tmp_batch db = WriteBatch_new \<and> Status_ok (db_bg_error db) \<and> db_level0_files db < kL0_SlowdownWritesTrigger \<and>
     log_holds (group_records (s + 1) gs) (db_log db)"

lemma log_group_run:
  assumes "log_holds xs (db_log db)" "wo_writeahead options"
  shows "\<exists>db'. log_group dest options b db = Some (StatusOK, db') \<and> log_holds (xs @ [wb_rep b]) (db_log db') \<and>
    db_mem db' = db_mem db \<and> db_writers db' = db_writers db \<and> db_tmp_batch db' = db_tmp_batch db \<and>
    db_bg_error db' = db_bg_error db \<and> db_level0_files db' = db_level0_files db"
proof -
  obtain lg where lg: "AddRecord dest (wb_rep b) (db_log db) = Some (StatusOK, lg)" "log_holds (xs @ [wb_rep b]) lg"
    using AddRecord_holds [OF assms(1)] by blast
  have "good (lw_dest lg)"
    using lg(2) by (auto simp: log_holds_def w_at_def)
  then obtain d where d: "wf_Sync dest (lw_dest lg) = (StatusOK, d)" "good d" "contents d = contents (lw_dest lg)"
    using sync_ok by blast
  have "log_holds (xs @ [wb_rep b]) (lg\<lparr>lw_dest := d\<rparr>)"
    using lg(2) d(2,3) by (auto simp: log_holds_def w_at_def)
  then show ?thesis
    using lg d(1) assms(2) by (simp add: log_group_def Let_def)
qed

text \<open>With room in the memtable nothing changes before the write.\<close>

lemma MakeRoomForWrite_room:
  assumes "Status_ok (db_bg_error db)" "db_level0_files db < kL0_SlowdownWritesTrigger" "\<not> we_full env (db_mem db)"
    "db_writers db \<noteq> []"
  shows "MakeRoomForWrite env False db = Some (StatusOK, db)"
  using assms by (simp add: MakeRoomForWrite_def room_loop.simps)

lemma write_front_run:
  assumes ok: "db_ok s gs db" and ws: "db_writers db = w # ws" "list_all2 writer_holds (w # ws) uss"
    and wa: "wo_writeahead (wr_options w)" and batch: "wr_batch w \<noteq> None" and room: "\<not> we_full env (db_mem db)"
    and fit: "list_all (list_all fits_update) uss"
    and bound: "unat s + length (concat gs) + length (concat uss) < 2 ^ 56" "length (concat uss) < 2 ^ 31"
  shows "\<exists>k gs' db'. write_front dest env db = Some (StatusOK, db') \<and> db_ok s gs' db' \<and>
    concat gs' = concat gs @ concat (take (k + 1) uss) \<and> db_writers db' = drop (k + 1) (w # ws)"
proof -
  obtain b where b: "wr_batch w = Some b"
    using batch by auto
  have make: "MakeRoomForWrite env False db = Some (StatusOK, db)"
    using ok room ws(1) by (intro MakeRoomForWrite_room) (simp_all add: db_ok_def)
  obtain k is_tmp where k: "BuildBatchGroup (w # ws) WriteBatch_new = Some (batch_of (concat (take (k + 1) uss)), is_tmp, k)"
    using BuildBatchGroup_run [OF ws(2) batch] by blast
  let ?us = "concat (take (k + 1) uss)" and ?s = "s + 1 + of_nat (length (concat gs))"
  have len: "length ?us \<le> length (concat uss)"
    unfolding concat_take_drop [of uss "k + 1"] by simp
  have s1: "unat (s + 1) = unat s + 1"
    using bound(1) unat_seq [of s 1] by simp
  obtain db1 where db1: "log_group dest (wr_options w) \<lparr>wb_rep = batch_rep ?s (of_nat (length ?us)) ?us\<rparr> db = Some (StatusOK, db1)"
      "log_holds (group_records (s + 1) gs @ [batch_rep ?s (of_nat (length ?us)) ?us]) (db_log db1)"
      "db_mem db1 = db_mem db" "db_writers db1 = db_writers db" "db_tmp_batch db1 = db_tmp_batch db"
      "db_bg_error db1 = db_bg_error db" "db_level0_files db1 = db_level0_files db"
    using log_group_run [OF _ wa, of "group_records (s + 1) gs" db "\<lparr>wb_rep = batch_rep ?s (of_nat (length ?us)) ?us\<rparr>"] ok
    by (auto simp: db_ok_def)
  have "list_all fits_update ?us"
    using fit by (auto simp: list_all_iff dest!: in_set_takeD)
  then obtain m' where m': "InsertInto (SetSequence (batch_of ?us) ?s) (db_mem db) = Some (StatusOK, m')"
      "mem_log m' (s + 1) (concat gs @ ?us)"
    using InsertInto_log [of "db_mem db" "s + 1" "concat gs" ?us] ok s1 bound(1) len by (auto simp: db_ok_def)
  have sq: "db_last_sequence db + 1 = ?s" "db_tmp_batch db = WriteBatch_new"
    using ok by (simp_all add: db_ok_def algebra_simps)
  have cl: "WriteBatch_Clear b = WriteBatch_new" for b
    by (cases b) (simp add: WriteBatch_new_def WriteBatch_Clear_def)
  have uc: "(scast (of_nat (length ?us) :: u32) :: u64) = of_nat (length ?us)"
    using bound(2) len by (intro scast_count) simp
  let ?db = "(if is_tmp then db1\<lparr>db_mem := m', db_tmp_batch := WriteBatch_new\<rparr> else db1\<lparr>db_mem := m'\<rparr>)
    \<lparr>db_last_sequence := db_last_sequence db + of_nat (length ?us)\<rparr>"
  have run: "write_front dest env db = Some (StatusOK, ?db\<lparr>db_writers := drop (k + 1) (w # ws), db_write_count := db_write_count ?db + 1\<rparr>)"
    using make db1(1) m'(1) db1(3,4) cl uc k
    unfolding write_front_def ws(1) list.case Let_def SetSequence_batch_of
    by (simp add: b insert_group_def ws(1) SetSequence_batch_of sq)
  have "db_ok s (gs @ [?us]) (?db\<lparr>db_writers := drop (k + 1) (w # ws), db_write_count := db_write_count ?db + 1\<rparr>)"
    using m'(2) db1(2,5-7) ok by (simp add: db_ok_def group_records_snoc algebra_simps)
  then show ?thesis
    using run by (intro exI [of _ k] exI [of _ "gs @ [?us]"]) auto
qed

lemma serve_run:
  assumes "db_ok s gs db" "list_all2 writer_holds (db_writers db) uss" "list_all (\<lambda>w. wo_writeahead (wr_options w) \<and> wr_batch w \<noteq> None) (db_writers db)"
    "list_all (list_all fits_update) uss" "unat s + length (concat gs) + length (concat uss) < 2 ^ 56"
    "length (concat uss) < 2 ^ 31" "length (db_writers db) \<le> n" "\<forall>m. \<not> we_full env m"
  shows "\<exists>gs' db'. serve dest env n db = Some db' \<and> db_writers db' = [] \<and> db_ok s gs' db' \<and> concat gs' = concat gs @ concat uss"
  using assms(1-7)
proof (induction n arbitrary: gs db uss)
  case 0
  then show ?case
    by (intro exI [of _ gs]) simp
next
  case (Suc n)
  show ?case
  proof (cases "db_writers db")
    case Nil
    then show ?thesis
      using Suc.prems by (intro exI [of _ gs]) simp
  next
    case (Cons w ws)
    obtain k gs1 db1 where 1: "write_front dest env db = Some (StatusOK, db1)" "db_ok s gs1 db1"
        "concat gs1 = concat gs @ concat (take (k + 1) uss)" "db_writers db1 = drop (k + 1) (w # ws)"
      using write_front_run [OF Suc.prems(1) Cons, of uss env] Suc.prems Cons assms(8) by fastforce
    let ?uss = "drop (k + 1) uss"
    have split: "concat uss = concat (take (k + 1) uss) @ concat ?uss"
      by (rule concat_take_drop)
    have w1: "db_writers db1 = drop (k + 1) (db_writers db)"
      using 1(4) Cons by simp
    have "list_all2 writer_holds (db_writers db1) ?uss" "list_all (list_all fits_update) ?uss"
        "list_all (\<lambda>w. wo_writeahead (wr_options w) \<and> wr_batch w \<noteq> None) (db_writers db1)"
      using Suc.prems unfolding w1 by (auto simp: list_all2_dropI list_all_iff dest: in_set_dropD)
    moreover have "length (db_writers db1) \<le> n"
      using Suc.prems(7) Cons 1(4) by simp
    moreover have "unat s + length (concat gs1) + length (concat ?uss) < 2 ^ 56" "length (concat ?uss) < 2 ^ 31"
      using Suc.prems(5,6) 1(3) arg_cong [OF split, of length] by simp_all
    ultimately obtain gs' db' where "serve dest env n db1 = Some db'" "db_writers db' = []" "db_ok s gs' db'"
        "concat gs' = concat gs1 @ concat ?uss"
      using Suc.IH [OF 1(2), of ?uss] by blast
    then show ?thesis
      using 1(1,3) Cons split by (intro exI [of _ gs'] exI [of _ db']) simp
  qed
qed

end

section \<open>Replay\<close>

text \<open>Replaying a batch keeps what each call of the handler keeps.\<close>

lemma Iterate_loop_inv:
  assumes "\<And>k v h. P h \<Longrightarrow> P (handler_Put hdl k v h)" "\<And>k h. P h \<Longrightarrow> P (handler_Delete hdl k h)" "P h"
  shows "P (snd (Iterate_loop hdl input found h))"
  using assms
proof (induction hdl input found h rule: Iterate_loop.induct)
  case (2 hdl tg input found h)
  show ?case
  proof (cases "GetLengthPrefixedSlice input")
    case g: (Some p)
    obtain k r where p: "p = (k, r)"
      by fastforce
    show ?thesis
    proof (cases "GetLengthPrefixedSlice r")
      case None
      then show ?thesis
        using 2 g p by auto
    next
      case (Some q)
      then show ?thesis
        using 2 g p by (cases q) auto
    qed
  qed (use 2 in auto)
qed simp

lemma InsertInto_refs:
  assumes "InsertInto b m = Some (st, m')"
  shows "mem_refs m' = mem_refs m"
proof -
  let ?P = "\<lambda>ins :: inserter. case ins of None \<Rightarrow> True | Some (_, x) \<Rightarrow> mem_refs x = mem_refs m"
  have add: "mem_refs y = mem_refs x" if "MemTable_Add q t k v x = Some y" for q t k v x y
    using that by (auto simp: MemTable_Add_def Let_def split: if_splits bind_splits)
  have "?P (snd (Iterate_loop MemTableInserter (drop kHeader (wb_rep b)) 0 (Some (Sequence b, m))))"
    by (rule Iterate_loop_inv [where P = ?P])
      (auto simp: MemTableInserter_def Inserter_Put_def Inserter_Delete_def add split: option.splits bind_splits)
  then have "?P (snd (Iterate MemTableInserter b (Some (Sequence b, m))))"
    by (cases "Iterate_loop MemTableInserter (drop kHeader (wb_rep b)) 0 (Some (Sequence b, m))")
      (auto simp: Iterate_def split: sum.splits)
  then show ?thesis
    using assms by (auto simp: InsertInto_def split: prod.splits option.splits)
qed

text \<open>Tables that hold consecutive stretches of the updates.\<close>

fun table_logs :: "u64 \<Rightarrow> MemTable list \<Rightarrow> update list \<Rightarrow> bool" where
  "table_logs s [] us \<longleftrightarrow> us = []"
| "table_logs s (m # ms) us \<longleftrightarrow> (\<exists>a b. us = a @ b \<and> mem_log m s a \<and> table_logs (s + of_nat (length a)) ms b)"

definition mem_list :: "MemTable option \<Rightarrow> MemTable list" where
  "mem_list mem = (case mem of None \<Rightarrow> [] | Some m \<Rightarrow> [m])"

lemma mem_list_simps [simp]: "mem_list None = []" "mem_list (Some m) = [m]"
  by (simp_all add: mem_list_def)

text \<open>The table a recovery is filling holds the updates from \<open>s\<close> on.\<close>

definition filling :: "u64 \<Rightarrow> update list \<Rightarrow> MemTable option \<Rightarrow> bool" where
  "filling s us mem \<longleftrightarrow> (case mem of None \<Rightarrow> us = [] | Some m \<Rightarrow> mem_log m s us \<and> mem_refs m = 1)"

lemma filling_logs: "filling s us mem \<Longrightarrow> table_logs s (mem_list mem) us"
  by (cases mem) (auto simp: filling_def)

lemma filling_table:
  assumes "filling s us mem"
  shows "\<exists>m. (case mem of None \<Rightarrow> do { m \<leftarrow> MemTable_new BytewiseComparator; Some (MemTable_Ref m) } | Some m \<Rightarrow> Some m) = Some m \<and>
    mem_log m s us \<and> mem_refs m = 1"
proof (cases mem)
  case None
  obtain m where m: "MemTable_new BytewiseComparator = Some m" "mem_comparator m = BytewiseComparator"
      "mem_rep (\<lambda>_. True) Slice_compare m {}"
    using MemTable_new_rep by blast
  then have "mem_refs m = 0"
    by (auto simp: MemTable_new_def split: bind_splits)
  then show ?thesis
    using m None assms by (simp add: filling_def MemTable_Ref_def mem_log_def mem_rep_def)
qed (use assms in \<open>simp add: filling_def\<close>)

lemma filling_insert:
  assumes "mem_log m s us" "mem_refs m = 1" "list_all fits_update vs" "unat s + length us + length vs \<le> 2 ^ 56"
  shows "\<exists>m'. InsertInto \<lparr>wb_rep = batch_rep (s + of_nat (length us)) (of_nat (length vs)) vs\<rparr> m = Some (StatusOK, m') \<and>
    filling s (us @ vs) (Some m') \<and> mem_refs m' = 1"
proof -
  obtain m' where m': "InsertInto (SetSequence (batch_of vs) (s + of_nat (length us))) m = Some (StatusOK, m')"
      "mem_log m' s (us @ vs)"
    using InsertInto_log [OF assms(1,3,4)] by blast
  then show ?thesis
    using InsertInto_refs [OF m'(1)] assms(2) by (auto simp: filling_def SetSequence_batch_of)
qed

lemma last_seq_max:
  fixes s :: u64
  assumes "n < 2 ^ 31" "unat mx < unat s" "unat s + n \<le> 2 ^ 56"
  shows "(if s + scast (of_nat n :: u32) - 1 > mx then s + scast (of_nat n :: u32) - 1 else mx) = s + of_nat n - 1"
    and "unat (s + of_nat n - 1) < unat (s + of_nat n)"
proof -
  have u: "unat (s + of_nat n) = unat s + n"
    using assms(3) by (rule unat_seq)
  then have "unat (s + of_nat n - 1) = unat s + n - 1"
    using assms(2) by (subst unat_minus_one) auto
  then show "unat (s + of_nat n - 1) < unat (s + of_nat n)"
      "(if s + scast (of_nat n :: u32) - 1 > mx then s + scast (of_nat n :: u32) - 1 else mx) = s + of_nat n - 1"
    using u assms unfolding scast_count [OF assms(1)] by (auto simp: word_less_nat_alt word_unat_eq_iff)
qed

context sequential_file
begin

lemma recover_loop_run:
  assumes W: "\<forall>m v. fst (W m v) = StatusOK"
    and "log_left (group_records (s + of_nat (length us)) gs) r" "list_all (list_all fits_update) gs"
    and "filling s us mem" "unat mx < unat (s + of_nat (length us))" "unat s + length us + length (concat gs) \<le> 2 ^ 56"
    and "length (concat gs) < 2 ^ 31"
  shows "\<exists>ms mem' mx' us'. recover_loop source paranoid BytewiseComparator full W r StatusOK mem mx v =
      Some (StatusOK, mem', mx', fold (\<lambda>m v. snd (W m v)) ms v) \<and>
    table_logs s (ms @ mem_list mem') (us @ concat gs) \<and> pred_option (\<lambda>m. mem_refs m = 1) mem' \<and>
    mx' = (if gs = [] then mx else s + of_nat (length us + length (concat gs)) - 1)"
  using assms(2-)
proof (induction gs arbitrary: s us r mem mx v)
  case Nil
  obtain r' where "ReadRecord source r = Some (False, [], r')" "lr_reports r' = lr_reports r"
    using ReadRecord_end [of r] Nil.prems(1) by auto
  then show ?case
    using Nil.prems(3) filling_logs [OF Nil.prems(3)]
    by (intro exI [of _ "[]"] exI [of _ mem]) (subst recover_loop.simps, auto simp: note_reports_def filling_def split: option.splits)
next
  case (Cons g gs)
  let ?s = "s + of_nat (length us)"
  let ?rec = "batch_rep ?s (of_nat (length g)) g"
  obtain r' where r': "ReadRecord source r = Some (True, ?rec, r')" "log_left (group_records (?s + of_nat (length g)) gs) r'"
      "lr_reports r' = lr_reports r"
    using ReadRecord_next Cons.prems(1) by fastforce
  obtain m where m: "(case mem of None \<Rightarrow> do { m \<leftarrow> MemTable_new BytewiseComparator; Some (MemTable_Ref m) } | Some m \<Rightarrow> Some m) = Some m"
      "mem_log m s us" "mem_refs m = 1"
    using filling_table [OF Cons.prems(3)] by blast
  obtain m' where m': "InsertInto \<lparr>wb_rep = ?rec\<rparr> m = Some (StatusOK, m')" "filling s (us @ g) (Some m')" "mem_refs m' = 1"
    using filling_insert [OF m(2,3), of g] Cons.prems(2,5) by auto
  have us: "unat ?s = unat s + length us"
    using Cons.prems(5) by (intro unat_seq) simp
  note mx = last_seq_max [of "length g" mx ?s]
  have mx1: "(if ?s + scast (of_nat (length g) :: u32) - 1 > mx then ?s + scast (of_nat (length g) :: u32) - 1 else mx) =
      ?s + of_nat (length g) - 1" "unat (?s + of_nat (length g) - 1) < unat (?s + of_nat (length g))"
    using mx Cons.prems(4-) us by simp_all
  have len: "\<not> length ?rec < 12" "WriteBatch_SetContents WriteBatch_new ?rec = \<lparr>wb_rep = ?rec\<rparr>"
    by (simp_all add: length_batch_rep kHeader_def WriteBatch_SetContents_def WriteBatch_new_rep)
  have step: "recover_loop source paranoid BytewiseComparator full W r StatusOK mem mx v =
      (if full m' then recover_loop source paranoid BytewiseComparator full W r' StatusOK None (?s + of_nat (length g) - 1) (snd (W m' v))
       else recover_loop source paranoid BytewiseComparator full W r' StatusOK (Some m') (?s + of_nat (length g) - 1) v)"
    apply (subst recover_loop.simps)
    using r'(1,3) len m(1) m'(1,3) mx1(1) W [rule_format, of m' v]
    by (cases "W m' v") (simp add: Let_def note_reports_def MaybeIgnoreError_def MemTable_Unref_def)
  show ?case
  proof (cases "full m'")
    case True
    have "filling (?s + of_nat (length g)) [] None"
      by (simp add: filling_def)
    then obtain ms mem' mx' where "recover_loop source paranoid BytewiseComparator full W r' StatusOK None (?s + of_nat (length g) - 1) (snd (W m' v)) =
          Some (StatusOK, mem', mx', fold (\<lambda>m v. snd (W m v)) ms (snd (W m' v)))"
        "table_logs (?s + of_nat (length g)) (ms @ mem_list mem') (concat gs)" "pred_option (\<lambda>m. mem_refs m = 1) mem'"
        "mx' = (if gs = [] then ?s + of_nat (length g) - 1 else ?s + of_nat (length g) + of_nat (length (concat gs)) - 1)"
      using Cons.IH [of "?s + of_nat (length g)" "[]" r' None "?s + of_nat (length g) - 1" "snd (W m' v)"]
        r'(2) Cons.prems mx1(2) unat_seq [of ?s "length g"] us by auto
    moreover from this m'(2) have "table_logs s ((m' # ms) @ mem_list mem') (us @ concat (g # gs))"
      unfolding append_Cons table_logs.simps
      by (intro exI [of _ "us @ g"] exI [of _ "concat gs"]) (simp add: filling_def add.assoc)
    ultimately show ?thesis
      using True step by (intro exI [of _ "m' # ms"] exI [of _ mem']) (auto simp: add.assoc)
  next
    case False
    obtain ms mem' mx' where "recover_loop source paranoid BytewiseComparator full W r' StatusOK (Some m') (?s + of_nat (length g) - 1) v =
          Some (StatusOK, mem', mx', fold (\<lambda>m v. snd (W m v)) ms v)"
        "table_logs s (ms @ mem_list mem') ((us @ g) @ concat gs)" "pred_option (\<lambda>m. mem_refs m = 1) mem'"
        "mx' = (if gs = [] then ?s + of_nat (length g) - 1 else s + of_nat (length (us @ g) + length (concat gs)) - 1)"
      using Cons.IH [of s "us @ g" r' "Some m'" "?s + of_nat (length g) - 1" v] r'(2) Cons.prems m'(2) mx1(2)
      by (auto simp: add.assoc)
    then show ?thesis
      using False step by (intro exI [of _ ms] exI [of _ mem']) (auto simp: add.assoc)
  qed
qed

lemma RecoverLogFile_run:
  assumes W: "\<forall>m v. fst (W m v) = StatusOK"
    and log: "log_left (group_records s gs) (Reader_new f True True 0)" and fit: "list_all (list_all fits_update) gs"
    and bound: "unat mx < unat s" "unat s + length (concat gs) \<le> 2 ^ 56" "length (concat gs) < 2 ^ 31"
  shows "\<exists>ms. RecoverLogFile source paranoid BytewiseComparator full W (Inr f) mx v =
      Some (StatusOK, if gs = [] then mx else s + of_nat (length (concat gs)) - 1, fold (\<lambda>m v. snd (W m v)) ms v) \<and>
    table_logs s ms (concat gs)"
proof -
  obtain ms mem mx' where 1: "recover_loop source paranoid BytewiseComparator full W (Reader_new f True True 0) StatusOK None mx v =
        Some (StatusOK, mem, mx', fold (\<lambda>m v. snd (W m v)) ms v)"
      "table_logs s (ms @ mem_list mem) (concat gs)" "pred_option (\<lambda>m. mem_refs m = 1) mem"
      "mx' = (if gs = [] then mx else s + of_nat (length (concat gs)) - 1)"
    using recover_loop_run [OF W, where s = s and us = "[]" and gs = gs and r = "Reader_new f True True 0" and mem = None and mx = mx
      and paranoid = paranoid and full = full and v = v]
      log fit bound
    by (auto simp: filling_def)
  show ?thesis
  proof (cases mem)
    case None
    then show ?thesis
      using 1 by (intro exI [of _ ms]) (simp add: RecoverLogFile_def)
  next
    case (Some m)
    then show ?thesis
      using 1 W [rule_format, of m "fold (\<lambda>m v. snd (W m v)) ms v"]
      by (intro exI [of _ "ms @ [m]"], cases "W m (fold (\<lambda>m v. snd (W m v)) ms v)")
        (simp add: RecoverLogFile_def MemTable_Unref_def)
  qed
qed

end

text \<open>What is served to a log in memory is what a recovery from it gets.\<close>

lemma serve_then_recover:
  assumes W: "\<forall>m v. fst (W m v) = StatusOK"
    and ok: "mem_file.db_ok s gs db" and fit: "list_all (list_all fits_update) gs"
    and bound: "unat s + length (concat gs) < 2 ^ 56" "length (concat gs) < 2 ^ 31"
  shows "\<exists>ms. RecoverLogFile SequentialFileImpl paranoid BytewiseComparator full W (Inr (lw_dest (db_log db), 0)) 0 v =
      Some (StatusOK, if gs = [] then 0 else db_last_sequence db, fold (\<lambda>m v. snd (W m v)) ms v) \<and>
    table_logs (s + 1) ms (concat gs)"
proof -
  have s1: "unat (s + 1) = unat s + 1"
    using bound(1) unat_seq [of s 1] by simp
  have "mem_reader.log_left (group_records (s + 1) gs) (Reader_new (lw_dest (db_log db), 0) True True 0)"
    using ok by (intro mem_log_left) (simp add: mem_file.db_ok_def)
  from mem_reader.RecoverLogFile_run [OF W this fit, where mx = 0 and paranoid = paranoid and full = full and v = v] show ?thesis
    using bound s1 ok by (cases "gs = []") (simp_all add: mem_file.db_ok_def algebra_simps)
qed

end
