(* ===== verification/File_Names.thy ===== *)
theory File_Names
  imports Db_Format Decimal Mem_Env
begin

text \<open>
  The names of the files of a database (\<open>lib/leveldb/db/filename.cc\<close>) and the text helpers behind
  them (\<open>util/logging.cc\<close>), with the switch of the \<open>CURRENT\<close> file, which goes through
  \<open>WriteStringToFileSync\<close> of \<open>util/env.cc\<close> and the in-memory environment of \<open>Mem_Env\<close>.

  Every name the database builds parses to its number and type, a decimal number is read back
  exactly unless it overflows 64 bits, and after \<open>SetCurrentFile\<close> the file \<open>CURRENT\<close> holds the name
  of the descriptor.
\<close>

section \<open>Text\<close>

definition AppendNumberTo :: "bytes \<Rightarrow> u64 \<Rightarrow> bytes" where
  "AppendNumberTo str num = str @ print_nat (unat num)"

definition NumberToString :: "u64 \<Rightarrow> bytes" where
  "NumberToString num = AppendNumberTo [] num"

definition hex_digit :: "nat \<Rightarrow> byte" where
  "hex_digit n = of_nat (if n < 10 then 48 + n else 87 + n)"

definition AppendEscapedStringTo :: "bytes \<Rightarrow> bytes \<Rightarrow> bytes" where
  "AppendEscapedStringTo str value =
     fold (\<lambda>c s. if 32 \<le> c \<and> c \<le> 126 then s @ [c]
                 else s @ [92, 120, hex_digit (unat c div 16), hex_digit (unat c mod 16)]) value str"

definition EscapeString :: "bytes \<Rightarrow> bytes" where
  "EscapeString value = AppendEscapedStringTo [] value"

definition ConsumeChar :: "bytes \<Rightarrow> byte \<Rightarrow> bool \<times> bytes" where
  "ConsumeChar inp c = (if inp \<noteq> [] \<and> hd inp = c then (True, tl inp) else (False, inp))"

definition kMaxUint64 :: u64 where "kMaxUint64 = NOT 0"

text \<open>\<open>None\<close> when the number overflows; else the number of digits, the value and the rest.\<close>

fun ConsumeDecimal_loop :: "bytes \<Rightarrow> nat \<Rightarrow> u64 \<Rightarrow> (nat \<times> u64 \<times> bytes) option" where
  "ConsumeDecimal_loop [] digits v = Some (digits, v, [])"
| "ConsumeDecimal_loop (c # inp) digits v =
     (if 48 \<le> c \<and> c \<le> 57 then
        let delta = ucast (c - 48) :: u64 in
        if v > kMaxUint64 div 10 \<or> v = kMaxUint64 div 10 \<and> delta > kMaxUint64 mod 10 then None
        else ConsumeDecimal_loop inp (digits + 1) (v * 10 + delta)
      else Some (digits, v, c # inp))"

definition ConsumeDecimalNumber :: "bytes \<Rightarrow> (u64 \<times> bytes) option" where
  "ConsumeDecimalNumber inp =
     (case ConsumeDecimal_loop inp 0 0 of
        None \<Rightarrow> None
      | Some (digits, v, rest) \<Rightarrow> if digits > 0 then Some (v, rest) else None)"

section \<open>Names\<close>

datatype FileType =
  kLogFile | kDBLockFile | kTableFile | kDescriptorFile | kCurrentFile | kTempFile | kInfoLogFile

text \<open>\<open>%06llu\<close>.\<close>

definition print_06 :: "u64 \<Rightarrow> bytes" where
  "print_06 n = (let s = print_nat (unat n) in replicate (6 - length s) 48 @ s)"

definition MakeFileName :: "bytes \<Rightarrow> u64 \<Rightarrow> bytes \<Rightarrow> bytes" where
  "MakeFileName name number suffix = name @ 47 # print_06 number @ 46 # suffix"

definition LogFileName :: "bytes \<Rightarrow> u64 \<Rightarrow> bytes option" where
  "LogFileName name number = (if number > 0 then Some (MakeFileName name number (cstr ''log'')) else None)"

definition TableFileName :: "bytes \<Rightarrow> u64 \<Rightarrow> bytes option" where
  "TableFileName name number = (if number > 0 then Some (MakeFileName name number (cstr ''sst'')) else None)"

definition DescriptorFileName :: "bytes \<Rightarrow> u64 \<Rightarrow> bytes option" where
  "DescriptorFileName dbname number =
     (if number > 0 then Some (dbname @ cstr ''/MANIFEST-'' @ print_06 number) else None)"

definition CurrentFileName :: "bytes \<Rightarrow> bytes" where
  "CurrentFileName dbname = dbname @ cstr ''/CURRENT''"

definition LockFileName :: "bytes \<Rightarrow> bytes" where
  "LockFileName dbname = dbname @ cstr ''/LOCK''"

definition TempFileName :: "bytes \<Rightarrow> u64 \<Rightarrow> bytes option" where
  "TempFileName dbname number = (if number > 0 then Some (MakeFileName dbname number (cstr ''dbtmp'')) else None)"

definition InfoLogFileName :: "bytes \<Rightarrow> bytes" where
  "InfoLogFileName dbname = dbname @ cstr ''/LOG''"

definition OldInfoLogFileName :: "bytes \<Rightarrow> bytes" where
  "OldInfoLogFileName dbname = dbname @ cstr ''/LOG.old''"

definition ParseFileName :: "bytes \<Rightarrow> (u64 \<times> FileType) option" where
  "ParseFileName fname =
     (if fname = cstr ''CURRENT'' then Some (0, kCurrentFile)
      else if fname = cstr ''LOCK'' then Some (0, kDBLockFile)
      else if fname = cstr ''LOG'' \<or> fname = cstr ''LOG.old'' then Some (0, kInfoLogFile)
      else if Slice_starts_with fname (cstr ''MANIFEST-'') then
        (case ConsumeDecimalNumber (drop (length (cstr ''MANIFEST-'')) fname) of
           None \<Rightarrow> None
         | Some (num, rest) \<Rightarrow> if rest \<noteq> [] then None else Some (num, kDescriptorFile))
      else
        (case ConsumeDecimalNumber fname of
           None \<Rightarrow> None
         | Some (num, suffix) \<Rightarrow>
             if suffix = cstr ''.log'' then Some (num, kLogFile)
             else if suffix = cstr ''.sst'' then Some (num, kTableFile)
             else if suffix = cstr ''.dbtmp'' then Some (num, kTempFile)
             else None))"

section \<open>The current descriptor\<close>

definition Env_Append :: "nat \<Rightarrow> bytes \<Rightarrow> MemEnv \<Rightarrow> (Status \<times> MemEnv) option" where
  "Env_Append a data e =
     (case with_file (Some a) (FileState_Append data) e of None \<Rightarrow> None | Some e' \<Rightarrow> Some (StatusOK, e'))"

text \<open>\<open>Sync\<close> and \<open>Close\<close> of an in-memory file do nothing; deleting the object drops its reference.\<close>

definition WriteStringToFileSync :: "bytes \<Rightarrow> bytes \<Rightarrow> MemEnv \<Rightarrow> (Status \<times> MemEnv) option" where
  "WriteStringToFileSync data fname e = do {
     (s, a, e1) \<leftarrow> NewWritableFile fname e;
     if \<not> Status_ok s then Some (s, e1)
     else do {
       (s, e2) \<leftarrow> Env_Append a data e1;
       e3 \<leftarrow> Env_Unref (Some a) e2;
       if \<not> Status_ok s then do { (_, e4) \<leftarrow> Env_DeleteFile fname e3; Some (s, e4) } else Some (s, e3)
     }
   }"

definition SetCurrentFile :: "bytes \<Rightarrow> u64 \<Rightarrow> MemEnv \<Rightarrow> (Status \<times> MemEnv) option" where
  "SetCurrentFile dbname descriptor_number e = do {
     manifest \<leftarrow> DescriptorFileName dbname descriptor_number;
     if \<not> Slice_starts_with manifest (dbname @ cstr ''/'') then None
     else do {
       let contents = drop (length dbname + 1) manifest;
       tmp \<leftarrow> TempFileName dbname descriptor_number;
       (s, e1) \<leftarrow> WriteStringToFileSync (contents @ [10]) tmp e;
       (s, e2) \<leftarrow> (if Status_ok s then RenameFile tmp (CurrentFileName dbname) e1 else Some (s, e1));
       if \<not> Status_ok s then do { (_, e3) \<leftarrow> Env_DeleteFile tmp e2; Some (s, e3) } else Some (s, e2)
     }
   }"

section \<open>Reading numbers back\<close>

lemma kMaxUint64_parts: "unat (kMaxUint64 div 10) = (2 ^ 64 - 1) div 10" "unat (kMaxUint64 mod 10) = (2 ^ 64 - 1) mod 10"
  by (simp_all add: kMaxUint64_def unat_div unat_mod)

lemma digit_step:
  assumes "is_digit c"
  shows "unat (ucast (c - 48) :: u64) = unat c - 48" "unat c - 48 < 10"
proof -
  have c: "48 \<le> unat c" "unat c \<le> 57"
    using assms by (simp_all add: is_digit_def word_le_nat_alt)
  then have "unat (c - 48) = unat c - 48"
    by (simp add: unat_sub word_le_nat_alt)
  then show "unat (ucast (c - 48) :: u64) = unat c - 48"
    by (simp add: unat_ucast_up)
  show "unat c - 48 < 10"
    using c by simp
qed

lemma ConsumeDecimal_step:
  assumes "d < (10 :: nat)" "unat (delta :: u64) = d"
  shows "(v > kMaxUint64 div 10 \<or> v = kMaxUint64 div 10 \<and> delta > kMaxUint64 mod 10) \<longleftrightarrow> \<not> 10 * unat v + d < 2 ^ 64"
    and "10 * unat v + d < 2 ^ 64 \<Longrightarrow> unat (v * 10 + delta) = 10 * unat v + d"
  using assms kMaxUint64_parts
  by (auto simp: word_less_nat_alt word_unat_eq_iff unat_word_ariths)

fun dec_value :: "nat \<Rightarrow> bytes \<Rightarrow> nat" where
  "dec_value v [] = v"
| "dec_value v (c # ds) = dec_value (10 * v + (unat c - 48)) ds"

lemma dec_value_mono: "v \<le> dec_value v ds"
proof (induction ds arbitrary: v)
  case (Cons c ds)
  have "v \<le> 10 * v + (unat c - 48)"
    by simp
  then show ?case
    using Cons [of "10 * v + (unat c - 48)"] by simp
qed simp

lemma ConsumeDecimal_loop_run:
  assumes "list_all is_digit ds" "rest = [] \<or> \<not> is_digit (hd rest)"
  shows "ConsumeDecimal_loop (ds @ rest) n v =
    (if dec_value (unat v) ds < 2 ^ 64 then Some (n + length ds, of_nat (dec_value (unat v) ds), rest) else None)"
  using assms(1)
proof (induction ds arbitrary: n v)
  case Nil
  have "unat v < 2 ^ 64"
    using unsigned_less [of v, where 'a = nat] by simp
  then show ?case
    using assms(2) by (cases rest) (auto simp: is_digit_def)
next
  case (Cons c ds)
  have c: "48 \<le> c" "c \<le> 57" "is_digit c"
    using Cons.prems by (simp_all add: is_digit_def)
  note st = ConsumeDecimal_step [OF digit_step(2) [OF c(3)] digit_step(1) [OF c(3)], of v]
  show ?case
  proof (cases "10 * unat v + (unat c - 48) < 2 ^ 64")
    case True
    then show ?thesis
      using Cons.IH [of "n + 1" "v * 10 + ucast (c - 48)"] Cons.prems c(1,2) st(1) st(2) [OF True]
      by (simp add: Let_def del: de_Morgan_disj de_Morgan_conj)
  next
    case False
    then have "\<not> dec_value (unat v) (c # ds) < 2 ^ 64"
      using dec_value_mono [of "10 * unat v + (unat c - 48)" ds] by simp
    then show ?thesis
      using False c st(1) by (simp add: Let_def)
  qed
qed

lemma dec_value_fold: "dec_value v ds = fold (\<lambda>d n. 10 * n + (unat d - 48)) ds v"
  by (induction ds arbitrary: v) simp_all

lemma dec_value_print_06: "dec_value 0 (print_06 n) = unat n"
proof -
  have z: "dec_value 0 (replicate k 48 @ ds) = dec_value 0 ds" for k ds
    by (induction k) simp_all
  have "dec_value 0 (print_nat m) = m" for m
    using digits_value_print_nat [of m] by (simp add: dec_value_fold digits_value_def)
  then show ?thesis
    by (simp add: print_06_def Let_def z)
qed

lemma print_06_digits: "list_all is_digit (print_06 n)" "print_06 n \<noteq> []"
proof -
  have "is_digit 48"
    by (simp add: is_digit_def)
  then show "list_all is_digit (print_06 n)"
    using is_digit_print_nat by (auto simp: print_06_def Let_def list_all_iff)
  show "print_06 n \<noteq> []"
    by (auto simp: print_06_def Let_def)
qed

lemma ConsumeDecimalNumber_print:
  assumes "rest = [] \<or> \<not> is_digit (hd rest)"
  shows "ConsumeDecimalNumber (print_06 n @ rest) = Some (n, rest)"
proof -
  have "unat n < 2 ^ 64"
    using unsigned_less [of n, where 'a = nat] by simp
  then show ?thesis
    using ConsumeDecimal_loop_run [OF print_06_digits(1) assms, of n 0 0] print_06_digits(2) [of n]
    by (simp add: ConsumeDecimalNumber_def dec_value_print_06)
qed

text \<open>A run of digits that does not fit in 64 bits is refused.\<close>

lemma ConsumeDecimalNumber_overflow:
  assumes "list_all is_digit ds" "rest = [] \<or> \<not> is_digit (hd rest)" "\<not> dec_value 0 ds < 2 ^ 64"
  shows "ConsumeDecimalNumber (ds @ rest) = None"
  using ConsumeDecimal_loop_run [OF assms(1,2), of 0 0] assms(3) by (simp add: ConsumeDecimalNumber_def)

section \<open>Names and their parts\<close>

lemma number_head:
  "\<exists>c r. print_06 n @ x = c # r \<and> is_digit c"
  using print_06_digits [of n] by (cases "print_06 n") auto

lemma number_not_word:
  assumes "\<not> is_digit w"
  shows "print_06 n @ x \<noteq> w # y" "\<not> Slice_starts_with (print_06 n @ x) (w # y)"
  using number_head [of n x] assms by (auto simp: Slice_starts_with_iff)

lemma ParseFileName_number:
  assumes "suffix = [] \<or> \<not> is_digit (hd suffix)"
  shows "ParseFileName (print_06 n @ suffix) =
    (if suffix = cstr ''.log'' then Some (n, kLogFile)
     else if suffix = cstr ''.sst'' then Some (n, kTableFile)
     else if suffix = cstr ''.dbtmp'' then Some (n, kTempFile)
     else None)"
  using ConsumeDecimalNumber_print [OF assms, of n] number_not_word [of 67 n suffix]
    number_not_word [of 76 n suffix] number_not_word [of 77 n suffix]
  by (simp add: ParseFileName_def cstr_def is_digit_def)

lemma ParseFileName_manifest: "ParseFileName (cstr ''MANIFEST-'' @ print_06 n) = Some (n, kDescriptorFile)"
  using ConsumeDecimalNumber_print [of "[]" n]
  by (simp add: ParseFileName_def Slice_starts_with_iff) (simp add: cstr_def)

section \<open>Switching the descriptor\<close>

lemma env_inv_new:
  assumes "env_inv e" "env_map e n = None" "0 < file_refs f"
  shows "env_inv (e\<lparr>env_heap := (env_heap e)(env_fresh e \<mapsto> f), env_map := (env_map e)(n \<mapsto> Some (env_fresh e)),
      env_fresh := env_fresh e + 1\<rparr>)" (is "env_inv ?e")
proof -
  have live: "\<exists>a g. p = Some a \<and> a < env_fresh e \<and> env_heap e a = Some g \<and> 0 < file_refs g"
    if "env_map e m = Some p" for m p
    using assms(1) that unfolding env_inv_def by blast
  have own: "m = k" if "env_map e m = Some p" "env_map e k = Some p" for m k p
    using assms(1) that unfolding env_inv_def by blast
  have new: "env_map e m \<noteq> Some (Some (env_fresh e))" for m
    using live [of m "Some (env_fresh e)"] by auto
  have "\<exists>a g. p = Some a \<and> a < env_fresh ?e \<and> env_heap ?e a = Some g \<and> 0 < file_refs g"
    if "env_map ?e m = Some p" for m p
  proof (cases "m = n")
    case False
    then have "env_map e m = Some p"
      using that by simp
    then show ?thesis
      using live [of m p] by fastforce
  qed (use that assms(3) in auto)
  moreover have "m = k" if "env_map ?e m = Some p" "env_map ?e k = Some p" for m k p
    using that new own [of m p k] by (auto split: if_splits)
  ultimately show ?thesis
    unfolding env_inv_def by blast
qed

lemma WriteStringToFileSync_run:
  assumes inv: "env_inv e"
  shows "\<exists>e' f. WriteStringToFileSync data fname e = Some (StatusOK, e') \<and> env_inv e' \<and>
      env_file e' fname = Some f \<and> file_inv f \<and> file_contents f = data \<and>
      (\<forall>n. n \<noteq> fname \<longrightarrow> env_file e' n = env_file e n)"
proof -
  obtain e1 where e1: "DeleteFileInternal fname e = Some e1" "env_inv e1" "env_map e1 = (env_map e)(fname := None)"
      "\<And>m. m \<noteq> fname \<Longrightarrow> env_file e1 m = env_file e m"
    using DeleteFileInternal_run [OF inv, of fname] by auto
  have del: "(if env_map e fname \<noteq> None then DeleteFileInternal fname e else Some e) = Some e1"
    using e1(1) by (auto simp: DeleteFileInternal_def)
  let ?f = "FileState_Append data (FileState_Ref (FileState_Ref FileState_new))"
  have f: "file_inv ?f" "file_contents ?f = data" "file_refs ?f = 2"
    using FileState_Append_contents [of "FileState_Ref (FileState_Ref FileState_new)" data]
    by (simp_all add: FileState_new_def FileState_Ref_def file_inv_def file_contents_def kMemBlockSize_def)
  let ?g = "?f\<lparr>file_refs := 1\<rparr>"
  let ?e = "e1\<lparr>env_heap := (env_heap e1)(env_fresh e1 \<mapsto> ?g), env_map := (env_map e1)(fname \<mapsto> Some (env_fresh e1)),
      env_fresh := env_fresh e1 + 1\<rparr>"
  have "WriteStringToFileSync data fname e = Some (StatusOK, ?e)"
    using f(3) unfolding WriteStringToFileSync_def NewWritableFile_def del
    by (simp add: Let_def Env_Append_def with_file_def Env_Unref_def FileState_Unref_def)
  moreover have "env_inv ?e"
    using env_inv_new [OF e1(2), of fname ?g] e1(3) by simp
  moreover have "env_file ?e fname = Some ?g"
    by (simp add: env_file_def)
  moreover have "file_inv ?g" "file_contents ?g = data"
    using f(1,2) by (simp_all add: file_inv_def file_contents_def)
  moreover have "env_file ?e n = env_file e n" if "n \<noteq> fname" for n
  proof -
    have "env_map e1 n \<noteq> Some (Some (env_fresh e1))"
      using env_invE [OF e1(2), of n] by force
    then show ?thesis
      using that e1(4) [of n] by (auto simp: env_file_def split: option.splits)
  qed
  ultimately show ?thesis
    by blast
qed

lemma descriptor_name:
  "0 < n \<Longrightarrow> DescriptorFileName dbname n = Some (dbname @ 47 # cstr ''MANIFEST-'' @ print_06 n)"
  by (simp add: DescriptorFileName_def cstr_def)

lemma temp_not_current:
  assumes "0 < n"
  obtains t where "TempFileName dbname n = Some t" "t \<noteq> CurrentFileName dbname"
proof
  show "TempFileName dbname n = Some (dbname @ 47 # print_06 n @ 46 # cstr ''dbtmp'')"
    using assms by (simp add: TempFileName_def MakeFileName_def)
  show "dbname @ 47 # print_06 n @ 46 # cstr ''dbtmp'' \<noteq> CurrentFileName dbname"
    using number_not_word(1) [of 67 n] by (simp add: CurrentFileName_def cstr_def is_digit_def)
qed

lemma SetCurrentFile_run:
  assumes inv: "env_inv e" and n: "0 < n"
  shows "\<exists>e' f t. SetCurrentFile dbname n e = Some (StatusOK, e') \<and> env_inv e' \<and>
      env_file e' (CurrentFileName dbname) = Some f \<and> file_contents f = cstr ''MANIFEST-'' @ print_06 n @ [10] \<and>
      TempFileName dbname n = Some t \<and> \<not> FileExists t e' \<and>
      (\<forall>m. m \<noteq> t \<and> m \<noteq> CurrentFileName dbname \<longrightarrow> env_file e' m = env_file e m)"
proof -
  let ?c = "cstr ''MANIFEST-'' @ print_06 n @ [10]" and ?cur = "CurrentFileName dbname"
  obtain t where t: "TempFileName dbname n = Some t" "t \<noteq> ?cur"
    using n by (rule temp_not_current)
  obtain e1 f where e1: "WriteStringToFileSync ?c t e = Some (StatusOK, e1)" "env_inv e1" "env_file e1 t = Some f"
      "file_contents f = ?c" "\<forall>m. m \<noteq> t \<longrightarrow> env_file e1 m = env_file e m"
    using WriteStringToFileSync_run [OF inv, of ?c t] by blast
  have "env_map e1 t \<noteq> None"
    using e1(3) unfolding env_file_def by (metis option.distinct(1) option.case(1))
  then obtain e2 where e2: "RenameFile t ?cur e1 = Some (StatusOK, e2)" "env_inv e2" "env_file e2 ?cur = env_file e1 t"
      "\<not> FileExists t e2" "\<forall>m. m \<noteq> t \<and> m \<noteq> ?cur \<longrightarrow> env_file e2 m = env_file e1 m"
    using RenameFile_moves [OF e1(2) _ t(2)] by blast
  have "Slice_starts_with (dbname @ 47 # cstr ''MANIFEST-'' @ print_06 n) (dbname @ cstr ''/'')"
    by (simp add: Slice_starts_with_iff cstr_def)
  then have "SetCurrentFile dbname n e = Some (StatusOK, e2)"
    using e1(1) e2(1) t(1) unfolding SetCurrentFile_def descriptor_name [OF n] by (simp add: Let_def)
  then show ?thesis
    using e1 e2 t(1) by auto
qed

end
