(* ===== verification/Version_Edit.thy ===== *)
theory Version_Edit
  imports File_Names "HOL-Library.Product_Lexorder"
begin

text \<open>
  The records of the descriptor file (\<open>lib/leveldb/db/version_edit.h\<close> and \<open>version_edit.cc\<close>): a
  \<open>VersionEdit\<close> collects the changes from one version of the database to the next and is written
  as a sequence of tagged fields.

  The \<open>std::set\<close> of deleted files is the list of its elements in order, which \<open>insort_insert\<close>
  keeps; an \<open>InternalKey\<close> is its bytes, and \<open>Encode\<close> of an empty one is undefined (its assertion
  fails).  An edit built by the setters is decoded from what it is encoded to; \<open>Clear\<close> leaves
  the compaction pointers, so that a used edit keeps its own before the decoded ones.
\<close>

definition kNumLevels :: nat where "kNumLevels = 7"

section \<open>Edits\<close>

record FileMetaData =
  fmd_refs :: int
  fmd_allowed_seeks :: int
  fmd_number :: u64
  fmd_file_size :: u64
  fmd_smallest :: bytes
  fmd_largest :: bytes

text \<open>The constructor leaves the number as it finds it.\<close>

definition FileMetaData_new :: "u64 \<Rightarrow> FileMetaData" where
  "FileMetaData_new number = \<lparr>fmd_refs = 0, fmd_allowed_seeks = 2 ^ 30, fmd_number = number, fmd_file_size = 0,
     fmd_smallest = [], fmd_largest = []\<rparr>"

record VersionEdit =
  ve_comparator :: bytes
  ve_log_number :: u64
  ve_prev_log_number :: u64
  ve_next_file_number :: u64
  ve_last_sequence :: u64
  ve_has_comparator :: bool
  ve_has_log_number :: bool
  ve_has_prev_log_number :: bool
  ve_has_next_file_number :: bool
  ve_has_last_sequence :: bool
  ve_compact_pointers :: "(int \<times> bytes) list"
  ve_deleted_files :: "(int \<times> u64) list"
  ve_new_files :: "(int \<times> FileMetaData) list"

definition VersionEdit_Clear :: "VersionEdit \<Rightarrow> VersionEdit" where
  "VersionEdit_Clear e = e\<lparr>ve_comparator := [], ve_log_number := 0, ve_prev_log_number := 0,
     ve_last_sequence := 0, ve_next_file_number := 0, ve_has_comparator := False,
     ve_has_log_number := False, ve_has_prev_log_number := False, ve_has_next_file_number := False,
     ve_has_last_sequence := False, ve_deleted_files := [], ve_new_files := []\<rparr>"

definition VersionEdit_new :: VersionEdit where
  "VersionEdit_new = VersionEdit_Clear \<lparr>ve_comparator = [], ve_log_number = 0, ve_prev_log_number = 0,
     ve_next_file_number = 0, ve_last_sequence = 0, ve_has_comparator = False,
     ve_has_log_number = False, ve_has_prev_log_number = False, ve_has_next_file_number = False,
     ve_has_last_sequence = False, ve_compact_pointers = [], ve_deleted_files = [], ve_new_files = []\<rparr>"

definition SetComparatorName :: "bytes \<Rightarrow> VersionEdit \<Rightarrow> VersionEdit" where
  "SetComparatorName name e = e\<lparr>ve_has_comparator := True, ve_comparator := name\<rparr>"

definition SetLogNumber :: "u64 \<Rightarrow> VersionEdit \<Rightarrow> VersionEdit" where
  "SetLogNumber num e = e\<lparr>ve_has_log_number := True, ve_log_number := num\<rparr>"

definition SetPrevLogNumber :: "u64 \<Rightarrow> VersionEdit \<Rightarrow> VersionEdit" where
  "SetPrevLogNumber num e = e\<lparr>ve_has_prev_log_number := True, ve_prev_log_number := num\<rparr>"

definition SetNextFile :: "u64 \<Rightarrow> VersionEdit \<Rightarrow> VersionEdit" where
  "SetNextFile num e = e\<lparr>ve_has_next_file_number := True, ve_next_file_number := num\<rparr>"

definition SetLastSequence :: "u64 \<Rightarrow> VersionEdit \<Rightarrow> VersionEdit" where
  "SetLastSequence seq e = e\<lparr>ve_has_last_sequence := True, ve_last_sequence := seq\<rparr>"

definition SetCompactPointer :: "int \<Rightarrow> bytes \<Rightarrow> VersionEdit \<Rightarrow> VersionEdit" where
  "SetCompactPointer lv key e = e\<lparr>ve_compact_pointers := ve_compact_pointers e @ [(lv, key)]\<rparr>"

definition Edit_AddFile :: "int \<Rightarrow> u64 \<Rightarrow> u64 \<Rightarrow> bytes \<Rightarrow> bytes \<Rightarrow> VersionEdit \<Rightarrow> VersionEdit" where
  "Edit_AddFile lv number sz smallest largest e =
     (let f = (FileMetaData_new number)\<lparr>fmd_number := number, fmd_file_size := sz,
                fmd_smallest := smallest, fmd_largest := largest\<rparr>
      in e\<lparr>ve_new_files := ve_new_files e @ [(lv, f)]\<rparr>)"

definition Edit_DeleteFile :: "int \<Rightarrow> u64 \<Rightarrow> VersionEdit \<Rightarrow> VersionEdit" where
  "Edit_DeleteFile lv number e = e\<lparr>ve_deleted_files := insort_insert (lv, number) (ve_deleted_files e)\<rparr>"

section \<open>Encoding\<close>

definition kComparator :: u32 where "kComparator = 1"
definition kLogNumber :: u32 where "kLogNumber = 2"
definition kNextFileNumber :: u32 where "kNextFileNumber = 3"
definition kLastSequence :: u32 where "kLastSequence = 4"
definition kCompactPointer :: u32 where "kCompactPointer = 5"
definition kDeletedFile :: u32 where "kDeletedFile = 6"
definition kNewFile :: u32 where "kNewFile = 7"
definition kPrevLogNumber :: u32 where "kPrevLogNumber = 9"

lemmas tag_defs = kComparator_def kLogNumber_def kNextFileNumber_def kLastSequence_def
  kCompactPointer_def kDeletedFile_def kNewFile_def kPrevLogNumber_def

definition InternalKey_Encode :: "bytes \<Rightarrow> bytes option" where
  "InternalKey_Encode rep = (if rep \<noteq> [] then Some rep else None)"

fun put_pointers :: "(int \<times> bytes) list \<Rightarrow> bytes \<Rightarrow> bytes option" where
  "put_pointers [] dst = Some dst"
| "put_pointers ((lv, key) # ps) dst = do {
     k \<leftarrow> InternalKey_Encode key;
     put_pointers ps (PutLengthPrefixedSlice (PutVarint32 (PutVarint32 dst kCompactPointer) (of_int lv)) k)
   }"

definition put_deleted :: "(int \<times> u64) list \<Rightarrow> bytes \<Rightarrow> bytes" where
  "put_deleted ds dst =
     fold (\<lambda>(lv, number) dst. PutVarint64 (PutVarint32 (PutVarint32 dst kDeletedFile) (of_int lv)) number) ds dst"

fun put_new_files :: "(int \<times> FileMetaData) list \<Rightarrow> bytes \<Rightarrow> bytes option" where
  "put_new_files [] dst = Some dst"
| "put_new_files ((lv, f) # fs) dst = do {
     let dst = PutVarint32 (PutVarint32 dst kNewFile) (of_int lv);
     let dst = PutVarint64 (PutVarint64 dst (fmd_number f)) (fmd_file_size f);
     s \<leftarrow> InternalKey_Encode (fmd_smallest f);
     l \<leftarrow> InternalKey_Encode (fmd_largest f);
     put_new_files fs (PutLengthPrefixedSlice (PutLengthPrefixedSlice dst s) l)
   }"

definition put_number :: "bool \<Rightarrow> u32 \<Rightarrow> u64 \<Rightarrow> bytes \<Rightarrow> bytes" where
  "put_number has tg num dst = (if has then PutVarint64 (PutVarint32 dst tg) num else dst)"

definition VersionEdit_EncodeTo :: "VersionEdit \<Rightarrow> bytes \<Rightarrow> bytes option" where
  "VersionEdit_EncodeTo e dst = do {
     let dst = (if ve_has_comparator e
                then PutLengthPrefixedSlice (PutVarint32 dst kComparator) (ve_comparator e) else dst);
     let dst = put_number (ve_has_log_number e) kLogNumber (ve_log_number e) dst;
     let dst = put_number (ve_has_prev_log_number e) kPrevLogNumber (ve_prev_log_number e) dst;
     let dst = put_number (ve_has_next_file_number e) kNextFileNumber (ve_next_file_number e) dst;
     let dst = put_number (ve_has_last_sequence e) kLastSequence (ve_last_sequence e) dst;
     dst \<leftarrow> put_pointers (ve_compact_pointers e) dst;
     put_new_files (ve_new_files e) (put_deleted (ve_deleted_files e) dst)
   }"

section \<open>Decoding\<close>

definition GetInternalKey :: "bytes \<Rightarrow> (bytes \<times> bytes) option" where
  "GetInternalKey inp = GetLengthPrefixedSlice inp"

definition GetLevel :: "bytes \<Rightarrow> (int \<times> bytes) option" where
  "GetLevel inp =
     (case GetVarint32 inp of
        None \<Rightarrow> None
      | Some (v, rest) \<Rightarrow> if v < of_nat kNumLevels then Some (uint v, rest) else None)"

text \<open>The body of the loop after the tag: the message of a failure, or the edit and the input left.\<close>

definition or_msg :: "string \<Rightarrow> 'a option \<Rightarrow> string + 'a" where
  "or_msg msg r = (case r of None \<Rightarrow> Inl msg | Some x \<Rightarrow> Inr x)"

definition decode_field :: "u32 \<Rightarrow> bytes \<Rightarrow> VersionEdit \<Rightarrow> string + VersionEdit \<times> bytes" where
  "decode_field tg inp e =
     (if tg = kComparator then or_msg ''comparator name''
        (map_option (\<lambda>(s, r). (e\<lparr>ve_comparator := s, ve_has_comparator := True\<rparr>, r)) (GetLengthPrefixedSlice inp))
      else if tg = kLogNumber then or_msg ''log number''
        (map_option (\<lambda>(n, r). (e\<lparr>ve_log_number := n, ve_has_log_number := True\<rparr>, r)) (GetVarint64 inp))
      else if tg = kPrevLogNumber then or_msg ''previous log number''
        (map_option (\<lambda>(n, r). (e\<lparr>ve_prev_log_number := n, ve_has_prev_log_number := True\<rparr>, r)) (GetVarint64 inp))
      else if tg = kNextFileNumber then or_msg ''next file number''
        (map_option (\<lambda>(n, r). (e\<lparr>ve_next_file_number := n, ve_has_next_file_number := True\<rparr>, r)) (GetVarint64 inp))
      else if tg = kLastSequence then or_msg ''last sequence number''
        (map_option (\<lambda>(n, r). (e\<lparr>ve_last_sequence := n, ve_has_last_sequence := True\<rparr>, r)) (GetVarint64 inp))
      else if tg = kCompactPointer then or_msg ''compaction pointer'' (do {
        (lv, inp) \<leftarrow> GetLevel inp;
        (key, inp) \<leftarrow> GetInternalKey inp;
        Some (e\<lparr>ve_compact_pointers := ve_compact_pointers e @ [(lv, key)]\<rparr>, inp)
      })
      else if tg = kDeletedFile then or_msg ''deleted file'' (do {
        (lv, inp) \<leftarrow> GetLevel inp;
        (number, inp) \<leftarrow> GetVarint64 inp;
        Some (e\<lparr>ve_deleted_files := insort_insert (lv, number) (ve_deleted_files e)\<rparr>, inp)
      })
      else if tg = kNewFile then or_msg ''new-file entry'' (do {
        (lv, inp) \<leftarrow> GetLevel inp;
        (number, inp) \<leftarrow> GetVarint64 inp;
        (sz, inp) \<leftarrow> GetVarint64 inp;
        (smallest, inp) \<leftarrow> GetInternalKey inp;
        (largest, inp) \<leftarrow> GetInternalKey inp;
        let f = (FileMetaData_new number)\<lparr>fmd_file_size := sz, fmd_smallest := smallest, fmd_largest := largest\<rparr>;
        Some (e\<lparr>ve_new_files := ve_new_files e @ [(lv, f)]\<rparr>, inp)
      })
      else Inl ''unknown tag'')"

lemma GetVarint32_shorter: "GetVarint32 p = Some (v, q) \<Longrightarrow> length q < length p"
  using GetVarint32PtrFallback_suffix [of p 0 0 v q]
  by (auto simp: GetVarint32_def GetVarint32Ptr_fallback split: option.splits)

lemma GetVarint64PtrLoop_shorter: "GetVarint64PtrLoop p shift result = Some (v, q) \<Longrightarrow> length q < length p"
proof (induction p shift result rule: GetVarint64PtrLoop.induct)
  case (2 c p shift result)
  then show ?case
    by (fastforce simp: Let_def split: if_splits)
qed simp

lemma GetVarint64_shorter: "GetVarint64 p = Some (v, q) \<Longrightarrow> length q < length p"
  using GetVarint64PtrLoop_shorter [of p 0 0 v q]
  by (auto simp: GetVarint64_def GetVarint64Ptr_def split: option.splits)

lemma GetLevel_shorter: "GetLevel p = Some (v, q) \<Longrightarrow> length q < length p"
  using GetVarint32_shorter [of p] by (auto simp: GetLevel_def split: option.splits if_splits)

lemma decode_field_shorter: "decode_field tg inp e = Inr (e', r) \<Longrightarrow> length r < length inp"
  by (auto simp: decode_field_def or_msg_def GetInternalKey_def split: option.splits if_splits bind_splits
      dest!: GetVarint64_shorter GetLengthPrefixedSlice_shorter GetLevel_shorter)

function DecodeFrom_loop :: "bytes \<Rightarrow> VersionEdit \<Rightarrow> string option \<times> bytes \<times> VersionEdit" where
  "DecodeFrom_loop inp e =
     (case GetVarint32 inp of
        None \<Rightarrow> (None, inp, e)
      | Some (tg, inp1) \<Rightarrow>
          (case decode_field tg inp1 e of
             Inl msg \<Rightarrow> (Some msg, inp1, e)
           | Inr (e', inp2) \<Rightarrow> DecodeFrom_loop inp2 e'))"
  by pat_completeness auto
termination
  by (relation "measure (\<lambda>(inp, _). length inp)")
    (auto dest!: GetVarint32_shorter decode_field_shorter)

definition VersionEdit_DecodeFrom :: "bytes \<Rightarrow> VersionEdit \<Rightarrow> Status \<times> VersionEdit" where
  "VersionEdit_DecodeFrom src e =
     (let (msg, inp, e') = DecodeFrom_loop src (VersionEdit_Clear e);
          msg = (if msg = None \<and> inp \<noteq> [] then Some ''invalid tag'' else msg)
      in (case msg of
            Some m \<Rightarrow> (Status_make kCorruption (cstr ''VersionEdit'') (cstr m), e')
          | None \<Rightarrow> (StatusOK, e')))"

declare DecodeFrom_loop.simps [simp del]

section \<open>Printing\<close>

definition ParsedInternalKey_DebugString :: "ParsedInternalKey \<Rightarrow> bytes" where
  "ParsedInternalKey_DebugString k =
     [39] @ pik_user_key k @ [39] @ cstr '' @ '' @ print_nat (unat (pik_sequence k)) @ cstr '' : '' @
     print_nat (unat (pik_type k))"

definition InternalKey_DebugString :: "bytes \<Rightarrow> bytes" where
  "InternalKey_DebugString rep =
     (case ParseInternalKey rep of
        Some parsed \<Rightarrow> ParsedInternalKey_DebugString parsed
      | None \<Rightarrow> cstr ''(bad)'' @ EscapeString rep)"

definition debug_number :: "bool \<Rightarrow> string \<Rightarrow> u64 \<Rightarrow> bytes \<Rightarrow> bytes" where
  "debug_number has label num r = (if has then AppendNumberTo (r @ [10] @ cstr label) num else r)"

definition VersionEdit_DebugString :: "VersionEdit \<Rightarrow> bytes" where
  "VersionEdit_DebugString e =
     (let r = cstr ''VersionEdit {'';
          r = (if ve_has_comparator e then r @ [10] @ cstr ''  Comparator: '' @ ve_comparator e else r);
          r = debug_number (ve_has_log_number e) ''  LogNumber: '' (ve_log_number e) r;
          r = debug_number (ve_has_prev_log_number e) ''  PrevLogNumber: '' (ve_prev_log_number e) r;
          r = debug_number (ve_has_next_file_number e) ''  NextFile: '' (ve_next_file_number e) r;
          r = debug_number (ve_has_last_sequence e) ''  LastSeq: '' (ve_last_sequence e) r;
          r = fold (\<lambda>(lv, key) r. AppendNumberTo (r @ [10] @ cstr ''  CompactPointer: '') (of_int lv) @
                 cstr '' '' @ InternalKey_DebugString key) (ve_compact_pointers e) r;
          r = fold (\<lambda>(lv, number) r. AppendNumberTo (AppendNumberTo (r @ [10] @ cstr ''  DeleteFile: '')
                 (of_int lv) @ cstr '' '') number) (ve_deleted_files e) r;
          r = fold (\<lambda>(lv, f) r. AppendNumberTo (AppendNumberTo (AppendNumberTo (r @ [10] @ cstr ''  AddFile: '')
                 (of_int lv) @ cstr '' '') (fmd_number f) @ cstr '' '') (fmd_file_size f) @
                 cstr '' '' @ InternalKey_DebugString (fmd_smallest f) @ cstr '' .. '' @
                 InternalKey_DebugString (fmd_largest f)) (ve_new_files e) r
      in r @ [10, 125, 10])"

section \<open>Well-formed edits\<close>

definition level_ok :: "int \<Rightarrow> bool" where
  "level_ok lv \<longleftrightarrow> 0 \<le> lv \<and> lv < int kNumLevels"

definition key_ok :: "bytes \<Rightarrow> bool" where
  "key_ok k \<longleftrightarrow> k \<noteq> [] \<and> length k < 2 ^ 32"

definition new_file_ok :: "int \<times> FileMetaData \<Rightarrow> bool" where
  "new_file_ok = (\<lambda>(lv, f). level_ok lv \<and> key_ok (fmd_smallest f) \<and> key_ok (fmd_largest f) \<and>
     fmd_refs f = 0 \<and> fmd_allowed_seeks f = 2 ^ 30)"

definition edit_wf :: "VersionEdit \<Rightarrow> bool" where
  "edit_wf e \<longleftrightarrow>
     length (ve_comparator e) < 2 ^ 32 \<and> (\<not> ve_has_comparator e \<longrightarrow> ve_comparator e = []) \<and>
     (\<not> ve_has_log_number e \<longrightarrow> ve_log_number e = 0) \<and> (\<not> ve_has_prev_log_number e \<longrightarrow> ve_prev_log_number e = 0) \<and>
     (\<not> ve_has_next_file_number e \<longrightarrow> ve_next_file_number e = 0) \<and> (\<not> ve_has_last_sequence e \<longrightarrow> ve_last_sequence e = 0) \<and>
     list_all (\<lambda>(lv, k). level_ok lv \<and> key_ok k) (ve_compact_pointers e) \<and>
     sorted (ve_deleted_files e) \<and> distinct (ve_deleted_files e) \<and> list_all (level_ok \<circ> fst) (ve_deleted_files e) \<and>
     list_all new_file_ok (ve_new_files e)"

text \<open>The edits a caller of the setters builds.\<close>

inductive built :: "VersionEdit \<Rightarrow> bool" where
  built_new: "built VersionEdit_new"
| built_Clear: "built e \<Longrightarrow> built (VersionEdit_Clear e)"
| built_Comparator: "built e \<Longrightarrow> length name < 2 ^ 32 \<Longrightarrow> built (SetComparatorName name e)"
| built_LogNumber: "built e \<Longrightarrow> built (SetLogNumber num e)"
| built_PrevLogNumber: "built e \<Longrightarrow> built (SetPrevLogNumber num e)"
| built_NextFile: "built e \<Longrightarrow> built (SetNextFile num e)"
| built_LastSequence: "built e \<Longrightarrow> built (SetLastSequence num e)"
| built_CompactPointer: "built e \<Longrightarrow> level_ok lv \<Longrightarrow> key_ok k \<Longrightarrow> built (SetCompactPointer lv k e)"
| built_AddFile: "built e \<Longrightarrow> level_ok lv \<Longrightarrow> key_ok s \<Longrightarrow> key_ok l \<Longrightarrow> built (Edit_AddFile lv num sz s l e)"
| built_DeleteFile: "built e \<Longrightarrow> level_ok lv \<Longrightarrow> built (Edit_DeleteFile lv num e)"

lemmas setter_defs = VersionEdit_new_def VersionEdit_Clear_def SetComparatorName_def SetLogNumber_def
  SetPrevLogNumber_def SetNextFile_def SetLastSequence_def SetCompactPointer_def Edit_AddFile_def
  Edit_DeleteFile_def FileMetaData_new_def

lemma built_wf: "built e \<Longrightarrow> edit_wf e"
proof (induction rule: built.induct)
  case (built_DeleteFile e lv num)
  then show ?case
    by (simp add: edit_wf_def Edit_DeleteFile_def sorted_insort_insert distinct_insort_insert list_all_iff
        set_insort_insert)
qed (simp_all add: edit_wf_def setter_defs new_file_ok_def Let_def list_all_iff)

section \<open>Round trip\<close>

definition put_slice :: "bytes \<Rightarrow> bytes" where
  "put_slice k = EncodeVarint32 (of_nat (length k)) @ k"

lemma PutLengthPrefixedSlice_slice: "PutLengthPrefixedSlice dst k = dst @ put_slice k"
  by (simp add: PutLengthPrefixedSlice_def PutVarint32_def put_slice_def)

lemmas put_defs = PutVarint32_def PutVarint64_def PutLengthPrefixedSlice_slice

lemma Get_slice [simp]: "length k < 2 ^ 32 \<Longrightarrow> GetLengthPrefixedSlice (put_slice k @ rest) = Some (k, rest)"
  by (simp add: put_slice_def)

lemma Get_level [simp]:
  assumes "level_ok lv"
  shows "GetLevel (EncodeVarint32 (of_int lv) @ rest) = Some (lv, rest)"
proof -
  have "uint (word_of_int lv :: u32) = lv"
    using assms by (simp add: level_ok_def kNumLevels_def uint_word_of_int)
  then show ?thesis
    using assms by (simp add: GetLevel_def word_less_def level_ok_def kNumLevels_def)
qed

lemma key_okD [simp]: "key_ok k \<Longrightarrow> length k < 4294967296" "key_ok k \<Longrightarrow> InternalKey_Encode k = Some k"
  by (simp_all add: key_ok_def InternalKey_Encode_def)

lemma DecodeFrom_step:
  "decode_field tg (body @ rest) e = Inr (e', rest) \<Longrightarrow>
   DecodeFrom_loop (EncodeVarint32 tg @ body @ rest) e = DecodeFrom_loop rest e'"
  by (subst DecodeFrom_loop.simps) simp

definition pointer_bytes :: "(int \<times> bytes) list \<Rightarrow> bytes" where
  "pointer_bytes ps = concat (map (\<lambda>(lv, k). EncodeVarint32 kCompactPointer @ EncodeVarint32 (of_int lv) @ put_slice k) ps)"

definition deleted_bytes :: "(int \<times> u64) list \<Rightarrow> bytes" where
  "deleted_bytes ds = concat (map (\<lambda>(lv, n). EncodeVarint32 kDeletedFile @ EncodeVarint32 (of_int lv) @ EncodeVarint64 n) ds)"

definition new_file_bytes :: "(int \<times> FileMetaData) list \<Rightarrow> bytes" where
  "new_file_bytes fs = concat (map (\<lambda>(lv, f). EncodeVarint32 kNewFile @ EncodeVarint32 (of_int lv) @
     EncodeVarint64 (fmd_number f) @ EncodeVarint64 (fmd_file_size f) @ put_slice (fmd_smallest f) @
     put_slice (fmd_largest f)) fs)"

lemma put_pointers_bytes:
  "list_all (\<lambda>(lv, k). level_ok lv \<and> key_ok k) ps \<Longrightarrow> put_pointers ps dst = Some (dst @ pointer_bytes ps)"
  by (induction ps dst rule: put_pointers.induct) (simp_all add: pointer_bytes_def put_defs)

lemma put_deleted_bytes: "put_deleted ds dst = dst @ deleted_bytes ds"
  by (induction ds arbitrary: dst) (auto simp: put_deleted_def deleted_bytes_def put_defs)

lemma put_new_files_bytes:
  "list_all new_file_ok fs \<Longrightarrow> put_new_files fs dst = Some (dst @ new_file_bytes fs)"
  by (induction fs dst rule: put_new_files.induct)
    (simp_all add: new_file_bytes_def new_file_ok_def put_defs Let_def)

lemma decode_pointers:
  "list_all (\<lambda>(lv, k). level_ok lv \<and> key_ok k) ps \<Longrightarrow>
   DecodeFrom_loop (pointer_bytes ps @ rest) e = DecodeFrom_loop rest (e\<lparr>ve_compact_pointers := ve_compact_pointers e @ ps\<rparr>)"
proof (induction ps arbitrary: e)
  case (Cons p ps)
  obtain lv k where p: "p = (lv, k)"
    by fastforce
  show ?case
    using Cons DecodeFrom_step [of kCompactPointer "EncodeVarint32 (of_int lv) @ put_slice k" "pointer_bytes ps @ rest"
      e "e\<lparr>ve_compact_pointers := ve_compact_pointers e @ [(lv, k)]\<rparr>"]
    by (simp add: p pointer_bytes_def decode_field_def tag_defs or_msg_def GetInternalKey_def)
qed (simp add: pointer_bytes_def)

lemma insort_insert_last: "sorted (xs @ [x]) \<Longrightarrow> distinct (xs @ [x]) \<Longrightarrow> insort_insert x xs = xs @ [x]"
  by (simp add: insort_insert_key_def sorted_append sorted_insort_is_snoc)

lemma decode_deleted:
  "sorted (ve_deleted_files e @ ds) \<Longrightarrow> distinct (ve_deleted_files e @ ds) \<Longrightarrow> list_all (level_ok \<circ> fst) ds \<Longrightarrow>
   DecodeFrom_loop (deleted_bytes ds @ rest) e = DecodeFrom_loop rest (e\<lparr>ve_deleted_files := ve_deleted_files e @ ds\<rparr>)"
proof (induction ds arbitrary: e)
  case (Cons d ds)
  obtain lv n where d: "d = (lv, n)"
    by fastforce
  have "insort_insert (lv, n) (ve_deleted_files e) = ve_deleted_files e @ [(lv, n)]"
    using Cons.prems by (intro insort_insert_last) (auto simp: d sorted_append)
  then show ?case
    using Cons DecodeFrom_step [of kDeletedFile "EncodeVarint32 (of_int lv) @ EncodeVarint64 n" "deleted_bytes ds @ rest"
      e "e\<lparr>ve_deleted_files := ve_deleted_files e @ [(lv, n)]\<rparr>"]
    by (simp add: d deleted_bytes_def decode_field_def tag_defs or_msg_def)
qed (simp add: deleted_bytes_def)

lemma decode_new_files:
  "list_all new_file_ok fs \<Longrightarrow>
   DecodeFrom_loop (new_file_bytes fs @ rest) e = DecodeFrom_loop rest (e\<lparr>ve_new_files := ve_new_files e @ fs\<rparr>)"
proof (induction fs arbitrary: e)
  case (Cons p fs)
  obtain lv f where p: "p = (lv, f)"
    by fastforce
  let ?body = "EncodeVarint32 (of_int lv) @ EncodeVarint64 (fmd_number f) @ EncodeVarint64 (fmd_file_size f) @
    put_slice (fmd_smallest f) @ put_slice (fmd_largest f)"
  have f: "(FileMetaData_new (fmd_number f))\<lparr>fmd_file_size := fmd_file_size f, fmd_smallest := fmd_smallest f,
      fmd_largest := fmd_largest f\<rparr> = f"
    using Cons.prems by (cases f) (simp add: p new_file_ok_def FileMetaData_new_def)
  have "decode_field kNewFile (?body @ new_file_bytes fs @ rest) e =
      Inr (e\<lparr>ve_new_files := ve_new_files e @ [(lv, f)]\<rparr>, new_file_bytes fs @ rest)"
    using Cons.prems f by (simp add: p new_file_ok_def decode_field_def tag_defs or_msg_def GetInternalKey_def Let_def)
  then show ?case
    using Cons DecodeFrom_step [of kNewFile ?body "new_file_bytes fs @ rest" e] by (simp add: p new_file_bytes_def)
qed (simp add: new_file_bytes_def)

lemma decode_number:
  assumes "decode_field tg (EncodeVarint64 n @ rest) e = Inr (e', rest)"
  shows "DecodeFrom_loop (put_number has tg n [] @ rest) e = DecodeFrom_loop rest (if has then e' else e)"
  using assms DecodeFrom_step [of tg "EncodeVarint64 n" rest e e'] by (cases has) (simp_all add: put_number_def put_defs)

lemma put_number_append: "put_number has tg n dst = dst @ put_number has tg n []"
  by (simp add: put_number_def put_defs)

definition comparator_bytes :: "VersionEdit \<Rightarrow> bytes" where
  "comparator_bytes e = (if ve_has_comparator e then EncodeVarint32 kComparator @ put_slice (ve_comparator e) else [])"

lemma decode_comparator:
  "length (ve_comparator e) < 2 ^ 32 \<Longrightarrow>
   DecodeFrom_loop (comparator_bytes e @ rest) d = DecodeFrom_loop rest
     (if ve_has_comparator e then d\<lparr>ve_comparator := ve_comparator e, ve_has_comparator := True\<rparr> else d)"
  using DecodeFrom_step [of kComparator "put_slice (ve_comparator e)" rest d
      "d\<lparr>ve_comparator := ve_comparator e, ve_has_comparator := True\<rparr>"]
  by (simp add: comparator_bytes_def decode_field_def tag_defs or_msg_def)

definition edit_bytes :: "VersionEdit \<Rightarrow> bytes" where
  "edit_bytes e = comparator_bytes e @ put_number (ve_has_log_number e) kLogNumber (ve_log_number e) [] @
     put_number (ve_has_prev_log_number e) kPrevLogNumber (ve_prev_log_number e) [] @
     put_number (ve_has_next_file_number e) kNextFileNumber (ve_next_file_number e) [] @
     put_number (ve_has_last_sequence e) kLastSequence (ve_last_sequence e) [] @
     pointer_bytes (ve_compact_pointers e) @ deleted_bytes (ve_deleted_files e) @ new_file_bytes (ve_new_files e)"

lemma EncodeTo_bytes:
  assumes "edit_wf e"
  shows "VersionEdit_EncodeTo e dst = Some (dst @ edit_bytes e)"
proof -
  have p: "put_pointers (ve_compact_pointers e) d = Some (d @ pointer_bytes (ve_compact_pointers e))" for d
    using assms by (intro put_pointers_bytes) (simp add: edit_wf_def)
  have n: "put_new_files (ve_new_files e) d = Some (d @ new_file_bytes (ve_new_files e))" for d
    using assms by (intro put_new_files_bytes) (simp add: edit_wf_def)
  let ?d = "dst @ comparator_bytes e"
  have c: "(if ve_has_comparator e then PutLengthPrefixedSlice (PutVarint32 dst kComparator) (ve_comparator e) else dst) = ?d"
    by (simp add: comparator_bytes_def put_defs)
  show ?thesis
    unfolding VersionEdit_EncodeTo_def Let_def c put_number_append [of "ve_has_log_number e" _ _ ?d]
      put_number_append [of "ve_has_prev_log_number e" _ _ "x @ y" for x y]
      put_number_append [of "ve_has_next_file_number e" _ _ "x @ y" for x y]
      put_number_append [of "ve_has_last_sequence e" _ _ "x @ y" for x y] p n put_deleted_bytes edit_bytes_def
    by simp
qed

lemma DecodeFrom_edit_bytes:
  assumes wf: "edit_wf e"
  shows "DecodeFrom_loop (edit_bytes e) (VersionEdit_Clear d) =
    (None, [], e\<lparr>ve_compact_pointers := ve_compact_pointers d @ ve_compact_pointers e\<rparr>)"
proof -
  have stop: "DecodeFrom_loop [] x = (None, [], x)" for x
    by (subst DecodeFrom_loop.simps) (simp add: GetVarint32_def GetVarint32Ptr_def)
  define d1 where "d1 = (if ve_has_comparator e
    then (VersionEdit_Clear d)\<lparr>ve_comparator := ve_comparator e, ve_has_comparator := True\<rparr> else VersionEdit_Clear d)"
  define d2 where "d2 = (if ve_has_log_number e then d1\<lparr>ve_log_number := ve_log_number e, ve_has_log_number := True\<rparr> else d1)"
  define d3 where "d3 = (if ve_has_prev_log_number e
    then d2\<lparr>ve_prev_log_number := ve_prev_log_number e, ve_has_prev_log_number := True\<rparr> else d2)"
  define d4 where "d4 = (if ve_has_next_file_number e
    then d3\<lparr>ve_next_file_number := ve_next_file_number e, ve_has_next_file_number := True\<rparr> else d3)"
  define d5 where "d5 = (if ve_has_last_sequence e
    then d4\<lparr>ve_last_sequence := ve_last_sequence e, ve_has_last_sequence := True\<rparr> else d4)"
  note ds = d1_def d2_def d3_def d4_def d5_def
  define d6 where "d6 = d5\<lparr>ve_compact_pointers := ve_compact_pointers d5 @ ve_compact_pointers e\<rparr>"
  have w: "length (ve_comparator e) < 2 ^ 32" "list_all (\<lambda>(lv, k). level_ok lv \<and> key_ok k) (ve_compact_pointers e)"
      "sorted (ve_deleted_files e)" "distinct (ve_deleted_files e)" "list_all (level_ok \<circ> fst) (ve_deleted_files e)"
      "list_all new_file_ok (ve_new_files e)"
    using wf by (simp_all add: edit_wf_def)
  have d6: "ve_deleted_files d6 = []" "ve_new_files d6 = []" "ve_compact_pointers d5 = ve_compact_pointers d"
    by (simp_all add: d6_def ds VersionEdit_Clear_def)
  have num: "decode_field kLogNumber (EncodeVarint64 n @ rest) x = Inr (x\<lparr>ve_log_number := n, ve_has_log_number := True\<rparr>, rest)"
    "decode_field kPrevLogNumber (EncodeVarint64 n @ rest) x = Inr (x\<lparr>ve_prev_log_number := n, ve_has_prev_log_number := True\<rparr>, rest)"
    "decode_field kNextFileNumber (EncodeVarint64 n @ rest) x = Inr (x\<lparr>ve_next_file_number := n, ve_has_next_file_number := True\<rparr>, rest)"
    "decode_field kLastSequence (EncodeVarint64 n @ rest) x = Inr (x\<lparr>ve_last_sequence := n, ve_has_last_sequence := True\<rparr>, rest)"
    for n rest x
    by (simp_all add: decode_field_def tag_defs or_msg_def)
  have "DecodeFrom_loop (edit_bytes e) (VersionEdit_Clear d) =
      DecodeFrom_loop (deleted_bytes (ve_deleted_files e) @ new_file_bytes (ve_new_files e) @ []) d6"
    unfolding edit_bytes_def decode_comparator [OF w(1)] decode_number [OF num(1)] decode_number [OF num(2)]
      decode_number [OF num(3)] decode_number [OF num(4)] decode_pointers [OF w(2)]
    by (simp add: d6_def d5_def d4_def d3_def d2_def d1_def)
  also have "\<dots> = (None, [], d6\<lparr>ve_deleted_files := ve_deleted_files e, ve_new_files := ve_new_files e\<rparr>)"
    using w d6 decode_deleted [of d6 "ve_deleted_files e"] by (simp add: decode_new_files stop del: append_Nil2)
  also have "d6\<lparr>ve_deleted_files := ve_deleted_files e, ve_new_files := ve_new_files e\<rparr> =
      e\<lparr>ve_compact_pointers := ve_compact_pointers d @ ve_compact_pointers e\<rparr>"
    using wf by (cases e) (simp add: edit_wf_def d6_def ds VersionEdit_Clear_def)
  finally show ?thesis .
qed

lemma DecodeFrom_EncodeTo:
  assumes "edit_wf e"
  shows "\<exists>s. VersionEdit_EncodeTo e [] = Some s \<and>
    VersionEdit_DecodeFrom s d = (StatusOK, e\<lparr>ve_compact_pointers := ve_compact_pointers d @ ve_compact_pointers e\<rparr>)"
  using EncodeTo_bytes [OF assms, of "[]"] DecodeFrom_edit_bytes [OF assms, of d]
  by (simp add: VersionEdit_DecodeFrom_def)

section \<open>What decoding yields\<close>

definition edit_typed :: "VersionEdit \<Rightarrow> bool" where
  "edit_typed e \<longleftrightarrow> list_all (level_ok \<circ> fst) (ve_compact_pointers e) \<and> list_all (level_ok \<circ> fst) (ve_deleted_files e) \<and>
     list_all (level_ok \<circ> fst) (ve_new_files e) \<and> sorted (ve_deleted_files e) \<and> distinct (ve_deleted_files e)"

lemma GetLevel_ok: "GetLevel p = Some (lv, q) \<Longrightarrow> level_ok lv"
  by (auto simp: GetLevel_def level_ok_def kNumLevels_def word_less_def split: option.splits if_splits)

lemma or_msg_Inr [simp]: "or_msg msg x = Inr y \<longleftrightarrow> x = Some y"
  by (simp add: or_msg_def split: option.split)

lemma edit_typed_delete:
  "edit_typed e \<Longrightarrow> level_ok lv \<Longrightarrow> edit_typed (e\<lparr>ve_deleted_files := insort_insert (lv, n) (ve_deleted_files e)\<rparr>)"
  by (simp add: edit_typed_def list_all_iff set_insort_insert sorted_insort_insert distinct_insort_insert)

lemma decode_field_typed:
  assumes "edit_typed e" "decode_field tg inp e = Inr (e', r)"
  shows "edit_typed e'"
  using assms(2) unfolding decode_field_def
  by (simp only: split: if_split_asm;
      use assms(1) in \<open>auto simp: edit_typed_delete edit_typed_def [of "e\<lparr>ve_compact_pointers := x\<rparr>" for x]
        edit_typed_def [of "e\<lparr>ve_new_files := x\<rparr>" for x] dest!: GetLevel_ok split: bind_splits\<close>;
      simp add: edit_typed_def)

lemma DecodeFrom_loop_typed: "edit_typed e \<Longrightarrow> DecodeFrom_loop inp e = (msg, rest, e') \<Longrightarrow> edit_typed e'"
proof (induction inp e rule: DecodeFrom_loop.induct)
  case (1 inp e)
  show ?case
  proof (cases "GetVarint32 inp")
    case None
    then show ?thesis
      using 1(2,3) by (simp add: DecodeFrom_loop.simps [of inp e])
  next
    case (Some p)
    obtain tg inp1 where p: "p = (tg, inp1)"
      by fastforce
    show ?thesis
    proof (cases "decode_field tg inp1 e")
      case (Inl m)
      then show ?thesis
        using 1(2,3) Some p by (simp add: DecodeFrom_loop.simps [of inp e])
    next
      case (Inr q)
      obtain e1 inp2 where q: "q = (e1, inp2)"
        by fastforce
      have "edit_typed e1"
        using decode_field_typed [OF 1(2)] Inr q by blast
      then show ?thesis
        using 1(1) [OF Some p [symmetric] Inr q [symmetric]] 1(3) Some p Inr q
        by (simp add: DecodeFrom_loop.simps [of inp e])
    qed
  qed
qed

lemma DecodeFrom_typed: "edit_typed (snd (VersionEdit_DecodeFrom src VersionEdit_new))"
proof -
  obtain msg rest e where e: "DecodeFrom_loop src (VersionEdit_Clear VersionEdit_new) = (msg, rest, e)"
    using prod_cases3 by blast
  have "edit_typed (VersionEdit_Clear VersionEdit_new)"
    by (simp add: edit_typed_def VersionEdit_new_def VersionEdit_Clear_def)
  then have "edit_typed e"
    using DecodeFrom_loop_typed e by blast
  then show ?thesis
    by (simp add: VersionEdit_DecodeFrom_def e split: option.splits)
qed

end
