(* ===== verification/Engine_Properties.thy ===== *)
theory Engine_Properties
  imports Db_Write Version_Edit
begin

text \<open>
  The properties of the parts of LevelDB that are modelled: the skip list and the memtable, the order
  of internal keys, checksums and the log, the write path with its recovery, the names of files, and
  the records of the descriptor.  The drivers below run an operation over a list.
\<close>

section \<open>Drivers\<close>

fun insert_keys :: "('k \<Rightarrow> 'k \<Rightarrow> int option) \<Rightarrow> 'k list \<Rightarrow> 'k SkipList \<Rightarrow> 'k SkipList option" where
  "insert_keys cmp [] sl = Some sl"
| "insert_keys cmp (k # ks) sl = do { sl1 \<leftarrow> SkipList_Insert cmp sl k; insert_keys cmp ks sl1 }"

text \<open>The keys from an iterator on, at most \<open>n\<close> of them.\<close>

fun scan_keys :: "'k SkipList \<Rightarrow> nat \<Rightarrow> nat option \<Rightarrow> 'k list option" where
  "scan_keys sl 0 it = Some []"
| "scan_keys sl (Suc n) it =
     (if it = None then Some []
      else do { k \<leftarrow> Iterator_key sl it; it1 \<leftarrow> Iterator_Next sl it; ks \<leftarrow> scan_keys sl n it1; Some (k # ks) })"

text \<open>Batches with consecutive sequence numbers into one memtable.\<close>

fun replay_batches :: "u64 \<Rightarrow> update list list \<Rightarrow> MemTable \<Rightarrow> MemTable option" where
  "replay_batches s [] m = Some m"
| "replay_batches s (us # uss) m = do {
     (st, m1) \<leftarrow> InsertInto (SetSequence (batch_of us) s) m;
     if Status_ok st then replay_batches (s + of_nat (length us)) uss m1 else None
   }"

text \<open>A lookup in several memtables, the oldest first in the list: the newest that knows the key decides.\<close>

fun lookup_tables :: "MemTable list \<Rightarrow> LookupKey \<Rightarrow> bytes \<Rightarrow> Status \<Rightarrow> (bool \<times> bytes \<times> Status) option" where
  "lookup_tables [] lk v st = Some (False, v, st)"
| "lookup_tables (m # ms) lk v st = do {
     (found, v1, st1) \<leftarrow> lookup_tables ms lk v st;
     if found then Some (True, v1, st1) else MemTable_Get m lk v st
   }"

section \<open>Skip lists\<close>

definition bytes_cmp :: "bytes \<Rightarrow> bytes \<Rightarrow> int option" where
  "bytes_cmp = cmp_Compare BytewiseComparator"

lemma insert_keys_run:
  assumes "skip_holds (\<lambda>_. True) Slice_compare sl ss" "distinct ks" "set ks \<inter> set ss = {}"
  shows "\<exists>sl' ss'. insert_keys bytes_cmp ks sl = Some sl' \<and> skip_holds (\<lambda>_. True) Slice_compare sl' ss' \<and>
    set ss' = set ks \<union> set ss"
  using assms
proof (induction ks arbitrary: sl ss)
  case (Cons k ks)
  obtain sl1 where "SkipList_Insert bytes_cmp sl k = Some sl1"
      "skip_holds (\<lambda>_. True) Slice_compare sl1 (sorted_insert Slice_compare k ss)"
    using bytewise.Insert_holds [OF Cons.prems(1), of k] Cons.prems(3)
    by (auto simp: bytes_cmp_def Slice_compare_zero_iff)
  then show ?case
    using Cons.IH [of sl1 "sorted_insert Slice_compare k ss"] Cons.prems(2,3) by auto
qed auto

lemma scan_keys_run:
  "skip_pos valid ord sl ks i it \<Longrightarrow> length ks - i < n \<Longrightarrow> scan_keys sl n it = Some (drop i ks)"
proof (induction n arbitrary: i it)
  case (Suc n)
  show ?case
  proof (cases "i < length ks")
    case True
    obtain it1 where "Iterator_Next sl it = Some it1" "skip_pos valid ord sl ks (Suc i) it1"
      using Iterator_Next_pos [OF Suc.prems(1) True] by blast
    then show ?thesis
      using skip_pos_key [OF Suc.prems(1)] True Suc.IH [of "Suc i" it1] Suc.prems(2) Cons_nth_drop_Suc [OF True]
      by simp
  qed (use skip_pos_key(1) [OF Suc.prems(1)] in simp)
qed simp

text \<open>
  C10: Distinct keys inserted into a new skip list, at whatever heights the generator draws, never fail; an
  iteration from the first node visits them once each in ascending order, \<open>Contains\<close> answers for every
  key, a seek stops at the first key that is not smaller, and a key that is present cannot be inserted
  again.
\<close>

theorem skip_list_keys:
  assumes "distinct ks"
  shows "\<exists>sl0 sl it ss. SkipList_new = Some sl0 \<and> insert_keys bytes_cmp ks sl0 = Some sl \<and>
    Iterator_SeekToFirst sl = Some it \<and> scan_keys sl (Suc (length ks)) it = Some ss \<and>
    set ss = set ks \<and> sorted_wrt (\<lambda>a b. Slice_compare a b < 0) ss \<and>
    (\<forall>k. Contains bytes_cmp sl k = Some (k \<in> set ks)) \<and>
    (\<forall>k. \<exists>it. Iterator_Seek bytes_cmp sl k = Some it \<and>
       scan_keys sl (Suc (length ks)) it = Some (dropWhile (\<lambda>x. Slice_compare x k < 0) ss)) \<and>
    (\<forall>k\<in>set ks. SkipList_Insert bytes_cmp sl k = None)"
proof -
  obtain sl0 :: "bytes SkipList" where sl0: "SkipList_new = Some sl0" "skip_holds (\<lambda>_. True) Slice_compare sl0 []"
    using SkipList_new_run by blast
  then obtain sl ss where sl: "insert_keys bytes_cmp ks sl0 = Some sl" "skip_holds (\<lambda>_. True) Slice_compare sl ss" "set ss = set ks"
    using insert_keys_run [OF sl0(2) assms] by auto
  have so: "sorted_wrt (\<lambda>a b. Slice_compare a b < 0) ss"
    by (rule bytewise.skip_holds_sorted(1) [OF sl(2)])
  then have "distinct ss"
    by (simp add: sorted_wrt_iff_nth_less distinct_conv_nth)
      (metis Slice_compare_zero_iff less_irrefl linorder_neqE_nat)
  then have len: "length ss = length ks"
    using assms sl(3) by (metis distinct_card)
  obtain it where it: "Iterator_SeekToFirst sl = Some it" "skip_pos (\<lambda>_. True) Slice_compare sl ss 0 it"
    using Iterator_SeekToFirst_pos [OF sl(2)] by blast
  have "\<exists>it. Iterator_Seek bytes_cmp sl k = Some it \<and>
      scan_keys sl (Suc (length ks)) it = Some (dropWhile (\<lambda>x. Slice_compare x k < 0) ss)" for k
  proof -
    obtain it where "Iterator_Seek bytes_cmp sl k = Some it"
        "skip_pos (\<lambda>_. True) Slice_compare sl ss (length (takeWhile (\<lambda>x. Slice_compare x k < 0) ss)) it"
      using bytewise.Iterator_Seek_pos [OF sl(2), of k] by (auto simp: bytes_cmp_def)
    then show ?thesis
      using scan_keys_run [of "\<lambda>_. True" Slice_compare sl ss _ it "Suc (length ks)"] len
      by (auto simp: dropWhile_eq_drop)
  qed
  moreover have "Contains bytes_cmp sl k = Some (k \<in> set ks)" for k
    using bytewise.Contains_holds [OF sl(2), of k] sl(3) by (simp add: bytes_cmp_def Slice_compare_zero_iff)
  moreover have "SkipList_Insert bytes_cmp sl k = None" if "k \<in> set ks" for k
    using bytewise.Insert_duplicate [OF sl(2), of k k] sl(3) that by (simp add: bytes_cmp_def Slice_compare_zero_iff)
  moreover have "scan_keys sl (Suc (length ks)) it = Some ss"
    using scan_keys_run [OF it(2), of "Suc (length ks)"] len by simp
  ultimately show ?thesis
    using sl0(1) sl(1,3) it(1) so by blast
qed

theorem skip_list_keys_witness:
  "\<exists>sl0 sl. SkipList_new = Some sl0 \<and> insert_keys bytes_cmp [[2], [1, 0], [1]] sl0 = Some sl \<and>
    Contains bytes_cmp sl [1] = Some True \<and> Contains bytes_cmp sl [3] = Some False"
proof -
  have "distinct [[2], [1, 0], [1 :: byte]]"
    by simp
  from skip_list_keys [OF this] show ?thesis
    by (elim exE conjE) (intro exI conjI, assumption, assumption, simp_all del: insert_keys.simps)
qed

section \<open>Memtables\<close>

lemma replay_batches_run:
  assumes "mem_log m s us" "list_all (list_all fits_update) uss" "unat s + length us + length (concat uss) \<le> 2 ^ 56"
  shows "\<exists>m'. replay_batches (s + of_nat (length us)) uss m = Some m' \<and> mem_log m' s (us @ concat uss)"
  using assms
proof (induction uss arbitrary: m us)
  case (Cons vs uss)
  obtain m1 where "InsertInto (SetSequence (batch_of vs) (s + of_nat (length us))) m = Some (StatusOK, m1)"
      "mem_log m1 s (us @ vs)"
    using InsertInto_log [OF Cons.prems(1), of vs] Cons.prems(2,3) by auto
  then show ?case
    using Cons.IH [of m1 "us @ vs"] Cons.prems(2,3) by (simp add: algebra_simps)
qed simp

lemma new_table_log: "\<exists>m. MemTable_new BytewiseComparator = Some m \<and> mem_log m s []"
  using MemTable_new_rep [of BytewiseComparator "\<lambda>_. True" Slice_compare] by (auto simp: mem_log_def)

text \<open>
  C9: Batches inserted into a new memtable with consecutive sequence numbers keep every version: a lookup at
  the sequence number of the update at position \<open>i\<close> finds the last of the updates up to \<open>i\<close> that concern the
  key, a value or a deletion, and nothing when there is none.
\<close>

theorem memtable_snapshots:
  assumes "list_all (list_all fits_update) uss" "unat s + length (concat uss) \<le> 2 ^ 56"
  shows "\<exists>m0 m. MemTable_new BytewiseComparator = Some m0 \<and> replay_batches s uss m0 = Some m \<and>
    (\<forall>i k lk v st. i < length (concat uss) \<and> length k + 8 < 2 ^ 32 \<and> LookupKey_new k (s + of_nat i) = Some lk \<longrightarrow>
       MemTable_Get m lk v st = Some (update_result (latest k (take (Suc i) (concat uss))) v st))"
proof -
  obtain m0 where m0: "MemTable_new BytewiseComparator = Some m0" "mem_log m0 s []"
    using new_table_log by blast
  then obtain m where m: "replay_batches s uss m0 = Some m" "mem_log m s (concat uss)"
    using replay_batches_run [OF m0(2) assms(1)] assms(2) by auto
  have "MemTable_Get m lk v st = Some (update_result (latest k (take (Suc i) (concat uss))) v st)"
    if "i < length (concat uss)" "length k + 8 < 2 ^ 32" "LookupKey_new k (s + of_nat i) = Some lk" for i k lk v st
    using that assms(2) by (intro Get_log [OF m(2)]) simp_all
  then show ?thesis
    using m0(1) m(1) by blast
qed

theorem memtable_snapshots_witness:
  "\<exists>m0 m lk. MemTable_new BytewiseComparator = Some m0 \<and>
    replay_batches 1 [[Put [97] [1], Put [98] [2]], [Delete [97]]] m0 = Some m \<and>
    LookupKey_new [97] 2 = Some lk \<and> MemTable_Get m lk [] StatusOK = Some (True, [1], StatusOK)"
proof -
  obtain lk where lk: "LookupKey_new [97] (1 + of_nat 1) = Some lk"
    by (simp add: LookupKey_new_def Let_def PackSequenceAndType_def kMaxSequenceNumber_def kValueTypeForSeek_def kTypeValue_def)
  have "list_all (list_all fits_update) [[Put [97] [1], Put [98] [2]], [Delete [97]]]"
      "unat (1 :: u64) + length (concat [[Put [97] [1], Put [98] [2]], [Delete [97]]]) \<le> 2 ^ 56"
    by simp_all
  from memtable_snapshots [OF this] obtain m0 m where m: "MemTable_new BytewiseComparator = Some m0"
      "replay_batches 1 [[Put [97] [1], Put [98] [2]], [Delete [97]]] m0 = Some m"
      "MemTable_Get m lk [] StatusOK = Some (update_result (latest [97] (take (Suc 1) [Put [97] [1], Put [98] [2], Delete [97]])) [] StatusOK)"
    using lk by (elim exE conjE) (drule spec [of _ 1], auto simp del: replay_batches.simps)
  then show ?thesis
    using lk by (intro exI [of _ m0] exI [of _ m] exI [of _ lk])
      (simp add: latest_def update_result_def del: replay_batches.simps)
qed

section \<open>Writing and recovering\<close>

text \<open>A database with an empty memtable and an empty log, and the writers that wait.\<close>

definition fresh_db :: "MemTable \<Rightarrow> u64 \<Rightarrow> Writer list \<Rightarrow> FileState DBImpl" where
  "fresh_db m s ws = \<lparr>db_mem = m, db_imm = None, db_log = Writer_new FileState_new, db_logfile_number = 3,
     db_next_file_number = 4, db_prev_log_number = 0, db_level0_files = 0, db_bg_error = StatusOK,
     db_last_sequence = s, db_writers = ws, db_tmp_batch = WriteBatch_new, db_bytes_written = 0, db_num_syncs = 0, db_write_count = 0\<rparr>"

lemma fresh_db_ok: "mem_log m (s + 1) [] \<Longrightarrow> mem_file.db_ok s [] (fresh_db m s ws)"
  using mem_log_new by (simp add: mem_file.db_ok_def fresh_db_def kL0_SlowdownWritesTrigger_def)

lemma serve_fresh:
  assumes "mem_log m (s + 1) []" "list_all2 writer_holds ws uss" "list_all (\<lambda>w. wo_writeahead (wr_options w) \<and> wr_batch w \<noteq> None) ws"
    "list_all (list_all fits_update) uss" "unat s + length (concat uss) < 2 ^ 56" "length (concat uss) < 2 ^ 31"
    "\<forall>m. \<not> we_full env m"
  shows "\<exists>gs db. serve WritableFileImpl env (length ws) (fresh_db m s ws) = Some db \<and> db_writers db = [] \<and>
    mem_file.db_ok s gs db \<and> concat gs = concat uss"
  using mem_file.serve_run [OF fresh_db_ok [OF assms(1)], of ws uss "length ws" env] assms(2-)
  by (simp add: fresh_db_def)

lemma fits_concat: "concat gs = concat uss \<Longrightarrow> list_all (list_all fits_update) uss \<Longrightarrow> list_all (list_all fits_update) gs"
proof -
  have "list_all (list_all P) xss \<longleftrightarrow> list_all P (concat xss)" for P and xss :: "update list list"
    by (induction xss) simp_all
  then show "concat gs = concat uss \<Longrightarrow> list_all (list_all fits_update) uss \<Longrightarrow> list_all (list_all fits_update) gs"
    by simp
qed

lemma Get_last:
  assumes "mem_log m (s + 1) us" "unat s + length us < 2 ^ 56" "length k + 8 < 2 ^ 32"
    "LookupKey_new k (s + of_nat (length us)) = Some lk"
  shows "MemTable_Get m lk v st = Some (update_result (latest k us) v st)"
proof (cases "us = []")
  case True
  have mx: "s + of_nat (length us) \<le> kMaxSequenceNumber"
    using assms(2) unat_seq [of s "length us"] by (intro seq_le_max) simp
  have "mem_comparator m = BytewiseComparator" "mem_rep (\<lambda>_. True) Slice_compare m {}"
    using assms(1) True by (simp_all add: mem_log_def)
  from bytewise.Get_rep(1) [OF this _ assms(3) mx assms(4)] show ?thesis
    using True by (simp add: visible_def latest_def update_result_def)
next
  case False
  have u: "unat (s + of_nat (length us)) = unat s + length us" "unat (s + 1) = unat s + 1"
    using assms(2) unat_seq [of s "length us"] unat_seq [of s 1] by simp_all
  show ?thesis
    using False assms u by (intro Get_log_all [OF assms(1)]) (auto simp: Suc_le_eq)
qed

text \<open>
  C8: Every writer with a batch is served while the memtable stays within the write buffer: if all of them ask
  for write-ahead and together have less than \<open>2 ^ 31\<close> updates, as many rounds as there are writers empty
  the queue, however they are gathered into groups, and a lookup at the last sequence number then sees
  the updates of all of them in the order of the queue.
\<close>

theorem writers_served:
  assumes "list_all2 writer_holds ws uss" "list_all (\<lambda>w. wo_writeahead (wr_options w) \<and> wr_batch w \<noteq> None) ws"
    and "list_all (list_all fits_update) uss" "unat s + length (concat uss) < 2 ^ 56" "length (concat uss) < 2 ^ 31"
    and "\<forall>m. \<not> we_full env m"
  shows "\<exists>m db. MemTable_new BytewiseComparator = Some m \<and> serve WritableFileImpl env (length ws) (fresh_db m s ws) = Some db \<and>
    db_writers db = [] \<and> db_last_sequence db = s + of_nat (length (concat uss)) \<and>
    (\<forall>k lk v st. length k + 8 < 2 ^ 32 \<and> LookupKey_new k (db_last_sequence db) = Some lk \<longrightarrow>
       MemTable_Get (db_mem db) lk v st = Some (update_result (latest k (concat uss)) v st))"
proof -
  obtain m where m: "MemTable_new BytewiseComparator = Some m" "mem_log m (s + 1) []"
    using new_table_log by blast
  obtain gs db where db: "serve WritableFileImpl env (length ws) (fresh_db m s ws) = Some db" "db_writers db = []"
      "mem_file.db_ok s gs db" "concat gs = concat uss"
    using serve_fresh [OF m(2) assms] by blast
  then have seq: "db_last_sequence db = s + of_nat (length (concat uss))" and log: "mem_log (db_mem db) (s + 1) (concat uss)"
    by (simp_all add: mem_file.db_ok_def)
  have "MemTable_Get (db_mem db) lk v st = Some (update_result (latest k (concat uss)) v st)"
    if "length k + 8 < 2 ^ 32" "LookupKey_new k (db_last_sequence db) = Some lk" for k lk v st
    using that seq by (intro Get_last [OF log assms(4)]) simp_all
  then show ?thesis
    using m(1) db(1,2) seq by blast
qed

definition demo_writer :: "update list \<Rightarrow> bool \<Rightarrow> Writer" where
  "demo_writer us sync = \<lparr>wr_batch = Some (batch_of us), wr_options = \<lparr>wo_sync = sync, wo_writeahead = True\<rparr>\<rparr>"

text \<open>An environment in which a memtable always has room and the other threads do nothing.\<close>

definition quiet_env :: "FileState write_env" where
  "quiet_env = \<lparr>we_comparator = BytewiseComparator, we_full = (\<lambda>_. False), we_NewWritableFile = (\<lambda>_. Inr FileState_new),
     we_sleep = (\<lambda>db. db), we_wait = (\<lambda>db. db)\<rparr>"

lemma quiet_env_room [simp]: "\<not> we_full quiet_env m"
  by (simp add: quiet_env_def)

lemma demo_writer_holds [simp]: "writer_holds (demo_writer us sync) us" "wo_writeahead (wr_options (demo_writer us sync))"
  "wr_batch (demo_writer us sync) = Some (batch_of us)"
  by (simp_all add: writer_holds_def demo_writer_def)

theorem writers_served_witness:
  "\<exists>m db. MemTable_new BytewiseComparator = Some m \<and>
    serve WritableFileImpl quiet_env 2 (fresh_db m 0 [demo_writer [Put [97] [1]] False, demo_writer [Delete [97]] True]) = Some db \<and>
    db_writers db = [] \<and> db_last_sequence db = 2"
proof -
  let ?ws = "[demo_writer [Put [97] [1]] False, demo_writer [Delete [97]] True]"
  have "list_all2 writer_holds ?ws [[Put [97] [1]], [Delete [97]]]" "list_all (\<lambda>w. wo_writeahead (wr_options w) \<and> wr_batch w \<noteq> None) ?ws"
      "list_all (list_all fits_update) [[Put [97] [1]], [Delete [97]]]"
      "unat (0 :: u64) + length (concat [[Put [97] [1]], [Delete [97]]]) < 2 ^ 56"
      "length (concat [[Put [97] [1]], [Delete [97]]]) < 2 ^ 31" "\<forall>m. \<not> we_full quiet_env m"
    by simp_all
  from writers_served [OF this] show ?thesis
    by (elim exE conjE) (intro exI conjI, assumption, simp_all add: numeral_2_eq_2 del: serve.simps)
qed

lemma empty_table_Get:
  assumes "mem_log m s []" "LookupKey_new k q = Some lk" "length k + 8 < 2 ^ 32" "unat q < 2 ^ 56"
  shows "MemTable_Get m lk v st = Some (False, v, st)"
proof -
  have rep: "mem_comparator m = BytewiseComparator" "mem_rep (\<lambda>_. True) Slice_compare m {}"
    using assms(1) by (simp_all add: mem_log_def)
  show ?thesis
    using bytewise.Get_rep(1) [OF rep _ assms(3) seq_le_max [OF assms(4)] assms(2)] by (simp add: visible_def)
qed

lemma lookup_tables_log:
  assumes "table_logs s ms us" "unat s + length us \<le> Suc (unat q)" "unat s \<le> unat q" "unat q < 2 ^ 56"
    "length k + 8 < 2 ^ 32" "LookupKey_new k q = Some lk"
  shows "lookup_tables ms lk v st = Some (update_result (latest k us) v st)"
  using assms
proof (induction ms arbitrary: s us)
  case Nil
  then show ?case
    by (simp add: latest_def update_result_def)
next
  case (Cons m ms)
  obtain a b where ab: "us = a @ b" "mem_log m s a" "table_logs (s + of_nat (length a)) ms b"
    using Cons.prems(1) by auto
  have late: "latest k (a @ b) = (case latest k b of None \<Rightarrow> latest k a | Some u \<Rightarrow> Some u)" for a b
    by (induction b rule: rev_induct) (simp_all add: latest_snoc latest_def [of k "[]"] flip: append_assoc)
  have sa: "unat (s + of_nat (length a)) = unat s + length a"
    using Cons.prems(2,4) ab(1) by (intro unat_seq) simp
  have get: "MemTable_Get m lk v st = Some (update_result (latest k a) v st)"
    using Cons.prems ab by (intro Get_log_all [OF ab(2)]) simp_all
  have "lookup_tables ms lk v st = Some (update_result (latest k b) v st)"
  proof (cases "unat s + length a \<le> unat q")
    case True
    then show ?thesis
      using Cons.IH [OF ab(3)] Cons.prems ab(1) sa by simp
  next
    case False
    moreover have "unat s + length a + length b \<le> Suc (unat q)"
      using Cons.prems(2) ab(1) by simp
    ultimately have "length b = 0"
      by linarith
    then have "b = []"
      by simp
    then have "list_all (\<lambda>m. mem_log m (s + of_nat (length a)) []) ms"
      using ab(3) by (induction ms) auto
    then have "lookup_tables ms lk v st = Some (False, v, st)"
    proof (induction ms)
      case (Cons n ns)
      have "MemTable_Get n lk v st = Some (False, v, st)"
        using Cons.prems by (auto intro: empty_table_Get [OF _ assms(6,5,4)])
      then show ?case
        using Cons by simp
    qed simp
    then show ?thesis
      using \<open>b = []\<close> by (simp add: latest_def update_result_def)
  qed
  then show ?case
    using get by (auto simp: ab(1) late update_result_def split: option.split update.splits)
qed



text \<open>
  C3: What was written ahead can be replayed: if every writer of a fresh database asks for write-ahead and has
  been served while the memtable had room, recovering from everything that was appended to the log, with
  any limit on the size of a memtable, succeeds and reports the last sequence number, and a lookup in the
  memtables it hands to \<open>WriteLevel0Table\<close>, the newest first, gives what the memtable of the database gives.
  The log is read as it was appended: what a crash of the machine may take from an unsynced file is not
  part of the statement, and a write without write-ahead is not in the log.
\<close>

theorem recovery_restores:
  assumes "list_all2 writer_holds ws uss" "list_all (\<lambda>w. wo_writeahead (wr_options w) \<and> wr_batch w \<noteq> None) ws"
    and "list_all (list_all fits_update) uss" "length (concat uss) < 2 ^ 31" "concat uss \<noteq> []"
    and "\<forall>m. \<not> we_full env m"
  shows "\<exists>m db ms. MemTable_new BytewiseComparator = Some m \<and> serve WritableFileImpl env (length ws) (fresh_db m 0 ws) = Some db \<and>
    RecoverLogFile SequentialFileImpl paranoid BytewiseComparator full (\<lambda>m ms. (StatusOK, ms @ [m]))
      (Inr (lw_dest (db_log db), 0)) 0 [] = Some (StatusOK, db_last_sequence db, ms) \<and>
    (\<forall>k lk v st. length k + 8 < 2 ^ 32 \<and> LookupKey_new k (db_last_sequence db) = Some lk \<longrightarrow>
       lookup_tables ms lk v st = MemTable_Get (db_mem db) lk v st)"
proof -
  let ?W = "\<lambda>m ms. (StatusOK, ms @ [m])"
  obtain m where m: "MemTable_new BytewiseComparator = Some m" "mem_log m (0 + 1) []"
    using new_table_log by blast
  have bound: "unat (0 :: u64) + length (concat uss) < 2 ^ 56"
    using assms(4) by simp
  obtain gs db where db: "serve WritableFileImpl env (length ws) (fresh_db m 0 ws) = Some db"
      "mem_file.db_ok 0 gs db" "concat gs = concat uss"
    using serve_fresh [OF m(2) assms(1-3) bound assms(4,6)] by blast
  have ne: "gs \<noteq> []"
    using db(3) assms(5) by auto
  have collect: "fold (\<lambda>m v. snd (?W m v)) ms v = v @ ms" for ms v :: "MemTable list"
    by (induction ms arbitrary: v) simp_all
  have "\<forall>m v. fst (?W m v) = StatusOK" "length (concat gs) < 2 ^ 31" "unat (0 :: u64) + length (concat gs) < 2 ^ 56"
    using assms(4) bound db(3) by simp_all
  from serve_then_recover [OF this(1) db(2) fits_concat [OF db(3) assms(3)] this(3,2), where v = "[]" and paranoid = paranoid and full = full]
  obtain ms where ms: "RecoverLogFile SequentialFileImpl paranoid BytewiseComparator full ?W (Inr (lw_dest (db_log db), 0)) 0 [] =
      Some (StatusOK, db_last_sequence db, ms)" "table_logs (0 + 1) ms (concat uss)"
    using ne unfolding collect db(3) by auto
  have seq: "db_last_sequence db = 0 + of_nat (length (concat uss))" and log: "mem_log (db_mem db) (0 + 1) (concat uss)"
    using db(2,3) by (simp_all add: mem_file.db_ok_def)
  have "lookup_tables ms lk v st = MemTable_Get (db_mem db) lk v st"
    if k: "length k + 8 < 2 ^ 32" "LookupKey_new k (db_last_sequence db) = Some lk" for k lk v st
  proof -
    have u: "unat (db_last_sequence db) = length (concat uss)"
      using seq bound by (simp add: unat_of_nat)
    have "lookup_tables ms lk v st = Some (update_result (latest k (concat uss)) v st)"
      using u bound assms(5) by (intro lookup_tables_log [OF ms(2) _ _ _ k]) (auto simp: Suc_le_eq)
    then show ?thesis
      using Get_last [OF log bound k(1)] k(2) seq by simp
  qed
  then show ?thesis
    using m(1) db(1) ms(1) by blast
qed

theorem recovery_restores_witness:
  "\<exists>m db ms. MemTable_new BytewiseComparator = Some m \<and>
    serve WritableFileImpl quiet_env (length [demo_writer [Put [97] [1]] False, demo_writer [Delete [97]] True])
      (fresh_db m 0 [demo_writer [Put [97] [1]] False, demo_writer [Delete [97]] True]) = Some db \<and>
    RecoverLogFile SequentialFileImpl True BytewiseComparator (\<lambda>_. True) (\<lambda>m ms. (StatusOK, ms @ [m]))
      (Inr (lw_dest (db_log db), 0)) 0 [] = Some (StatusOK, db_last_sequence db, ms)"
proof -
  let ?ws = "[demo_writer [Put [97] [1]] False, demo_writer [Delete [97]] True]"
  have "list_all2 writer_holds ?ws [[Put [97] [1]], [Delete [97]]]" "list_all (\<lambda>w. wo_writeahead (wr_options w) \<and> wr_batch w \<noteq> None) ?ws"
      "list_all (list_all fits_update) [[Put [97] [1]], [Delete [97]]]"
      "length (concat [[Put [97] [1]], [Delete [97]]]) < 2 ^ 31" "concat [[Put [97] [1]], [Delete [97]]] \<noteq> []"
      "\<forall>m. \<not> we_full quiet_env m"
    by simp_all
  from recovery_restores [OF this, of True "\<lambda>_. True"] show ?thesis
    by blast
qed

section \<open>Logs and checksums\<close>

text \<open>
  C11: A log reads back: records of any length, written to a new file in memory, are read in their order from
  its start, whether checksums are verified or not; then the reader reports the end of the file, and it
  has reported no corruption.
\<close>

theorem log_roundtrip:
  "\<exists>w r r'. add_records WritableFileImpl xs (Writer_new FileState_new) = Some w \<and>
     read_records SequentialFileImpl (length xs) (Reader_new (lw_dest w, 0) reporter checksum 0) = Some (xs, r) \<and>
     ReadRecord SequentialFileImpl r = Some (False, [], r') \<and> lr_reports r' = []"
  by (rule mem_log_reads_back)

text \<open>
  C30: The checksum is the CRC-32C: the loops over four tables, which take the bytes up to an aligned address
  one by one, then sixteen and four at a time, give for every address what the division by the polynomial
  gives bit by bit; and a masked checksum is unmasked to itself.
\<close>

theorem crc_reference:
  "Crc_Extend addr crc data = crc_ref crc data \<and> Crc_Unmask (Crc_Mask crc) = crc"
  by (simp add: Crc_Extend_ref Crc_Unmask_Mask)

section \<open>Internal keys\<close>

text \<open>
  C25: The keys of an index block separate their blocks: for internal keys \<open>a\<close> before \<open>b\<close>, none of the
  assertions of \<open>FindShortestSeparator\<close> fails and it gives a key from \<open>a\<close> on and before \<open>b\<close>, and
  \<open>FindShortSuccessor\<close> gives a key that is not before \<open>a\<close>.
\<close>

theorem internal_separators:
  assumes "8 \<le> length a" "8 \<le> length b" "InternalKeyComparator_Compare BytewiseComparator a b = Some r" "r < 0"
  shows "\<exists>s t x y z. InternalKeyComparator_FindShortestSeparator BytewiseComparator a b = Some s \<and>
    InternalKeyComparator_Compare BytewiseComparator a s = Some x \<and> x \<le> 0 \<and>
    InternalKeyComparator_Compare BytewiseComparator s b = Some y \<and> y < 0 \<and>
    InternalKeyComparator_FindShortSuccessor BytewiseComparator a = Some t \<and>
    InternalKeyComparator_Compare BytewiseComparator a t = Some z \<and> z \<le> 0"
proof -
  have v: "internal_valid (\<lambda>_. True) a" "internal_valid (\<lambda>_. True) b"
    using assms(1,2) by (simp_all add: internal_valid_def)
  have "internal_order Slice_compare a b < 0"
    using bytewise.internal.cmp_ord [OF v] assms(3,4) by simp
  then obtain s where s: "InternalKeyComparator_FindShortestSeparator BytewiseComparator a b = Some s"
      "internal_valid (\<lambda>_. True) s" "internal_order Slice_compare a s \<le> 0" "internal_order Slice_compare s b < 0"
    using bytewise.internal.sep_between [OF v] by blast
  obtain t where t: "InternalKeyComparator_FindShortSuccessor BytewiseComparator a = Some t"
      "internal_valid (\<lambda>_. True) t" "internal_order Slice_compare a t \<le> 0"
    using bytewise.internal.suc_above [OF v(1)] by blast
  show ?thesis
    using s t bytewise.internal.cmp_ord [OF v(1) s(2)] bytewise.internal.cmp_ord [OF s(2) v(2)]
      bytewise.internal.cmp_ord [OF v(1) t(2)] by blast
qed

theorem internal_separators_witness:
  "\<exists>s. InternalKeyComparator_FindShortestSeparator BytewiseComparator
    ([97, 98, 99] @ EncodeFixed64 257) ([97, 101] @ EncodeFixed64 257) = Some s"
proof -
  have "InternalKeyComparator_Compare BytewiseComparator ([97, 98, 99] @ EncodeFixed64 257) ([97, 101] @ EncodeFixed64 257) = Some (- 1)"
    using bytewise.internal.cmp_ord [of "[97, 98, 99] @ EncodeFixed64 257" "[97, 101] @ EncodeFixed64 257"]
    by (simp only: internal_valid_append internal_order_def ukey_append) (simp add: Let_def)
  from internal_separators [OF _ _ this] show ?thesis
    by auto
qed

section \<open>The descriptor\<close>

text \<open>
  C27: The records of the descriptor read back: an edit built by the setters encodes without a failing
  assertion, and decoding the bytes into any edit succeeds and gives the same fields and files, with the
  compaction pointers of the edit decoded into kept before the decoded ones.
\<close>

theorem edit_roundtrip:
  assumes "built e"
  shows "\<exists>s. VersionEdit_EncodeTo e [] = Some s \<and>
    VersionEdit_DecodeFrom s d = (StatusOK, e\<lparr>ve_compact_pointers := ve_compact_pointers d @ ve_compact_pointers e\<rparr>)"
  using built_wf [OF assms] by (rule DecodeFrom_EncodeTo)

theorem edit_roundtrip_witness:
  "\<exists>s. VersionEdit_EncodeTo (Edit_DeleteFile 2 7 (SetLogNumber 300 VersionEdit_new)) [] = Some s \<and>
    fst (VersionEdit_DecodeFrom s VersionEdit_new) = StatusOK"
proof -
  have "built (Edit_DeleteFile 2 7 (SetLogNumber 300 VersionEdit_new))"
    by (intro built_DeleteFile built_LogNumber built_new) (simp add: level_ok_def kNumLevels_def)
  from edit_roundtrip [OF this, of VersionEdit_new] show ?thesis
    by fastforce
qed

text \<open>
  C28: Whatever bytes are decoded, corrupt ones included, a new edit stays well typed: each level in it is one
  of the seven, and its deleted files are in order and listed once.
\<close>

theorem decoded_edit_typed: "edit_typed (snd (VersionEdit_DecodeFrom src VersionEdit_new))"
  by (rule DecodeFrom_typed)

text \<open>
  C29: Switching to a descriptor in the environment in memory: afterwards \<open>CURRENT\<close> holds the name of the descriptor and a newline, that
  name parses to the number and type of the descriptor, the temporary file is gone, and no other file has
  changed.
\<close>

theorem current_file_switch:
  assumes "env_inv e" "0 < n"
  shows "\<exists>e' f t name. SetCurrentFile dbname n e = Some (StatusOK, e') \<and> env_inv e' \<and>
    env_file e' (CurrentFileName dbname) = Some f \<and> file_contents f = name @ [10] \<and>
    ParseFileName name = Some (n, kDescriptorFile) \<and> DescriptorFileName dbname n = Some (dbname @ [47] @ name) \<and>
    TempFileName dbname n = Some t \<and> \<not> FileExists t e' \<and>
    (\<forall>m. m \<noteq> t \<and> m \<noteq> CurrentFileName dbname \<longrightarrow> env_file e' m = env_file e m)"
proof -
  obtain e' f t where "SetCurrentFile dbname n e = Some (StatusOK, e')" "env_inv e'"
      "env_file e' (CurrentFileName dbname) = Some f" "file_contents f = (cstr ''MANIFEST-'' @ print_06 n) @ [10]"
      "TempFileName dbname n = Some t" "\<not> FileExists t e'"
      "\<forall>m. m \<noteq> t \<and> m \<noteq> CurrentFileName dbname \<longrightarrow> env_file e' m = env_file e m"
    using SetCurrentFile_run [OF assms, of dbname] by auto
  moreover have "DescriptorFileName dbname n = Some (dbname @ [47] @ cstr ''MANIFEST-'' @ print_06 n)"
    using descriptor_name [OF assms(2)] by simp
  ultimately show ?thesis
    using ParseFileName_manifest [of n] by blast
qed

theorem current_file_switch_witness:
  "\<exists>e'. SetCurrentFile [100] 5 \<lparr>env_map = Map.empty, env_heap = Map.empty, env_fresh = 0\<rparr> = Some (StatusOK, e')"
proof -
  have "env_inv \<lparr>env_map = Map.empty, env_heap = Map.empty, env_fresh = 0\<rparr>"
    by (simp add: env_inv_def)
  from current_file_switch [OF this, of 5 "[100]"] show ?thesis
    by auto
qed

end
