(* ===== verification/Handle_Table.thy ===== *)
theory Handle_Table
  imports Prelude "HOL-Library.Monad_Syntax"
begin

unbundle bit_operations_syntax

text \<open>
  \<open>HandleTable\<close> of \<open>lib/leveldb/util/cache.cc\<close>: the chained hash table that finds a cache entry by
  key.  An entry is its address; \<open>deref\<close> reads the (hash, key) pair stored in it.  A bucket is the
  list of addresses chained through \<open>next_hash\<close>, and \<open>FindPointer\<close>'s pointer to a slot is a bucket
  index and a position in that chain, the position past the last entry being the trailing slot.
  The counters are 32-bit words.  \<open>None\<close> stands for a resizing that never returns or fails its
  assertion: with at most \<open>2 ^ 31\<close> entries neither happens, beyond that the doubled length wraps to zero.
  The contract the cache relies on is the locale \<open>handle_set\<close>: a set of entries with distinct
  (hash, key) pairs, searched, extended and reduced; the table is shown to meet it.
\<close>

record HandleTable =
  ht_length :: u32
  ht_elems :: u32
  ht_list :: "nat list list"

type_synonym deref = "nat \<Rightarrow> u32 \<times> bytes"

definition bucket :: "u32 \<Rightarrow> u32 \<Rightarrow> nat" where
  "bucket hash len = unat (hash AND (len - 1))"

primrec find_slot :: "deref \<Rightarrow> bytes \<Rightarrow> u32 \<Rightarrow> nat list \<Rightarrow> nat" where
  "find_slot deref key hash [] = 0"
| "find_slot deref key hash (p # ps) =
     (if fst (deref p) \<noteq> hash \<or> key \<noteq> snd (deref p) then Suc (find_slot deref key hash ps) else 0)"

definition FindPointer :: "deref \<Rightarrow> HandleTable \<Rightarrow> bytes \<Rightarrow> u32 \<Rightarrow> nat \<times> nat" where
  "FindPointer deref t key hash =
     (let i = bucket hash (ht_length t) in (i, find_slot deref key hash (ht_list t ! i)))"

text \<open>\<open>*ptr\<close>: the entry in the slot, \<open>NULL\<close> at the trailing slot.\<close>

definition slot_entry :: "HandleTable \<Rightarrow> nat \<times> nat \<Rightarrow> nat option" where
  "slot_entry t ptr =
     (let chain = ht_list t ! fst ptr in if snd ptr < length chain then Some (chain ! snd ptr) else None)"

definition HandleTable_Lookup :: "deref \<Rightarrow> HandleTable \<Rightarrow> bytes \<Rightarrow> u32 \<Rightarrow> nat option" where
  "HandleTable_Lookup deref t key hash = slot_entry t (FindPointer deref t key hash)"

partial_function (option) grow_length :: "u32 \<Rightarrow> u32 \<Rightarrow> u32 option" where
  "grow_length new_length elems =
     (if new_length < elems then grow_length (new_length * 2) elems else Some new_length)"

definition rehash :: "deref \<Rightarrow> u32 \<Rightarrow> nat \<Rightarrow> nat list list \<Rightarrow> nat list list" where
  "rehash deref new_length h new_list =
     (let i = bucket (fst (deref h)) new_length in new_list[i := h # (new_list ! i)])"

definition rehash_count :: "deref \<Rightarrow> u32 \<Rightarrow> nat \<Rightarrow> nat list list \<times> u32 \<Rightarrow> nat list list \<times> u32" where
  "rehash_count deref new_length h = (\<lambda>(new_list, count). (rehash deref new_length h new_list, count + 1))"

definition HandleTable_Resize :: "deref \<Rightarrow> HandleTable \<Rightarrow> HandleTable option" where
  "HandleTable_Resize deref t =
     do {
       new_length \<leftarrow> grow_length 4 (ht_elems t);
       let (new_list, count) = fold (fold (rehash_count deref new_length))
             (take (unat (ht_length t)) (ht_list t)) (replicate (unat new_length) [], 0);
       if ht_elems t = count then Some (t\<lparr>ht_list := new_list, ht_length := new_length\<rparr>) else None
     }"

definition HandleTable_new :: HandleTable where
  "HandleTable_new =
     the (HandleTable_Resize (\<lambda>_. (0, [])) \<lparr>ht_length = 0, ht_elems = 0, ht_list = []\<rparr>)"

definition HandleTable_Insert :: "deref \<Rightarrow> HandleTable \<Rightarrow> nat \<Rightarrow> (nat option \<times> HandleTable) option" where
  "HandleTable_Insert deref t h =
     (let (i, j) = FindPointer deref t (snd (deref h)) (fst (deref h));
          old = slot_entry t (i, j);
          chain = ht_list t ! i;
          chain' = (case old of None \<Rightarrow> chain @ [h] | Some _ \<Rightarrow> chain[j := h]);
          t1 = t\<lparr>ht_list := (ht_list t)[i := chain']\<rparr>
      in do {
           t' \<leftarrow> (case old of
                    None \<Rightarrow>
                      (let t2 = t1\<lparr>ht_elems := ht_elems t + 1\<rparr>
                       in if ht_elems t2 > ht_length t2 then HandleTable_Resize deref t2 else Some t2)
                  | Some _ \<Rightarrow> Some t1);
           Some (old, t')
         })"

definition HandleTable_Remove :: "deref \<Rightarrow> HandleTable \<Rightarrow> bytes \<Rightarrow> u32 \<Rightarrow> nat option \<times> HandleTable" where
  "HandleTable_Remove deref t key hash =
     (let (i, j) = FindPointer deref t key hash;
          result = slot_entry t (i, j);
          chain = ht_list t ! i
      in (result,
          case result of
            None \<Rightarrow> t
          | Some _ \<Rightarrow>
              t\<lparr>ht_list := (ht_list t)[i := take j chain @ drop (Suc j) chain],
                ht_elems := ht_elems t - 1\<rparr>))"

section \<open>The contract\<close>

definition ht_set :: "HandleTable \<Rightarrow> nat set" where
  "ht_set t = set (concat (ht_list t))"

definition ht_inv :: "deref \<Rightarrow> HandleTable \<Rightarrow> bool" where
  "ht_inv deref t \<longleftrightarrow>
     0 < ht_length t \<and> length (ht_list t) = unat (ht_length t) \<and>
     (\<forall>i < unat (ht_length t). \<forall>p \<in> set (ht_list t ! i). bucket (fst (deref p)) (ht_length t) = i) \<and>
     distinct (concat (ht_list t)) \<and> inj_on deref (ht_set t) \<and>
     unat (ht_elems t) = length (concat (ht_list t))"

text \<open>
  What a user of the table may rely on.  \<open>deref\<close> is an argument of the laws because the entries
  live in the user's heap: the last law says that only the entries of the table matter.
\<close>

locale handle_set =
  fixes empty :: 't
    and lookup :: "deref \<Rightarrow> 't \<Rightarrow> bytes \<Rightarrow> u32 \<Rightarrow> nat option"
    and insert :: "deref \<Rightarrow> 't \<Rightarrow> nat \<Rightarrow> (nat option \<times> 't) option"
    and remove :: "deref \<Rightarrow> 't \<Rightarrow> bytes \<Rightarrow> u32 \<Rightarrow> nat option \<times> 't"
    and entries :: "'t \<Rightarrow> nat set"
    and invar :: "deref \<Rightarrow> 't \<Rightarrow> bool"
    and room :: nat
  assumes invar_empty: "invar deref empty"
    and entries_empty: "entries empty = {}"
    and lookup_iff: "invar deref t \<Longrightarrow>
      lookup deref t key hash = Some p \<longleftrightarrow> p \<in> entries t \<and> deref p = (hash, key)"
    and insert_run: "invar deref t \<Longrightarrow> h \<notin> entries t \<Longrightarrow> card (entries t) < room \<Longrightarrow>
      \<exists>t'. insert deref t h = Some (lookup deref t (snd (deref h)) (fst (deref h)), t') \<and> invar deref t' \<and>
        entries t' = Set.insert h {p \<in> entries t. deref p \<noteq> deref h}"
    and remove_result: "invar deref t \<Longrightarrow> fst (remove deref t key hash) = lookup deref t key hash"
    and remove_entries: "invar deref t \<Longrightarrow>
      entries (snd (remove deref t key hash)) = {p \<in> entries t. deref p \<noteq> (hash, key)}"
    and remove_invar: "invar deref t \<Longrightarrow> invar deref (snd (remove deref t key hash))"
    and invar_cong: "invar deref t \<Longrightarrow> (\<And>p. p \<in> entries t \<Longrightarrow> deref' p = deref p) \<Longrightarrow> invar deref' t"
begin

lemma lookup_None_iff:
  "invar deref t \<Longrightarrow> lookup deref t key hash = None \<longleftrightarrow> (\<forall>p \<in> entries t. deref p \<noteq> (hash, key))"
  using lookup_iff [of deref t key hash] by (metis not_None_eq)

lemma lookup_after_insert:
  assumes "invar deref t" "h \<notin> entries t" "card (entries t) < room"
  shows "\<exists>t'. insert deref t h = Some (lookup deref t (snd (deref h)) (fst (deref h)), t') \<and> invar deref t' \<and>
    (\<forall>key hash. lookup deref t' key hash = (if deref h = (hash, key) then Some h else lookup deref t key hash))"
proof -
  obtain t' where t': "insert deref t h = Some (lookup deref t (snd (deref h)) (fst (deref h)), t')" "invar deref t'"
    "entries t' = Set.insert h {p \<in> entries t. deref p \<noteq> deref h}"
    using insert_run [OF assms] by blast
  have "lookup deref t' key hash = (if deref h = (hash, key) then Some h else lookup deref t key hash)" for key hash
    using assms(1) by (intro option_eqI) (auto simp: lookup_iff [OF t'(2)] lookup_iff [OF assms(1)] t'(3))
  then show ?thesis
    using t'(1,2) by blast
qed

lemma lookup_after_remove:
  assumes "invar deref t"
  shows "lookup deref (snd (remove deref t key' hash')) key hash =
    (if (hash', key') = (hash, key) then None else lookup deref t key hash)"
  using assms by (intro option_eqI) (auto simp: lookup_iff remove_invar remove_entries)

end

section \<open>The table meets the contract\<close>

lemma bucket_less: "0 < len \<Longrightarrow> bucket hash len < unat len"
proof -
  assume "0 < len"
  have "unat (hash AND (len - 1)) \<le> unat (len - 1)"
    by (rule word_and_le1 [THEN word_le_nat_alt [THEN iffD1]])
  also have "\<dots> < unat len"
    using \<open>0 < len\<close> by (metis measure_unat word_gt_0)
  finally show ?thesis
    by (simp add: bucket_def)
qed

lemma find_slot_le: "find_slot deref key hash ps \<le> length ps"
  by (induction ps) auto

lemma find_slot_hit:
  "find_slot deref key hash ps < length ps \<Longrightarrow> deref (ps ! find_slot deref key hash ps) = (hash, key)"
  by (induction ps) (auto simp: prod_eq_iff split: if_splits)

lemma find_slot_miss:
  "find_slot deref key hash ps < length ps \<longleftrightarrow> (\<exists>p \<in> set ps. deref p = (hash, key))"
  by (induction ps) (auto simp: prod_eq_iff)

lemma HandleTable_Lookup_bucket:
  "HandleTable_Lookup deref t key hash =
     (let ps = ht_list t ! bucket hash (ht_length t); j = find_slot deref key hash ps
      in if j < length ps then Some (ps ! j) else None)"
  by (simp add: HandleTable_Lookup_def slot_entry_def FindPointer_def Let_def)

lemma ht_set_iff: "p \<in> ht_set t \<longleftrightarrow> (\<exists>i < length (ht_list t). p \<in> set (ht_list t ! i))"
  by (simp add: ht_set_def) (metis in_set_conv_nth)

lemma HandleTable_Lookup_iff:
  assumes inv: "ht_inv deref t"
  shows "HandleTable_Lookup deref t key hash = Some p \<longleftrightarrow> p \<in> ht_set t \<and> deref p = (hash, key)"
proof -
  let ?i = "bucket hash (ht_length t)"
  let ?ps = "ht_list t ! ?i"
  let ?j = "find_slot deref key hash ?ps"
  have i: "?i < length (ht_list t)"
    using inv bucket_less by (simp add: ht_inv_def)
  have sub: "set ?ps \<subseteq> ht_set t"
    using i by (auto simp: ht_set_iff)
  have mem: "q \<in> set ?ps" if q: "q \<in> ht_set t" "deref q = (hash, key)" for q
  proof -
    obtain k where "k < length (ht_list t)" "q \<in> set (ht_list t ! k)"
      using q(1) by (auto simp: ht_set_iff)
    moreover from this have "bucket (fst (deref q)) (ht_length t) = k"
      using inv unfolding ht_inv_def by metis
    ultimately show ?thesis
      using q(2) by simp
  qed
  have entry: "?ps ! ?j \<in> ht_set t \<and> deref (?ps ! ?j) = (hash, key)" if "?j < length ?ps"
    using sub nth_mem [OF that] find_slot_hit [OF that] by blast
  have inj: "inj_on deref (ht_set t)"
    using inv by (simp add: ht_inv_def)
  show ?thesis
  proof
    assume "HandleTable_Lookup deref t key hash = Some p"
    then have "?j < length ?ps" "p = ?ps ! ?j"
      by (auto simp: HandleTable_Lookup_bucket Let_def split: if_splits)
    then show "p \<in> ht_set t \<and> deref p = (hash, key)"
      using entry by simp
  next
    assume p: "p \<in> ht_set t \<and> deref p = (hash, key)"
    then have j: "?j < length ?ps"
      using mem by (auto simp: find_slot_miss)
    moreover have "?ps ! ?j = p"
      using entry [OF j] p inj by (simp add: inj_on_def)
    ultimately show "HandleTable_Lookup deref t key hash = Some p"
      by (simp add: HandleTable_Lookup_bucket Let_def)
  qed
qed

text \<open>A table rebuilt from its chains: lengths, placement and the multiset of entries.\<close>

definition placed :: "deref \<Rightarrow> nat list list \<Rightarrow> bool" where
  "placed deref xss \<longleftrightarrow>
     (\<forall>i < length xss. \<forall>p \<in> set (xss ! i). bucket (fst (deref p)) (of_nat (length xss)) = i)"

lemma ht_inv_placed:
  "ht_inv deref t \<longleftrightarrow>
     0 < ht_length t \<and> length (ht_list t) = unat (ht_length t) \<and> placed deref (ht_list t) \<and>
     distinct (concat (ht_list t)) \<and> inj_on deref (ht_set t) \<and> unat (ht_elems t) = length (concat (ht_list t))"
  by (auto simp: ht_inv_def placed_def)

lemma placed_update:
  "placed deref xss \<Longrightarrow> i < length xss \<Longrightarrow>
   (\<And>p. p \<in> set c \<Longrightarrow> bucket (fst (deref p)) (of_nat (length xss)) = i) \<Longrightarrow> placed deref (xss[i := c])"
  by (auto simp: placed_def nth_list_update)

lemma fold_rehash:
  assumes "placed deref xss" "length xss = unat n" "0 < n"
  shows "placed deref (fold (rehash deref n) hs xss) \<and> length (fold (rehash deref n) hs xss) = unat n \<and>
    mset (concat (fold (rehash deref n) hs xss)) = mset (concat xss) + mset hs"
  using assms
proof (induction hs arbitrary: xss)
  case Nil
  then show ?case by simp
next
  case (Cons h hs)
  let ?i = "bucket (fst (deref h)) n"
  let ?yss = "rehash deref n h xss"
  have i: "?i < length xss"
    using Cons.prems bucket_less by simp
  have "placed deref ?yss"
    unfolding rehash_def Let_def
    using Cons.prems i by (intro placed_update) (auto simp: placed_def)
  moreover have "length ?yss = unat n"
    using Cons.prems by (simp add: rehash_def Let_def)
  moreover have "mset (concat ?yss) = mset (concat xss) + {#h#}"
    using mset_concat_update [OF i, of "h # (xss ! ?i)"] by (simp add: rehash_def Let_def)
  ultimately show ?case
    using Cons.IH [of ?yss] Cons.prems(3) by simp
qed

text \<open>Up to \<open>2 ^ 31\<close> entries the doubling stops at a power of two; beyond, it reaches zero and goes on.\<close>

lemma double_pow:
  fixes n :: u32
  assumes "unat n = 2 ^ k" "k \<le> 31"
  shows "k = 31 \<Longrightarrow> n * 2 = 0" "k \<noteq> 31 \<Longrightarrow> unat (n * 2) = 2 ^ Suc k"
proof -
  show "k = 31 \<Longrightarrow> n * 2 = 0"
    using assms by (simp add: word_unat_eq_iff unat_word_ariths)
  assume "k \<noteq> 31"
  then have "(2 :: nat) ^ Suc k \<le> 2 ^ 31"
    using assms(2) by (intro power_increasing) auto
  then show "unat (n * 2) = 2 ^ Suc k"
    using assms(1) by (simp add: unat_word_ariths)
qed

lemma grow_length_from:
  assumes "unat n = 2 ^ k" "k \<le> 31" "unat elems \<le> 2 ^ 31"
  shows "\<exists>m j. grow_length n elems = Some m \<and> unat m = 2 ^ j \<and> k \<le> j \<and> j \<le> 31 \<and> elems \<le> m"
  using assms
proof (induction "31 - k" arbitrary: n k)
  case 0
  then have "\<not> n < elems"
    by (simp add: word_less_nat_alt)
  then show ?case
    using 0 by (subst grow_length.simps) (auto intro!: exI [of _ 31])
next
  case (Suc d)
  show ?case
  proof (cases "n < elems")
    case True
    have "unat (n * 2) = 2 ^ (k + 1)"
      using double_pow(2) [OF Suc.prems(1,2)] Suc.hyps(2) by simp
    then have "\<exists>m j. grow_length (n * 2) elems = Some m \<and> unat m = 2 ^ j \<and> k + 1 \<le> j \<and> j \<le> 31 \<and> elems \<le> m"
      using Suc.hyps Suc.prems by (intro Suc.hyps(1)) auto
    then obtain m j where "grow_length (n * 2) elems = Some m" "unat m = 2 ^ j" "k + 1 \<le> j" "j \<le> 31" "elems \<le> m"
      by blast
    then show ?thesis
      using True by (subst grow_length.simps) auto
  next
    case False
    then show ?thesis
      using Suc.prems by (subst grow_length.simps) auto
  qed
qed

lemma grow_length_run:
  assumes "unat elems \<le> 2 ^ 31"
  obtains m where "grow_length 4 elems = Some m" "0 < m" "elems \<le> m"
proof -
  obtain m j where m: "grow_length 4 elems = Some m" "unat m = 2 ^ j" "elems \<le> m"
    using grow_length_from [of 4 2 elems] assms by auto
  then have "0 < m"
    by (simp add: word_less_nat_alt)
  then show thesis
    using that m by blast
qed

lemma grow_length_stuck:
  assumes "2 ^ 31 < unat elems"
  shows "grow_length 4 elems = None"
proof -
  have never: "2 ^ 31 < unat e \<longrightarrow> n \<noteq> 0 \<and> (\<forall>k \<le> 31. unat n \<noteq> 2 ^ k)" if "grow_length n e = Some m" for n e m
  proof (rule grow_length.raw_induct [OF _ that, where P = "\<lambda>n e _. 2 ^ 31 < unat e \<longrightarrow> n \<noteq> 0 \<and> (\<forall>k \<le> 31. unat n \<noteq> 2 ^ k)"], intro impI)
    fix f :: "u32 \<Rightarrow> u32 \<Rightarrow> u32 option" and n e y :: u32
    assume IH: "\<And>n e y. f n e = Some y \<Longrightarrow> 2 ^ 31 < unat e \<longrightarrow> n \<noteq> 0 \<and> (\<forall>k \<le> 31. unat n \<noteq> 2 ^ k)"
      and step: "(if n < e then f (n * 2) e else Some n) = Some y" and e: "2 ^ 31 < unat e"
    show "n \<noteq> 0 \<and> (\<forall>k \<le> 31. unat n \<noteq> 2 ^ k)"
    proof (cases "n < e")
      case True
      then have double: "n * 2 \<noteq> 0" "\<And>k. k \<le> 31 \<Longrightarrow> unat (n * 2) \<noteq> 2 ^ k"
        using IH [of "n * 2" e y] step e by auto
      have "unat n \<noteq> 2 ^ k" if "k \<le> 31" for k
        using double_pow [of n k] double(1) double(2) [of "Suc k"] that by (cases "k = 31") auto
      then show ?thesis
        using double(1) by auto
    next
      case False
      then have "2 ^ 31 < unat n"
        using e by (simp add: word_less_nat_alt)
      moreover have "(2 :: nat) ^ k \<le> 2 ^ 31" if "k \<le> 31" for k
        using that by (intro power_increasing) auto
      ultimately show ?thesis
        by (metis less_nat_zero_code not_less unsigned_0)
    qed
  qed
  have "\<not> grow_length 4 elems = Some m" for m
    using never [of 4 elems m] assms by (auto dest!: spec [of _ 2])
  then show ?thesis
    by (cases "grow_length 4 elems") auto
qed

lemma placed_replicate: "placed deref (replicate n [])"
  by (simp add: placed_def)

lemma fold_rehash_count:
  "fold (rehash_count deref n) hs (xss, n0) = (fold (rehash deref n) hs xss, n0 + of_nat (length hs))"
  by (induction hs arbitrary: xss n0) (simp_all add: rehash_count_def)

lemma HandleTable_Resize_spec:
  assumes "length (ht_list t) \<le> unat (ht_length t)"
    and "unat (ht_elems t) = length (concat (ht_list t))" "unat (ht_elems t) \<le> 2 ^ 31"
  obtains t' where "HandleTable_Resize deref t = Some t'" "placed deref (ht_list t')"
    "length (ht_list t') = unat (ht_length t')" "0 < ht_length t'"
    "mset (concat (ht_list t')) = mset (concat (ht_list t))" "ht_elems t' = ht_elems t" "ht_elems t' \<le> ht_length t'"
proof -
  obtain m where m: "grow_length 4 (ht_elems t) = Some m" "0 < m" "ht_elems t \<le> m"
    using assms(3) by (rule grow_length_run)
  let ?xss = "fold (rehash deref m) (concat (ht_list t)) (replicate (unat m) [])"
  have "ht_elems t = of_nat (length (concat (ht_list t)))"
    unfolding assms(2) [symmetric] by simp
  then have "HandleTable_Resize deref t = Some (t\<lparr>ht_list := ?xss, ht_length := m\<rparr>)"
    using m(1) assms(1) by (simp add: HandleTable_Resize_def fold_fold_concat fold_rehash_count)
  then show thesis
    using that m fold_rehash [OF placed_replicate, of "unat m" m deref "concat (ht_list t)"] by simp
qed

text \<open>The invariant only depends on the multiset of entries and their placement.\<close>

lemma ht_invI:
  assumes "placed deref (ht_list t)" "length (ht_list t) = unat (ht_length t)" "0 < ht_length t"
    and m: "mset (concat (ht_list t)) = mset ps"
    and "distinct ps" "inj_on deref (set ps)" "unat (ht_elems t) = length ps"
  shows "ht_inv deref t \<and> ht_set t = set ps"
proof -
  have "set (concat (ht_list t)) = set ps"
    using m by (rule mset_eq_setD)
  moreover have "distinct (concat (ht_list t))"
    using m \<open>distinct ps\<close> by (metis mset_eq_imp_distinct_iff)
  moreover have "length (concat (ht_list t)) = length ps"
    using m by (rule mset_eq_length)
  ultimately show ?thesis
    using assms by (simp add: ht_inv_placed ht_set_def)
qed

lemma ht_inv_Resize:
  assumes "mset (concat (ht_list t)) = mset ps" "length (ht_list t) \<le> unat (ht_length t)"
    and "distinct ps" "inj_on deref (set ps)" "unat (ht_elems t) = length ps" "unat (ht_elems t) \<le> 2 ^ 31"
  shows "\<exists>t'. HandleTable_Resize deref t = Some t' \<and> ht_inv deref t' \<and> ht_set t' = set ps"
proof -
  have "unat (ht_elems t) = length (concat (ht_list t))"
    using assms(5) mset_eq_length [OF assms(1)] by simp
  then obtain t' where t': "HandleTable_Resize deref t = Some t'" "placed deref (ht_list t')"
    "length (ht_list t') = unat (ht_length t')" "0 < ht_length t'"
    "mset (concat (ht_list t')) = mset (concat (ht_list t))" "ht_elems t' = ht_elems t"
    using HandleTable_Resize_spec [OF assms(2) _ assms(6)] by metis
  then have "ht_inv deref t' \<and> ht_set t' = set ps"
    using assms by (intro ht_invI) simp_all
  then show ?thesis
    using t'(1) by blast
qed

lemma mset_drop_nth:
  assumes "j < length xs"
  shows "mset (take j xs @ drop (Suc j) xs) = mset xs - {#xs ! j#}"
proof -
  have "mset xs = mset (take j xs @ xs ! j # drop (Suc j) xs)"
    using assms by (metis id_take_nth_drop)
  then show ?thesis
    by simp
qed

lemma slot_Some:
  assumes "ht_inv deref t" "HandleTable_Lookup deref t key hash = Some p"
  defines "i \<equiv> bucket hash (ht_length t)"
  defines "j \<equiv> find_slot deref key hash (ht_list t ! i)"
  shows "i < length (ht_list t)" "j < length (ht_list t ! i)" "ht_list t ! i ! j = p"
    "deref p = (hash, key)" "p \<in> ht_set t"
  using assms bucket_less HandleTable_Lookup_iff [OF assms(1), of key hash p]
  by (auto simp: HandleTable_Lookup_bucket Let_def ht_inv_def split: if_splits)

lemma set_remove1_keyed:
  assumes "distinct ps" "inj_on f (set ps)" "p \<in> set ps"
  shows "set (remove1 p ps) = {q \<in> set ps. f q \<noteq> f p}"
  using assms by (auto dest: inj_onD)

text \<open>The two cases of \<open>Insert\<close>: a new pair of hash and key, and one that is replaced.\<close>

lemma HandleTable_Insert_new:
  assumes inv: "ht_inv deref t" and new: "h \<notin> ht_set t" and room: "unat (ht_elems t) < 2 ^ 31"
    and none: "HandleTable_Lookup deref t (snd (deref h)) (fst (deref h)) = None"
  shows "\<exists>t'. HandleTable_Insert deref t h = Some (None, t') \<and> ht_inv deref t' \<and> ht_set t' = insert h (ht_set t)"
proof -
  obtain hash key where d: "deref h = (hash, key)"
    by fastforce
  let ?i = "bucket hash (ht_length t)"
  let ?c = "ht_list t ! ?i"
  let ?all = "concat (ht_list t)"
  let ?t2 = "t\<lparr>ht_list := (ht_list t)[?i := ?c @ [h]], ht_elems := ht_elems t + 1\<rparr>"
  have i: "?i < length (ht_list t)" and len: "length (ht_list t) = unat (ht_length t)" "0 < ht_length t"
    and pl: "placed deref (ht_list t)" and dist: "distinct ?all" and inj: "inj_on deref (set ?all)"
    and el: "unat (ht_elems t) = length ?all"
    using inv bucket_less by (auto simp: ht_inv_placed ht_set_def)
  have "\<not> find_slot deref key hash ?c < length ?c"
    using none d by (auto simp: HandleTable_Lookup_bucket Let_def split: if_splits)
  then have eq: "HandleTable_Insert deref t h =
      (if ht_elems ?t2 > ht_length ?t2 then map_option (Pair None) (HandleTable_Resize deref ?t2) else Some (None, ?t2))"
    using d by (auto simp: HandleTable_Insert_def FindPointer_def slot_entry_def Let_def map_option_case
        split: option.splits)
  have m: "mset (concat (ht_list ?t2)) = mset (h # ?all)"
    using mset_concat_update [OF i, of "?c @ [h]"] by simp
  have el2: "unat (ht_elems ?t2) = length (h # ?all)"
    using el room by (simp add: unat_word_ariths)
  have "deref h \<notin> deref ` set ?all"
    using none d HandleTable_Lookup_iff [OF inv] unfolding ht_set_def
    by (metis (no_types, lifting) fst_conv imageE option.discI snd_conv)
  moreover have "h \<notin> set ?all"
    using new unfolding ht_set_def .
  ultimately have ps: "distinct (h # ?all)" "inj_on deref (set (h # ?all))"
    using dist inj by (simp_all del: set_concat)
  have "placed deref (ht_list ?t2)"
    using pl i d len by (simp, intro placed_update) (auto simp: placed_def)
  then have t2: "ht_inv deref ?t2 \<and> ht_set ?t2 = set (h # ?all)"
    using len m ps el2 by (intro ht_invI) simp_all
  have "\<exists>t'. HandleTable_Resize deref ?t2 = Some t' \<and> ht_inv deref t' \<and> ht_set t' = set (h # ?all)"
    using len m ps el2 el room by (intro ht_inv_Resize) simp_all
  then show ?thesis
    using t2 unfolding eq by (auto simp: ht_set_def)
qed

lemma HandleTable_Insert_again:
  assumes inv: "ht_inv deref t" and new: "h \<notin> ht_set t"
    and some: "HandleTable_Lookup deref t (snd (deref h)) (fst (deref h)) = Some p"
  shows "\<exists>t'. HandleTable_Insert deref t h = Some (Some p, t') \<and> ht_inv deref t' \<and>
    ht_set t' = insert h {q \<in> ht_set t. deref q \<noteq> deref h}"
proof -
  obtain hash key where d: "deref h = (hash, key)"
    by fastforce
  let ?i = "bucket hash (ht_length t)"
  let ?c = "ht_list t ! ?i"
  let ?j = "find_slot deref key hash ?c"
  let ?all = "concat (ht_list t)"
  let ?t1 = "t\<lparr>ht_list := (ht_list t)[?i := ?c[?j := h]]\<rparr>"
  have s: "?i < length (ht_list t)" "?j < length ?c" "?c ! ?j = p" "deref p = (hash, key)" "p \<in> ht_set t"
    using slot_Some [OF inv some] d by simp_all
  have len: "length (ht_list t) = unat (ht_length t)" "0 < ht_length t"
    and pl: "placed deref (ht_list t)" and dist: "distinct ?all" and inj: "inj_on deref (set ?all)"
    and el: "unat (ht_elems t) = length ?all"
    using inv by (auto simp: ht_inv_placed ht_set_def)
  have eq: "HandleTable_Insert deref t h = Some (Some p, ?t1)"
    using s d by (simp add: HandleTable_Insert_def FindPointer_def slot_entry_def Let_def)
  have p: "p \<in> set ?all"
    using s(5) by (simp add: ht_set_def)
  have c: "mset (?c[?j := h]) + {#p#} = mset ?c + {#h#}"
    using s(2,3) nth_mem [OF s(2)] by (simp add: mset_update)
  have "mset (concat (ht_list ?t1)) + {#p#} + mset ?c = mset ?all + (mset (?c[?j := h]) + {#p#})"
    using mset_concat_update [OF s(1), of "?c[?j := h]"] by (simp add: ac_simps)
  then have "mset (concat (ht_list ?t1)) + {#p#} = mset ?all + {#h#}"
    unfolding c by (simp add: ac_simps)
  then have "mset (concat (ht_list ?t1)) = {#h#} + mset ?all - {#p#}"
    by (metis add_diff_cancel_right' add.commute)
  also have "\<dots> = {#h#} + (mset ?all - {#p#})"
    using p by (intro diff_union_single_conv) (simp only: set_mset_mset)
  finally have m: "mset (concat (ht_list ?t1)) = mset (h # remove1 p ?all)"
    by (simp only: mset.simps mset_remove1 union_mset_add_mset_left add_0)
  have set: "set (remove1 p ?all) = {q \<in> ht_set t. deref q \<noteq> deref h}"
    using set_remove1_keyed [OF dist inj p] s(4) d by (simp add: ht_set_def del: set_concat)
  have "h \<notin> set (remove1 p ?all)" "deref h \<notin> deref ` set (remove1 p ?all)"
    using new unfolding set by auto
  then have ps: "distinct (h # remove1 p ?all)" "inj_on deref (set (h # remove1 p ?all))"
    using dist inj_on_subset [OF inj set_remove1_subset [of p ?all]] by (simp_all del: set_concat)
  have "placed deref (ht_list ?t1)"
    using pl s(1) d len set_update_subset_insert [of ?c ?j h] by (simp, intro placed_update) (auto simp: placed_def)
  moreover have "length (h # remove1 p ?all) = length ?all"
    using p length_pos_if_in_set [OF p] by (simp add: length_remove1)
  ultimately have "ht_inv deref ?t1 \<and> ht_set ?t1 = set (h # remove1 p ?all)"
    using len m ps el by (intro ht_invI) simp_all
  then show ?thesis
    unfolding eq using set by (simp del: set_concat)
qed

lemma ht_elems_card: "ht_inv deref t \<Longrightarrow> unat (ht_elems t) = card (ht_set t)"
  unfolding ht_inv_def ht_set_def by (metis distinct_card)

lemma HandleTable_Insert_spec:
  assumes "ht_inv deref t" "h \<notin> ht_set t" "card (ht_set t) < 2 ^ 31"
  shows "\<exists>t'. HandleTable_Insert deref t h = Some (HandleTable_Lookup deref t (snd (deref h)) (fst (deref h)), t') \<and>
    ht_inv deref t' \<and> ht_set t' = insert h {p \<in> ht_set t. deref p \<noteq> deref h}"
proof (cases "HandleTable_Lookup deref t (snd (deref h)) (fst (deref h))")
  case None
  moreover from this have "{p \<in> ht_set t. deref p \<noteq> deref h} = ht_set t"
    using HandleTable_Lookup_iff [OF assms(1), of "snd (deref h)" "fst (deref h)"] by auto
  ultimately show ?thesis
    using HandleTable_Insert_new [OF assms(1,2) _ None] ht_elems_card [OF assms(1)] assms(3) by simp
next
  case (Some p)
  then show ?thesis
    using HandleTable_Insert_again [OF assms(1,2)] by simp
qed

lemma HandleTable_Remove_result:
  "fst (HandleTable_Remove deref t key hash) = HandleTable_Lookup deref t key hash"
  by (simp add: HandleTable_Remove_def HandleTable_Lookup_def Let_def split: prod.splits)

lemma HandleTable_Remove_None:
  "HandleTable_Lookup deref t key hash = None \<Longrightarrow> HandleTable_Remove deref t key hash = (None, t)"
  by (cases "FindPointer deref t key hash")
    (simp add: HandleTable_Remove_def HandleTable_Lookup_def Let_def)

lemma HandleTable_Remove_spec:
  assumes inv: "ht_inv deref t"
  shows "ht_inv deref (snd (HandleTable_Remove deref t key hash)) \<and>
    ht_set (snd (HandleTable_Remove deref t key hash)) = {p \<in> ht_set t. deref p \<noteq> (hash, key)}"
proof (cases "HandleTable_Lookup deref t key hash")
  case None
  then have "HandleTable_Remove deref t key hash = (None, t)"
    by (rule HandleTable_Remove_None)
  moreover have "deref p \<noteq> (hash, key)" if "p \<in> ht_set t" for p
    using None that HandleTable_Lookup_iff [OF inv, of key hash p] by auto
  ultimately show ?thesis
    using inv by auto
next
  case (Some p)
  let ?i = "bucket hash (ht_length t)"
  let ?c = "ht_list t ! ?i"
  let ?j = "find_slot deref key hash ?c"
  let ?all = "concat (ht_list t)"
  let ?c' = "take ?j ?c @ drop (Suc ?j) ?c"
  let ?t1 = "t\<lparr>ht_list := (ht_list t)[?i := ?c'], ht_elems := ht_elems t - 1\<rparr>"
  note s = slot_Some [OF inv Some]
  have len: "length (ht_list t) = unat (ht_length t)" "0 < ht_length t"
    and pl: "placed deref (ht_list t)" and dist: "distinct ?all" and inj: "inj_on deref (set ?all)"
    and el: "unat (ht_elems t) = length ?all"
    using inv by (auto simp: ht_inv_placed ht_set_def)
  have eq: "HandleTable_Remove deref t key hash = (Some p, ?t1)"
    using s by (simp add: HandleTable_Remove_def FindPointer_def slot_entry_def Let_def)
  have c: "mset ?c' + {#p#} = mset ?c"
    using s nth_mem [OF s(2)] mset_drop_nth [of ?j ?c] by simp
  have p: "p \<in> set ?all"
    using s(5) by (simp add: ht_set_def)
  have "mset (concat (ht_list ?t1)) + mset ?c + {#p#} = mset ?all + (mset ?c' + {#p#})"
    using mset_concat_update [OF s(1), of ?c'] by (simp add: ac_simps)
  then have "mset (concat (ht_list ?t1)) + {#p#} = mset ?all"
    unfolding c by (simp add: ac_simps)
  then have m: "mset (concat (ht_list ?t1)) = mset (remove1 p ?all)"
    by (metis add_diff_cancel_right' mset_remove1)
  have place: "placed deref ((ht_list t)[?i := ?c'])"
    using pl s len by (intro placed_update) (auto simp: placed_def dest: in_set_takeD in_set_dropD)
  have set: "set (remove1 p ?all) = {q \<in> ht_set t. deref q \<noteq> (hash, key)}"
    using set_remove1_keyed [OF dist inj p] s(4) by (simp add: ht_set_def del: set_concat)
  have "unat (ht_elems t - 1) = length ?all - 1"
    using el length_pos_if_in_set [OF p] unat_minus_one [of "ht_elems t"] by (metis length_greater_0_conv list.size(3) unsigned_0)
  then have "ht_inv deref ?t1 \<and> ht_set ?t1 = set (remove1 p ?all)"
    using m len place dist p inj_on_subset [OF inj set_remove1_subset [of p ?all]]
    by (intro ht_invI) (simp_all add: length_remove1 del: set_concat)
  then show ?thesis
    unfolding set by (simp add: eq)
qed

lemma ht_inv_cong:
  assumes "ht_inv deref t" "\<And>p. p \<in> ht_set t \<Longrightarrow> deref' p = deref p"
  shows "ht_inv deref' t"
proof -
  have "bucket (fst (deref' p)) (ht_length t) = i" if "i < unat (ht_length t)" "p \<in> set (ht_list t ! i)" for i p
  proof -
    have "p \<in> ht_set t"
      using assms(1) that by (auto simp: ht_inv_def ht_set_iff)
    then show ?thesis
      using assms that by (simp add: ht_inv_def)
  qed
  moreover have "inj_on deref' (ht_set t)"
    using assms by (auto simp: ht_inv_def inj_on_def)
  ultimately show ?thesis
    using assms(1) by (simp add: ht_inv_def)
qed

lemma HandleTable_new_spec: "ht_inv deref HandleTable_new \<and> ht_set HandleTable_new = {}"
proof -
  let ?d = "\<lambda>_. (0, [])"
  let ?t = "\<lparr>ht_length = 0, ht_elems = 0, ht_list = []\<rparr>"
  have "\<exists>t'. HandleTable_Resize ?d ?t = Some t' \<and> ht_inv ?d t' \<and> ht_set t' = set []"
    by (intro ht_inv_Resize) simp_all
  then have "ht_inv ?d HandleTable_new \<and> ht_set HandleTable_new = {}"
    by (auto simp: HandleTable_new_def)
  then show ?thesis
    using ht_inv_cong [of ?d HandleTable_new deref] by simp
qed

interpretation ht: handle_set HandleTable_new HandleTable_Lookup HandleTable_Insert
  HandleTable_Remove ht_set ht_inv "2 ^ 31"
proof (standard, goal_cases)
  case (3 deref t key hash p)
  then show ?case by (rule HandleTable_Lookup_iff)
next
  case (4 deref t h)
  then show ?case by (rule HandleTable_Insert_spec)
next
  case (8 deref t deref')
  show ?case by (rule ht_inv_cong [OF 8(1)]) (rule 8(2))
qed (simp_all add: HandleTable_new_spec HandleTable_Remove_result HandleTable_Remove_spec)

end
