(* ===== verification/Lru_Cache.thy ===== *)
theory Lru_Cache
  imports Handle_Table My_Hash "HOL-Library.Monad_Syntax"
begin

text \<open>
  The LRU cache of \<open>lib/leveldb/util/cache.cc\<close>.  \<open>LRUCache\<close> is one shard: its entries live in a heap
  of \<open>LRUHandle\<close>s, the circular list through \<open>lru_\<close> is the list of their addresses from the oldest
  (\<open>lru_.next\<close>) to the newest (\<open>lru_.prev\<close>), and \<open>table_\<close> is the hash table of \<open>Handle_Table\<close>.  The
  object behind \<open>value\<close> is owned by its entry and is kept in it; a deleter is a function on the state
  \<open>'w\<close> outside the cache.  The counters have the widths of the code, 32 bits for the references and
  64 for charges, usage and capacity, and wrap around.  An operation returns \<open>None\<close> when it would touch
  a freed entry, fail an assertion or resize the table for ever: the preservation lemmas show that it
  does not.  Mutexes are not modelled.
\<close>

section \<open>Entries\<close>

record ('v, 'w) LRUHandle =
  lh_value :: 'v
  lh_deleter :: "bytes \<Rightarrow> 'v \<Rightarrow> 'w \<Rightarrow> 'w"
  lh_charge :: u64
  lh_key :: bytes
  lh_refs :: u32
  lh_hash :: u32

type_synonym ('v, 'w) lru_heap = "nat \<Rightarrow> ('v, 'w) LRUHandle option"

definition heap_deref :: "('v, 'w) lru_heap \<Rightarrow> deref" where
  "heap_deref heap p = (case heap p of Some e \<Rightarrow> (lh_hash e, lh_key e) | None \<Rightarrow> (0, []))"

record ('v, 'w) LRUCache =
  lc_capacity :: u64
  lc_usage :: u64
  lc_heap :: "('v, 'w) lru_heap"
  lc_fresh :: nat
  lc_lru :: "nat list"
  lc_table :: HandleTable

definition LRUCache_new :: "u64 \<Rightarrow> ('v, 'w) LRUCache" where
  "LRUCache_new capacity = \<lparr>lc_capacity = capacity, lc_usage = 0, lc_heap = (\<lambda>_. None), lc_fresh = 0,
     lc_lru = [], lc_table = HandleTable_new\<rparr>"

section \<open>Operations of a shard\<close>

definition Unref :: "nat \<Rightarrow> ('v, 'w) LRUCache \<Rightarrow> 'w \<Rightarrow> (('v, 'w) LRUCache \<times> 'w) option" where
  "Unref p c w =
     (case lc_heap c p of
        None \<Rightarrow> None
      | Some e \<Rightarrow>
          if lh_refs e = 0 then None
          else
            let refs = lh_refs e - 1
            in if refs = 0
               then Some (c\<lparr>lc_usage := lc_usage c - lh_charge e, lc_heap := (lc_heap c)(p := None)\<rparr>,
                          lh_deleter e (lh_key e) (lh_value e) w)
               else Some (c\<lparr>lc_heap := (lc_heap c)(p \<mapsto> e\<lparr>lh_refs := refs\<rparr>)\<rparr>, w))"

definition LRU_Remove :: "nat \<Rightarrow> ('v, 'w) LRUCache \<Rightarrow> ('v, 'w) LRUCache" where
  "LRU_Remove p c = c\<lparr>lc_lru := remove1 p (lc_lru c)\<rparr>"

definition LRU_Append :: "nat \<Rightarrow> ('v, 'w) LRUCache \<Rightarrow> ('v, 'w) LRUCache" where
  "LRU_Append p c = c\<lparr>lc_lru := lc_lru c @ [p]\<rparr>"

definition LRUCache_Lookup :: "bytes \<Rightarrow> u32 \<Rightarrow> ('v, 'w) LRUCache \<Rightarrow> nat option \<times> ('v, 'w) LRUCache" where
  "LRUCache_Lookup key hash c =
     (case HandleTable_Lookup (heap_deref (lc_heap c)) (lc_table c) key hash of
        None \<Rightarrow> (None, c)
      | Some p \<Rightarrow>
          let c1 = c\<lparr>lc_heap := (lc_heap c)(p := map_option (\<lambda>e. e\<lparr>lh_refs := lh_refs e + 1\<rparr>) (lc_heap c p))\<rparr>
          in (Some p, LRU_Append p (LRU_Remove p c1)))"

definition LRUCache_Release :: "nat \<Rightarrow> ('v, 'w) LRUCache \<Rightarrow> 'w \<Rightarrow> (('v, 'w) LRUCache \<times> 'w) option" where
  "LRUCache_Release p c w = Unref p c w"

definition table_remove :: "nat \<Rightarrow> ('v, 'w) LRUCache \<Rightarrow> ('v, 'w) LRUCache" where
  "table_remove p c =
     (let (hash, key) = heap_deref (lc_heap c) p
      in c\<lparr>lc_table := snd (HandleTable_Remove (heap_deref (lc_heap c)) (lc_table c) key hash)\<rparr>)"

lemma lc_lru_Unref: "Unref p c w = Some (c', w') \<Longrightarrow> lc_lru c' = lc_lru c"
  by (auto simp: Unref_def Let_def split: option.splits if_splits)

function evict :: "('v, 'w) LRUCache \<Rightarrow> 'w \<Rightarrow> (('v, 'w) LRUCache \<times> 'w) option" where
  "evict c w =
     (if lc_usage c > lc_capacity c \<and> lc_lru c \<noteq> []
      then let old = hd (lc_lru c)
           in (case Unref old (table_remove old (LRU_Remove old c)) w of
                 None \<Rightarrow> None
               | Some (c', w') \<Rightarrow> evict c' w')
      else Some (c, w))"
  by pat_completeness auto
termination
  by (relation "measure (\<lambda>(c, w). length (lc_lru c))")
    (auto simp: table_remove_def LRU_Remove_def length_remove1 dest!: lc_lru_Unref split: prod.splits)

declare evict.simps [simp del]

definition LRUCache_Insert ::
  "bytes \<Rightarrow> u32 \<Rightarrow> 'v \<Rightarrow> u64 \<Rightarrow> (bytes \<Rightarrow> 'v \<Rightarrow> 'w \<Rightarrow> 'w) \<Rightarrow> ('v, 'w) LRUCache \<Rightarrow> 'w \<Rightarrow>
   (nat \<times> ('v, 'w) LRUCache \<times> 'w) option" where
  "LRUCache_Insert key hash value charge deleter c w =
     (let p = lc_fresh c;
          e = \<lparr>lh_value = value, lh_deleter = deleter, lh_charge = charge, lh_key = key, lh_refs = 2,
               lh_hash = hash\<rparr>;
          c1 = c\<lparr>lc_heap := (lc_heap c)(p \<mapsto> e), lc_fresh := p + 1\<rparr>;
          c2 = (LRU_Append p c1)\<lparr>lc_usage := lc_usage c + charge\<rparr>
      in do {
           (old, table) \<leftarrow> HandleTable_Insert (heap_deref (lc_heap c2)) (lc_table c2) p;
           let c3 = c2\<lparr>lc_table := table\<rparr>;
           (c4, w1) \<leftarrow> (case old of
                          None \<Rightarrow> Some (c3, w)
                        | Some q \<Rightarrow> Unref q (LRU_Remove q c3) w);
           (c5, w2) \<leftarrow> evict c4 w1;
           Some (p, c5, w2)
         })"

definition LRUCache_Erase :: "bytes \<Rightarrow> u32 \<Rightarrow> ('v, 'w) LRUCache \<Rightarrow> 'w \<Rightarrow> (('v, 'w) LRUCache \<times> 'w) option" where
  "LRUCache_Erase key hash c w =
     (let (found, table) = HandleTable_Remove (heap_deref (lc_heap c)) (lc_table c) key hash;
          c1 = c\<lparr>lc_table := table\<rparr>
      in (case found of
            None \<Rightarrow> Some (c1, w)
          | Some p \<Rightarrow> Unref p (LRU_Remove p c1) w))"

text \<open>The destructor: every entry of the list is unreferenced; each must have no other reference.\<close>

fun destroy_entries :: "nat list \<Rightarrow> ('v, 'w) LRUCache \<Rightarrow> 'w \<Rightarrow> (('v, 'w) LRUCache \<times> 'w) option" where
  "destroy_entries [] c w = Some (c, w)"
| "destroy_entries (p # ps) c w =
     (if map_option lh_refs (lc_heap c p) = Some 1
      then do { (c', w') \<leftarrow> Unref p c w; destroy_entries ps c' w' }
      else None)"

definition LRUCache_destroy :: "('v, 'w) LRUCache \<Rightarrow> 'w \<Rightarrow> 'w option" where
  "LRUCache_destroy c w = map_option snd (destroy_entries (lc_lru c) c w)"

section \<open>The invariant of a shard\<close>

definition total_charge :: "('v, 'w) lru_heap \<Rightarrow> nat" where
  "total_charge heap = (\<Sum>p \<in> dom heap. unat (lh_charge (the (heap p))))"

text \<open>
  The table and the list hold the same live entries, every live entry is referenced, addresses are
  fresh, and the usage is the total charge of the live entries.
\<close>

definition lru_inv :: "('v, 'w) LRUCache \<Rightarrow> bool" where
  "lru_inv c \<longleftrightarrow>
     ht_inv (heap_deref (lc_heap c)) (lc_table c) \<and> distinct (lc_lru c) \<and>
     ht_set (lc_table c) = set (lc_lru c) \<and> set (lc_lru c) \<subseteq> dom (lc_heap c) \<and>
     finite (dom (lc_heap c)) \<and> (\<forall>p \<in> dom (lc_heap c). p < lc_fresh c) \<and>
     (\<forall>p e. lc_heap c p = Some e \<longrightarrow> 0 < lh_refs e) \<and>
     unat (lc_usage c) = total_charge (lc_heap c)"

text \<open>The references to an entry that users of the cache hold: all but the cache's own.\<close>

definition user_refs :: "('v, 'w) LRUCache \<Rightarrow> nat \<Rightarrow> nat" where
  "user_refs c p =
     (case lc_heap c p of
        None \<Rightarrow> 0
      | Some e \<Rightarrow> unat (lh_refs e) - (if p \<in> set (lc_lru c) then 1 else 0))"

lemma lru_inv_new: "lru_inv (LRUCache_new capacity)"
  by (simp add: lru_inv_def LRUCache_new_def HandleTable_new_spec total_charge_def)

lemma lru_invD:
  assumes "lru_inv c"
  shows lru_inv_table: "ht_inv (heap_deref (lc_heap c)) (lc_table c)"
    and lru_inv_distinct: "distinct (lc_lru c)"
    and lru_inv_set: "ht_set (lc_table c) = set (lc_lru c)"
    and lru_inv_live: "p \<in> set (lc_lru c) \<Longrightarrow> \<exists>e. lc_heap c p = Some e"
    and lru_inv_finite: "finite (dom (lc_heap c))"
    and lru_inv_fresh: "lc_heap c p = Some e \<Longrightarrow> p < lc_fresh c"
    and lru_inv_refs: "lc_heap c p = Some e \<Longrightarrow> 0 < lh_refs e"
    and lru_inv_usage: "unat (lc_usage c) = total_charge (lc_heap c)"
  using assms by (auto simp: lru_inv_def dom_def)

lemma lru_inv_charge_le:
  assumes "lru_inv c" "lc_heap c p = Some e"
  shows "lh_charge e \<le> lc_usage c"
  using assms member_le_sum [of p "dom (lc_heap c)" "\<lambda>p. unat (lh_charge (the (lc_heap c p)))"]
  by (auto simp: lru_inv_usage [OF assms(1)] lru_inv_finite word_le_nat_alt total_charge_def)

lemma refs_more: "0 < r \<Longrightarrow> r \<noteq> 1 \<Longrightarrow> 1 < (r :: u32)"
  by (metis linorder_neqE word_gt_0 word_less_1)

lemma refs_less: "0 < r \<Longrightarrow> unat (r - 1 :: u32) = unat r - 1"
  using unat_minus_one [of r] by (auto simp: word_gt_0)

lemma refs_one: "0 < r \<Longrightarrow> unat r \<le> Suc 0 \<Longrightarrow> r = (1 :: u32)"
  using refs_more [of r] by (auto simp: word_less_nat_alt)

lemma refs_many: "Suc 0 < unat r \<Longrightarrow> 1 < (r :: u32)"
  by (simp add: word_less_nat_alt)

lemma heap_deref_Some [simp]: "heap p = Some e \<Longrightarrow> heap_deref heap p = (lh_hash e, lh_key e)"
  by (simp add: heap_deref_def)

lemma heap_deref_same:
  "map_option (\<lambda>e. (lh_hash e, lh_key e)) (heap' p) = map_option (\<lambda>e. (lh_hash e, lh_key e)) (heap p) \<Longrightarrow>
    heap_deref heap' p = heap_deref heap p"
  by (auto simp: heap_deref_def split: option.splits)

lemma total_charge_update:
  assumes "finite (dom heap)" "heap p = Some e" "lh_charge e' = lh_charge e"
  shows "total_charge (heap(p \<mapsto> e')) = total_charge heap"
  unfolding total_charge_def using assms by (intro sum.cong) auto

lemma total_charge_free:
  assumes "finite (dom heap)" "heap p = Some e"
  shows "total_charge (heap(p := None)) = total_charge heap - unat (lh_charge e)"
proof -
  have "total_charge heap = unat (lh_charge e) + (\<Sum>q \<in> dom heap - {p}. unat (lh_charge (the (heap q))))"
    unfolding total_charge_def using assms by (subst sum.remove [of _ p]) auto
  moreover have "(\<Sum>q \<in> dom heap - {p}. unat (lh_charge (the (heap q)))) = total_charge (heap(p := None))"
    unfolding total_charge_def by (intro sum.cong) auto
  ultimately show ?thesis
    by (metis add_diff_cancel_left')
qed

lemma total_charge_alloc:
  assumes "finite (dom heap)" "heap p = None"
  shows "total_charge (heap(p \<mapsto> e)) = total_charge heap + unat (lh_charge e)"
proof -
  have "(\<Sum>q \<in> dom heap. unat (lh_charge (the ((heap(p \<mapsto> e)) q)))) = total_charge heap"
    unfolding total_charge_def using assms(2) by (intro sum.cong) auto
  then show ?thesis
    using assms by (simp add: total_charge_def domIff)
qed

subsection \<open>Dropping a reference\<close>

text \<open>What is left of an entry that loses a reference, and the deleter that runs when nothing is.\<close>

definition dropped :: "('v, 'w) LRUHandle \<Rightarrow> ('v, 'w) LRUHandle option" where
  "dropped e = (if lh_refs e = 1 then None else Some (e\<lparr>lh_refs := lh_refs e - 1\<rparr>))"

definition drop_effect :: "('v, 'w) LRUHandle \<Rightarrow> 'w \<Rightarrow> 'w" where
  "drop_effect e w = (if lh_refs e = 1 then lh_deleter e (lh_key e) (lh_value e) w else w)"

lemma Unref_spec:
  assumes inv: "lru_inv c" and e: "lc_heap c p = Some e" and held: "p \<in> set (lc_lru c) \<Longrightarrow> 1 < lh_refs e"
  obtains c' where "Unref p c w = Some (c', drop_effect e w)" "lru_inv c'"
    "lc_lru c' = lc_lru c" "lc_table c' = lc_table c" "lc_capacity c' = lc_capacity c"
    "lc_fresh c' = lc_fresh c" "lc_heap c' = (lc_heap c)(p := dropped e)"
    "lc_usage c' = (if lh_refs e = 1 then lc_usage c - lh_charge e else lc_usage c)"
proof (cases "lh_refs e = 1")
  case True
  then have p: "p \<notin> set (lc_lru c)"
    using held by auto
  let ?c' = "c\<lparr>lc_usage := lc_usage c - lh_charge e, lc_heap := (lc_heap c)(p := None)\<rparr>"
  have "ht_inv (heap_deref (lc_heap ?c')) (lc_table c)"
    using p lru_inv_set [OF inv]
    by (intro ht.invar_cong [OF lru_inv_table [OF inv]] heap_deref_same) auto
  moreover have "unat (lc_usage ?c') = total_charge (lc_heap ?c')"
    using total_charge_free [OF lru_inv_finite [OF inv] e] lru_inv_usage [OF inv] lru_inv_charge_le [OF inv e]
    by (simp add: unat_sub)
  ultimately have "lru_inv ?c'"
    using inv p unfolding lru_inv_def by (auto split: if_splits)
  then show thesis
    using e True by (intro that [of ?c']) (simp_all add: Unref_def dropped_def drop_effect_def)
next
  case False
  let ?e = "e\<lparr>lh_refs := lh_refs e - 1\<rparr>"
  let ?c' = "c\<lparr>lc_heap := (lc_heap c)(p \<mapsto> ?e)\<rparr>"
  have rest: "0 < lh_refs e" "0 < lh_refs e - 1"
    using False lru_inv_refs [OF inv e] by (auto simp: word_gt_0)
  have "heap_deref (lc_heap ?c') = heap_deref (lc_heap c)"
    using e by (intro ext heap_deref_same) auto
  moreover have "unat (lc_usage ?c') = total_charge (lc_heap ?c')"
    using total_charge_update [OF lru_inv_finite [OF inv] e, of ?e] lru_inv_usage [OF inv] by simp
  ultimately have "lru_inv ?c'"
    using inv rest e unfolding lru_inv_def by (auto split: if_splits)
  then show thesis
    using e False rest by (intro that [of ?c']) (simp_all add: Unref_def dropped_def drop_effect_def)
qed

subsection \<open>Detaching an entry\<close>

lemma keyed_minus: "inj_on f A \<Longrightarrow> p \<in> A \<Longrightarrow> {q \<in> A. f q \<noteq> f p} = A - {p}"
  by (auto simp: inj_on_def)

lemma detached_inv:
  assumes inv: "lru_inv c" and p: "p \<in> set (lc_lru c)"
  shows "lru_inv (table_remove p (LRU_Remove p c))"
proof -
  let ?d = "heap_deref (lc_heap c)"
  obtain hash key where d: "?d p = (hash, key)"
    by fastforce
  have "inj_on ?d (set (lc_lru c))"
    using lru_inv_table [OF inv] lru_inv_set [OF inv] by (simp add: ht_inv_def)
  then have "ht_set (snd (HandleTable_Remove ?d (lc_table c) key hash)) = set (lc_lru c) - {p}"
    using ht.remove_entries [OF lru_inv_table [OF inv], of key hash] lru_inv_set [OF inv] p
    by (simp add: keyed_minus flip: d)
  then show ?thesis
    using inv ht.remove_invar [OF lru_inv_table [OF inv], of key hash] d
    unfolding lru_inv_def by (auto simp: table_remove_def LRU_Remove_def)
qed

lemma user_refs_cong:
  "lc_heap c p = lc_heap c' p \<Longrightarrow> p \<in> set (lc_lru c) \<longleftrightarrow> p \<in> set (lc_lru c') \<Longrightarrow> user_refs c p = user_refs c' p"
  by (simp add: user_refs_def)

lemma detach_spec:
  assumes inv: "lru_inv c" and p: "p \<in> set (lc_lru c)" and e: "lc_heap c p = Some e"
  obtains c' where "Unref p (table_remove p (LRU_Remove p c)) w = Some (c', drop_effect e w)" "lru_inv c'"
    "lc_lru c' = remove1 p (lc_lru c)" "lc_capacity c' = lc_capacity c" "lc_fresh c' = lc_fresh c"
    "lc_heap c' = (lc_heap c)(p := dropped e)" "user_refs c' = user_refs c"
    "lc_usage c' = (if lh_refs e = 1 then lc_usage c - lh_charge e else lc_usage c)"
proof -
  let ?c1 = "table_remove p (LRU_Remove p c)"
  have same: "lc_heap ?c1 = lc_heap c" "lc_lru ?c1 = remove1 p (lc_lru c)" "lc_capacity ?c1 = lc_capacity c"
      "lc_fresh ?c1 = lc_fresh c" "lc_usage ?c1 = lc_usage c"
    by (simp_all add: table_remove_def LRU_Remove_def split: prod.splits)
  have out: "p \<notin> set (lc_lru ?c1)"
    using lru_inv_distinct [OF inv] by (simp add: same)
  obtain c' where c': "Unref p ?c1 w = Some (c', drop_effect e w)" "lru_inv c'" "lc_lru c' = lc_lru ?c1"
      "lc_capacity c' = lc_capacity c" "lc_fresh c' = lc_fresh c" "lc_heap c' = (lc_heap c)(p := dropped e)"
      "lc_usage c' = (if lh_refs e = 1 then lc_usage c - lh_charge e else lc_usage c)"
    using Unref_spec [OF detached_inv [OF inv p], of p e w] e out unfolding same by blast
  moreover have "user_refs c' q = user_refs c q" for q
    using p e lru_inv_refs [OF inv e] lru_inv_distinct [OF inv]
    by (auto simp: user_refs_def c' same dropped_def refs_less)
  ultimately show thesis
    using that [of c'] by (simp add: same fun_eq_iff)
qed

lemma evict_invariant:
  assumes inv: "lru_inv c" and P: "P c w"
    and step: "\<And>c w p ps e c'. \<lbrakk>lru_inv c; P c w; lc_usage c > lc_capacity c; lc_lru c = p # ps;
        lc_heap c p = Some e; lru_inv c'; lc_lru c' = ps; lc_capacity c' = lc_capacity c;
        lc_fresh c' = lc_fresh c; lc_heap c' = (lc_heap c)(p := dropped e); user_refs c' = user_refs c;
        lc_usage c' = (if lh_refs e = 1 then lc_usage c - lh_charge e else lc_usage c)\<rbrakk>
      \<Longrightarrow> P c' (drop_effect e w)"
  obtains c' w' where "evict c w = Some (c', w')" "lru_inv c'" "P c' w'"
    "lc_usage c' \<le> lc_capacity c' \<or> lc_lru c' = []"
  using inv P
proof (induction c w arbitrary: thesis rule: evict.induct)
  case (1 c w)
  show ?case
  proof (cases "lc_usage c > lc_capacity c \<and> lc_lru c \<noteq> []")
    case False
    then have "evict c w = Some (c, w)"
      by (subst evict.simps) (rule if_not_P)
    then show ?thesis
      using 1(2-4) False by (meson not_less)
  next
    case True
    then obtain p ps where lru: "lc_lru c = p # ps"
      by (cases "lc_lru c") auto
    then obtain e where e: "lc_heap c p = Some e"
      using lru_inv_live [OF 1(3), of p] by auto
    obtain c' where c': "Unref p (table_remove p (LRU_Remove p c)) w = Some (c', drop_effect e w)"
        "lru_inv c'" "lc_lru c' = ps" "lc_capacity c' = lc_capacity c" "lc_fresh c' = lc_fresh c"
        "lc_heap c' = (lc_heap c)(p := dropped e)" "user_refs c' = user_refs c"
        "lc_usage c' = (if lh_refs e = 1 then lc_usage c - lh_charge e else lc_usage c)"
      by (rule detach_spec [OF 1(3) _ e, of w]) (simp_all add: lru)
    have "P c' (drop_effect e w)"
      using step 1(3,4) True lru e c' by blast
    moreover have "evict c w = evict c' (drop_effect e w)"
      using True lru c'(1) by (subst evict.simps) simp
    moreover obtain c2 w2 where "evict c' (drop_effect e w) = Some (c2, w2)" "lru_inv c2" "P c2 w2"
        "lc_usage c2 \<le> lc_capacity c2 \<or> lc_lru c2 = []"
      using 1(1) [OF True _ _ refl, of p c' "drop_effect e w"] lru c'(1,2) calculation(1) by auto
    ultimately show ?thesis
      using 1(2) by simp
  qed
qed

text \<open>
  How many bytes go when an entry is evicted: its charge, if the cache has the only reference to it.
  The loop stops at the first moment at which the usage fits the capacity or nothing is left.
\<close>

definition freed_charge :: "('v, 'w) LRUCache \<Rightarrow> nat \<Rightarrow> nat" where
  "freed_charge c p =
     (case lc_heap c p of Some e \<Rightarrow> if lh_refs e = 1 then unat (lh_charge e) else 0 | None \<Rightarrow> 0)"

definition freed :: "('v, 'w) LRUCache \<Rightarrow> nat list \<Rightarrow> nat" where
  "freed c ps = sum_list (map (freed_charge c) ps)"

definition evicted :: "nat \<Rightarrow> ('v, 'w) LRUCache \<Rightarrow> ('v, 'w) LRUCache \<Rightarrow> bool" where
  "evicted n c c' \<longleftrightarrow>
     n \<le> length (lc_lru c) \<and> lc_lru c' = drop n (lc_lru c) \<and> lc_capacity c' = lc_capacity c \<and>
     lc_fresh c' = lc_fresh c \<and> user_refs c' = user_refs c \<and>
     unat (lc_usage c') = unat (lc_usage c) - freed c (take n (lc_lru c)) \<and>
     (\<forall>k < n. unat (lc_capacity c) < unat (lc_usage c) - freed c (take k (lc_lru c))) \<and>
     (\<forall>q. q \<notin> set (take n (lc_lru c)) \<longrightarrow> lc_heap c' q = lc_heap c q)"

lemma evicted_step:
  assumes "evicted n c c1" "lru_inv c" "lru_inv c1" "lc_usage c1 > lc_capacity c1" "lc_lru c1 = p # ps" "lc_heap c1 p = Some e"
    "lc_lru c' = ps" "lc_capacity c' = lc_capacity c1" "lc_fresh c' = lc_fresh c1" "lc_heap c' = (lc_heap c1)(p := dropped e)"
    "user_refs c' = user_refs c1" "lc_usage c' = (if lh_refs e = 1 then lc_usage c1 - lh_charge e else lc_usage c1)"
  shows "evicted (Suc n) c c'"
proof -
  have n: "n < length (lc_lru c)" "lc_lru c ! n = p" "drop (Suc n) (lc_lru c) = ps"
    using assms(1,5) by (auto simp: evicted_def)
      (metis drop_eq_Nil leI list.discI, metis nth_via_drop, metis drop_Suc list.sel(3) tl_drop)
  have take: "take (Suc n) (lc_lru c) = take n (lc_lru c) @ [p]"
    using n by (simp add: take_Suc_conv_app_nth)
  have "p \<notin> set (take n (lc_lru c))"
    using lru_inv_distinct [OF assms(2)] n by (metis distinct_take take distinct_append disjoint_insert(1) list.simps(15))
  then have "lc_heap c p = Some e"
    using assms(1,6) by (simp add: evicted_def)
  then have "freed c (take (Suc n) (lc_lru c)) = freed c (take n (lc_lru c)) + (if lh_refs e = 1 then unat (lh_charge e) else 0)"
    by (simp add: take freed_def freed_charge_def)
  moreover have "unat (lc_usage c') = unat (lc_usage c1) - (if lh_refs e = 1 then unat (lh_charge e) else 0)"
    using assms(12) lru_inv_charge_le [OF assms(3,6)] by (simp add: unat_sub)
  moreover have "unat (lc_capacity c) < unat (lc_usage c) - freed c (take k (lc_lru c))" if "k < Suc n" for k
    using assms(1,4) that by (cases "k = n") (auto simp: evicted_def word_less_nat_alt)
  moreover have "lc_heap c' q = lc_heap c q" if "q \<notin> set (take (Suc n) (lc_lru c))" for q
    using that assms(1,10) unfolding take by (simp add: evicted_def)
  ultimately show ?thesis
    using assms n by (auto simp: evicted_def)
qed

lemma evict_spec:
  assumes inv: "lru_inv c"
  obtains c' w' n where "evict c w = Some (c', w')" "lru_inv c'"
    "lc_usage c' \<le> lc_capacity c' \<or> lc_lru c' = []" "evicted n c c'"
proof -
  let ?P = "\<lambda>c' (w' :: 'b). \<exists>n. evicted n c c'"
  obtain c' w' where "evict c w = Some (c', w')" "lru_inv c'" "?P c' w'"
      "lc_usage c' \<le> lc_capacity c' \<or> lc_lru c' = []"
  proof (rule evict_invariant [of c ?P w])
    show "?P c w"
      by (rule exI [of _ 0]) (simp add: evicted_def freed_def)
  next
    fix c1 w p ps e c' assume "lru_inv c1" "?P c1 w" "lc_usage c1 > lc_capacity c1" "lc_lru c1 = p # ps"
      "lc_heap c1 p = Some e" "lc_lru c' = ps" "lc_capacity c' = lc_capacity c1" "lc_fresh c' = lc_fresh c1"
      "lc_heap c' = (lc_heap c1)(p := dropped e)" "user_refs c' = user_refs c1"
      "lc_usage c' = (if lh_refs e = 1 then lc_usage c1 - lh_charge e else lc_usage c1)"
    then show "?P c' (drop_effect e w)"
      using evicted_step [OF _ inv] by blast
  qed (use inv in auto)
  then show thesis
    using that by blast
qed

text \<open>With unit charges at most one entry has to go.\<close>

lemma evict_none:
  assumes "lc_usage c \<le> lc_capacity c"
  shows "evict c w = Some (c, w)"
proof -
  have "\<not> (lc_usage c > lc_capacity c \<and> lc_lru c \<noteq> [])"
    using assms leD by blast
  then show ?thesis
    by (subst evict.simps) (rule if_not_P)
qed

lemma evict_one:
  assumes inv: "lru_inv c" and lru: "lc_lru c = p # ps" and e: "lc_heap c p = Some e" "lh_refs e = 1"
    and usage: "lc_usage c > lc_capacity c" "lc_usage c - lh_charge e \<le> lc_capacity c"
  obtains c' where "evict c w = Some (c', lh_deleter e (lh_key e) (lh_value e) w)" "lru_inv c'"
    "lc_lru c' = ps" "lc_heap c' = (lc_heap c)(p := None)" "lc_capacity c' = lc_capacity c"
    "lc_usage c' = lc_usage c - lh_charge e" "user_refs c' = user_refs c"
proof -
  obtain c' where c': "Unref p (table_remove p (LRU_Remove p c)) w = Some (c', drop_effect e w)"
      "lru_inv c'" "lc_lru c' = remove1 p (lc_lru c)" "lc_capacity c' = lc_capacity c"
      "lc_heap c' = (lc_heap c)(p := dropped e)" "user_refs c' = user_refs c"
      "lc_usage c' = (if lh_refs e = 1 then lc_usage c - lh_charge e else lc_usage c)"
    using detach_spec [OF inv _ e(1), of w] lru by (metis list.set_intros(1))
  moreover have "evict c w = evict c' (drop_effect e w)"
    using usage lru c'(1) by (subst evict.simps) simp
  ultimately show thesis
    using that [of c'] e usage lru evict_none [of c' "drop_effect e w"]
    by (simp add: dropped_def drop_effect_def)
qed

subsection \<open>The operations\<close>

definition lc_find :: "bytes \<Rightarrow> u32 \<Rightarrow> ('v, 'w) LRUCache \<Rightarrow> nat option" where
  "lc_find key hash c = HandleTable_Lookup (heap_deref (lc_heap c)) (lc_table c) key hash"

lemma lc_find_deref:
  assumes "lru_inv c"
  shows "lc_find key hash c = Some p \<longleftrightarrow> p \<in> set (lc_lru c) \<and> heap_deref (lc_heap c) p = (hash, key)"
  by (simp add: lc_find_def ht.lookup_iff [OF lru_inv_table [OF assms]] lru_inv_set [OF assms])

lemma lc_find_Some:
  assumes "lru_inv c"
  shows "lc_find key hash c = Some p \<longleftrightarrow>
    p \<in> set (lc_lru c) \<and> (\<exists>e. lc_heap c p = Some e \<and> lh_hash e = hash \<and> lh_key e = key)"
  using lc_find_deref [OF assms, of key hash p] lru_inv_live [OF assms, of p] by auto

lemma Lookup_spec:
  assumes inv: "lru_inv c" and few: "\<forall>p. lc_find key hash c = Some p \<longrightarrow> user_refs c p + 2 < 2 ^ 32"
  obtains (Miss) "lc_find key hash c = None" "LRUCache_Lookup key hash c = (None, c)"
    | (Hit) p e c' where "lc_find key hash c = Some p" "lc_heap c p = Some e"
      "LRUCache_Lookup key hash c = (Some p, c')" "lru_inv c'"
      "lc_lru c' = remove1 p (lc_lru c) @ [p]" "lc_heap c' = (lc_heap c)(p \<mapsto> e\<lparr>lh_refs := lh_refs e + 1\<rparr>)"
      "lc_capacity c' = lc_capacity c" "lc_usage c' = lc_usage c" "lc_table c' = lc_table c"
      "user_refs c' = (user_refs c)(p := user_refs c p + 1)"
proof (cases "lc_find key hash c")
  case None
  then show thesis
    using Miss by (simp add: LRUCache_Lookup_def lc_find_def)
next
  case (Some p)
  then obtain e where p: "p \<in> set (lc_lru c)" and e: "lc_heap c p = Some e"
    using lc_find_Some [OF inv] by auto
  let ?e = "e\<lparr>lh_refs := lh_refs e + 1\<rparr>"
  let ?c' = "c\<lparr>lc_heap := (lc_heap c)(p \<mapsto> ?e), lc_lru := remove1 p (lc_lru c) @ [p]\<rparr>"
  have "heap_deref (lc_heap ?c') = heap_deref (lc_heap c)"
    using e by (intro ext heap_deref_same) auto
  moreover have "unat (lc_usage ?c') = total_charge (lc_heap ?c')"
    using total_charge_update [OF lru_inv_finite [OF inv] e, of ?e] lru_inv_usage [OF inv] by simp
  moreover have refs: "unat (lh_refs e + 1) = unat (lh_refs e) + 1"
    using few Some p e by (simp add: user_refs_def unat_word_ariths)
  moreover have "0 < lh_refs e + 1"
    using refs by (simp add: word_less_nat_alt)
  ultimately have "lru_inv ?c'"
    using inv p e unfolding lru_inv_def by (auto split: if_splits)
  moreover have "user_refs ?c' = (user_refs c)(p := user_refs c p + 1)"
    using p e lru_inv_refs [OF inv e] lru_inv_distinct [OF inv] refs
    by (auto simp: user_refs_def word_less_nat_alt)
  ultimately show thesis
    using Some e Hit [of p e ?c']
    by (simp add: LRUCache_Lookup_def lc_find_def LRU_Append_def LRU_Remove_def)
qed

lemma Release_spec:
  assumes inv: "lru_inv c" and held: "0 < user_refs c p"
  obtains e c' where "lc_heap c p = Some e" "LRUCache_Release p c w = Some (c', drop_effect e w)" "lru_inv c'"
    "lc_lru c' = lc_lru c" "lc_heap c' = (lc_heap c)(p := dropped e)" "lc_capacity c' = lc_capacity c"
    "lc_usage c' = (if lh_refs e = 1 then lc_usage c - lh_charge e else lc_usage c)"
    "user_refs c' = (user_refs c)(p := user_refs c p - 1)" "lc_table c' = lc_table c"
proof -
  obtain e where e: "lc_heap c p = Some e" and pos: "p \<in> set (lc_lru c) \<Longrightarrow> 1 < lh_refs e"
    using held by (auto simp: user_refs_def split: option.splits if_splits intro: refs_many)
  obtain c' where c': "Unref p c w = Some (c', drop_effect e w)" "lru_inv c'" "lc_lru c' = lc_lru c"
    "lc_table c' = lc_table c" "lc_capacity c' = lc_capacity c"
    "lc_heap c' = (lc_heap c)(p := dropped e)"
    "lc_usage c' = (if lh_refs e = 1 then lc_usage c - lh_charge e else lc_usage c)"
    using Unref_spec [OF inv e pos, of w] by blast
  moreover have "user_refs c' q = ((user_refs c)(p := user_refs c p - 1)) q" for q
    using e c' lru_inv_refs [OF inv e] by (auto simp: user_refs_def dropped_def refs_less)
  then have "user_refs c' = (user_refs c)(p := user_refs c p - 1)" ..
  ultimately show thesis
    using e that by (simp add: LRUCache_Release_def)
qed

lemma Erase_spec:
  assumes inv: "lru_inv c"
  obtains (Absent) "lc_find key hash c = None" "LRUCache_Erase key hash c w = Some (c, w)"
    | (Erased) p e c' where "lc_find key hash c = Some p" "lc_heap c p = Some e"
      "LRUCache_Erase key hash c w = Some (c', drop_effect e w)" "lru_inv c'"
      "lc_lru c' = remove1 p (lc_lru c)" "lc_heap c' = (lc_heap c)(p := dropped e)"
      "lc_capacity c' = lc_capacity c" "user_refs c' = user_refs c"
      "lc_usage c' = (if lh_refs e = 1 then lc_usage c - lh_charge e else lc_usage c)"
proof -
  let ?d = "heap_deref (lc_heap c)"
  have res: "fst (HandleTable_Remove ?d (lc_table c) key hash) = lc_find key hash c"
    using ht.remove_result [OF lru_inv_table [OF inv]] by (simp add: lc_find_def)
  show thesis
  proof (cases "lc_find key hash c")
    case None
    then have "HandleTable_Remove ?d (lc_table c) key hash = (None, lc_table c)"
      unfolding lc_find_def by (rule HandleTable_Remove_None)
    then show thesis
      using Absent None by (simp add: LRUCache_Erase_def)
  next
    case (Some p)
    then obtain e where p: "p \<in> set (lc_lru c)" and e: "lc_heap c p = Some e" "lh_hash e = hash" "lh_key e = key"
      using lc_find_Some [OF inv] by auto
    have "LRU_Remove p (c\<lparr>lc_table := t\<rparr>) = (LRU_Remove p c)\<lparr>lc_table := t\<rparr>" for t
      by (simp add: LRU_Remove_def)
    then have "LRUCache_Erase key hash c w = Unref p (table_remove p (LRU_Remove p c)) w"
      using res Some e by (cases "HandleTable_Remove ?d (lc_table c) key hash")
        (simp add: LRUCache_Erase_def table_remove_def Let_def, simp add: LRU_Remove_def)
    then show thesis
      using detach_spec [OF inv p e(1), of w] Erased [OF Some e(1)] by metis
  qed
qed

text \<open>\<open>Insert\<close> up to the eviction loop: the new entry is attached and an entry with its key detached.\<close>

definition new_entry ::
  "bytes \<Rightarrow> u32 \<Rightarrow> 'v \<Rightarrow> u64 \<Rightarrow> (bytes \<Rightarrow> 'v \<Rightarrow> 'w \<Rightarrow> 'w) \<Rightarrow> ('v, 'w) LRUHandle" where
  "new_entry key hash value charge deleter =
     \<lparr>lh_value = value, lh_deleter = deleter, lh_charge = charge, lh_key = key, lh_refs = 2, lh_hash = hash\<rparr>"

lemma lru_inv_attach:
  fixes key :: bytes and hash :: u32 and v :: 'v and charge :: u64
    and deleter :: "bytes \<Rightarrow> 'v \<Rightarrow> 'w \<Rightarrow> 'w" and c :: "('v, 'w) LRUCache"
  defines "e \<equiv> new_entry key hash v charge deleter" and "p \<equiv> lc_fresh c"
  defines "heap \<equiv> (lc_heap c)(p \<mapsto> e)"
  defines "lru \<equiv> (case lc_find key hash c of None \<Rightarrow> lc_lru c | Some q \<Rightarrow> remove1 q (lc_lru c)) @ [p]"
  assumes inv: "lru_inv c" and room: "length (lc_lru c) < 2 ^ 31" "unat (lc_usage c) + unat charge < 2 ^ 64"
  shows "\<exists>table. HandleTable_Insert (heap_deref heap) (lc_table c) p = Some (lc_find key hash c, table) \<and>
    lru_inv (c\<lparr>lc_heap := heap, lc_fresh := p + 1, lc_lru := lru, lc_usage := lc_usage c + charge, lc_table := table\<rparr>)"
proof -
  have p: "lc_heap c p = None"
    using lru_inv_fresh [OF inv, of p] by (cases "lc_heap c p") (auto simp: p_def)
  then have out: "p \<notin> set (lc_lru c)"
    using lru_inv_live [OF inv, of p] by auto
  have deref: "heap_deref heap q = heap_deref (lc_heap c) q" if "q \<in> set (lc_lru c)" for q
    using that out by (intro heap_deref_same) (auto simp: heap_def)
  have dp: "heap_deref heap p = (hash, key)"
    by (simp add: heap_def e_def new_entry_def)
  have ht: "ht_inv (heap_deref heap) (lc_table c)"
    using deref lru_inv_set [OF inv] by (intro ht.invar_cong [OF lru_inv_table [OF inv]]) auto
  have "HandleTable_Lookup (heap_deref heap) (lc_table c) key hash = lc_find key hash c"
    unfolding lc_find_def
    using ht.lookup_iff [OF ht] ht.lookup_iff [OF lru_inv_table [OF inv]] deref lru_inv_set [OF inv]
    by (intro option_eqI) auto
  moreover have "card (ht_set (lc_table c)) < 2 ^ 31"
    using room(1) lru_inv_set [OF inv] lru_inv_distinct [OF inv] by (simp add: distinct_card)
  ultimately obtain table where table: "HandleTable_Insert (heap_deref heap) (lc_table c) p = Some (lc_find key hash c, table)"
    "ht_inv (heap_deref heap) table" "ht_set table = insert p {q \<in> ht_set (lc_table c). heap_deref heap q \<noteq> heap_deref heap p}"
    using ht.insert_run [OF ht, of p] out lru_inv_set [OF inv] dp by auto
  have "{q \<in> set (lc_lru c). heap_deref heap q \<noteq> (hash, key)} =
      (case lc_find key hash c of None \<Rightarrow> set (lc_lru c) | Some q \<Rightarrow> set (lc_lru c) - {q})"
  proof -
    have "heap_deref heap q = (hash, key) \<longleftrightarrow> lc_find key hash c = Some q" if "q \<in> set (lc_lru c)" for q
      using lc_find_deref [OF inv, of key hash q] deref that by simp
    then show ?thesis
      by (auto split: option.splits)
  qed
  then have set: "ht_set table = set lru"
    using table(3) out lru_inv_set [OF inv] dp lru_inv_distinct [OF inv]
    by (auto simp: lru_def split: option.splits)
  have "distinct lru" "set lru \<subseteq> dom heap"
    using lru_inv_distinct [OF inv] lru_inv_live [OF inv] out
    by (auto simp: lru_def heap_def split: option.splits dest: notin_set_remove1)
  moreover have "unat (lc_usage c + charge) = total_charge heap"
    unfolding heap_def using total_charge_alloc [OF lru_inv_finite [OF inv] p, of e] lru_inv_usage [OF inv] room(2)
    by (simp add: e_def new_entry_def unat_word_ariths)
  moreover have "finite (dom heap)" "\<forall>q \<in> dom heap. q < p + 1" "\<And>q e. heap q = Some e \<Longrightarrow> 0 < lh_refs e"
    using inv by (auto simp: lru_inv_def heap_def p_def e_def new_entry_def less_Suc_eq split: if_splits)
  ultimately have "lru_inv (c\<lparr>lc_heap := heap, lc_fresh := p + 1, lc_lru := lru,
      lc_usage := lc_usage c + charge, lc_table := table\<rparr>)"
    using set table(2) by (simp add: lru_inv_def)
  then show ?thesis
    using table(1) by blast
qed

definition with_entry ::
  "('v, 'w) LRUHandle \<Rightarrow> nat list \<Rightarrow> HandleTable \<Rightarrow> ('v, 'w) LRUCache \<Rightarrow> ('v, 'w) LRUCache" where
  "with_entry e lru table c =
     c\<lparr>lc_heap := (lc_heap c)(lc_fresh c \<mapsto> e), lc_fresh := lc_fresh c + 1, lc_lru := lru,
       lc_usage := lc_usage c + lh_charge e, lc_table := table\<rparr>"

lemma with_entry_simps [simp]:
  "lc_heap (with_entry e lru table c) = (lc_heap c)(lc_fresh c \<mapsto> e)"
  "lc_fresh (with_entry e lru table c) = lc_fresh c + 1"
  "lc_lru (with_entry e lru table c) = lru"
  "lc_usage (with_entry e lru table c) = lc_usage c + lh_charge e"
  "lc_table (with_entry e lru table c) = table"
  "lc_capacity (with_entry e lru table c) = lc_capacity c"
  by (simp_all add: with_entry_def)

definition evict_as :: "nat \<Rightarrow> ('v, 'w) LRUCache \<Rightarrow> 'w \<Rightarrow> (nat \<times> ('v, 'w) LRUCache \<times> 'w) option" where
  "evict_as p c w = map_option (Pair p) (evict c w)"

lemma Insert_unfold:
  assumes "HandleTable_Insert (heap_deref ((lc_heap c)(lc_fresh c \<mapsto> new_entry key hash v charge deleter)))
      (lc_table c) (lc_fresh c) = Some (old, table)"
  shows "LRUCache_Insert key hash v charge deleter c w =
    (case old of
       None \<Rightarrow> evict_as (lc_fresh c)
         (with_entry (new_entry key hash v charge deleter) (lc_lru c @ [lc_fresh c]) table c) w
     | Some q \<Rightarrow>
         (case Unref q (with_entry (new_entry key hash v charge deleter)
             (remove1 q (lc_lru c @ [lc_fresh c])) table c) w of
            None \<Rightarrow> None
          | Some (c1, w1) \<Rightarrow> evict_as (lc_fresh c) c1 w1))"
  using assms
  by (cases c) (auto simp: LRUCache_Insert_def LRU_Append_def LRU_Remove_def Let_def new_entry_def
      with_entry_def evict_as_def map_option_case bind_eq_None_conv split: option.splits bind_splits)

lemma Insert_attach:
  fixes v :: 'v and c :: "('v, 'w) LRUCache"
  assumes inv: "lru_inv c" and room: "length (lc_lru c) < 2 ^ 31" "unat (lc_usage c) + unat charge < 2 ^ 64"
  obtains c' w' where
    "LRUCache_Insert key hash v charge deleter c w = evict_as (lc_fresh c) c' w'"
    "lru_inv c'" "lc_capacity c' = lc_capacity c" "lc_fresh c' = lc_fresh c + 1"
    "lc_lru c' = (case lc_find key hash c of None \<Rightarrow> lc_lru c | Some q \<Rightarrow> remove1 q (lc_lru c)) @ [lc_fresh c]"
    "user_refs c' = (user_refs c)(lc_fresh c := 1)"
    "unat (lc_usage c') = unat (lc_usage c) + unat charge -
       (case lc_find key hash c of None \<Rightarrow> 0 | Some q \<Rightarrow> freed_charge c q)"
    "lc_find key hash c = None \<Longrightarrow> w' = w \<and>
       lc_heap c' = (lc_heap c)(lc_fresh c \<mapsto> new_entry key hash v charge deleter)"
    "\<And>q e. \<lbrakk>lc_find key hash c = Some q; lc_heap c q = Some e\<rbrakk> \<Longrightarrow> w' = drop_effect e w \<and>
       lc_heap c' = (lc_heap c)(lc_fresh c \<mapsto> new_entry key hash v charge deleter, q := dropped e)"
proof -
  let ?p = "lc_fresh c"
  let ?e = "new_entry key hash v charge deleter"
  let ?lru = "(case lc_find key hash c of None \<Rightarrow> lc_lru c | Some q \<Rightarrow> remove1 q (lc_lru c)) @ [?p]"
  obtain table where ins: "HandleTable_Insert (heap_deref ((lc_heap c)(?p \<mapsto> ?e))) (lc_table c) ?p =
      Some (lc_find key hash c, table)"
    and attached: "lru_inv (c\<lparr>lc_heap := (lc_heap c)(?p \<mapsto> ?e), lc_fresh := ?p + 1, lc_lru := ?lru,
      lc_usage := lc_usage c + charge, lc_table := table\<rparr>)"
    using lru_inv_attach [OF inv room, of key hash v deleter] by blast
  let ?c = "\<lambda>lru. with_entry ?e lru table c"
  note unfold = Insert_unfold [OF ins, of w]
  have inv': "lru_inv (?c ?lru)"
    using attached by (simp add: with_entry_def new_entry_def)
  have sum: "unat (lc_usage c + charge) = unat (lc_usage c) + unat charge"
    using room(2) by (simp add: unat_word_ariths)
  have p: "lc_heap c ?p = None" "?p \<notin> set (lc_lru c)"
    using lru_inv_fresh [OF inv, of ?p] lru_inv_live [OF inv, of ?p] by (cases "lc_heap c ?p"; auto)+
  show thesis
  proof (cases "lc_find key hash c")
    case None
    have "user_refs (?c (lc_lru c @ [?p])) = (user_refs c)(?p := 1)"
      using p by (auto simp: user_refs_def new_entry_def)
    then show thesis
      using unfold inv' None sum by (intro that [of "?c (lc_lru c @ [?p])" w]) (simp_all add: new_entry_def)
  next
    case (Some q)
    then obtain e where q: "q \<in> set (lc_lru c)" "lc_heap c q = Some e"
      using lc_find_Some [OF inv] by auto
    let ?c1 = "?c (remove1 q (lc_lru c) @ [?p])"
    have out: "q \<notin> set (lc_lru ?c1)" and e: "lc_heap ?c1 q = Some e"
      using q p lru_inv_distinct [OF inv] by auto
    have inv1: "lru_inv ?c1"
      using inv' Some by simp
    then obtain c' where c': "Unref q ?c1 w = Some (c', drop_effect e w)" "lru_inv c'" "lc_lru c' = lc_lru ?c1"
        "lc_capacity c' = lc_capacity ?c1" "lc_fresh c' = lc_fresh ?c1" "lc_heap c' = (lc_heap ?c1)(q := dropped e)"
        "lc_usage c' = (if lh_refs e = 1 then lc_usage ?c1 - lh_charge e else lc_usage ?c1)"
      using Unref_spec [of ?c1 q e w] e out by blast
    have "user_refs c' r = ((user_refs c)(?p := 1)) r" for r
      using p q c'(3,6) out lru_inv_refs [OF inv q(2)] lru_inv_distinct [OF inv]
      by (auto simp: user_refs_def new_entry_def dropped_def refs_less)
    then have "user_refs c' = (user_refs c)(?p := 1)" ..
    moreover have "remove1 q (lc_lru c @ [?p]) = remove1 q (lc_lru c) @ [?p]"
      using q by (simp add: remove1_append)
    moreover have "unat (lc_usage c') = unat (lc_usage c) + unat charge - freed_charge c q"
      using c'(7) q(2) lru_inv_charge_le [OF inv1 e] sum by (auto simp: freed_charge_def unat_sub new_entry_def)
    ultimately show thesis
      using unfold Some c' q by (intro that [of c' "drop_effect e w"]) (simp_all add: new_entry_def)
  qed
qed

text \<open>
  \<open>Insert\<close> always succeeds and keeps the invariant.  \<open>attach_lru\<close> and \<open>attach_usage\<close> are the list and the
  usage when the loop starts; the loop evicts the \<open>n\<close> oldest entries, where \<open>n\<close> is the first number
  for which the usage fits the capacity or nothing is left.
\<close>

definition attach_lru :: "bytes \<Rightarrow> u32 \<Rightarrow> ('v, 'w) LRUCache \<Rightarrow> nat list" where
  "attach_lru key hash c =
     (case lc_find key hash c of None \<Rightarrow> lc_lru c | Some q \<Rightarrow> remove1 q (lc_lru c)) @ [lc_fresh c]"

definition attach_usage :: "bytes \<Rightarrow> u32 \<Rightarrow> u64 \<Rightarrow> ('v, 'w) LRUCache \<Rightarrow> nat" where
  "attach_usage key hash charge c =
     unat (lc_usage c) + unat charge - (case lc_find key hash c of None \<Rightarrow> 0 | Some q \<Rightarrow> freed_charge c q)"

lemma freed_attached:
  assumes inv: "lru_inv c" and p: "p \<in> set (attach_lru key hash c)"
    and none: "lc_find key hash c = None \<Longrightarrow> lc_heap c1 = (lc_heap c)(lc_fresh c \<mapsto> new_entry key hash v charge deleter)"
    and some: "\<And>q e. \<lbrakk>lc_find key hash c = Some q; lc_heap c q = Some e\<rbrakk> \<Longrightarrow>
      lc_heap c1 = (lc_heap c)(lc_fresh c \<mapsto> new_entry key hash v charge deleter, q := dropped e)"
  shows "freed_charge c1 p = freed_charge c p"
proof -
  have fresh: "lc_heap c (lc_fresh c) = None"
    using lru_inv_fresh [OF inv, of "lc_fresh c"] by (cases "lc_heap c (lc_fresh c)") auto
  show ?thesis
  proof (cases "lc_find key hash c")
    case None
    then show ?thesis
      using fresh none by (auto simp: freed_charge_def new_entry_def)
  next
    case (Some q)
    then obtain e where q: "q \<in> set (lc_lru c)" "lc_heap c q = Some e"
      using lc_find_Some [OF inv] by auto
    then have "p \<noteq> q"
      using p Some fresh lru_inv_distinct [OF inv] by (auto simp: attach_lru_def)
    then show ?thesis
      using fresh some [OF Some q(2)] by (auto simp: freed_charge_def new_entry_def)
  qed
qed

lemma Insert_spec:
  fixes v :: 'v and c :: "('v, 'w) LRUCache"
  assumes inv: "lru_inv c" and room: "length (lc_lru c) < 2 ^ 31" "unat (lc_usage c) + unat charge < 2 ^ 64"
  obtains c' w' n where "LRUCache_Insert key hash v charge deleter c w = Some (lc_fresh c, c', w')"
    "lru_inv c'" "lc_usage c' \<le> lc_capacity c' \<or> lc_lru c' = []" "lc_capacity c' = lc_capacity c"
    "n \<le> length (attach_lru key hash c)" "lc_lru c' = drop n (attach_lru key hash c)" "user_refs c' = (user_refs c)(lc_fresh c := 1)"
    "unat (lc_usage c') = attach_usage key hash charge c - freed c (take n (attach_lru key hash c))"
    "\<forall>k < n. unat (lc_capacity c) < attach_usage key hash charge c - freed c (take k (attach_lru key hash c))"
proof -
  obtain c1 w1 where 1: "LRUCache_Insert key hash v charge deleter c w = evict_as (lc_fresh c) c1 w1"
    "lru_inv c1" "lc_capacity c1 = lc_capacity c" "lc_lru c1 = attach_lru key hash c"
    "user_refs c1 = (user_refs c)(lc_fresh c := 1)" "unat (lc_usage c1) = attach_usage key hash charge c"
    "lc_find key hash c = None \<Longrightarrow> lc_heap c1 = (lc_heap c)(lc_fresh c \<mapsto> new_entry key hash v charge deleter)"
    "\<And>q e. \<lbrakk>lc_find key hash c = Some q; lc_heap c q = Some e\<rbrakk> \<Longrightarrow>
      lc_heap c1 = (lc_heap c)(lc_fresh c \<mapsto> new_entry key hash v charge deleter, q := dropped e)"
    by (rule Insert_attach [OF inv room, of key hash v deleter w]) (auto simp: attach_lru_def attach_usage_def)
  have freed: "freed c1 ps = freed c ps" if "set ps \<subseteq> set (attach_lru key hash c)" for ps
    unfolding freed_def
    by (intro arg_cong [of _ _ sum_list] map_cong refl freed_attached [OF inv _ 1(7,8)]) (use that in auto)
  have "freed c1 (take k (attach_lru key hash c)) = freed c (take k (attach_lru key hash c))" for k
    by (intro freed set_take_subset)
  moreover obtain c2 w2 n where "evict c1 w1 = Some (c2, w2)" "lru_inv c2"
    "lc_usage c2 \<le> lc_capacity c2 \<or> lc_lru c2 = []" "evicted n c1 c2"
    by (rule evict_spec [OF 1(2), of w1])
  ultimately show thesis
    using that [of c2 w2 n] 1(1,3-6) by (auto simp: evict_as_def evicted_def)
qed

subsection \<open>Destroying a shard\<close>

text \<open>When no user holds an entry, the destructor runs every deleter, from the oldest entry to the newest.\<close>

definition run_deleter :: "('v, 'w) LRUHandle \<Rightarrow> 'w \<Rightarrow> 'w" where
  "run_deleter e w = lh_deleter e (lh_key e) (lh_value e) w"

lemma destroy_entries_spec:
  assumes "distinct ps" "\<And>p. p \<in> set ps \<Longrightarrow> map_option lh_refs (lc_heap c p) = Some 1"
  shows "\<exists>c'. destroy_entries ps c w = Some (c', fold (\<lambda>p. run_deleter (the (lc_heap c p))) ps w)"
  using assms
proof (induction ps arbitrary: c w)
  case (Cons p ps)
  then obtain e where e: "lc_heap c p = Some e" "lh_refs e = 1"
    by (metis list.set_intros(1) map_option_eq_Some)
  let ?c = "c\<lparr>lc_usage := lc_usage c - lh_charge e, lc_heap := (lc_heap c)(p := None)\<rparr>"
  have same: "lc_heap ?c q = lc_heap c q" if "q \<in> set ps" for q
    using Cons.prems(1) that by auto
  obtain c' where "destroy_entries ps ?c (run_deleter e w) =
      Some (c', fold (\<lambda>p. run_deleter (the (lc_heap ?c p))) ps (run_deleter e w))"
    using Cons.IH [of ?c "run_deleter e w"] Cons.prems same by (metis distinct.simps(2) list.set_intros(2))
  moreover have "fold (\<lambda>p. run_deleter (the (lc_heap ?c p))) ps w' = fold (\<lambda>p. run_deleter (the (lc_heap c p))) ps w'"
    for w' using same by (intro List.fold_cong) auto
  ultimately show ?case
    using e by (simp add: Unref_def flip: run_deleter_def)
qed simp

lemma LRUCache_destroy_spec:
  assumes inv: "lru_inv c" and free: "\<And>p. user_refs c p = 0"
  shows "LRUCache_destroy c w = Some (fold (\<lambda>p. run_deleter (the (lc_heap c p))) (lc_lru c) w)"
proof -
  have "map_option lh_refs (lc_heap c p) = Some 1" if "p \<in> set (lc_lru c)" for p
    using lru_inv_live [OF inv that] lru_inv_refs [OF inv, of p] free [of p] that
    by (auto simp: user_refs_def intro: refs_one)
  then show ?thesis
    using destroy_entries_spec [OF lru_inv_distinct [OF inv], of c w] by (auto simp: LRUCache_destroy_def)
qed

text \<open>If a user still holds an entry of the list, the assertion of the destructor fails.\<close>

lemma destroy_entries_held:
  assumes "distinct ps" "p \<in> set ps" "map_option lh_refs (lc_heap c p) \<noteq> Some 1"
  shows "destroy_entries ps c w = None"
  using assms
proof (induction ps arbitrary: c w)
  case (Cons q ps)
  show ?case
  proof (cases "map_option lh_refs (lc_heap c q) = Some 1")
    case True
    then have p: "p \<in> set ps" "p \<noteq> q"
      using Cons.prems by auto
    obtain e where e: "lc_heap c q = Some e" "lh_refs e = 1"
      using True by auto
    let ?c = "c\<lparr>lc_usage := lc_usage c - lh_charge e, lc_heap := (lc_heap c)(q := None)\<rparr>"
    have "destroy_entries ps ?c (lh_deleter e (lh_key e) (lh_value e) w) = None"
      using Cons.prems p by (intro Cons.IH) simp_all
    then show ?thesis
      using e by (simp add: Unref_def)
  next
    case False
    then show ?thesis
      by (simp only: destroy_entries.simps if_False)
  qed
qed simp

lemma LRUCache_destroy_held:
  assumes inv: "lru_inv c" and p: "p \<in> set (lc_lru c)" "0 < user_refs c p"
  shows "LRUCache_destroy c w = None"
proof -
  have "map_option lh_refs (lc_heap c p) \<noteq> Some 1"
    using p by (auto simp: user_refs_def split: option.splits)
  then show ?thesis
    using destroy_entries_held [OF lru_inv_distinct [OF inv] p(1)] by (simp add: LRUCache_destroy_def)
qed

lemma quiet_attached:
  assumes inv: "lru_inv c" and "\<And>p. user_refs c p = 0"
  shows "dom (lc_heap c) = set (lc_lru c)"
proof
  show "dom (lc_heap c) \<subseteq> set (lc_lru c)"
  proof
    fix p
    assume "p \<in> dom (lc_heap c)"
    then obtain e where "lc_heap c p = Some e"
      by auto
    then show "p \<in> set (lc_lru c)"
      using assms(2) [of p] lru_inv_refs [OF inv, of p] by (auto simp: user_refs_def word_less_nat_alt split: if_splits)
  qed
qed (use lru_inv_live [OF inv] in blast)

section \<open>A shard in calm use\<close>

text \<open>
  A shard is calm when every charge is one, the list is within the capacity, which is below \<open>2 ^ 31\<close>, and the entries that
  users hold and that are attached are among the \<open>n\<close> newest.  As long as \<open>n\<close> is below the capacity
  an insertion then evicts at most one entry, which nobody holds.
\<close>

definition lru_detached :: "('v, 'w) LRUCache \<Rightarrow> nat set" where
  "lru_detached c = dom (lc_heap c) - set (lc_lru c)"

definition lru_calm :: "nat \<Rightarrow> ('v, 'w) LRUCache \<Rightarrow> bool" where
  "lru_calm n c \<longleftrightarrow>
     lru_inv c \<and> (\<forall>p e. lc_heap c p = Some e \<longrightarrow> lh_charge e = 1) \<and> length (lc_lru c) \<le> unat (lc_capacity c) \<and>
     unat (lc_capacity c) < 2 ^ 31 \<and>
     (\<forall>p \<in> set (lc_lru c). 0 < user_refs c p \<longrightarrow> p \<in> set (take n (rev (lc_lru c))))"

lemma lru_calmD:
  assumes "lru_calm n c"
  shows lru_calm_inv: "lru_inv c"
    and lru_calm_charge: "lc_heap c p = Some e \<Longrightarrow> lh_charge e = 1"
    and lru_calm_length: "length (lc_lru c) \<le> unat (lc_capacity c)"
    and lru_calm_capacity: "unat (lc_capacity c) < 2 ^ 31"
    and lru_calm_held: "\<lbrakk>p \<in> set (lc_lru c); 0 < user_refs c p\<rbrakk> \<Longrightarrow> p \<in> set (take n (rev (lc_lru c)))"
  using assms by (auto simp: lru_calm_def)

lemma lru_calm_new: "unat capacity < 2 ^ 31 \<Longrightarrow> lru_calm n (LRUCache_new capacity)"
  by (simp add: lru_calm_def lru_inv_new) (simp add: LRUCache_new_def)

lemma lru_calm_usage:
  assumes calm: "lru_calm n c" and "lru_detached c = {}"
  shows "unat (lc_usage c) = length (lc_lru c)"
proof -
  have "dom (lc_heap c) = set (lc_lru c)"
    using assms(2) lru_inv_live [OF lru_calm_inv [OF calm]] by (auto simp: lru_detached_def)
  moreover have "lh_charge (the (lc_heap c p)) = 1" if "p \<in> dom (lc_heap c)" for p
    using that lru_calm_charge [OF calm] by auto
  ultimately show ?thesis
    using lru_inv_usage [OF lru_calm_inv [OF calm]] lru_inv_distinct [OF lru_calm_inv [OF calm]]
    by (simp add: distinct_card total_charge_def)
qed

lemma rev_remove1_distinct: "distinct xs \<Longrightarrow> rev (remove1 p xs) = remove1 p (rev xs)"
  by (simp add: distinct_remove1_removeAll removeAll_filter_not_eq rev_filter)

lemma in_take_remove1:
  assumes "distinct xs" "q \<in> set (take n xs)" "q \<noteq> p"
  shows "q \<in> set (take n (remove1 p xs))"
  using assms
proof (induction xs arbitrary: n)
  case (Cons x xs)
  then show ?case
    using set_take_subset_set_take [of "n - 1" n xs] by (cases n) auto
qed simp

lemma lru_calm_mono: "lru_calm n c \<Longrightarrow> n \<le> m \<Longrightarrow> lru_calm m c"
  using set_take_subset_set_take [of n m] by (fastforce simp: lru_calm_def)

lemma calm_Lookup:
  assumes calm: "lru_calm n c" and few: "\<forall>p. lc_find key hash c = Some p \<longrightarrow> user_refs c p + 2 < 2 ^ 32"
  obtains (Miss) "lc_find key hash c = None" "LRUCache_Lookup key hash c = (None, c)"
    | (Hit) p e c' where "lc_find key hash c = Some p" "lc_heap c p = Some e"
      "LRUCache_Lookup key hash c = (Some p, c')" "lru_calm (Suc n) c'"
      "lc_heap c' = (lc_heap c)(p \<mapsto> e\<lparr>lh_refs := lh_refs e + 1\<rparr>)" "set (lc_lru c') = set (lc_lru c)"
      "lc_capacity c' = lc_capacity c" "user_refs c' = (user_refs c)(p := user_refs c p + 1)"
proof (cases rule: Lookup_spec [OF lru_calm_inv [OF calm] few])
  case 1
  then show thesis by (rule Miss)
next
  case (2 p e c')
  have p: "p \<in> set (lc_lru c)"
    using 2(1) lc_find_Some [OF lru_calm_inv [OF calm]] by blast
  have dist: "distinct (lc_lru c)"
    by (rule lru_inv_distinct [OF lru_calm_inv [OF calm]])
  have rev: "rev (lc_lru c') = p # remove1 p (rev (lc_lru c))"
    using 2(5) dist by (simp add: rev_remove1_distinct)
  have "q \<in> set (take (Suc n) (rev (lc_lru c')))" if "q \<in> set (lc_lru c')" "0 < user_refs c' q" for q
    using that rev 2(5,10) lru_calm_held [OF calm, of q] in_take_remove1 [of "rev (lc_lru c)" q n p] dist
    by (cases "q = p") auto
  moreover have "length (lc_lru c') = length (lc_lru c)"
    using p 2(5) length_pos_if_in_set [OF p] by (simp add: length_remove1)
  ultimately have "lru_calm (Suc n) c'"
    using 2 calm lru_calm_charge [OF calm] by (auto simp: lru_calm_def split: if_splits)
  moreover have "set (lc_lru c') = set (lc_lru c)"
    using p 2(5) dist by auto
  ultimately show thesis
    using Hit 2 by metis
qed

lemma calm_Release:
  assumes calm: "lru_calm n c" and held: "0 < user_refs c p"
  obtains e c' where "lc_heap c p = Some e" "LRUCache_Release p c w = Some (c', drop_effect e w)" "lru_calm n c'"
    "lc_lru c' = lc_lru c" "lc_heap c' = (lc_heap c)(p := dropped e)" "lc_capacity c' = lc_capacity c"
    "user_refs c' = (user_refs c)(p := user_refs c p - 1)"
proof -
  note inv = lru_calm_inv [OF calm]
  obtain e c' where 1: "lc_heap c p = Some e" "LRUCache_Release p c w = Some (c', drop_effect e w)" "lru_inv c'"
    "lc_lru c' = lc_lru c" "lc_heap c' = (lc_heap c)(p := dropped e)" "lc_capacity c' = lc_capacity c"
    "user_refs c' = (user_refs c)(p := user_refs c p - 1)"
    using Release_spec [OF inv held, of w] by blast
  have "lru_calm n c'"
    using 1 calm lru_calm_charge [OF calm] unfolding lru_calm_def
    by (auto simp: dropped_def split: if_splits)
  then show thesis
    using that 1 by blast
qed

lemma calm_Erase:
  assumes calm: "lru_calm n c"
  obtains (Absent) "lc_find key hash c = None" "LRUCache_Erase key hash c w = Some (c, w)"
    | (Erased) p e c' where "lc_find key hash c = Some p" "lc_heap c p = Some e"
      "LRUCache_Erase key hash c w = Some (c', drop_effect e w)" "lru_calm n c'"
      "set (lc_lru c') = set (lc_lru c) - {p}" "lc_heap c' = (lc_heap c)(p := dropped e)"
      "lc_capacity c' = lc_capacity c" "user_refs c' = user_refs c"
proof (cases rule: Erase_spec [OF lru_calm_inv [OF calm], of key hash w])
  case 1
  then show thesis by (rule Absent)
next
  case (2 p e c')
  have dist: "distinct (lc_lru c)"
    by (rule lru_inv_distinct [OF lru_calm_inv [OF calm]])
  have "rev (remove1 p (lc_lru c)) = remove1 p (rev (lc_lru c))"
    using dist by (rule rev_remove1_distinct)
  then have "q \<in> set (take n (rev (lc_lru c')))" if "q \<in> set (lc_lru c')" "0 < user_refs c' q" for q
    using that 2(5,8) lru_calm_held [OF calm, of q] in_take_remove1 [of "rev (lc_lru c)" q n p] dist
    by auto
  then have "lru_calm n c'"
    using 2 calm lru_calm_charge [OF calm] length_remove1 [of p "lc_lru c"]
    by (auto simp: lru_calm_def dropped_def split: if_splits)
  then show thesis
    using Erased 2 dist by (metis set_remove1_eq)
qed

text \<open>
  An insertion removes at most one entry, the one with its key or else the oldest one, and runs its
  deleter.
\<close>

definition without :: "('p \<times> 'e) option \<Rightarrow> ('p \<Rightarrow> 'e option) \<Rightarrow> 'p \<Rightarrow> 'e option" where
  "without victim heap = (case victim of None \<Rightarrow> heap | Some (q, _) \<Rightarrow> heap(q := None))"

definition victim_effect :: "('p \<times> ('v, 'w) LRUHandle) option \<Rightarrow> 'w \<Rightarrow> 'w" where
  "victim_effect victim w = (case victim of None \<Rightarrow> w | Some (_, e) \<Rightarrow> run_deleter e w)"

lemma calm_inv_refs:
  assumes "lru_inv c" "p \<in> set (lc_lru c)" "user_refs c p = 0" "lc_heap c p = Some e"
  shows "lh_refs e = 1"
  using assms lru_inv_refs [OF assms(1,4)] by (auto simp: user_refs_def intro: refs_one)

lemma calm_attached:
  assumes "lru_inv c" "lru_detached c = {}"
  shows "dom (lc_heap c) = set (lc_lru c)"
  using assms lru_inv_live [OF assms(1)] by (auto simp: lru_detached_def)

lemma calm_Insert_attach:
  fixes c :: "('v, 'w) LRUCache"
  assumes calm: "lru_calm n c" and none: "lru_detached c = {}"
    and free: "\<And>q. lc_find key hash c = Some q \<Longrightarrow> user_refs c q = 0"
  obtains c' victim where
    "LRUCache_Insert key hash v 1 deleter c w = evict_as (lc_fresh c) c' (victim_effect victim w)"
    "map_option fst victim = lc_find key hash c"
    "\<And>q e. victim = Some (q, e) \<Longrightarrow> lc_heap c q = Some e"
    "lru_inv c'" "lc_capacity c' = lc_capacity c" "lru_detached c' = {}"
    "lc_lru c' = (case victim of None \<Rightarrow> lc_lru c | Some (q, _) \<Rightarrow> remove1 q (lc_lru c)) @ [lc_fresh c]"
    "user_refs c' = (user_refs c)(lc_fresh c := 1)" "unat (lc_usage c') = length (lc_lru c')"
    "lc_heap c' = (without victim (lc_heap c))(lc_fresh c \<mapsto> new_entry key hash v 1 deleter)"
proof -
  note inv = lru_calm_inv [OF calm]
  let ?victim = "map_option (\<lambda>q. (q, the (lc_heap c q))) (lc_find key hash c)"
  let ?lru = "case lc_find key hash c of None \<Rightarrow> lc_lru c | Some q \<Rightarrow> remove1 q (lc_lru c)"
  have usage: "unat (lc_usage c) = length (lc_lru c)"
    using calm none by (rule lru_calm_usage)
  obtain c' w' where 1: "LRUCache_Insert key hash v 1 deleter c w = evict_as (lc_fresh c) c' w'"
    "lru_inv c'" "lc_capacity c' = lc_capacity c" "lc_fresh c' = lc_fresh c + 1" "lc_lru c' = ?lru @ [lc_fresh c]"
    "user_refs c' = (user_refs c)(lc_fresh c := 1)"
    "unat (lc_usage c') = unat (lc_usage c) + unat (1 :: u64) -
       (case lc_find key hash c of None \<Rightarrow> 0 | Some q \<Rightarrow> freed_charge c q)"
    "lc_find key hash c = None \<Longrightarrow> w' = w \<and>
       lc_heap c' = (lc_heap c)(lc_fresh c \<mapsto> new_entry key hash v 1 deleter)"
    "\<And>q e. \<lbrakk>lc_find key hash c = Some q; lc_heap c q = Some e\<rbrakk> \<Longrightarrow> w' = drop_effect e w \<and>
       lc_heap c' = (lc_heap c)(lc_fresh c \<mapsto> new_entry key hash v 1 deleter, q := dropped e)"
    by (rule Insert_attach [OF inv _ _, of 1 key hash v deleter w]) (use usage lru_calmD(3,4) [OF calm] that in simp_all)
  have dom: "dom (lc_heap c) = set (lc_lru c)"
    using inv none by (rule calm_attached)
  have fresh: "lc_fresh c \<notin> set (lc_lru c)"
    using lru_inv_fresh [OF inv] unfolding dom [symmetric] by blast
  have "w' = victim_effect ?victim w \<and> unat (lc_usage c') = length (lc_lru c') \<and> lru_detached c' = {} \<and>
      lc_heap c' = (without ?victim (lc_heap c))(lc_fresh c \<mapsto> new_entry key hash v 1 deleter)"
  proof (cases "lc_find key hash c")
    case None
    then show ?thesis
      using 1(5,7,8) usage dom by (auto simp: victim_effect_def without_def lru_detached_def)
  next
    case (Some q)
    then obtain e where q: "q \<in> set (lc_lru c)" "lc_heap c q = Some e"
      using lc_find_Some [OF inv] by auto
    have e: "lh_refs e = 1" "lh_charge e = 1"
      using calm_inv_refs [OF inv q(1) free [OF Some] q(2)] lru_calm_charge [OF calm q(2)] .
    have "lc_heap c' = (lc_heap c)(lc_fresh c \<mapsto> new_entry key hash v 1 deleter, q := None)"
        "w' = run_deleter e w" "unat (lc_usage c') = unat (lc_usage c)"
      using 1(9) [OF Some q(2)] 1(7) Some q(2) e
      by (simp_all add: drop_effect_def dropped_def run_deleter_def freed_charge_def)
    moreover have "q \<noteq> lc_fresh c" "length (lc_lru c') = length (lc_lru c)"
      using q fresh 1(5) Some length_pos_if_in_set [OF q(1)] by (auto simp: length_remove1)
    ultimately show ?thesis
      using 1(5) usage dom q Some lru_inv_distinct [OF inv]
      by (auto simp: victim_effect_def without_def lru_detached_def fun_upd_twist)
  qed
  moreover have "lc_heap c q = Some (the (lc_heap c q))" if "lc_find key hash c = Some q" for q
    using that lc_find_Some [OF inv, of key hash q] by auto
  ultimately show thesis
    using 1(1-6) by (intro that [of c' ?victim]) (auto simp: option.case_eq_if option.map_comp comp_def option.map_ident)
qed

lemma calm_Insert:
  fixes c :: "('v, 'w) LRUCache"
  assumes calm: "lru_calm n c" and none: "lru_detached c = {}" and room: "n < unat (lc_capacity c)"
    and free: "\<And>q. lc_find key hash c = Some q \<Longrightarrow> user_refs c q = 0"
  obtains c' victim where
    "LRUCache_Insert key hash v 1 deleter c w = Some (lc_fresh c, c', victim_effect victim w)"
    "lru_calm (Suc n) c'" "lru_detached c' = {}" "lc_capacity c' = lc_capacity c"
    "\<And>q e. victim = Some (q, e) \<Longrightarrow> lc_heap c q = Some e \<and> user_refs c q = 0"
    "\<And>q. lc_find key hash c = Some q \<Longrightarrow> map_option fst victim = Some q"
    "lc_heap c' = (without victim (lc_heap c))(lc_fresh c \<mapsto> new_entry key hash v 1 deleter)"
    "user_refs c' = (user_refs c)(lc_fresh c := 1)" "lc_heap c (lc_fresh c) = None"
proof -
  note inv = lru_calm_inv [OF calm]
  have dist: "distinct (lc_lru c)" and dom: "dom (lc_heap c) = set (lc_lru c)"
    using lru_inv_distinct [OF inv] calm_attached [OF inv none] .
  have fresh: "lc_heap c (lc_fresh c) = None" "lc_fresh c \<notin> set (lc_lru c)"
    using lru_inv_fresh [OF inv, of "lc_fresh c"] dom by (cases "lc_heap c (lc_fresh c)"; auto)+
  obtain c1 victim where 1:
    "LRUCache_Insert key hash v 1 deleter c w = evict_as (lc_fresh c) c1 (victim_effect victim w)"
    "map_option fst victim = lc_find key hash c"
    "\<And>q e. victim = Some (q, e) \<Longrightarrow> lc_heap c q = Some e"
    "lru_inv c1" "lc_capacity c1 = lc_capacity c" "lru_detached c1 = {}"
    "lc_lru c1 = (case victim of None \<Rightarrow> lc_lru c | Some (q, _) \<Rightarrow> remove1 q (lc_lru c)) @ [lc_fresh c]"
    "user_refs c1 = (user_refs c)(lc_fresh c := 1)" "unat (lc_usage c1) = length (lc_lru c1)"
    "lc_heap c1 = (without victim (lc_heap c))(lc_fresh c \<mapsto> new_entry key hash v 1 deleter)"
    by (rule calm_Insert_attach [OF calm none free, of key hash v deleter w]) (assumption, rule that)
  have charge: "lh_charge e = 1" if "lc_heap c1 q = Some e" for q e
    using that lru_calm_charge [OF calm, of q e] unfolding 1(10)
    by (auto simp: without_def new_entry_def split: if_splits option.splits prod.splits)
  have held: "q \<in> set (take (Suc n) (rev (lc_lru c1)))" if "q \<in> set (lc_lru c1)" "0 < user_refs c1 q" for q
    using that lru_calm_held [OF calm, of q] dist fresh
      in_take_remove1 [of "rev (lc_lru c)" q n "fst (the victim)"] set_take_subset_set_take [of n "Suc n" "rev (lc_lru c)"]
    unfolding 1(7,8) by (auto simp: rev_remove1_distinct split: option.splits if_splits)
  show thesis
  proof (cases "lc_usage c1 \<le> lc_capacity c1")
    case True
    then have "lru_calm (Suc n) c1"
      using 1(4,5,9) charge held lru_calm_capacity [OF calm] by (simp add: lru_calm_def word_le_nat_alt)
    moreover have "user_refs c q = 0" if "victim = Some (q, e)" for q e
      using 1(2) that free by simp
    ultimately show thesis
      using True 1 fresh by (intro that [of c1 victim]) (simp_all add: evict_as_def evict_none)
  next
    case False
    have find: "victim = None"
    proof (rule ccontr)
      assume "victim \<noteq> None"
      then obtain q e where q: "victim = Some (q, e)"
        by auto
      then have "q \<in> set (lc_lru c)"
        using 1(2) lc_find_Some [OF inv, of key hash q] by auto
      then have "length (lc_lru c1) = length (lc_lru c)"
        using 1(7) q length_pos_if_in_set [of q "lc_lru c"] by (simp add: length_remove1)
      then show False
        using False 1(5,9) lru_calm_length [OF calm] by (simp add: word_le_nat_alt)
    qed
    then have full: "length (lc_lru c) = unat (lc_capacity c)" and "lc_find key hash c = None"
      using False 1(2,5,7,9) lru_calm_length [OF calm] by (simp_all add: word_le_nat_alt)
    then obtain p ps where lru: "lc_lru c = p # ps"
      using room full by (cases "lc_lru c") auto
    then obtain e where e: "lc_heap c p = Some e"
      using dom by auto
    have "p \<notin> set (take n (rev (lc_lru c)))"
      using dist full room lru by (auto dest: in_set_takeD)
    then have free_p: "user_refs c p = 0"
      using lru_calm_held [OF calm, of p] lru by auto
    then have refs: "lh_refs e = 1"
      using calm_inv_refs [OF inv _ _ e] lru by simp
    have e1: "lc_heap c1 p = Some e" "lc_lru c1 = p # (ps @ [lc_fresh c])"
      using 1(7,10) e find fresh by (auto simp: without_def lru)
    have "unat (lc_usage c1 - 1) = unat (lc_capacity c1)"
      using 1(5,9) e1(2) full lru unat_minus_one [of "lc_usage c1"] by (metis length_append_singleton length_Cons diff_Suc_1 list.size(4) nat.distinct(1) unsigned_0)
    then have usage: "lc_capacity c1 < lc_usage c1" "lc_usage c1 - lh_charge e \<le> lc_capacity c1"
      using False charge [OF e1(1)] by (simp_all add: word_le_nat_alt word_less_nat_alt)
    obtain c2 where 2: "evict c1 w = Some (c2, run_deleter e w)" "lru_inv c2" "lc_lru c2 = ps @ [lc_fresh c]"
        "lc_heap c2 = (lc_heap c1)(p := None)" "lc_capacity c2 = lc_capacity c1" "user_refs c2 = user_refs c1"
      using evict_one [OF 1(4) e1(2,1) refs usage, of w] unfolding run_deleter_def by metis
    have "q \<in> set (take (Suc n) (rev (lc_lru c2)))" if "q \<in> set (lc_lru c2)" "0 < user_refs c2 q" for q
      using held [of q] that e1(2) 2(3,6) full room lru by auto
    moreover have "lru_detached c2 = {}"
      using 1(6) 2(3,4) e1(2) by (auto simp: lru_detached_def)
    moreover have "lc_heap c2 = (without (Some (p, e)) (lc_heap c))(lc_fresh c \<mapsto> new_entry key hash v 1 deleter)"
      using 1(10) 2(4) find fresh lru by (auto simp: without_def)
    moreover have "lh_charge e = 1" if "lc_heap c2 q = Some e" for q e
      using that charge 2(4) by (auto split: if_splits)
    ultimately show thesis
      using 1 2 e free_p find fresh full lru lru_calm_capacity [OF calm] \<open>lc_find key hash c = None\<close>
      by (intro that [of c2 "Some (p, e)"]) (simp_all add: lru_calm_def evict_as_def victim_effect_def)
  qed
qed

end
