(* ===== verification/Sharded_Cache.thy ===== *)
theory Sharded_Cache
  imports Lru_Cache
begin

unbundle bit_operations_syntax

text \<open>
  \<open>ShardedLRUCache\<close> of \<open>lib/leveldb/util/cache.cc\<close>: sixteen \<open>LRUCache\<close>s, chosen by the high bits of
  the hash of the key.  A handle is a shard number and an address in that shard's heap.  The locale
  \<open>entry_cache\<close> states what the inode cache relies on: a heap of reference-counted entries, at most
  one attached entry per key, and no entry freed while a user holds it.
\<close>

section \<open>Operations\<close>

datatype cache_ptr = Handle (h_shard: nat) (h_addr: nat)

definition kNumShardBits :: nat where "kNumShardBits = 4"

definition kNumShards :: nat where "kNumShards = 2 ^ kNumShardBits"

record ('v, 'w) ShardedLRUCache =
  sh_shards :: "('v, 'w) LRUCache list"
  sh_last_id :: u64

definition HashSlice :: "bytes \<Rightarrow> u32" where
  "HashSlice s = Hash s 0"

definition Shard :: "u32 \<Rightarrow> nat" where
  "Shard hash = unat (drop_bit (32 - kNumShardBits) hash)"

definition ShardedLRUCache_new :: "u64 \<Rightarrow> ('v, 'w) ShardedLRUCache" where
  "ShardedLRUCache_new capacity =
     (let per_shard = (capacity + of_nat (kNumShards - 1)) div of_nat kNumShards
      in \<lparr>sh_shards = replicate kNumShards (LRUCache_new per_shard), sh_last_id = 0\<rparr>)"

definition with_shard :: "nat \<Rightarrow> ('v, 'w) LRUCache \<Rightarrow> ('v, 'w) ShardedLRUCache \<Rightarrow> ('v, 'w) ShardedLRUCache" where
  "with_shard i c s = s\<lparr>sh_shards := (sh_shards s)[i := c]\<rparr>"

definition Sharded_Insert ::
  "bytes \<Rightarrow> 'v \<Rightarrow> u64 \<Rightarrow> (bytes \<Rightarrow> 'v \<Rightarrow> 'w \<Rightarrow> 'w) \<Rightarrow> ('v, 'w) ShardedLRUCache \<Rightarrow> 'w \<Rightarrow>
   (cache_ptr \<times> ('v, 'w) ShardedLRUCache \<times> 'w) option" where
  "Sharded_Insert key value charge deleter s w =
     (let hash = HashSlice key; i = Shard hash
      in do {
           (p, c, w') \<leftarrow> LRUCache_Insert key hash value charge deleter (sh_shards s ! i) w;
           Some (Handle i p, with_shard i c s, w')
         })"

definition Sharded_Lookup ::
  "bytes \<Rightarrow> ('v, 'w) ShardedLRUCache \<Rightarrow> cache_ptr option \<times> ('v, 'w) ShardedLRUCache" where
  "Sharded_Lookup key s =
     (let hash = HashSlice key; i = Shard hash;
          (found, c) = LRUCache_Lookup key hash (sh_shards s ! i)
      in (map_option (Handle i) found, with_shard i c s))"

text \<open>The entry behind a handle; \<open>None\<close> once it has been freed.\<close>

definition sc_entry :: "('v, 'w) ShardedLRUCache \<Rightarrow> cache_ptr \<Rightarrow> ('v, 'w) LRUHandle option" where
  "sc_entry s ptr = (if h_shard ptr < kNumShards then lc_heap (sh_shards s ! h_shard ptr) (h_addr ptr) else None)"

definition Sharded_Release ::
  "cache_ptr \<Rightarrow> ('v, 'w) ShardedLRUCache \<Rightarrow> 'w \<Rightarrow> (('v, 'w) ShardedLRUCache \<times> 'w) option" where
  "Sharded_Release handle s w =
     do {
       h \<leftarrow> sc_entry s handle;
       let i = Shard (lh_hash h);
       (c, w') \<leftarrow> (if i = h_shard handle then LRUCache_Release (h_addr handle) (sh_shards s ! i) w else None);
       Some (with_shard i c s, w')
     }"

definition Sharded_Erase ::
  "bytes \<Rightarrow> ('v, 'w) ShardedLRUCache \<Rightarrow> 'w \<Rightarrow> (('v, 'w) ShardedLRUCache \<times> 'w) option" where
  "Sharded_Erase key s w =
     (let hash = HashSlice key; i = Shard hash
      in do {
           (c, w') \<leftarrow> LRUCache_Erase key hash (sh_shards s ! i) w;
           Some (with_shard i c s, w')
         })"

definition Sharded_Value :: "cache_ptr \<Rightarrow> ('v, 'w) ShardedLRUCache \<Rightarrow> 'v option" where
  "Sharded_Value handle s = map_option lh_value (sc_entry s handle)"

text \<open>An assignment to the object that \<open>Value\<close> points to.\<close>

definition Sharded_assign ::
  "cache_ptr \<Rightarrow> 'v \<Rightarrow> ('v, 'w) ShardedLRUCache \<Rightarrow> ('v, 'w) ShardedLRUCache option" where
  "Sharded_assign handle value s =
     do {
       h \<leftarrow> sc_entry s handle;
       let c = sh_shards s ! h_shard handle;
       Some (with_shard (h_shard handle) (c\<lparr>lc_heap := (lc_heap c)(h_addr handle \<mapsto> h\<lparr>lh_value := value\<rparr>)\<rparr>) s)
     }"

definition Sharded_NewId :: "('v, 'w) ShardedLRUCache \<Rightarrow> u64 \<times> ('v, 'w) ShardedLRUCache" where
  "Sharded_NewId s = (sh_last_id s + 1, s\<lparr>sh_last_id := sh_last_id s + 1\<rparr>)"

text \<open>The members of an array are destroyed from the last to the first.\<close>

fun destroy_shards :: "('v, 'w) LRUCache list \<Rightarrow> 'w \<Rightarrow> 'w option" where
  "destroy_shards [] w = Some w"
| "destroy_shards (c # cs) w = do { w' \<leftarrow> destroy_shards cs w; LRUCache_destroy c w' }"

definition Sharded_destroy :: "('v, 'w) ShardedLRUCache \<Rightarrow> 'w \<Rightarrow> 'w option" where
  "Sharded_destroy s w = destroy_shards (sh_shards s) w"

section \<open>The contract\<close>

text \<open>
  \<open>inv n s\<close>: at most the \<open>n\<close> newest entries of a shard are both attached and held.  \<open>refs\<close> counts
  the references users hold and \<open>detached\<close> are the entries that are only alive because of them.
\<close>

locale entry_cache =
  fixes look :: "bytes \<Rightarrow> 's \<Rightarrow> 'p option \<times> 's"
    and ins :: "bytes \<Rightarrow> 'v \<Rightarrow> u64 \<Rightarrow> (bytes \<Rightarrow> 'v \<Rightarrow> 'w \<Rightarrow> 'w) \<Rightarrow> 's \<Rightarrow> 'w \<Rightarrow> ('p \<times> 's \<times> 'w) option"
    and release :: "'p \<Rightarrow> 's \<Rightarrow> 'w \<Rightarrow> ('s \<times> 'w) option"
    and erase :: "bytes \<Rightarrow> 's \<Rightarrow> 'w \<Rightarrow> ('s \<times> 'w) option"
    and assign :: "'p \<Rightarrow> 'v \<Rightarrow> 's \<Rightarrow> 's option"
    and entry :: "'s \<Rightarrow> 'p \<Rightarrow> ('v, 'w) LRUHandle option"
    and refs :: "'s \<Rightarrow> 'p \<Rightarrow> nat"
    and detached :: "'s \<Rightarrow> 'p set"
    and find :: "'s \<Rightarrow> bytes \<Rightarrow> 'p option"
    and hash :: "bytes \<Rightarrow> u32"
    and capacity :: "'s \<Rightarrow> nat"
    and inv :: "nat \<Rightarrow> 's \<Rightarrow> bool"
  assumes find_iff: "inv n s \<Longrightarrow>
      find s key = Some ptr \<longleftrightarrow> ptr \<notin> detached s \<and> (\<exists>e. entry s ptr = Some e \<and> lh_key e = key)"
    and entry_refs: "inv n s \<Longrightarrow> entry s ptr = Some e \<Longrightarrow>
      unat (lh_refs e) = refs s ptr + (if ptr \<in> detached s then 0 else 1)"
    and detached_live: "inv n s \<Longrightarrow> ptr \<in> detached s \<Longrightarrow> \<exists>e. entry s ptr = Some e \<and> 0 < lh_refs e"
    and refs_live: "inv n s \<Longrightarrow> 0 < refs s ptr \<Longrightarrow> \<exists>e. entry s ptr = Some e"
    and inv_mono: "inv n s \<Longrightarrow> n \<le> m \<Longrightarrow> inv m s"
    and inv_quiet: "inv n s \<Longrightarrow> (\<And>ptr. refs s ptr = 0) \<Longrightarrow> inv 0 s"
    and look_miss: "inv n s \<Longrightarrow> find s key = None \<Longrightarrow> look key s = (None, s)"
    and look_hit: "inv n s \<Longrightarrow> find s key = Some ptr \<Longrightarrow> entry s ptr = Some e \<Longrightarrow> refs s ptr + 2 < 2 ^ 32 \<Longrightarrow>
      \<exists>s'. look key s = (Some ptr, s') \<and> inv (Suc n) s' \<and> capacity s' = capacity s \<and>
        entry s' = (entry s)(ptr \<mapsto> e\<lparr>lh_refs := lh_refs e + 1\<rparr>) \<and>
        refs s' = (refs s)(ptr := refs s ptr + 1) \<and> detached s' = detached s"
    and ins_new: "inv n s \<Longrightarrow> n < capacity s \<Longrightarrow> detached s = {} \<Longrightarrow>
      (\<And>q. find s key = Some q \<Longrightarrow> refs s q = 0) \<Longrightarrow>
      \<exists>ptr s' victim. ins key v 1 del s w = Some (ptr, s', victim_effect victim w) \<and>
        inv (Suc n) s' \<and> capacity s' = capacity s \<and> detached s' = {} \<and> entry s ptr = None \<and>
        entry s' = (without victim (entry s))(ptr \<mapsto> new_entry key (hash key) v 1 del) \<and>
        refs s' = (refs s)(ptr := 1) \<and>
        (\<forall>q e. victim = Some (q, e) \<longrightarrow> entry s q = Some e \<and> refs s q = 0) \<and>
        (\<forall>q. find s key = Some q \<longrightarrow> map_option fst victim = Some q)"
    and release_held: "inv n s \<Longrightarrow> 0 < refs s ptr \<Longrightarrow> entry s ptr = Some e \<Longrightarrow>
      \<exists>s'. release ptr s w = Some (s', drop_effect e w) \<and> inv n s' \<and> capacity s' = capacity s \<and>
        entry s' = (entry s)(ptr := dropped e) \<and> refs s' = (refs s)(ptr := refs s ptr - 1) \<and>
        detached s' = (if lh_refs e = 1 then detached s - {ptr} else detached s)"
    and erase_absent: "inv n s \<Longrightarrow> find s key = None \<Longrightarrow> erase key s w = Some (s, w)"
    and erase_found: "inv n s \<Longrightarrow> find s key = Some ptr \<Longrightarrow> entry s ptr = Some e \<Longrightarrow>
      \<exists>s'. erase key s w = Some (s', drop_effect e w) \<and> inv n s' \<and> capacity s' = capacity s \<and>
        entry s' = (entry s)(ptr := dropped e) \<and> refs s' = refs s \<and>
        detached s' = (if lh_refs e = 1 then detached s else insert ptr (detached s))"
    and assign_live: "inv n s \<Longrightarrow> entry s ptr = Some e \<Longrightarrow>
      \<exists>s'. assign ptr v s = Some s' \<and> inv n s' \<and> capacity s' = capacity s \<and>
        entry s' = (entry s)(ptr \<mapsto> e\<lparr>lh_value := v\<rparr>) \<and> refs s' = refs s \<and> detached s' = detached s"
begin

text \<open>A held entry survives every operation but its own release.\<close>

lemma held_survives_erase:
  assumes "inv n s" "entry s ptr = Some e" "0 < refs s ptr"
  shows "\<exists>s' w' e'. erase key s w = Some (s', w') \<and> entry s' ptr = Some e' \<and> lh_value e' = lh_value e"
proof (cases "find s key")
  case None
  then show ?thesis
    using assms erase_absent by metis
next
  case (Some q)
  then obtain d where d: "entry s q = Some d"
    using find_iff assms(1) by blast
  obtain s' where s': "erase key s w = Some (s', drop_effect d w)" "entry s' = (entry s)(q := dropped d)"
    using erase_found [OF assms(1) Some d] by blast
  show ?thesis
  proof (cases "q = ptr")
    case True
    then have "lh_refs d \<noteq> 1"
      using entry_refs [OF assms(1) d] find_iff [OF assms(1)] Some assms(3) by auto
    then show ?thesis
      using s' d True assms(2) by (auto simp: dropped_def)
  qed (use s' assms(2) in auto)
qed

end

section \<open>The sharded cache meets the contract\<close>

lemma kNumShards_simp [simp]: "kNumShards = 16"
  by (simp add: kNumShards_def kNumShardBits_def)

lemma Shard_less [simp]: "Shard hash < 16"
proof -
  have "unat (drop_bit 28 hash) = unat hash div 2 ^ 28"
    by (rule unat_drop_bit_div)
  moreover have "unat hash < 2 ^ 32"
    using unsigned_less [of hash] by simp
  ultimately show ?thesis
    by (simp add: Shard_def kNumShardBits_def less_mult_imp_div_less)
qed

definition sc_refs :: "('v, 'w) ShardedLRUCache \<Rightarrow> cache_ptr \<Rightarrow> nat" where
  "sc_refs s ptr = (if h_shard ptr < kNumShards then user_refs (sh_shards s ! h_shard ptr) (h_addr ptr) else 0)"

definition sc_detached :: "('v, 'w) ShardedLRUCache \<Rightarrow> cache_ptr set" where
  "sc_detached s = {ptr. h_shard ptr < kNumShards \<and> h_addr ptr \<in> lru_detached (sh_shards s ! h_shard ptr)}"

definition sc_find :: "('v, 'w) ShardedLRUCache \<Rightarrow> bytes \<Rightarrow> cache_ptr option" where
  "sc_find s key =
     (let i = Shard (HashSlice key) in map_option (Handle i) (lc_find key (HashSlice key) (sh_shards s ! i)))"

definition sc_capacity :: "('v, 'w) ShardedLRUCache \<Rightarrow> nat" where
  "sc_capacity s = unat (lc_capacity (sh_shards s ! 0))"

definition shard_ok :: "nat \<Rightarrow> nat \<Rightarrow> nat \<Rightarrow> ('v, 'w) LRUCache \<Rightarrow> bool" where
  "shard_ok n capacity i c \<longleftrightarrow>
     lru_calm n c \<and> unat (lc_capacity c) = capacity \<and>
     (\<forall>p e. lc_heap c p = Some e \<longrightarrow> lh_hash e = HashSlice (lh_key e) \<and> Shard (HashSlice (lh_key e)) = i)"

definition sc_inv :: "nat \<Rightarrow> ('v, 'w) ShardedLRUCache \<Rightarrow> bool" where
  "sc_inv n s \<longleftrightarrow>
     length (sh_shards s) = kNumShards \<and> (\<forall>i < kNumShards. shard_ok n (sc_capacity s) i (sh_shards s ! i))"

lemma sc_inv_shard: "sc_inv n s \<Longrightarrow> i < 16 \<Longrightarrow> shard_ok n (sc_capacity s) i (sh_shards s ! i)"
  by (simp add: sc_inv_def)

lemma shard_okD:
  assumes "shard_ok n cap i c"
  shows shard_ok_calm: "lru_calm n c"
    and shard_ok_inv: "lru_inv c"
    and shard_ok_hash: "lc_heap c p = Some e \<Longrightarrow> lh_hash e = HashSlice (lh_key e) \<and> Shard (HashSlice (lh_key e)) = i"
    and shard_ok_capacity: "unat (lc_capacity c) = cap"
  using assms lru_calm_inv by (auto simp: shard_ok_def)

lemma sc_inv_new: "unat ((capacity + 15) div 16) < 2 ^ 31 \<Longrightarrow> sc_inv n (ShardedLRUCache_new capacity)"
  by (simp add: sc_inv_def shard_ok_def ShardedLRUCache_new_def sc_capacity_def lru_calm_new)
    (simp add: LRUCache_new_def)

lemma sc_new_simps [simp]:
  "sc_entry (ShardedLRUCache_new capacity) ptr = None"
  "sc_refs (ShardedLRUCache_new capacity) ptr = 0"
  "sc_detached (ShardedLRUCache_new capacity) = {}"
  "sc_capacity (ShardedLRUCache_new capacity) = unat ((capacity + 15) div 16)"
  by (auto simp: sc_entry_def sc_refs_def sc_detached_def sc_capacity_def ShardedLRUCache_new_def
      LRUCache_new_def user_refs_def lru_detached_def)

lemma shard_ok_mono: "shard_ok n cap i c \<Longrightarrow> n \<le> m \<Longrightarrow> shard_ok m cap i c"
  using lru_calm_mono by (auto simp: shard_ok_def)

lemma shard_ok_quiet:
  assumes "shard_ok n cap i c" "\<And>p. user_refs c p = 0"
  shows "shard_ok 0 cap i c"
  using assms by (simp add: shard_ok_def lru_calm_def)

text \<open>Replacing one shard.\<close>

lemma sc_inv_with_shard:
  assumes inv: "sc_inv n s" and "n \<le> m" "i < 16" and ok: "shard_ok m (sc_capacity s) i c"
  shows "sc_inv m (with_shard i c s)" "sc_capacity (with_shard i c s) = sc_capacity s"
proof -
  have len: "length (sh_shards s) = 16"
    using inv by (simp add: sc_inv_def)
  show cap: "sc_capacity (with_shard i c s) = sc_capacity s"
    using len assms(3) shard_ok_capacity [OF ok] by (cases i) (auto simp: sc_capacity_def with_shard_def)
  have "shard_ok m (sc_capacity s) j ((sh_shards s)[i := c] ! j)" if "j < 16" for j
    using len that sc_inv_shard [OF inv that, THEN shard_ok_mono, OF assms(2)] ok by (cases "j = i") auto
  then show "sc_inv m (with_shard i c s)"
    unfolding sc_inv_def cap using len by (simp add: with_shard_def)
qed

lemma with_shard_simps:
  assumes "length (sh_shards s) = 16" "i < 16"
  shows "sc_entry (with_shard i c s) = (\<lambda>ptr. if h_shard ptr = i then lc_heap c (h_addr ptr) else sc_entry s ptr)"
    and "sc_refs (with_shard i c s) = (\<lambda>ptr. if h_shard ptr = i then user_refs c (h_addr ptr) else sc_refs s ptr)"
    and "sc_detached (with_shard i c s) =
      {ptr. if h_shard ptr = i then h_addr ptr \<in> lru_detached c else ptr \<in> sc_detached s}"
  using assms by (auto simp: sc_entry_def sc_refs_def sc_detached_def with_shard_def nth_list_update)

lemma with_shard_same: "length (sh_shards s) = 16 \<Longrightarrow> with_shard i (sh_shards s ! i) s = s"
  by (simp add: with_shard_def)

lemma shard_views:
  "i < 16 \<Longrightarrow> sc_entry s (Handle i p) = lc_heap (sh_shards s ! i) p"
  "i < 16 \<Longrightarrow> sc_refs s (Handle i p) = user_refs (sh_shards s ! i) p"
  "i < 16 \<Longrightarrow> (Handle i p) \<in> sc_detached s \<longleftrightarrow> p \<in> lru_detached (sh_shards s ! i)"
  by (simp_all add: sc_entry_def sc_refs_def sc_detached_def)

lemma sc_find_iff:
  assumes inv: "sc_inv n s"
  shows "sc_find s key = Some ptr \<longleftrightarrow> ptr \<notin> sc_detached s \<and> (\<exists>e. sc_entry s ptr = Some e \<and> lh_key e = key)"
proof -
  obtain i p where ptr: "ptr = Handle i p"
    by (cases ptr)
  let ?i = "Shard (HashSlice key)"
  note ok = sc_inv_shard [OF inv]
  have "sc_find s key = Some ptr \<longleftrightarrow> i = ?i \<and> p \<in> set (lc_lru (sh_shards s ! ?i)) \<and>
      (\<exists>e. lc_heap (sh_shards s ! ?i) p = Some e \<and> lh_hash e = HashSlice key \<and> lh_key e = key)"
    using lc_find_Some [OF shard_ok_inv [OF ok [of ?i]], of key "HashSlice key" p]
    by (auto simp: sc_find_def ptr Let_def)
  also have "\<dots> \<longleftrightarrow> ptr \<notin> sc_detached s \<and> (\<exists>e. sc_entry s ptr = Some e \<and> lh_key e = key)"
    using shard_ok_hash [OF ok [of i], of p] lru_inv_live [OF shard_ok_inv [OF ok [of i]], of p]
    by (cases "i < 16") (auto simp: sc_entry_def sc_detached_def ptr lru_detached_def)
  finally show ?thesis .
qed

lemma cache_ptr_eq: "ptr = Handle i p \<longleftrightarrow> h_shard ptr = i \<and> h_addr ptr = p"
  by (cases ptr) auto

lemma with_shard_upd:
  assumes "length (sh_shards s) = 16" "i < 16"
  shows "lc_heap c = (lc_heap (sh_shards s ! i))(p := x) \<Longrightarrow>
      sc_entry (with_shard i c s) = (sc_entry s)((Handle i p) := x)"
    and "user_refs c = (user_refs (sh_shards s ! i))(p := r) \<Longrightarrow>
      sc_refs (with_shard i c s) = (sc_refs s)((Handle i p) := r)"
    and "user_refs c = user_refs (sh_shards s ! i) \<Longrightarrow> sc_refs (with_shard i c s) = sc_refs s"
  using assms(2) unfolding with_shard_simps [OF assms]
  by (auto simp: cache_ptr_eq sc_entry_def sc_refs_def intro!: ext)

lemma with_shard_detached:
  assumes "length (sh_shards s) = 16" "i < 16"
  shows "lru_detached c = lru_detached (sh_shards s ! i) \<Longrightarrow> sc_detached (with_shard i c s) = sc_detached s"
    and "lru_detached c = lru_detached (sh_shards s ! i) - {p} \<Longrightarrow>
      sc_detached (with_shard i c s) = sc_detached s - {(Handle i p)}"
    and "lru_detached c = insert p (lru_detached (sh_shards s ! i)) \<Longrightarrow>
      sc_detached (with_shard i c s) = insert (Handle i p) (sc_detached s)"
  using assms by (simp_all add: sc_detached_def with_shard_def nth_list_update set_eq_iff cache_ptr_eq)

lemma sc_inv_length: "sc_inv n s \<Longrightarrow> length (sh_shards s) = 16"
  by (simp add: sc_inv_def)

lemma sc_entry_refs:
  assumes "sc_inv n s" "sc_entry s ptr = Some e"
  shows "unat (lh_refs e) = sc_refs s ptr + (if ptr \<in> sc_detached s then 0 else 1)" and "0 < lh_refs e"
proof -
  obtain i p where ptr: "ptr = Handle i p" and i: "i < 16"
    using assms(2) by (cases ptr) (auto simp: sc_entry_def split: if_splits)
  have "lru_inv (sh_shards s ! i)"
    by (rule shard_ok_inv [OF sc_inv_shard [OF assms(1) i]])
  then show "0 < lh_refs e" "unat (lh_refs e) = sc_refs s ptr + (if ptr \<in> sc_detached s then 0 else 1)"
    using assms(2) lru_inv_refs [of "sh_shards s ! i" p e]
    by (auto simp: ptr shard_views [OF i] user_refs_def lru_detached_def word_less_nat_alt)
qed

lemma sc_Lookup_hit:
  assumes inv: "sc_inv n s" and find: "sc_find s key = Some ptr" and e: "sc_entry s ptr = Some e"
    and few: "sc_refs s ptr + 2 < 2 ^ 32"
  shows "\<exists>s'. Sharded_Lookup key s = (Some ptr, s') \<and> sc_inv (Suc n) s' \<and> sc_capacity s' = sc_capacity s \<and>
    sc_entry s' = (sc_entry s)(ptr \<mapsto> e\<lparr>lh_refs := lh_refs e + 1\<rparr>) \<and>
    sc_refs s' = (sc_refs s)(ptr := sc_refs s ptr + 1) \<and> sc_detached s' = sc_detached s"
proof -
  let ?h = "HashSlice key"
  let ?i = "Shard ?h"
  let ?c = "sh_shards s ! ?i"
  obtain p where ptr: "ptr = Handle ?i p" and p: "lc_find key ?h ?c = Some p"
    using find by (auto simp: sc_find_def Let_def)
  note ok = sc_inv_shard [OF inv Shard_less [of ?h]]
  have e': "lc_heap ?c p = Some e"
    using e by (simp add: ptr shard_views)
  have "\<forall>q. lc_find key ?h ?c = Some q \<longrightarrow> user_refs ?c q + 2 < 2 ^ 32"
    using few p by (simp add: ptr shard_views)
  note look = calm_Lookup [OF shard_ok_calm [OF ok] this]
  show ?thesis
  proof (cases rule: look)
    case (2 q d c')
    then have q: "q = p" "d = e"
      using p e' by auto
    have ok': "shard_ok (Suc n) (sc_capacity s) ?i c'"
      using 2 ok e' unfolding shard_ok_def q by (auto split: if_splits)
    have "sc_entry (with_shard ?i c' s) = (sc_entry s)(ptr \<mapsto> e\<lparr>lh_refs := lh_refs e + 1\<rparr>)"
        "sc_refs (with_shard ?i c' s) = (sc_refs s)(ptr := sc_refs s ptr + 1)"
        "sc_detached (with_shard ?i c' s) = sc_detached s"
      using 2(5,6,8) e' unfolding ptr q
      by (auto simp: shard_views lru_detached_def intro!: with_shard_upd [OF sc_inv_length [OF inv]]
      with_shard_detached [OF sc_inv_length [OF inv]])
    then show ?thesis
      using 2(3) sc_inv_with_shard [OF inv _ Shard_less ok'] by (simp add: Sharded_Lookup_def ptr q Let_def)
  qed (use p in simp)
qed

lemma sc_Lookup_miss:
  assumes inv: "sc_inv n s" and find: "sc_find s key = None"
  shows "Sharded_Lookup key s = (None, s)"
proof -
  let ?h = "HashSlice key"
  have "lc_find key ?h (sh_shards s ! Shard ?h) = None"
    using find by (simp add: sc_find_def Let_def)
  then show ?thesis
    by (simp add: Sharded_Lookup_def LRUCache_Lookup_def lc_find_def with_shard_same [OF sc_inv_length [OF inv]])
qed

lemma sc_Release:
  assumes inv: "sc_inv n s" and held: "0 < sc_refs s ptr" and e: "sc_entry s ptr = Some e"
  shows "\<exists>s'. Sharded_Release ptr s w = Some (s', drop_effect e w) \<and> sc_inv n s' \<and>
    sc_capacity s' = sc_capacity s \<and> sc_entry s' = (sc_entry s)(ptr := dropped e) \<and>
    sc_refs s' = (sc_refs s)(ptr := sc_refs s ptr - 1) \<and>
    sc_detached s' = (if lh_refs e = 1 then sc_detached s - {ptr} else sc_detached s)"
proof -
  obtain i p where ptr: "ptr = Handle i p" and i: "i < 16"
    using e by (cases ptr) (auto simp: sc_entry_def split: if_splits)
  let ?c = "sh_shards s ! i"
  note ok = sc_inv_shard [OF inv i]
  have e': "lc_heap ?c p = Some e" and held': "0 < user_refs ?c p"
    using e held i by (simp_all add: ptr shard_views)
  obtain c' where 1: "LRUCache_Release p ?c w = Some (c', drop_effect e w)" "lru_calm n c'"
    "lc_lru c' = lc_lru ?c" "lc_heap c' = (lc_heap ?c)(p := dropped e)" "lc_capacity c' = lc_capacity ?c"
    "user_refs c' = (user_refs ?c)(p := user_refs ?c p - 1)"
    using calm_Release [OF shard_ok_calm [OF ok] held', of w] e' by (metis option.inject)
  have ok': "shard_ok n (sc_capacity s) i c'"
    using 1 ok e' unfolding shard_ok_def by (auto simp: dropped_def split: if_splits)
  have "p \<in> set (lc_lru ?c) \<Longrightarrow> lh_refs e \<noteq> 1"
    using held' e' by (auto simp: user_refs_def)
  then have "sc_entry (with_shard i c' s) = (sc_entry s)(ptr := dropped e)"
      "sc_refs (with_shard i c' s) = (sc_refs s)(ptr := sc_refs s ptr - 1)"
      "sc_detached (with_shard i c' s) = (if lh_refs e = 1 then sc_detached s - {ptr} else sc_detached s)"
    using 1(3,4,6) i e' unfolding ptr
    by (auto simp: shard_views lru_detached_def dropped_def intro!: with_shard_upd [OF sc_inv_length [OF inv]]
      with_shard_detached [OF sc_inv_length [OF inv]])
  moreover have "Shard (lh_hash e) = i"
    using shard_ok_hash [OF ok e'] by simp
  ultimately show ?thesis
    using 1(1) e sc_inv_with_shard [OF inv _ i ok'] by (simp add: Sharded_Release_def ptr)
qed

lemma sc_Erase_absent:
  assumes inv: "sc_inv n s" and find: "sc_find s key = None"
  shows "Sharded_Erase key s w = Some (s, w)"
proof -
  let ?h = "HashSlice key"
  have "lc_find key ?h (sh_shards s ! Shard ?h) = None"
    using find by (simp add: sc_find_def Let_def)
  then show ?thesis
    by (cases rule: calm_Erase [OF shard_ok_calm [OF sc_inv_shard [OF inv Shard_less [of ?h]]], of key ?h w])
      (simp_all add: Sharded_Erase_def Let_def with_shard_same [OF sc_inv_length [OF inv]])
qed

lemma sc_Erase_found:
  assumes inv: "sc_inv n s" and find: "sc_find s key = Some ptr" and e: "sc_entry s ptr = Some e"
  shows "\<exists>s'. Sharded_Erase key s w = Some (s', drop_effect e w) \<and> sc_inv n s' \<and>
    sc_capacity s' = sc_capacity s \<and> sc_entry s' = (sc_entry s)(ptr := dropped e) \<and> sc_refs s' = sc_refs s \<and>
    sc_detached s' = (if lh_refs e = 1 then sc_detached s else insert ptr (sc_detached s))"
proof -
  let ?h = "HashSlice key"
  let ?i = "Shard ?h"
  let ?c = "sh_shards s ! ?i"
  obtain p where ptr: "ptr = Handle ?i p" and p: "lc_find key ?h ?c = Some p"
    using find by (auto simp: sc_find_def Let_def)
  note ok = sc_inv_shard [OF inv Shard_less [of ?h]]
  have e': "lc_heap ?c p = Some e"
    using e by (simp add: ptr shard_views)
  have att: "p \<in> set (lc_lru ?c)"
    using p lc_find_Some [OF shard_ok_inv [OF ok]] by blast
  show ?thesis
  proof (cases rule: calm_Erase [OF shard_ok_calm [OF ok], of key ?h w])
    case (2 q d c')
    then have q: "q = p" "d = e"
      using p e' by auto
    have ok': "shard_ok n (sc_capacity s) ?i c'"
      using 2 ok e' unfolding shard_ok_def q by (auto simp: dropped_def split: if_splits)
    have "sc_entry (with_shard ?i c' s) = (sc_entry s)(ptr := dropped e)"
        "sc_refs (with_shard ?i c' s) = sc_refs s"
        "sc_detached (with_shard ?i c' s) = (if lh_refs e = 1 then sc_detached s else insert ptr (sc_detached s))"
    proof -
      note len = sc_inv_length [OF inv]
      show "sc_entry (with_shard ?i c' s) = (sc_entry s)(ptr := dropped e)"
        using 2(6) unfolding ptr q by (rule with_shard_upd(1) [OF len Shard_less])
      show "sc_refs (with_shard ?i c' s) = sc_refs s"
        using 2(8) by (rule with_shard_upd(3) [OF len Shard_less])
      have "lru_detached c' = (if lh_refs e = 1 then lru_detached ?c else insert p (lru_detached ?c))"
        using 2(5,6) e' att unfolding q by (auto simp: lru_detached_def dropped_def)
      then show "sc_detached (with_shard ?i c' s) =
          (if lh_refs e = 1 then sc_detached s else insert ptr (sc_detached s))"
        using with_shard_detached(1,3) [OF len Shard_less [of ?h], where c = c'] by (simp add: ptr split: if_splits)
    qed
    then show ?thesis
      using 2(3) sc_inv_with_shard [OF inv _ Shard_less ok'] by (simp add: Sharded_Erase_def ptr q Let_def)
  qed (use p in simp)
qed

lemma sc_assign:
  assumes inv: "sc_inv n s" and e: "sc_entry s ptr = Some e"
  shows "\<exists>s'. Sharded_assign ptr v s = Some s' \<and> sc_inv n s' \<and> sc_capacity s' = sc_capacity s \<and>
    sc_entry s' = (sc_entry s)(ptr \<mapsto> e\<lparr>lh_value := v\<rparr>) \<and> sc_refs s' = sc_refs s \<and>
    sc_detached s' = sc_detached s"
proof -
  obtain i p where ptr: "ptr = Handle i p" and i: "i < 16"
    using e by (cases ptr) (auto simp: sc_entry_def split: if_splits)
  let ?c = "sh_shards s ! i"
  let ?e = "e\<lparr>lh_value := v\<rparr>"
  let ?c' = "?c\<lparr>lc_heap := (lc_heap ?c)(p \<mapsto> ?e)\<rparr>"
  note ok = sc_inv_shard [OF inv i]
  note inv_c = shard_ok_inv [OF ok]
  have e': "lc_heap ?c p = Some e"
    using e i by (simp add: ptr shard_views)
  have "heap_deref (lc_heap ?c') = heap_deref (lc_heap ?c)"
    using e' by (intro ext heap_deref_same) auto
  moreover have "unat (lc_usage ?c') = total_charge (lc_heap ?c')"
    using total_charge_update [OF lru_inv_finite [OF inv_c] e', of ?e] lru_inv_usage [OF inv_c] by simp
  ultimately have "lru_inv ?c'"
    using inv_c e' unfolding lru_inv_def by (auto split: if_splits)
  moreover have refs: "user_refs ?c' = user_refs ?c"
    using e' by (auto simp: user_refs_def fun_eq_iff)
  ultimately have ok': "shard_ok n (sc_capacity s) i ?c'"
    using ok e' unfolding shard_ok_def lru_calm_def by (auto split: if_splits)
  have "sc_entry (with_shard i ?c' s) = (sc_entry s)(ptr \<mapsto> ?e)" "sc_refs (with_shard i ?c' s) = sc_refs s"
      "sc_detached (with_shard i ?c' s) = sc_detached s"
    using i refs e' unfolding ptr
    by (auto simp: lru_detached_def intro!: with_shard_upd [OF sc_inv_length [OF inv]]
        with_shard_detached [OF sc_inv_length [OF inv]])
  then show ?thesis
    using e sc_inv_with_shard [OF inv _ i ok'] by (simp add: Sharded_assign_def ptr Let_def)
qed

lemma sc_Insert:
  assumes inv: "sc_inv n s" and room: "n < sc_capacity s" and none: "sc_detached s = {}"
    and free: "\<And>q. sc_find s key = Some q \<Longrightarrow> sc_refs s q = 0"
  shows "\<exists>ptr s' victim. Sharded_Insert key v 1 del s w = Some (ptr, s', victim_effect victim w) \<and>
    sc_inv (Suc n) s' \<and> sc_capacity s' = sc_capacity s \<and> sc_detached s' = {} \<and> sc_entry s ptr = None \<and>
    sc_entry s' = (without victim (sc_entry s))(ptr \<mapsto> new_entry key (HashSlice key) v 1 del) \<and>
    sc_refs s' = (sc_refs s)(ptr := 1) \<and>
    (\<forall>q e. victim = Some (q, e) \<longrightarrow> sc_entry s q = Some e \<and> sc_refs s q = 0) \<and>
    (\<forall>q. sc_find s key = Some q \<longrightarrow> map_option fst victim = Some q)"
proof -
  let ?h = "HashSlice key"
  let ?i = "Shard ?h"
  let ?c = "sh_shards s ! ?i"
  let ?e = "new_entry key ?h v 1 del"
  note ok = sc_inv_shard [OF inv Shard_less [of ?h]]
  note len = sc_inv_length [OF inv]
  have none': "lru_detached ?c = {}"
    using none shard_views(3) [OF Shard_less, of ?h _ s] by auto
  have free': "user_refs ?c q = 0" if "lc_find key ?h ?c = Some q" for q
    using free [of "(Handle ?i q)"] that by (simp add: sc_find_def Let_def shard_views)
  have room': "n < unat (lc_capacity ?c)"
    using room shard_ok_capacity [OF ok] by simp
  obtain c' victim where 1:
    "LRUCache_Insert key ?h v 1 del ?c w = Some (lc_fresh ?c, c', victim_effect victim w)"
    "lru_calm (Suc n) c'" "lru_detached c' = {}" "lc_capacity c' = lc_capacity ?c"
    "\<And>q e. victim = Some (q, e) \<Longrightarrow> lc_heap ?c q = Some e \<and> user_refs ?c q = 0"
    "\<And>q. lc_find key ?h ?c = Some q \<Longrightarrow> map_option fst victim = Some q"
    "lc_heap c' = (without victim (lc_heap ?c))(lc_fresh ?c \<mapsto> ?e)"
    "user_refs c' = (user_refs ?c)(lc_fresh ?c := 1)" "lc_heap ?c (lc_fresh ?c) = None"
    by (rule calm_Insert [where v = v and deleter = del and w = w, OF shard_ok_calm [OF ok] none' room' free'])
      (assumption, rule that)
  let ?victim = "map_option (\<lambda>(q, e). ((Handle ?i q), e)) victim"
  have ok': "shard_ok (Suc n) (sc_capacity s) ?i c'"
    using 1(2,4,7) ok unfolding shard_ok_def
    by (auto simp: without_def new_entry_def split: if_splits option.splits)
  have "sc_entry (with_shard ?i c' s) = (without ?victim (sc_entry s))((Handle ?i (lc_fresh ?c)) \<mapsto> ?e)"
    using 1(7) unfolding with_shard_simps [OF len Shard_less]
    by (auto simp: without_def cache_ptr_eq sc_entry_def fun_eq_iff split: option.splits)
  moreover have "sc_refs (with_shard ?i c' s) = (sc_refs s)((Handle ?i (lc_fresh ?c)) := 1)"
    using 1(8) by (intro with_shard_upd [OF len]) simp_all
  moreover have "sc_detached (with_shard ?i c' s) = {}"
    using with_shard_detached(1) [OF len Shard_less [of ?h], where c = c'] 1(3) none' none by simp
  moreover have "victim_effect ?victim w = victim_effect victim w"
    by (auto simp: victim_effect_def split: option.splits)
  ultimately show ?thesis
    using 1(1,5,6,9) sc_inv_with_shard [OF inv _ Shard_less ok']
    by (intro exI [of _ "(Handle ?i (lc_fresh ?c))"] exI [of _ "with_shard ?i c' s"] exI [of _ ?victim])
      (auto simp: Sharded_Insert_def Let_def shard_views sc_find_def)
qed

interpretation sc: entry_cache Sharded_Lookup Sharded_Insert Sharded_Release Sharded_Erase Sharded_assign
  sc_entry sc_refs sc_detached sc_find HashSlice sc_capacity sc_inv
proof (standard, goal_cases)
  case 1
  then show ?case by (rule sc_find_iff)
next
  case 2
  then show ?case by (rule sc_entry_refs)
next
  case (3 n s ptr)
  then obtain e where "sc_entry s ptr = Some e"
    by (auto simp: sc_detached_def sc_entry_def lru_detached_def)
  then show ?case
    using sc_entry_refs(2) [OF 3(1)] by auto
next
  case (4 n s ptr)
  then show ?case
    by (auto simp: sc_refs_def sc_entry_def user_refs_def split: if_splits option.splits)
next
  case (5 n s m)
  then show ?case
    by (auto simp: sc_inv_def intro: shard_ok_mono)
next
  case (6 n s)
  have "user_refs (sh_shards s ! i) p = 0" if "i < 16" for i p
    using 6(2) [of "(Handle i p)"] that by (simp add: sc_refs_def)
  then show ?case
    using 6(1) by (auto simp: sc_inv_def intro: shard_ok_quiet)
next
  case 7
  then show ?case by (rule sc_Lookup_miss)
next
  case 8
  then show ?case by (rule sc_Lookup_hit)
next
  case 9
  show ?case by (rule sc_Insert [OF 9(1-3)]) (rule 9(4))
next
  case 10
  then show ?case by (rule sc_Release)
next
  case 11
  then show ?case by (rule sc_Erase_absent)
next
  case 12
  then show ?case by (rule sc_Erase_found)
next
  case 13
  then show ?case by (rule sc_assign)
qed

text \<open>Destroying a cache whose entries nobody holds, when no deleter has anything to do.\<close>

lemma destroy_shards_idle:
  assumes "\<And>c. c \<in> set cs \<Longrightarrow> LRUCache_destroy c w = Some w"
  shows "destroy_shards cs w = Some w"
  using assms by (induction cs) simp_all

lemma Sharded_destroy_idle:
  assumes inv: "sc_inv n s" and free: "\<And>ptr. sc_refs s ptr = 0"
    and idle: "\<And>ptr e. sc_entry s ptr = Some e \<Longrightarrow> run_deleter e w = w"
  shows "Sharded_destroy s w = Some w"
  unfolding Sharded_destroy_def
proof (rule destroy_shards_idle)
  fix c
  assume "c \<in> set (sh_shards s)"
  then obtain i where i: "i < 16" "c = sh_shards s ! i"
    using sc_inv_length [OF inv] by (auto simp: in_set_conv_nth)
  have c: "lru_inv c"
    using shard_ok_inv [OF sc_inv_shard [OF inv i(1)]] i(2) by simp
  have "run_deleter (the (lc_heap c p)) w = w" if "p \<in> set (lc_lru c)" for p
    using lru_inv_live [OF c that] idle [of "Handle i p"] i by (auto simp: shard_views)
  then have "fold (\<lambda>p. run_deleter (the (lc_heap c p))) ps w = w" if "set ps \<subseteq> set (lc_lru c)" for ps
    using that by (induction ps) auto
  then show "LRUCache_destroy c w = Some w"
    using LRUCache_destroy_spec [OF c, of w] free [of "Handle i _"] i by (simp add: shard_views)
qed

end
