(* ===== verification/Icache.thy ===== *)
theory Icache
  imports Sharded_Cache Kv_Wrapper Tfs_Inode
begin

text \<open>
  The inode cache, \<open>fs/icache.h\<close> and \<open>fs/icache.cpp\<close>: a write-back cache of inode values over the
  metadata store.  An \<open>InodeCacheHandle\<close> is the value of a cache entry, and the pointer to it is the
  handle of that entry (\<open>handle->pointer\<close>).  \<open>metadb_\<close> is the store the file system uses, so the
  state pairs the cache with the store.  Operations return \<open>None\<close> if they would touch a freed handle.

  The lemmas, proved once for every \<open>kv_store\<close>, describe the cache between operations of the file
  system (no handle is held: every cached value is the stored one) and within one (the handles it
  holds, and the modes they are in).
\<close>

section \<open>Operations\<close>

datatype InodeAccessMode = INODE_READ | INODE_DELETE | INODE_WRITE

record InodeCacheHandle =
  ih_key :: tfs_meta_key_t
  ih_value :: bytes
  ih_mode :: InodeAccessMode

record 'db InodeCache =
  ic_cache :: "(InodeCacheHandle, 'db) ShardedLRUCache"
  ic_metadb :: 'db

definition InodeCache_new :: "'db \<Rightarrow> 'db InodeCache" where
  "InodeCache_new metadb = \<lparr>ic_cache = ShardedLRUCache_new (of_nat MAX_OPEN_FILES), ic_metadb = metadb\<rparr>"

definition CleanInodeHandle :: "'db KvWrapper \<Rightarrow> bytes \<Rightarrow> InodeCacheHandle \<Rightarrow> 'db \<Rightarrow> 'db" where
  "CleanInodeHandle kv key handle metadb =
     (if ih_mode handle = INODE_WRITE then snd (kv_Put kv (ToSlice (ih_key handle)) (ih_value handle) metadb)
      else if ih_mode handle = INODE_DELETE then snd (kv_Delete kv (ToSlice (ih_key handle)) metadb)
      else metadb)"

text \<open>\<open>cache->Insert(key.ToSlice(), handle, 1, CleanInodeHandle)\<close>.\<close>

definition cache_insert ::
  "'db KvWrapper \<Rightarrow> InodeCacheHandle \<Rightarrow> 'db InodeCache \<Rightarrow> (cache_ptr \<times> 'db InodeCache) option" where
  "cache_insert kv handle s =
     do {
       (ch, c, db) \<leftarrow> Sharded_Insert (ToSlice (ih_key handle)) handle 1 (CleanInodeHandle kv) (ic_cache s) (ic_metadb s);
       Some (ch, s\<lparr>ic_cache := c, ic_metadb := db\<rparr>)
     }"

definition InodeCache_Insert ::
  "'db KvWrapper \<Rightarrow> tfs_meta_key_t \<Rightarrow> bytes \<Rightarrow> 'db InodeCache \<Rightarrow> (cache_ptr \<times> 'db InodeCache) option" where
  "InodeCache_Insert kv key value s = cache_insert kv \<lparr>ih_key = key, ih_value = value, ih_mode = INODE_WRITE\<rparr> s"

text \<open>The object a handle points to, and assignments to it.\<close>

definition ic_handle :: "cache_ptr \<Rightarrow> 'db InodeCache \<Rightarrow> InodeCacheHandle option" where
  "ic_handle ch s = Sharded_Value ch (ic_cache s)"

definition ic_assign :: "cache_ptr \<Rightarrow> InodeCacheHandle \<Rightarrow> 'db InodeCache \<Rightarrow> 'db InodeCache option" where
  "ic_assign ch handle s =
     do { c \<leftarrow> Sharded_assign ch handle (ic_cache s); Some (s\<lparr>ic_cache := c\<rparr>) }"

definition InodeCache_Get ::
  "'db KvWrapper \<Rightarrow> tfs_meta_key_t \<Rightarrow> InodeAccessMode \<Rightarrow> 'db InodeCache \<Rightarrow>
   (cache_ptr option \<times> 'db InodeCache) option" where
  "InodeCache_Get kv key mode s =
     (let (found, c) = Sharded_Lookup (ToSlice key) (ic_cache s); s1 = s\<lparr>ic_cache := c\<rparr>
      in case found of
           None \<Rightarrow>
             (let (ret, value, db) = kv_Get kv (ToSlice key) (ic_metadb s1); s2 = s1\<lparr>ic_metadb := db\<rparr>
              in if ret > 0
                 then do {
                        (ch, s3) \<leftarrow> cache_insert kv \<lparr>ih_key = key, ih_value = value, ih_mode = mode\<rparr> s2;
                        Some (Some ch, s3)
                      }
                 else Some (None, s2))
         | Some ch \<Rightarrow>
             do {
               handle \<leftarrow> ic_handle ch s1;
               s2 \<leftarrow> (if mode \<noteq> INODE_READ then ic_assign ch (handle\<lparr>ih_mode := mode\<rparr>) s1 else Some s1);
               Some (Some ch, s2)
             })"

definition InodeCache_Release :: "cache_ptr \<Rightarrow> 'db InodeCache \<Rightarrow> 'db InodeCache option" where
  "InodeCache_Release ch s =
     do {
       (c, db) \<leftarrow> Sharded_Release ch (ic_cache s) (ic_metadb s);
       Some (s\<lparr>ic_cache := c, ic_metadb := db\<rparr>)
     }"

definition InodeCache_Evict :: "tfs_meta_key_t \<Rightarrow> 'db InodeCache \<Rightarrow> 'db InodeCache option" where
  "InodeCache_Evict key s =
     do {
       (c, db) \<leftarrow> Sharded_Erase (ToSlice key) (ic_cache s) (ic_metadb s);
       Some (s\<lparr>ic_cache := c, ic_metadb := db\<rparr>)
     }"

definition InodeCache_WriteBack :: "'db KvWrapper \<Rightarrow> cache_ptr \<Rightarrow> 'db InodeCache \<Rightarrow> 'db InodeCache option" where
  "InodeCache_WriteBack kv ch s =
     do {
       handle \<leftarrow> ic_handle ch s;
       if ih_mode handle = INODE_WRITE
       then let s1 = s\<lparr>ic_metadb := snd (kv_Put kv (ToSlice (ih_key handle)) (ih_value handle) (ic_metadb s))\<rparr>
            in ic_assign ch (handle\<lparr>ih_mode := INODE_READ\<rparr>) s1
       else if ih_mode handle = INODE_DELETE
       then let s1 = s\<lparr>ic_metadb := snd (kv_Delete kv (ToSlice (ih_key handle)) (ic_metadb s))\<rparr>
            in InodeCache_Evict (ih_key handle) s1
       else Some s
     }"

text \<open>The part of \<open>BatchCommit\<close> that is repeated for both handles.\<close>

definition batch_handle :: "cache_ptr \<Rightarrow> WriteBatch \<times> 'db InodeCache \<Rightarrow> (WriteBatch \<times> 'db InodeCache) option" where
  "batch_handle ch bs =
     (let (batch, s) = bs
      in do {
           handle \<leftarrow> ic_handle ch s;
           if ih_mode handle = INODE_WRITE
           then do {
                  s1 \<leftarrow> ic_assign ch (handle\<lparr>ih_mode := INODE_READ\<rparr>) s;
                  Some (WriteBatch_Put (ToSlice (ih_key handle)) (ih_value handle) batch, s1)
                }
           else if ih_mode handle = INODE_DELETE
           then do {
                  s1 \<leftarrow> InodeCache_Evict (ih_key handle) s;
                  Some (WriteBatch_Delete (ToSlice (ih_key handle)) batch, s1)
                }
           else Some (batch, s)
         })"

definition InodeCache_BatchCommit ::
  "'db KvWrapper \<Rightarrow> cache_ptr \<Rightarrow> cache_ptr \<Rightarrow> 'db InodeCache \<Rightarrow> 'db InodeCache option" where
  "InodeCache_BatchCommit kv handle1 handle2 s =
     do {
       bs1 \<leftarrow> batch_handle handle1 (WriteBatch_Clear WriteBatch_new, s);
       (batch, s2) \<leftarrow> batch_handle handle2 bs1;
       Some (s2\<lparr>ic_metadb := snd (kv_Write kv batch (ic_metadb s2))\<rparr>)
     }"

definition InodeCache_destroy :: "'db InodeCache \<Rightarrow> 'db option" where
  "InodeCache_destroy s = Sharded_destroy (ic_cache s) (ic_metadb s)"

section \<open>States of the cache\<close>

text \<open>
  \<open>ic_state n D held s\<close>: the file system holds one reference to each handle of \<open>held\<close>, whose objects
  \<open>held\<close> gives; those of \<open>D\<close> are no longer in the table.  Every other handle is in read mode and agrees
  with the store.
\<close>

definition entry_ok :: "'db KvWrapper \<Rightarrow> (InodeCacheHandle, 'db) LRUHandle \<Rightarrow> bool" where
  "entry_ok kv e \<longleftrightarrow>
     lh_deleter e = CleanInodeHandle kv \<and> lh_key e = ToSlice (ih_key (lh_value e)) \<and>
     length (ih_value (lh_value e)) < 2 ^ 32"

definition clean :: "(bytes \<Rightarrow> bytes option) \<Rightarrow> InodeCacheHandle \<Rightarrow> bool" where
  "clean m h \<longleftrightarrow> ih_mode h = INODE_READ \<and> m (ToSlice (ih_key h)) = Some (ih_value h)"

definition ic_state ::
  "'db KvWrapper \<Rightarrow> ('db \<Rightarrow> bytes \<Rightarrow> bytes option) \<Rightarrow> ('db \<Rightarrow> bool) \<Rightarrow>
   nat \<Rightarrow> cache_ptr set \<Rightarrow> (cache_ptr \<Rightarrow> InodeCacheHandle option) \<Rightarrow> 'db InodeCache \<Rightarrow> bool" where
  "ic_state kv contents ok n D held s \<longleftrightarrow>
     sc_inv n (ic_cache s) \<and> sc_detached (ic_cache s) = D \<and> D \<subseteq> dom held \<and>
     sc_capacity (ic_cache s) = 32 \<and> ok (ic_metadb s) \<and>
     (\<forall>ptr e. sc_entry (ic_cache s) ptr = Some e \<longrightarrow> entry_ok kv e) \<and>
     (\<forall>ptr h. held ptr = Some h \<longrightarrow> (\<exists>e. sc_entry (ic_cache s) ptr = Some e \<and> lh_value e = h)) \<and>
     sc_refs (ic_cache s) = (\<lambda>ptr. if held ptr = None then 0 else 1) \<and>
     (\<forall>ptr e. sc_entry (ic_cache s) ptr = Some e \<longrightarrow> held ptr = None \<longrightarrow>
        clean (contents (ic_metadb s)) (lh_value e))"

lemma ic_state_new: "ok db \<Longrightarrow> ic_state kv contents ok n {} Map.empty (InodeCache_new db)"
  by (auto simp: ic_state_def InodeCache_new_def sc_inv_new MAX_OPEN_FILES_def)

lemma ic_stateI:
  assumes "sc_inv n (ic_cache s)" "sc_detached (ic_cache s) = D" "D \<subseteq> dom held"
    and "sc_capacity (ic_cache s) = 32" "ok (ic_metadb s)"
    and "\<And>ptr e. sc_entry (ic_cache s) ptr = Some e \<Longrightarrow> entry_ok kv e"
    and "\<And>ptr h. held ptr = Some h \<Longrightarrow> \<exists>e. sc_entry (ic_cache s) ptr = Some e \<and> lh_value e = h"
    and "sc_refs (ic_cache s) = (\<lambda>ptr. if held ptr = None then 0 else 1)"
    and "\<And>ptr e. sc_entry (ic_cache s) ptr = Some e \<Longrightarrow> held ptr = None \<Longrightarrow>
      clean (contents (ic_metadb s)) (lh_value e)"
  shows "ic_state kv contents ok n D held s"
  unfolding ic_state_def using assms by blast

lemma ic_stateD:
  assumes "ic_state kv contents ok n D held s"
  shows ic_state_inv: "sc_inv n (ic_cache s)"
    and ic_state_detached: "sc_detached (ic_cache s) = D"
    and ic_state_D: "D \<subseteq> dom held"
    and ic_state_capacity: "sc_capacity (ic_cache s) = 32"
    and ic_state_ok: "ok (ic_metadb s)"
    and ic_state_entry: "sc_entry (ic_cache s) ptr = Some e \<Longrightarrow> entry_ok kv e"
    and ic_state_held: "held ptr = Some h \<Longrightarrow> \<exists>e. sc_entry (ic_cache s) ptr = Some e \<and> lh_value e = h"
    and ic_state_refs: "sc_refs (ic_cache s) = (\<lambda>ptr. if held ptr = None then 0 else 1)"
    and ic_state_clean: "\<lbrakk>sc_entry (ic_cache s) ptr = Some e; held ptr = None\<rbrakk> \<Longrightarrow>
      clean (contents (ic_metadb s)) (lh_value e)"
  using assms by (auto simp: ic_state_def)

text \<open>The handle of a key in the table, of which there is at most one.\<close>

lemma ic_state_find:
  assumes st: "ic_state kv contents ok n D held s"
  shows "sc_find (ic_cache s) (ToSlice key) = Some ptr \<longleftrightarrow>
    ptr \<notin> D \<and> (\<exists>e. sc_entry (ic_cache s) ptr = Some e \<and> ih_key (lh_value e) = key)"
  using sc.find_iff [OF ic_state_inv [OF st]] ic_state_detached [OF st] ic_state_entry [OF st, of ptr]
  by (auto simp: entry_ok_def)

lemma ic_state_unique:
  assumes st: "ic_state kv contents ok n D held s"
    and "sc_entry (ic_cache s) p = Some e" "sc_entry (ic_cache s) q = Some d"
    and "ih_key (lh_value e) = ih_key (lh_value d)" "p \<notin> D" "q \<notin> D"
  shows "p = q"
proof -
  have "sc_find (ic_cache s) (ToSlice (ih_key (lh_value e))) = Some p"
      "sc_find (ic_cache s) (ToSlice (ih_key (lh_value e))) = Some q"
    using assms by (auto simp: ic_state_find [OF st])
  then show ?thesis
    by simp
qed

lemma ic_state_handle:
  assumes "ic_state kv contents ok n D held s" "held ptr = Some h"
  shows "ic_handle ptr s = Some h"
  using ic_state_held [OF assms] by (auto simp: ic_handle_def Sharded_Value_def)

lemma ic_state_other:
  assumes st: "ic_state kv contents ok n D held s" and d: "sc_entry (ic_cache s) q = Some d" "held q = None"
    and h: "held ptr = Some h" "ptr \<notin> D"
  shows "ih_key (lh_value d) \<noteq> ih_key h"
proof
  assume eq: "ih_key (lh_value d) = ih_key h"
  obtain e where e: "sc_entry (ic_cache s) ptr = Some e" "lh_value e = h"
    using ic_state_held [OF st h(1)] by auto
  have "q \<notin> D"
    using ic_state_D [OF st] d(2) by auto
  then have "q = ptr"
    using eq e(2) h(2) by (intro ic_state_unique [OF st d(1) e(1)]) simp_all
  then show False
    using d(2) h(1) by simp
qed

lemma ic_state_held_other:
  assumes st: "ic_state kv contents ok n D held s" and g: "held q = Some g" "q \<notin> D"
    and h: "held ptr = Some h" "ptr \<notin> D" and "q \<noteq> ptr"
  shows "ih_key g \<noteq> ih_key h"
proof -
  obtain d e where "sc_entry (ic_cache s) q = Some d" "lh_value d = g"
      "sc_entry (ic_cache s) ptr = Some e" "lh_value e = h"
    using ic_state_held [OF st g(1)] ic_state_held [OF st h(1)] by auto
  then show ?thesis
    using ic_state_unique [OF st] assms by metis
qed

lemma ic_state_absent:
  assumes st: "ic_state kv contents ok n D held s" and "sc_find (ic_cache s) (ToSlice k) = None"
    and "sc_entry (ic_cache s) q = Some e" "held q = None"
  shows "ih_key (lh_value e) \<noteq> k"
  using assms ic_state_find [OF st, of k q] ic_state_D [OF st] by auto

lemma ic_state_small:
  assumes "ic_state kv contents ok n D held s" "held ptr = Some h"
  shows "length (ih_value h) < 2 ^ 32"
  using ic_state_held [OF assms] ic_state_entry [OF assms(1)] by (auto simp: entry_ok_def)

lemma ic_state_mono:
  "ic_state kv contents ok n D held s \<Longrightarrow> n \<le> m \<Longrightarrow> ic_state kv contents ok m D held s"
  unfolding ic_state_def by (blast intro: sc.inv_mono)

lemma ic_state_quiet:
  assumes "ic_state kv contents ok n D Map.empty s"
  shows "ic_state kv contents ok m {} Map.empty s"
proof -
  have "sc_inv 0 (ic_cache s)"
    using assms ic_state_refs [OF assms] by (intro sc.inv_quiet [OF ic_state_inv [OF assms]]) simp
  then have "sc_inv m (ic_cache s)"
    by (rule sc.inv_mono) simp
  then show ?thesis
    using assms ic_state_D [OF assms] by (simp add: ic_state_def)
qed

text \<open>Changing the object of a held handle.\<close>

lemma ic_state_assign:
  assumes st: "ic_state kv contents ok n D held s" and h: "held ptr = Some h"
    and h': "ih_key h' = ih_key h" "length (ih_value h') < 2 ^ 32"
  obtains s' where "ic_assign ptr h' s = Some s'" "ic_state kv contents ok n D (held(ptr \<mapsto> h')) s'"
    "ic_metadb s' = ic_metadb s" "\<And>k. sc_find (ic_cache s') (ToSlice k) = sc_find (ic_cache s) (ToSlice k)"
proof -
  obtain e where e: "sc_entry (ic_cache s) ptr = Some e" "lh_value e = h"
    using ic_state_held [OF st h] by auto
  obtain c where c: "Sharded_assign ptr h' (ic_cache s) = Some c" "sc_inv n c"
    "sc_capacity c = sc_capacity (ic_cache s)"
    "sc_entry c = (sc_entry (ic_cache s))(ptr \<mapsto> e\<lparr>lh_value := h'\<rparr>)" "sc_refs c = sc_refs (ic_cache s)"
    "sc_detached c = sc_detached (ic_cache s)"
    using sc.assign_live [OF ic_state_inv [OF st] e(1), of h'] by blast
  have "entry_ok kv (e\<lparr>lh_value := h'\<rparr>)"
    using ic_state_entry [OF st e(1)] e(2) h' by (simp add: entry_ok_def)
  then have st': "ic_state kv contents ok n D (held(ptr \<mapsto> h')) (s\<lparr>ic_cache := c\<rparr>)"
    using st c h ic_state_refs [OF st] unfolding ic_state_def by (auto split: if_splits)
  have "sc_find c (ToSlice k) = sc_find (ic_cache s) (ToSlice k)" for k
    using ic_state_find [OF st, of k] ic_state_find [OF st', of k] c(4) e h'(1) by (intro option_eqI) auto
  then show thesis
    using that [OF _ st'] c(1) by (simp add: ic_assign_def)
qed

text \<open>A change of the store that leaves the keys of the other handles alone.\<close>

lemma ic_state_metadb:
  assumes st: "ic_state kv contents ok n D held s" and ok: "ok db"
    and same: "\<And>q e. sc_entry (ic_cache s) q = Some e \<Longrightarrow> held q = None \<Longrightarrow>
      contents db (ToSlice (ih_key (lh_value e))) = contents (ic_metadb s) (ToSlice (ih_key (lh_value e)))"
  shows "ic_state kv contents ok n D held (s\<lparr>ic_metadb := db\<rparr>)"
  using st ok same unfolding ic_state_def clean_def by auto

text \<open>A deleter that runs on a clean handle does nothing.\<close>

lemma run_deleter_clean:
  assumes "entry_ok kv e" "clean m (lh_value e)"
  shows "run_deleter e db = db"
  using assms by (simp add: run_deleter_def entry_ok_def clean_def CleanInodeHandle_def)

lemma cache_insert_state:
  assumes st: "ic_state kv contents ok n {} held s" and room: "n < 32"
    and new: "\<And>p g. held p = Some g \<Longrightarrow> ih_key g \<noteq> ih_key h" and small: "length (ih_value h) < 2 ^ 32"
  obtains ptr s' where "cache_insert kv h s = Some (ptr, s')" "held ptr = None"
    "ic_state kv contents ok (Suc n) {} (held(ptr \<mapsto> h)) s'" "ic_metadb s' = ic_metadb s"
proof -
  let ?c = "ic_cache s"
  let ?k = "ToSlice (ih_key h)"
  have free: "sc_refs ?c q = 0" if "sc_find ?c ?k = Some q" for q
    using that new ic_state_find [OF st, of "ih_key h" q] ic_state_held [OF st, of q]
    by (cases "held q") (auto simp: ic_state_refs [OF st])
  have cap: "n < sc_capacity ?c"
    using room ic_state_capacity [OF st] by simp
  obtain ptr c victim where 1:
    "Sharded_Insert ?k h 1 (CleanInodeHandle kv) ?c (ic_metadb s) = Some (ptr, c, victim_effect victim (ic_metadb s))"
    "sc_inv (Suc n) c" "sc_capacity c = sc_capacity ?c" "sc_detached c = {}" "sc_entry ?c ptr = None"
    "sc_entry c = (without victim (sc_entry ?c))(ptr \<mapsto> new_entry ?k (HashSlice ?k) h 1 (CleanInodeHandle kv))"
    "sc_refs c = (sc_refs ?c)(ptr := 1)"
    "\<forall>q e. victim = Some (q, e) \<longrightarrow> sc_entry ?c q = Some e \<and> sc_refs ?c q = 0"
    by (rule exE [OF sc.ins_new [where key = ?k and v = h and del = "CleanInodeHandle kv" and w = "ic_metadb s",
        OF ic_state_inv [OF st] cap ic_state_detached [OF st]]], rule free, assumption, elim exE conjE, rule that)
  have unheld: "held ptr = None"
    using 1(5) ic_state_held [OF st, of ptr] by (cases "held ptr") auto
  have victim: "held q = None" if "victim = Some (q, e)" for q e
    using 1(8) that ic_state_refs [OF st] by (auto split: if_splits)
  then have db: "victim_effect victim (ic_metadb s) = ic_metadb s"
    using 1(8) ic_state_clean [OF st] ic_state_entry [OF st] run_deleter_clean
    by (fastforce simp: victim_effect_def split: option.splits prod.splits)
  have sub: "sc_entry ?c q = Some e" if "without victim (sc_entry ?c) q = Some e" for q e
    using that by (auto simp: without_def split: option.splits prod.splits if_splits)
  have keep: "without victim (sc_entry ?c) q = sc_entry ?c q" if "held q = Some g" for q g
    using that victim by (auto simp: without_def split: option.splits prod.splits)
  have "entry_ok kv (new_entry ?k (HashSlice ?k) h 1 (CleanInodeHandle kv))"
    using small by (simp add: entry_ok_def new_entry_def)
  then have "ic_state kv contents ok (Suc n) {} (held(ptr \<mapsto> h)) (s\<lparr>ic_cache := c\<rparr>)"
  proof (intro ic_stateI, goal_cases)
    case (6 q d)
    then show ?case
      using 1(6) sub ic_state_entry [OF st] by (auto split: if_splits)
  next
    case (7 q g)
    then show ?case
      using 1(6) keep ic_state_held [OF st] by (cases "q = ptr") (auto simp: new_entry_def)
  next
    case 8
    then show ?case
      using 1(7) ic_state_refs [OF st] by auto
  next
    case (9 q d)
    then show ?case
      using 1(6) sub ic_state_clean [OF st] by (auto split: if_splits)
  qed (use 1(2-4) ic_state_capacity [OF st] ic_state_ok [OF st] in simp_all)
  then show thesis
    using that [of ptr "s\<lparr>ic_cache := c\<rparr>"] 1(1) db unheld by (simp add: cache_insert_def)
qed

section \<open>The operations on a store\<close>

context kv_store
begin

text \<open>Looking up a key that no held handle has finds what the store holds, in the requested mode.\<close>

lemma InodeCache_Get_miss:
  assumes st: "ic_state kv contents ok n D held s" and D: "D = {}"
    and none: "contents (ic_metadb s) (ToSlice key) = None"
    and unheld: "\<And>p g. held p = Some g \<Longrightarrow> ih_key g \<noteq> key"
  obtains s' where "InodeCache_Get kv key mode s = Some (None, s')" "ic_state kv contents ok n D held s'"
    "contents (ic_metadb s') = contents (ic_metadb s)"
proof -
  let ?db = "snd (snd (kv_Get kv (ToSlice key) (ic_metadb s)))"
  have "sc_find (ic_cache s) (ToSlice key) \<noteq> Some ptr" for ptr
    using none unheld [of ptr] ic_state_clean [OF st, of ptr] ic_state_held [OF st, of ptr]
    by (cases "held ptr") (auto simp: ic_state_find [OF st] clean_def)
  then have "Sharded_Lookup (ToSlice key) (ic_cache s) = (None, ic_cache s)"
    by (intro sc.look_miss [OF ic_state_inv [OF st]]) auto
  moreover have "fst (kv_Get kv (ToSlice key) (ic_metadb s)) \<le> 0"
    using get_miss [OF ic_state_ok [OF st] _ none] by simp
  ultimately have "InodeCache_Get kv key mode s = Some (None, s\<lparr>ic_metadb := ?db\<rparr>)"
    by (auto simp: InodeCache_Get_def split: prod.splits)
  moreover have "ok ?db" "contents ?db = contents (ic_metadb s)"
    using get_state [OF ic_state_ok [OF st], of "ToSlice key"] by auto
  ultimately show thesis
    using that [of "s\<lparr>ic_metadb := ?db\<rparr>"] ic_state_metadb [OF st] by simp
qed

lemma Lookup_state:
  assumes st: "ic_state kv contents ok n D held s" and D: "D = {}"
    and e: "sc_entry (ic_cache s) ptr = Some e" "ih_key (lh_value e) = key" and unheld: "held ptr = None"
  obtains s' where "Sharded_Lookup (ToSlice key) (ic_cache s) = (Some ptr, ic_cache s')" "s' = s\<lparr>ic_cache := ic_cache s'\<rparr>"
    "ic_state kv contents ok (Suc n) D (held(ptr \<mapsto> lh_value e)) s'"
proof -
  have "sc_find (ic_cache s) (ToSlice key) = Some ptr" "sc_refs (ic_cache s) ptr + 2 < 2 ^ 32"
    using e D unheld by (auto simp: ic_state_find [OF st] ic_state_refs [OF st])
  then obtain c where c: "Sharded_Lookup (ToSlice key) (ic_cache s) = (Some ptr, c)" "sc_inv (Suc n) c"
    "sc_capacity c = sc_capacity (ic_cache s)"
    "sc_entry c = (sc_entry (ic_cache s))(ptr \<mapsto> e\<lparr>lh_refs := lh_refs e + 1\<rparr>)"
    "sc_refs c = (sc_refs (ic_cache s))(ptr := sc_refs (ic_cache s) ptr + 1)"
    "sc_detached c = sc_detached (ic_cache s)"
    using sc.look_hit [OF ic_state_inv [OF st] _ e(1)] by blast
  have "ic_state kv contents ok (Suc n) D (held(ptr \<mapsto> lh_value e)) (s\<lparr>ic_cache := c\<rparr>)"
  proof (intro ic_stateI, goal_cases)
    case (6 q d)
    then show ?case
      using c(4) e ic_state_entry [OF st] by (auto simp: entry_ok_def split: if_splits)
  next
    case (7 q g)
    then show ?case
      using c(4) ic_state_held [OF st] by (cases "q = ptr") auto
  next
    case 8
    then show ?case
      using c(5) ic_state_refs [OF st] unheld by auto
  next
    case (9 q d)
    then show ?case
      using c(4) ic_state_clean [OF st] by (auto split: if_splits)
  qed (use c st D ic_stateD [OF st] in auto)
  then show thesis
    using that [of "s\<lparr>ic_cache := c\<rparr>"] c(1) by simp
qed

lemma InodeCache_Get_hit:
  assumes st: "ic_state kv contents ok n {} held s" and room: "n < 32"
    and v: "contents (ic_metadb s) (ToSlice key) = Some v" "length v < 2 ^ 32"
    and unheld: "\<And>p g. held p = Some g \<Longrightarrow> ih_key g \<noteq> key"
  obtains ptr s' where "InodeCache_Get kv key mode s = Some (Some ptr, s')" "held ptr = None"
    "ic_state kv contents ok (Suc n) {} (held(ptr \<mapsto> \<lparr>ih_key = key, ih_value = v, ih_mode = mode\<rparr>)) s'"
    "contents (ic_metadb s') = contents (ic_metadb s)"
proof (cases "sc_find (ic_cache s) (ToSlice key)")
  case None
  let ?db = "snd (snd (kv_Get kv (ToSlice key) (ic_metadb s)))"
  let ?h = "\<lparr>ih_key = key, ih_value = v, ih_mode = mode\<rparr>"
  have "fst (kv_Get kv (ToSlice key) (ic_metadb s)) = 1 \<and> fst (snd (kv_Get kv (ToSlice key) (ic_metadb s))) = v"
    using get_hit [OF ic_state_ok [OF st] _ v(1)] by simp
  then have eq: "InodeCache_Get kv key mode s =
      do { (ch, s3) \<leftarrow> cache_insert kv ?h (s\<lparr>ic_metadb := ?db\<rparr>); Some (Some ch, s3) }"
    using sc.look_miss [OF ic_state_inv [OF st] None] by (auto simp: InodeCache_Get_def split: prod.splits)
  have db: "ok ?db" "contents ?db = contents (ic_metadb s)"
    using get_state [OF ic_state_ok [OF st], of "ToSlice key"] by auto
  then have st': "ic_state kv contents ok n {} held (s\<lparr>ic_metadb := ?db\<rparr>)"
    using ic_state_metadb [OF st] by simp
  have new: "ih_key g \<noteq> ih_key ?h" if "held p = Some g" for p g
    using unheld [OF that] by simp
  obtain ptr s' where "cache_insert kv ?h (s\<lparr>ic_metadb := ?db\<rparr>) = Some (ptr, s')" "held ptr = None"
    "ic_state kv contents ok (Suc n) {} (held(ptr \<mapsto> ?h)) s'" "ic_metadb s' = ?db"
    using cache_insert_state [OF st' room, of ?h] new v(2) by auto
  then show thesis
    using that eq db by simp
next
  case (Some ptr)
  then obtain e where e: "sc_entry (ic_cache s) ptr = Some e" "ih_key (lh_value e) = key"
    by (auto simp: ic_state_find [OF st])
  have free: "held ptr = None"
    using unheld ic_state_held [OF st, of ptr] e by (cases "held ptr") auto
  let ?h = "lh_value e"
  have h: "?h = \<lparr>ih_key = key, ih_value = v, ih_mode = INODE_READ\<rparr>"
    using ic_state_clean [OF st e(1) free] v(1) e(2) by (cases ?h) (simp add: clean_def)
  obtain s1 where s1: "Sharded_Lookup (ToSlice key) (ic_cache s) = (Some ptr, ic_cache s1)"
    "s1 = s\<lparr>ic_cache := ic_cache s1\<rparr>" "ic_state kv contents ok (Suc n) {} (held(ptr \<mapsto> ?h)) s1"
    using Lookup_state [OF st refl e free] by blast
  have db: "ic_metadb s1 = ic_metadb s"
    by (subst s1(2)) simp
  have handle: "ic_handle ptr s1 = Some ?h"
    using ic_state_handle [OF s1(3)] by simp
  obtain s2 where s2: "ic_assign ptr (?h\<lparr>ih_mode := mode\<rparr>) s1 = Some s2" "ic_metadb s2 = ic_metadb s1"
    "ic_state kv contents ok (Suc n) {} (held(ptr \<mapsto> ?h, ptr \<mapsto> ?h\<lparr>ih_mode := mode\<rparr>)) s2"
    using ic_state_assign [OF s1(3), of ptr ?h "?h\<lparr>ih_mode := mode\<rparr>"] v(2) h by auto
  show thesis
  proof (cases "mode = INODE_READ")
    case True
    then show thesis
      using that [of ptr s1] s1 free handle db h by (simp add: InodeCache_Get_def)
  next
    case False
    then show thesis
      using that [of ptr s2] s1(1) s1(2) [symmetric] s2 free handle db h by (simp add: InodeCache_Get_def)
  qed
qed

text \<open>Giving a handle back: it stays in the cache if the store agrees with it.\<close>

lemma Release_state:
  assumes st: "ic_state kv contents ok n D held s" and h: "held ptr = Some h" "ptr \<notin> D"
  obtains s' e where "InodeCache_Release ptr s = Some s'" "sc_entry (ic_cache s) ptr = Some e" "lh_value e = h"
    "lh_refs e = 2" "sc_entry (ic_cache s') = (sc_entry (ic_cache s))(ptr \<mapsto> e\<lparr>lh_refs := 1\<rparr>)"
    "sc_inv n (ic_cache s')" "sc_capacity (ic_cache s') = 32"
    "sc_refs (ic_cache s') = (sc_refs (ic_cache s))(ptr := 0)" "sc_detached (ic_cache s') = D"
    "ic_metadb s' = ic_metadb s"
proof -
  obtain e where e: "sc_entry (ic_cache s) ptr = Some e" "lh_value e = h"
    using ic_state_held [OF st h(1)] by auto
  have refs: "sc_refs (ic_cache s) ptr = 1"
    using h by (simp add: ic_state_refs [OF st])
  then have two: "lh_refs e = 2"
    using sc.entry_refs [OF ic_state_inv [OF st] e(1)] h(2) ic_state_detached [OF st]
    by (simp add: word_unat_eq_iff)
  obtain c where c: "Sharded_Release ptr (ic_cache s) (ic_metadb s) = Some (c, drop_effect e (ic_metadb s))"
    "sc_inv n c" "sc_capacity c = sc_capacity (ic_cache s)" "sc_entry c = (sc_entry (ic_cache s))(ptr := dropped e)"
    "sc_refs c = (sc_refs (ic_cache s))(ptr := sc_refs (ic_cache s) ptr - 1)"
    "sc_detached c = (if lh_refs e = 1 then sc_detached (ic_cache s) - {ptr} else sc_detached (ic_cache s))"
    using sc.release_held [OF ic_state_inv [OF st] _ e(1), of "ic_metadb s"] refs by auto
  show thesis
    using that [of "s\<lparr>ic_cache := c\<rparr>" e] c e two refs ic_state_capacity [OF st] ic_state_detached [OF st]
    by (simp add: InodeCache_Release_def dropped_def drop_effect_def)
qed

lemma InodeCache_Release_clean:
  assumes st: "ic_state kv contents ok n D held s" and h: "held ptr = Some h" "ptr \<notin> D"
    and clean: "clean (contents (ic_metadb s)) h"
  obtains s' where "InodeCache_Release ptr s = Some s'" "ic_state kv contents ok n D (held(ptr := None)) s'"
    "ic_metadb s' = ic_metadb s" "\<And>k. sc_find (ic_cache s') (ToSlice k) = sc_find (ic_cache s) (ToSlice k)"
proof -
  obtain s' e where s': "InodeCache_Release ptr s = Some s'" "sc_entry (ic_cache s) ptr = Some e" "lh_value e = h"
    "lh_refs e = 2" "sc_entry (ic_cache s') = (sc_entry (ic_cache s))(ptr \<mapsto> e\<lparr>lh_refs := 1\<rparr>)"
    "sc_inv n (ic_cache s')" "sc_capacity (ic_cache s') = 32"
    "sc_refs (ic_cache s') = (sc_refs (ic_cache s))(ptr := 0)" "sc_detached (ic_cache s') = D"
    "ic_metadb s' = ic_metadb s"
    using Release_state [OF st h] by blast
  have st': "ic_state kv contents ok n D (held(ptr := None)) s'"
  proof (intro ic_stateI, goal_cases)
    case 3
    then show ?case
      using ic_state_D [OF st] h by auto
  next
    case (6 q d)
    then show ?case
      using s' ic_state_entry [OF st] by (auto simp: entry_ok_def split: if_splits)
  next
    case (7 q g)
    then show ?case
      using s' ic_state_held [OF st] by (auto split: if_splits)
  next
    case 8
    then show ?case
      using s' ic_state_refs [OF st] by auto
  next
    case (9 q d)
    then show ?case
      using s' clean ic_state_clean [OF st] by (auto split: if_splits)
  qed (use s' ic_stateD [OF st] in simp_all)
  have "sc_find (ic_cache s') (ToSlice k) = sc_find (ic_cache s) (ToSlice k)" for k
    using ic_state_find [OF st, of k] ic_state_find [OF st', of k] s'(2,5) by (intro option_eqI) auto
  then show thesis
    using that [OF s'(1) st'] s'(10) by simp
qed

text \<open>Evicting a key that no held handle has.\<close>

lemma InodeCache_Evict_unheld:
  assumes st: "ic_state kv contents ok n D held s"
    and unheld: "\<And>p g. held p = Some g \<Longrightarrow> p \<notin> D \<Longrightarrow> ih_key g \<noteq> key"
  obtains s' where "InodeCache_Evict key s = Some s'" "ic_state kv contents ok n D held s'"
    "ic_metadb s' = ic_metadb s"
proof (cases "sc_find (ic_cache s) (ToSlice key)")
  case None
  then show thesis
    using that [of s] st sc.erase_absent [OF ic_state_inv [OF st] None] by (simp add: InodeCache_Evict_def)
next
  case (Some ptr)
  then obtain e where e: "ptr \<notin> D" "sc_entry (ic_cache s) ptr = Some e" "ih_key (lh_value e) = key"
    by (auto simp: ic_state_find [OF st])
  have free: "held ptr = None"
    using unheld [of ptr] ic_state_held [OF st, of ptr] e by (cases "held ptr") auto
  then have one: "lh_refs e = 1"
    using sc.entry_refs [OF ic_state_inv [OF st] e(2)] e(1) ic_state_detached [OF st]
    by (simp add: ic_state_refs [OF st] word_unat_eq_iff)
  have noop: "drop_effect e (ic_metadb s) = ic_metadb s"
    using run_deleter_clean [OF ic_state_entry [OF st e(2)] ic_state_clean [OF st e(2) free], of "ic_metadb s"] one
    by (simp add: drop_effect_def run_deleter_def)
  obtain c where c: "Sharded_Erase (ToSlice key) (ic_cache s) (ic_metadb s) = Some (c, drop_effect e (ic_metadb s))"
    "sc_inv n c" "sc_capacity c = sc_capacity (ic_cache s)" "sc_entry c = (sc_entry (ic_cache s))(ptr := dropped e)"
    "sc_refs c = sc_refs (ic_cache s)"
    "sc_detached c = (if lh_refs e = 1 then sc_detached (ic_cache s) else insert ptr (sc_detached (ic_cache s)))"
    using sc.erase_found [OF ic_state_inv [OF st] Some e(2), of "ic_metadb s"] by blast
  have "ic_state kv contents ok n D held (s\<lparr>ic_cache := c\<rparr>)"
  proof (intro ic_stateI, goal_cases)
    case (7 q g)
    then show ?case
      using c(4) free ic_state_held [OF st] by auto
  qed (use c one ic_stateD [OF st] in \<open>auto simp: dropped_def split: if_splits\<close>)
  then show thesis
    using that [of "s\<lparr>ic_cache := c\<rparr>"] c(1) noop by (simp add: InodeCache_Evict_def)
qed

text \<open>Writing a changed handle back makes it agree with the store.\<close>

lemma InodeCache_WriteBack_write:
  assumes st: "ic_state kv contents ok n D held s" and h: "held ptr = Some h" "ptr \<notin> D" "ih_mode h = INODE_WRITE"
  obtains s' where "InodeCache_WriteBack kv ptr s = Some s'"
    "ic_state kv contents ok n D (held(ptr \<mapsto> h\<lparr>ih_mode := INODE_READ\<rparr>)) s'"
    "contents (ic_metadb s') = (contents (ic_metadb s))(ToSlice (ih_key h) \<mapsto> ih_value h)"
proof -
  let ?db = "snd (kv_Put kv (ToSlice (ih_key h)) (ih_value h) (ic_metadb s))"
  obtain e where e: "sc_entry (ic_cache s) ptr = Some e" "lh_value e = h"
    using ic_state_held [OF st h(1)] by auto
  have put: "ok ?db" "contents ?db = (contents (ic_metadb s))(ToSlice (ih_key h) \<mapsto> ih_value h)"
    using put_ok [OF ic_state_ok [OF st], of "ToSlice (ih_key h)" "ih_value h"] ic_state_small [OF st h(1)] by auto
  have "ih_key (lh_value d) \<noteq> ih_key h" if "sc_entry (ic_cache s) q = Some d" "held q = None" for q d
    by (rule ic_state_other [OF st that h(1,2)])
  then have st1: "ic_state kv contents ok n D held (s\<lparr>ic_metadb := ?db\<rparr>)"
    using put by (intro ic_state_metadb [OF st]) auto
  obtain s' where "ic_assign ptr (h\<lparr>ih_mode := INODE_READ\<rparr>) (s\<lparr>ic_metadb := ?db\<rparr>) = Some s'"
    "ic_state kv contents ok n D (held(ptr \<mapsto> h\<lparr>ih_mode := INODE_READ\<rparr>)) s'" "ic_metadb s' = ?db"
    using ic_state_assign [OF st1 h(1), of "h\<lparr>ih_mode := INODE_READ\<rparr>"] ic_state_small [OF st h(1)] by auto
  then show thesis
    using that put h(3) ic_state_handle [OF st h(1)] by (simp add: InodeCache_WriteBack_def Let_def)
qed

lemma InodeCache_WriteBack_read:
  assumes "ic_state kv contents ok n D held s" "held ptr = Some h" "ih_mode h = INODE_READ"
  shows "InodeCache_WriteBack kv ptr s = Some s"
  using assms ic_state_handle [OF assms(1,2)] by (simp add: InodeCache_WriteBack_def)

text \<open>A handle in delete mode: giving it back and evicting its key deletes the key from the store.\<close>

lemma CleanInodeHandle_delete:
  assumes "ok db" "ih_mode h = INODE_DELETE"
  shows "ok (CleanInodeHandle kv key h db)"
    and "contents (CleanInodeHandle kv key h db) = (contents db)(ToSlice (ih_key h) := None)"
  using delete_ok [OF assms(1), of "ToSlice (ih_key h)"] assms(2) by (simp_all add: CleanInodeHandle_def)

lemma InodeCache_remove:
  assumes st: "ic_state kv contents ok n D held s" and h: "held ptr = Some h" "ptr \<notin> D" "ih_mode h = INODE_DELETE"
  obtains s1 s2 where "InodeCache_Release ptr s = Some s1" "InodeCache_Evict (ih_key h) s1 = Some s2"
    "ic_state kv contents ok n D (held(ptr := None)) s2"
    "contents (ic_metadb s2) = (contents (ic_metadb s))(ToSlice (ih_key h) := None)"
proof -
  let ?k = "ToSlice (ih_key h)"
  let ?db = "CleanInodeHandle kv ?k h (ic_metadb s)"
  obtain s1 e where s1: "InodeCache_Release ptr s = Some s1" "sc_entry (ic_cache s) ptr = Some e" "lh_value e = h"
    "lh_refs e = 2" "sc_entry (ic_cache s1) = (sc_entry (ic_cache s))(ptr \<mapsto> e\<lparr>lh_refs := 1\<rparr>)"
    "sc_inv n (ic_cache s1)" "sc_capacity (ic_cache s1) = 32"
    "sc_refs (ic_cache s1) = (sc_refs (ic_cache s))(ptr := 0)" "sc_detached (ic_cache s1) = D"
    "ic_metadb s1 = ic_metadb s"
    using Release_state [OF st h(1,2)] by blast
  have ok_e: "lh_deleter e = CleanInodeHandle kv" "lh_key e = ?k"
    using ic_state_entry [OF st s1(2)] s1(3) by (simp_all add: entry_ok_def)
  then have find: "sc_find (ic_cache s1) ?k = Some ptr"
    using s1(3,5,9) h(2) by (simp add: sc.find_iff [OF s1(6)])
  have e1: "sc_entry (ic_cache s1) ptr = Some (e\<lparr>lh_refs := 1\<rparr>)"
    using s1(5) by simp
  have eff: "drop_effect (e\<lparr>lh_refs := 1\<rparr>) (ic_metadb s1) = ?db"
    using ok_e s1(3,10) by (simp add: drop_effect_def)
  obtain c where c: "Sharded_Erase ?k (ic_cache s1) (ic_metadb s1) = Some (c, ?db)"
    "sc_inv n c" "sc_capacity c = 32" "sc_entry c = (sc_entry (ic_cache s))(ptr := None)"
    "sc_refs c = (sc_refs (ic_cache s))(ptr := 0)" "sc_detached c = D"
    using sc.erase_found [OF s1(6) find e1, of "ic_metadb s1"] eff s1 by (auto simp: dropped_def)
  have db: "ok ?db" "contents ?db = (contents (ic_metadb s))(?k := None)"
    using CleanInodeHandle_delete [OF ic_state_ok [OF st] h(3), of ?k] by auto
  have "ic_state kv contents ok n D (held(ptr := None)) (s1\<lparr>ic_cache := c, ic_metadb := ?db\<rparr>)"
  proof (intro ic_stateI, goal_cases)
    case 3
    then show ?case
      using ic_state_D [OF st] h by auto
  next
    case (6 q d)
    then show ?case
      using c ic_state_entry [OF st] by (auto split: if_splits)
  next
    case (7 q g)
    then show ?case
      using c ic_state_held [OF st] by (auto split: if_splits)
  next
    case 8
    then show ?case
      using c ic_state_refs [OF st] by auto
  next
    case (9 q d)
    then have d: "q \<noteq> ptr" "sc_entry (ic_cache s) q = Some d" "held q = None"
      using c by (auto split: if_splits)
    then have "ih_key (lh_value d) \<noteq> ih_key h"
      by (intro ic_state_other [OF st _ _ h(1,2)])
    then show ?case
      using ic_state_clean [OF st d(2,3)] db by (simp add: clean_def)
  qed (use c db in simp_all)
  then show thesis
    using that [of s1 "s1\<lparr>ic_cache := c, ic_metadb := ?db\<rparr>"] s1(1) c(1) db by (simp add: InodeCache_Evict_def)
qed

text \<open>Evicting the key of a held handle takes it out of the table; giving it back then runs its deleter.\<close>

lemma InodeCache_Evict_held:
  assumes st: "ic_state kv contents ok n D held s" and h: "held ptr = Some h" "ptr \<notin> D"
  obtains s' where "InodeCache_Evict (ih_key h) s = Some s'" "ic_state kv contents ok n (insert ptr D) held s'"
    "ic_metadb s' = ic_metadb s" "sc_find (ic_cache s') (ToSlice (ih_key h)) = None"
proof -
  obtain e where e: "sc_entry (ic_cache s) ptr = Some e" "lh_value e = h"
    using ic_state_held [OF st h(1)] by auto
  have find: "sc_find (ic_cache s) (ToSlice (ih_key h)) = Some ptr"
    using e h by (auto simp: ic_state_find [OF st])
  have two: "lh_refs e = 2"
    using sc.entry_refs [OF ic_state_inv [OF st] e(1)] h ic_state_detached [OF st] ic_state_refs [OF st]
    by (simp add: word_unat_eq_iff)
  obtain c where c: "Sharded_Erase (ToSlice (ih_key h)) (ic_cache s) (ic_metadb s) = Some (c, ic_metadb s)"
    "sc_inv n c" "sc_capacity c = sc_capacity (ic_cache s)"
    "sc_entry c = (sc_entry (ic_cache s))(ptr \<mapsto> e\<lparr>lh_refs := 1\<rparr>)"
    "sc_refs c = sc_refs (ic_cache s)" "sc_detached c = insert ptr (sc_detached (ic_cache s))"
    using sc.erase_found [OF ic_state_inv [OF st] find e(1), of "ic_metadb s"] two
    by (auto simp: dropped_def drop_effect_def)
  have st': "ic_state kv contents ok n (insert ptr D) held (s\<lparr>ic_cache := c\<rparr>)"
  proof (intro ic_stateI, goal_cases)
    case (6 q d)
    then show ?case
      using c e ic_state_entry [OF st] by (auto simp: entry_ok_def split: if_splits)
  next
    case (7 q g)
    then show ?case
      using c e h ic_state_held [OF st] by (auto split: if_splits)
  next
    case (9 q d)
    then show ?case
      using c h ic_state_clean [OF st] by (auto split: if_splits)
  qed (use c h ic_stateD [OF st] in \<open>auto\<close>)
  have "sc_find c (ToSlice (ih_key h)) \<noteq> Some q" for q
    using ic_state_find [OF st', of "ih_key h" q] ic_state_find [OF st, of "ih_key h" q] find c(4) by auto
  then have "sc_find c (ToSlice (ih_key h)) = None"
    by (cases "sc_find c (ToSlice (ih_key h))") auto
  then show thesis
    using that [OF _ st'] c(1) by (simp add: InodeCache_Evict_def)
qed

lemma InodeCache_Release_detached:
  assumes st: "ic_state kv contents ok n D held s" and h: "held ptr = Some h" "ptr \<in> D"
    and db: "ok (CleanInodeHandle kv (ToSlice (ih_key h)) h (ic_metadb s))"
    and same: "\<And>q d. sc_entry (ic_cache s) q = Some d \<Longrightarrow> held q = None \<Longrightarrow>
      contents (CleanInodeHandle kv (ToSlice (ih_key h)) h (ic_metadb s)) (ToSlice (ih_key (lh_value d))) =
      contents (ic_metadb s) (ToSlice (ih_key (lh_value d)))"
  obtains s' where "InodeCache_Release ptr s = Some s'" "ic_state kv contents ok n (D - {ptr}) (held(ptr := None)) s'"
    "ic_metadb s' = CleanInodeHandle kv (ToSlice (ih_key h)) h (ic_metadb s)"
proof -
  let ?db = "CleanInodeHandle kv (ToSlice (ih_key h)) h (ic_metadb s)"
  obtain e where e: "sc_entry (ic_cache s) ptr = Some e" "lh_value e = h"
    using ic_state_held [OF st h(1)] by auto
  have refs: "sc_refs (ic_cache s) ptr = 1"
    using h by (simp add: ic_state_refs [OF st])
  then have one: "lh_refs e = 1"
    using sc.entry_refs [OF ic_state_inv [OF st] e(1)] h(2) ic_state_detached [OF st]
    by (simp add: word_unat_eq_iff)
  have eff: "drop_effect e (ic_metadb s) = ?db"
    using one e ic_state_entry [OF st e(1)] by (simp add: drop_effect_def entry_ok_def)
  obtain c where c: "Sharded_Release ptr (ic_cache s) (ic_metadb s) = Some (c, ?db)"
    "sc_inv n c" "sc_capacity c = sc_capacity (ic_cache s)" "sc_entry c = (sc_entry (ic_cache s))(ptr := None)"
    "sc_refs c = (sc_refs (ic_cache s))(ptr := 0)" "sc_detached c = sc_detached (ic_cache s) - {ptr}"
    using sc.release_held [OF ic_state_inv [OF st] _ e(1), of "ic_metadb s"] refs eff one by (auto simp: dropped_def)
  have "ic_state kv contents ok n (D - {ptr}) (held(ptr := None)) (s\<lparr>ic_cache := c, ic_metadb := ?db\<rparr>)"
  proof (intro ic_stateI, goal_cases)
    case 3
    then show ?case
      using ic_state_D [OF st] by auto
  next
    case (6 q d)
    then show ?case
      using c ic_state_entry [OF st] by (auto split: if_splits)
  next
    case (7 q g)
    then show ?case
      using c ic_state_held [OF st] by (auto split: if_splits)
  next
    case 8
    then show ?case
      using c(5) ic_state_refs [OF st] by (simp add: fun_eq_iff)
  next
    case (9 q d)
    then show ?case
      using c same ic_state_clean [OF st] by (auto simp: clean_def split: if_splits)
  qed (use c db ic_stateD [OF st] in simp_all)
  then show thesis
    using that [of "s\<lparr>ic_cache := c, ic_metadb := ?db\<rparr>"] c(1) by (simp add: InodeCache_Release_def)
qed

text \<open>
  The commit of a rename: the old handle is in delete mode and the new one in write mode, both held.
  Afterwards the store has moved the value, and no handle is held.
\<close>

lemma InodeCache_rename_commit:
  assumes st: "ic_state kv contents ok n {} held s" and h1: "held p1 = Some h1" "ih_mode h1 = INODE_DELETE"
    and h2: "held p2 = Some h2" "ih_mode h2 = INODE_WRITE" and keys: "ih_key h1 \<noteq> ih_key h2"
  obtains s1 s2 s3 s4 where "InodeCache_BatchCommit kv p1 p2 s = Some s1" "InodeCache_Release p2 s1 = Some s2"
    "InodeCache_Release p1 s2 = Some s3" "InodeCache_Evict (ih_key h1) s3 = Some s4"
    "ic_state kv contents ok n {} (held(p1 := None, p2 := None)) s4"
    "contents (ic_metadb s4) =
       (contents (ic_metadb s))(ToSlice (ih_key h1) := None, ToSlice (ih_key h2) \<mapsto> ih_value h2)"
proof -
  let ?k1 = "ToSlice (ih_key h1)" and ?k2 = "ToSlice (ih_key h2)"
  let ?g2 = "h2\<lparr>ih_mode := INODE_READ\<rparr>"
  have ne: "p1 \<noteq> p2"
    using h1 h2 by auto
  obtain a where a: "InodeCache_Evict (ih_key h1) s = Some a" "ic_state kv contents ok n {p1} held a"
    "ic_metadb a = ic_metadb s" "sc_find (ic_cache a) ?k1 = None"
    using InodeCache_Evict_held [OF st h1(1)] by auto
  obtain b where b: "ic_assign p2 ?g2 a = Some b" "ic_state kv contents ok n {p1} (held(p2 \<mapsto> ?g2)) b"
    "ic_metadb b = ic_metadb a" "\<And>k. sc_find (ic_cache b) (ToSlice k) = sc_find (ic_cache a) (ToSlice k)"
    using ic_state_assign [OF a(2) h2(1), of ?g2] ic_state_small [OF a(2) h2(1)] by auto
  let ?us = "[Delete ?k1, Put ?k2 (ih_value h2)]"
  let ?db = "snd (kv_Write kv (batch_of ?us) (ic_metadb b))"
  have batch: "batch_of ?us = WriteBatch_Put ?k2 (ih_value h2) (WriteBatch_Delete ?k1 (WriteBatch_Clear WriteBatch_new))"
    by (simp add: batch_of_def WriteBatch_new_def WriteBatch_Clear_def)
  have commit: "InodeCache_BatchCommit kv p1 p2 s = Some (b\<lparr>ic_metadb := ?db\<rparr>)"
    using ic_state_handle [OF st h1(1)] ic_state_handle [OF a(2) h2(1)] h1 h2 a(1) b(1)
    by (simp add: InodeCache_BatchCommit_def batch_handle_def batch)
  have db: "ok ?db" "contents ?db = (contents (ic_metadb s))(?k1 := None, ?k2 \<mapsto> ih_value h2)"
    using write_ok [OF ic_state_ok [OF b(2)], of ?us] ic_state_small [OF st h2(1)] a(3) b(3) by auto
  have b': "ic_state kv contents ok n {p1} (held(p2 \<mapsto> ?g2)) (b\<lparr>ic_metadb := ?db\<rparr>)"
  proof (rule ic_state_metadb [OF b(2) db(1)])
    fix q e
    assume e: "sc_entry (ic_cache b) q = Some e" "(held(p2 \<mapsto> ?g2)) q = None"
    then have "ih_key (lh_value e) \<noteq> ih_key h2"
      using ic_state_other [OF b(2) e, of p2 ?g2] ne by auto
    moreover have "ih_key (lh_value e) \<noteq> ih_key h1"
      using ic_state_absent [OF b(2) _ e] a(4) b(4) by simp
    ultimately show "contents ?db (ToSlice (ih_key (lh_value e))) =
        contents (ic_metadb b) (ToSlice (ih_key (lh_value e)))"
      using db a(3) b(3) by simp
  qed
  obtain s2 where s2: "InodeCache_Release p2 (b\<lparr>ic_metadb := ?db\<rparr>) = Some s2"
    "ic_state kv contents ok n {p1} (held(p2 := None)) s2" "ic_metadb s2 = ?db"
    "\<And>k. sc_find (ic_cache s2) (ToSlice k) = sc_find (ic_cache b) (ToSlice k)"
    using InodeCache_Release_clean [OF b', of p2 ?g2] ne db(2) by (auto simp: clean_def)
  let ?db' = "CleanInodeHandle kv ?k1 h1 (ic_metadb s2)"
  have db': "ok ?db'" "contents ?db' = (contents ?db)(?k1 := None)"
    using CleanInodeHandle_delete [OF _ h1(2), of ?db ?k1] db s2(3) by auto
  obtain s3 where s3: "InodeCache_Release p1 s2 = Some s3" "ic_metadb s3 = ?db'"
    "ic_state kv contents ok n ({p1} - {p1}) (held(p2 := None, p1 := None)) s3"
  proof (rule InodeCache_Release_detached [OF s2(2), of p1 h1])
    fix q e
    assume e: "sc_entry (ic_cache s2) q = Some e" "(held(p2 := None)) q = None"
    then have "ih_key (lh_value e) \<noteq> ih_key h1"
      using ic_state_absent [OF s2(2) _ e] a(4) b(4) s2(4) by simp
    then show "contents ?db' (ToSlice (ih_key (lh_value e))) = contents (ic_metadb s2) (ToSlice (ih_key (lh_value e)))"
      using db'(2) s2(3) by simp
  qed (use ne h1(1) db' in auto)
  have st3: "ic_state kv contents ok n {} (held(p1 := None, p2 := None)) s3"
    using s3(3) ne by (simp add: fun_upd_twist)
  have "ih_key g \<noteq> ih_key h1" if "(held(p1 := None, p2 := None)) q = Some g" for q g
    using that by (intro ic_state_held_other [OF st _ _ h1(1)]) (auto split: if_splits)
  then obtain s4 where s4: "InodeCache_Evict (ih_key h1) s3 = Some s4"
    "ic_state kv contents ok n {} (held(p1 := None, p2 := None)) s4" "ic_metadb s4 = ic_metadb s3"
    using InodeCache_Evict_unheld [OF st3] by blast
  show thesis
    using that [OF commit s2(1) s3(1) s4(1,2)] s4(3) s3(2) db' db keys by (auto simp: fun_upd_twist)
qed

end

text \<open>Destroying the cache between operations: there is nothing left to write back.\<close>

lemma InodeCache_destroy_quiet:
  assumes st: "ic_state kv contents ok n D Map.empty s"
  shows "InodeCache_destroy s = Some (ic_metadb s)"
  unfolding InodeCache_destroy_def
proof (rule Sharded_destroy_idle [OF ic_state_inv [OF st]])
  fix ptr e
  assume e: "sc_entry (ic_cache s) ptr = Some e"
  show "run_deleter e (ic_metadb s) = ic_metadb s"
    by (rule run_deleter_clean [OF ic_state_entry [OF st e] ic_state_clean [OF st e]]) simp
qed (simp add: ic_state_refs [OF st])

end
