(* ===== verification/Dcache.thy ===== *)
theory Dcache
  imports Tfs_Inode
begin

text \<open>
  The dentry cache, \<open>fs/dcache.h\<close> and \<open>fs/dcache.cpp\<close>: a list of the entries in order of use and a hash
  map from keys to iterators into the list.  An iterator is the number of a list node, so that the
  list pairs each entry with its node, and an operation returns \<open>None\<close> if it follows an iterator to an
  erased node.  \<open>Evict\<close> leaves the entry in the list, which may later cost a newer entry of the same
  key its place in the map: the cache may forget, but never invents.
\<close>

section \<open>Operations\<close>

record DentryCache =
  dc_maxsize :: nat
  dc_cache :: "(nat \<times> tfs_meta_key_t \<times> u64) list"
  dc_lookup :: "tfs_meta_key_t \<Rightarrow> nat option"
  dc_fresh :: nat

definition DentryCacheComp :: "tfs_meta_key_t \<Rightarrow> tfs_meta_key_t \<Rightarrow> bool" where
  "DentryCacheComp lhs rhs \<longleftrightarrow> hash_id lhs = hash_id rhs \<and> inode_id lhs = inode_id rhs"

definition DentryCacheHash :: "tfs_meta_key_t \<Rightarrow> u64" where
  "DentryCacheHash x =
     (let seed = 0 XOR (inode_id x + 0x9e3779b9 + push_bit 6 0 + drop_bit 2 0)
      in seed XOR (hash_id x + 0x9e3779b9 + push_bit 6 seed + drop_bit 2 seed))"

definition DentryCache_new :: "nat \<Rightarrow> DentryCache" where
  "DentryCache_new len = \<lparr>dc_maxsize = len, dc_cache = [], dc_lookup = Map.empty, dc_fresh = 0\<rparr>"

text \<open>\<open>cache.push_front(ent)\<close> followed by \<open>lookup[key] = cache.begin()\<close>.\<close>

definition dc_push_front :: "tfs_meta_key_t \<Rightarrow> u64 \<Rightarrow> DentryCache \<Rightarrow> DentryCache" where
  "dc_push_front key ino s =
     s\<lparr>dc_cache := (dc_fresh s, key, ino) # dc_cache s, dc_lookup := (dc_lookup s)(key \<mapsto> dc_fresh s),
       dc_fresh := dc_fresh s + 1\<rparr>"

definition dc_erase :: "nat \<Rightarrow> DentryCache \<Rightarrow> DentryCache" where
  "dc_erase it s = s\<lparr>dc_cache := filter (\<lambda>node. fst node \<noteq> it) (dc_cache s)\<rparr>"

definition DentryCache_Find :: "tfs_meta_key_t \<Rightarrow> DentryCache \<Rightarrow> (u64 option \<times> DentryCache) option" where
  "DentryCache_Find key s =
     (case dc_lookup s key of
        None \<Rightarrow> Some (None, s)
      | Some it \<Rightarrow>
          (case map_of (dc_cache s) it of
             None \<Rightarrow> None
           | Some (k, ino) \<Rightarrow>
               Some (Some ino, dc_erase it (dc_push_front k ino s)\<lparr>dc_lookup := (dc_lookup s)(key \<mapsto> dc_fresh s)\<rparr>)))"

definition DentryCache_Insert :: "tfs_meta_key_t \<Rightarrow> u64 \<Rightarrow> DentryCache \<Rightarrow> DentryCache" where
  "DentryCache_Insert key ino s =
     (let s1 = dc_push_front key ino s
      in if length (dc_cache s1) > dc_maxsize s1
         then s1\<lparr>dc_lookup := (dc_lookup s1)(fst (snd (last (dc_cache s1))) := None), dc_cache := butlast (dc_cache s1)\<rparr>
         else s1)"

definition DentryCache_Evict :: "tfs_meta_key_t \<Rightarrow> DentryCache \<Rightarrow> DentryCache" where
  "DentryCache_Evict key s = s\<lparr>dc_lookup := (dc_lookup s)(key := None)\<rparr>"

text \<open>
  The two results of \<open>GetSize(size_cache_list, size_cache_map)\<close>, in this order.  The size of the hash
  map is counted over the keys of the list, which are all that can be in the map.
\<close>

definition dc_lookup_size :: "DentryCache \<Rightarrow> nat" where
  "dc_lookup_size s =
     length (remdups (filter (\<lambda>key. dc_lookup s key \<noteq> None) (map (fst \<circ> snd) (dc_cache s))))"

definition DentryCache_GetSize :: "DentryCache \<Rightarrow> nat \<times> nat" where
  "DentryCache_GetSize s = (dc_lookup_size s, length (dc_cache s))"

lemma DentryCacheComp_eq: "DentryCacheComp x y \<longleftrightarrow> x = y"
  by (cases x; cases y) (auto simp: DentryCacheComp_def)

section \<open>A map that may forget\<close>

locale forgetful_map =
  fixes find :: "'k \<Rightarrow> 's \<Rightarrow> ('v option \<times> 's) option"
    and ins :: "'k \<Rightarrow> 'v \<Rightarrow> 's \<Rightarrow> 's"
    and evict :: "'k \<Rightarrow> 's \<Rightarrow> 's"
    and view :: "'s \<Rightarrow> 'k \<Rightarrow> 'v option"
    and inv :: "'s \<Rightarrow> bool"
  assumes find_view: "inv s \<Longrightarrow> \<exists>s'. find k s = Some (view s k, s') \<and> inv s' \<and> view s' = view s"
    and ins_view: "inv s \<Longrightarrow> inv (ins k v s) \<and> view (ins k v s) \<subseteq>\<^sub>m (view s)(k \<mapsto> v)"
    and evict_view: "inv s \<Longrightarrow> inv (evict k s) \<and> view (evict k s) = (view s)(k := None)"
begin

text \<open>What the cache knows stays true if only truths are inserted and changed keys are evicted.\<close>

lemma ins_sound:
  assumes "inv s" "view s \<subseteq>\<^sub>m m" "m k = Some v"
  shows "view (ins k v s) \<subseteq>\<^sub>m m"
proof -
  have "(view s)(k \<mapsto> v) \<subseteq>\<^sub>m m(k \<mapsto> v)"
    using assms(2) by (rule map_le_upd)
  then show ?thesis
    using ins_view [OF assms(1), of k v] assms(3) by (auto intro: map_le_trans simp: fun_upd_idem)
qed

lemma evict_sound:
  assumes "inv s" "view s \<subseteq>\<^sub>m m" "\<And>j. j \<noteq> k \<Longrightarrow> m' j = m j"
  shows "view (evict k s) \<subseteq>\<^sub>m m'"
  using evict_view [OF assms(1), of k] assms(2,3) by (auto simp: map_le_def dom_def)

end

section \<open>The dentry cache meets the contract\<close>

definition dc_view :: "DentryCache \<Rightarrow> tfs_meta_key_t \<Rightarrow> u64 option" where
  "dc_view s key =
     (case dc_lookup s key of None \<Rightarrow> None | Some it \<Rightarrow> map_option snd (map_of (dc_cache s) it))"

definition dc_inv :: "DentryCache \<Rightarrow> bool" where
  "dc_inv s \<longleftrightarrow>
     distinct (map fst (dc_cache s)) \<and> (\<forall>it \<in> fst ` set (dc_cache s). it < dc_fresh s) \<and>
     length (dc_cache s) \<le> dc_maxsize s \<and>
     (\<forall>key it. dc_lookup s key = Some it \<longrightarrow> (\<exists>ino. (it, key, ino) \<in> set (dc_cache s)))"

lemma dc_invD:
  assumes "dc_inv s"
  shows dc_inv_distinct: "distinct (map fst (dc_cache s))"
    and dc_inv_fresh: "(it, e) \<in> set (dc_cache s) \<Longrightarrow> it < dc_fresh s"
    and dc_inv_size: "length (dc_cache s) \<le> dc_maxsize s"
    and dc_inv_live: "dc_lookup s key = Some it \<Longrightarrow> \<exists>ino. map_of (dc_cache s) it = Some (key, ino)"
  using assms by (force simp: dc_inv_def)+

lemma dc_inv_old: "dc_inv s \<Longrightarrow> dc_lookup s key = Some it \<Longrightarrow> it \<noteq> dc_fresh s"
  using dc_inv_live [of s key it] dc_inv_fresh [of s it] by (auto dest: map_of_SomeD)

lemma dc_inv_new: "dc_inv (DentryCache_new len)" "dc_view (DentryCache_new len) = Map.empty"
  by (simp_all add: dc_inv_def dc_view_def DentryCache_new_def fun_eq_iff)

lemma dc_lookup_size_card:
  assumes "dc_inv s"
  shows "dc_lookup_size s = card (dom (dc_lookup s))"
proof -
  have "set (filter (\<lambda>key. dc_lookup s key \<noteq> None) (map (fst \<circ> snd) (dc_cache s))) = dom (dc_lookup s)"
    using assms by (force simp: dc_inv_def dom_def)
  then show ?thesis
    by (metis dc_lookup_size_def length_remdups_card_conv)
qed

lemma dc_view_Some:
  assumes "dc_inv s"
  shows "dc_view s key = Some ino \<longleftrightarrow> (\<exists>it. dc_lookup s key = Some it \<and> (it, key, ino) \<in> set (dc_cache s))"
proof (cases "dc_lookup s key")
  case (Some it)
  then obtain i where i: "map_of (dc_cache s) it = Some (key, i)"
    using dc_inv_live [OF assms] by blast
  then have "(it, key, ino) \<in> set (dc_cache s) \<longleftrightarrow> ino = i"
    using map_of_eq_Some_iff [OF dc_inv_distinct [OF assms], of it "(key, ino)"] by auto
  then show ?thesis
    using Some i by (auto simp: dc_view_def)
qed (simp add: dc_view_def)

lemma map_of_filter_neq:
  "it' \<noteq> it \<Longrightarrow> map_of (filter (\<lambda>node. fst node \<noteq> it) xs) it' = map_of xs it'"
  by (induction xs) auto

lemma Find_view:
  assumes inv: "dc_inv s"
  shows "\<exists>s'. DentryCache_Find key s = Some (dc_view s key, s') \<and> dc_inv s' \<and> dc_view s' = dc_view s"
proof (cases "dc_lookup s key")
  case None
  then show ?thesis
    using inv by (simp add: DentryCache_Find_def dc_view_def)
next
  case (Some it)
  then obtain ino where node: "map_of (dc_cache s) it = Some (key, ino)"
    using dc_inv_live [OF inv] by blast
  let ?s = "dc_erase it (dc_push_front key ino s)\<lparr>dc_lookup := (dc_lookup s)(key \<mapsto> dc_fresh s)\<rparr>"
  have mem: "(it, key, ino) \<in> set (dc_cache s)"
    using node by (rule map_of_SomeD)
  have old: "it < dc_fresh s"
    using dc_inv_fresh [OF inv mem] .
  have list: "dc_cache ?s = (dc_fresh s, key, ino) # filter (\<lambda>node. fst node \<noteq> it) (dc_cache s)"
    using old by (simp add: dc_erase_def dc_push_front_def)
  have "length (filter (\<lambda>node. fst node \<noteq> it) (dc_cache s)) < length (dc_cache s)"
    using mem by (intro length_filter_less) auto
  then have size: "length (dc_cache ?s) \<le> dc_maxsize s"
    unfolding list using dc_inv_size [OF inv] by simp
  have other: "it' \<noteq> it" if "dc_lookup s k = Some it'" "k \<noteq> key" for k it'
    using dc_inv_live [OF inv that(1)] that(2) node by auto
  have "dc_inv ?s"
    unfolding dc_inv_def
  proof (intro conjI)
    show "distinct (map fst (dc_cache ?s))"
      unfolding list using dc_inv_distinct [OF inv] dc_inv_fresh [OF inv]
      by (fastforce simp: distinct_map_filter)
    show "\<forall>it \<in> fst ` set (dc_cache ?s). it < dc_fresh ?s"
      unfolding list using dc_inv_fresh [OF inv] by (fastforce simp: dc_erase_def dc_push_front_def)
    show "length (dc_cache ?s) \<le> dc_maxsize ?s"
      using size by (simp add: dc_erase_def dc_push_front_def)
    show "\<forall>k it'. dc_lookup ?s k = Some it' \<longrightarrow> (\<exists>ino. (it', k, ino) \<in> set (dc_cache ?s))"
      unfolding list using dc_inv_live [OF inv] other by (auto dest!: map_of_SomeD split: if_splits) (metis map_of_SomeD)
  qed
  moreover have "dc_view ?s k = dc_view s k" for k
  proof (cases "k = key")
    case True
    then show ?thesis
      using Some node unfolding dc_view_def list by simp
  next
    case False
    then show ?thesis
      using other [OF _ False] dc_inv_old [OF inv, of k] unfolding dc_view_def list
      by (auto simp: map_of_filter_neq split: option.splits)
  qed
  ultimately show ?thesis
    using Some node by (auto simp: DentryCache_Find_def dc_view_def intro!: ext)
qed

lemma map_of_butlast:
  assumes "xs \<noteq> []" "it \<noteq> fst (last xs)"
  shows "map_of (butlast xs) it = map_of xs it"
proof -
  have "map_of xs it = map_of (butlast xs @ [last xs]) it"
    using assms(1) by simp
  then show ?thesis
    using assms(2) by (simp add: map_add_def split: option.splits)
qed

lemma push_front_view:
  assumes inv: "dc_inv s"
  shows "dc_view (dc_push_front key ino s) = (dc_view s)(key \<mapsto> ino)"
    and "distinct (map fst (dc_cache (dc_push_front key ino s)))"
    and "\<And>it e. (it, e) \<in> set (dc_cache (dc_push_front key ino s)) \<Longrightarrow> it < Suc (dc_fresh s)"
    and "\<And>k it. dc_lookup (dc_push_front key ino s) k = Some it \<Longrightarrow>
      \<exists>i. map_of (dc_cache (dc_push_front key ino s)) it = Some (k, i)"
proof -
  note fresh = dc_inv_old [OF inv]
  then show "dc_view (dc_push_front key ino s) = (dc_view s)(key \<mapsto> ino)"
    by (auto simp: dc_view_def dc_push_front_def fun_eq_iff split: option.splits)
  show "distinct (map fst (dc_cache (dc_push_front key ino s)))"
    using dc_inv_distinct [OF inv] dc_inv_fresh [OF inv] by (fastforce simp: dc_push_front_def)
  show "it < Suc (dc_fresh s)" if "(it, e) \<in> set (dc_cache (dc_push_front key ino s))" for it e
    using that dc_inv_fresh [OF inv, of it e] by (auto simp: dc_push_front_def)
  show "\<exists>i. map_of (dc_cache (dc_push_front key ino s)) it = Some (k, i)"
    if "dc_lookup (dc_push_front key ino s) k = Some it" for k it
    using that fresh dc_inv_live [OF inv] by (auto simp: dc_push_front_def split: if_splits)
qed

lemma Insert_view:
  assumes inv: "dc_inv s"
  shows "dc_inv (DentryCache_Insert key ino s) \<and> dc_view (DentryCache_Insert key ino s) \<subseteq>\<^sub>m (dc_view s)(key \<mapsto> ino)"
proof -
  let ?s = "dc_push_front key ino s"
  note front = push_front_view [OF inv, where key = key and ino = ino]
  have size: "length (dc_cache ?s) \<le> Suc (dc_maxsize s)" "dc_maxsize ?s = dc_maxsize s" "dc_fresh ?s = Suc (dc_fresh s)"
    using dc_inv_size [OF inv] by (simp_all add: dc_push_front_def)
  show ?thesis
  proof (cases "length (dc_cache ?s) > dc_maxsize ?s")
    case False
    then have "dc_inv ?s"
      using front size unfolding dc_inv_def by (fastforce dest: map_of_SomeD)
    then show ?thesis
      using False front(1) by (simp add: DentryCache_Insert_def Let_def)
  next
    case True
    let ?last = "last (dc_cache ?s)"
    let ?t = "?s\<lparr>dc_lookup := (dc_lookup ?s)(fst (snd ?last) := None), dc_cache := butlast (dc_cache ?s)\<rparr>"
    have ne: "dc_cache ?s \<noteq> []"
      by (simp add: dc_push_front_def)
    obtain b k i where tl: "?last = (b, k, i)"
      by (cases ?last)
    have b: "map_of (dc_cache ?s) b = Some (k, i)"
      using front(2) last_in_set [OF ne] tl by (intro map_of_is_SomeI) auto
    have keep: "map_of (butlast (dc_cache ?s)) it = map_of (dc_cache ?s) it"
      if "dc_lookup ?s key' = Some it" "key' \<noteq> k" for key' it
      using front(4) [OF that(1)] that(2) b tl by (intro map_of_butlast [OF ne]) auto
    have "dc_inv ?t"
      unfolding dc_inv_def
    proof (intro conjI)
      show "distinct (map fst (dc_cache ?t))"
        using front(2) by (simp add: map_butlast distinct_butlast)
      show "\<forall>it \<in> fst ` set (dc_cache ?t). it < dc_fresh ?t"
        using front(3) size(3) by (auto dest!: in_set_butlastD)
      show "length (dc_cache ?t) \<le> dc_maxsize ?t"
        using size by simp
      show "\<forall>key it. dc_lookup ?t key = Some it \<longrightarrow> (\<exists>ino. (it, key, ino) \<in> set (dc_cache ?t))"
        using keep front(4) tl by (auto split: if_splits) (metis map_of_SomeD)
    qed
    moreover have "dc_view ?t \<subseteq>\<^sub>m dc_view ?s"
      using keep tl by (auto simp: map_le_def dc_view_def dom_def split: option.splits if_splits)
    ultimately show ?thesis
      using True front(1) by (simp add: DentryCache_Insert_def Let_def)
  qed
qed

lemma Evict_view:
  assumes "dc_inv s"
  shows "dc_inv (DentryCache_Evict key s) \<and> dc_view (DentryCache_Evict key s) = (dc_view s)(key := None)"
  using assms by (auto simp: DentryCache_Evict_def dc_inv_def dc_view_def fun_eq_iff split: option.splits)

interpretation dc: forgetful_map DentryCache_Find DentryCache_Insert DentryCache_Evict dc_view dc_inv
  by standard (rule Find_view Insert_view Evict_view; assumption)+

section \<open>Sequences of operations\<close>

datatype dentry_op = DFind tfs_meta_key_t | DInsert tfs_meta_key_t u64 | DEvict tfs_meta_key_t

primrec dentry_step :: "dentry_op \<Rightarrow> DentryCache \<Rightarrow> DentryCache option" where
  "dentry_step (DFind key) s = map_option snd (DentryCache_Find key s)"
| "dentry_step (DInsert key ino) s = Some (DentryCache_Insert key ino s)"
| "dentry_step (DEvict key) s = Some (DentryCache_Evict key s)"

primrec dentry_run :: "dentry_op list \<Rightarrow> DentryCache \<Rightarrow> DentryCache option" where
  "dentry_run [] s = Some s"
| "dentry_run (x # xs) s = (case dentry_step x s of None \<Rightarrow> None | Some s' \<Rightarrow> dentry_run xs s')"

text \<open>The map the operations would build if nothing were ever forgotten.\<close>

primrec dentry_map :: "dentry_op \<Rightarrow> (tfs_meta_key_t \<Rightarrow> u64 option) \<Rightarrow> tfs_meta_key_t \<Rightarrow> u64 option" where
  "dentry_map (DFind key) m = m"
| "dentry_map (DInsert key ino) m = m(key \<mapsto> ino)"
| "dentry_map (DEvict key) m = m(key := None)"

lemma dc_maxsize_ops [simp]:
  "dc_maxsize (DentryCache_Insert key ino s) = dc_maxsize s" "dc_maxsize (DentryCache_Evict key s) = dc_maxsize s"
  "DentryCache_Find key s = Some (r, s') \<Longrightarrow> dc_maxsize s' = dc_maxsize s"
  by (auto simp: DentryCache_Insert_def DentryCache_Evict_def DentryCache_Find_def dc_push_front_def dc_erase_def Let_def
      split: option.splits)

lemma dentry_step_sound:
  assumes "dc_inv s" "dc_view s \<subseteq>\<^sub>m m"
  obtains s' where "dentry_step x s = Some s'" "dc_inv s'" "dc_view s' \<subseteq>\<^sub>m dentry_map x m" "dc_maxsize s' = dc_maxsize s"
proof (cases x)
  case (DFind key)
  then show thesis
    using that dc.find_view [OF assms(1), of key] assms(2) by auto
next
  case (DInsert key ino)
  have "(dc_view s)(key \<mapsto> ino) \<subseteq>\<^sub>m m(key \<mapsto> ino)"
    using assms(2) by (rule map_le_upd)
  then show thesis
    using that [of "DentryCache_Insert key ino s"] dc.ins_view [OF assms(1), of key ino] DInsert
    by (auto intro: map_le_trans)
next
  case (DEvict key)
  then show thesis
    using that [of "DentryCache_Evict key s"] dc.evict_view [OF assms(1)] dc.evict_sound [OF assms, of key "m(key := None)"]
    by simp
qed

lemma dentry_run_sound:
  assumes "dc_inv s" "dc_view s \<subseteq>\<^sub>m m"
  shows "\<exists>s'. dentry_run xs s = Some s' \<and> dc_inv s' \<and> dc_view s' \<subseteq>\<^sub>m fold dentry_map xs m \<and> dc_maxsize s' = dc_maxsize s"
  using assms
proof (induction xs arbitrary: s m)
  case (Cons x xs)
  obtain s1 where s1: "dentry_step x s = Some s1" "dc_inv s1" "dc_view s1 \<subseteq>\<^sub>m dentry_map x m" "dc_maxsize s1 = dc_maxsize s"
    by (rule dentry_step_sound [OF Cons.prems])
  then show ?case
    using Cons.IH [OF s1(2,3)] by auto
qed simp

end
