(* ===== verification/Tfs_State.thy ===== *)
theory Tfs_State
  imports Properties
begin

text \<open>
  The state of a mounted file system, \<open>fs/tfs_state.cpp\<close>: its directories, the size up to which files
  are kept inline, and the counter of inode numbers, which \<open>root.dat\<close> keeps between mounts.  The
  program formats paths into arrays of fixed size; an operation is \<open>None\<close> if that would overrun the
  array, write to a file that could not be opened, or if the program exits.  The messages it logs are
  not modelled.
\<close>

section \<open>Operations\<close>

record FileSystemState =
  metadir :: bytes
  datadir :: bytes
  mountdir :: bytes
  max_inode_num :: u64
  threshold :: int

text \<open>What \<open>Setup\<close> asks the system about paths.\<close>

record setup_env =
  se_realpath :: "bytes \<Rightarrow> bytes"
  se_access :: "bytes \<Rightarrow> int"

definition FileSystemState_new :: FileSystemState where
  "FileSystemState_new = \<lparr>metadir = [], datadir = [], mountdir = [], max_inode_num = 0, threshold = 0\<rparr>"

definition IsEmpty :: "FileSystemState \<Rightarrow> bool" where
  "IsEmpty st \<longleftrightarrow> max_inode_num st = 0"

text \<open>\<open>sprintf\<close> into an array of \<open>n\<close> bytes.\<close>

definition sprintf_buf :: "nat \<Rightarrow> bytes \<Rightarrow> bytes option" where
  "sprintf_buf n text = (if length text < n then Some text else None)"

text \<open>\<open>(int) x\<close>, and \<open>>>\<close> and \<open>%\<close> on it.\<close>

definition to_int :: "u64 \<Rightarrow> int" where
  "to_int x = sint (ucast x :: 32 word)"

definition c_rem :: "int \<Rightarrow> int \<Rightarrow> int" where
  "c_rem a b = sgn a * (\<bar>a\<bar> mod b)"

definition root_dat :: "FileSystemState \<Rightarrow> bytes option" where
  "root_dat st = sprintf_buf 256 (datadir st @ cstr ''/root.dat'')"

text \<open>
  \<open>fscanf(f, "%u", &n)\<close>: the four bytes it stores, or \<open>None\<close> if nothing matches.  A number that does
  not fit 64 bits is read as the largest one.
\<close>

definition fscanf_u :: "bytes \<Rightarrow> u32 option" where
  "fscanf_u text =
     (let s = dropWhile is_space text;
          neg = (s \<noteq> [] \<and> hd s = 45);
          s' = (if s \<noteq> [] \<and> (hd s = 45 \<or> hd s = 43) then tl s else s);
          ds = takeWhile is_digit s';
          n = digits_value ds
      in if ds = [] then None
         else Some (if 2 ^ 64 \<le> n then -1 else if neg then - of_nat n else of_nat n))"

text \<open>
  \<open>Setup\<close>: the directories and the check that they can be used, then the counter.  In between the code
  constructs the adaptor that the build selects, without opening it; the adaptor is not part of this
  state, and the operations of the file system take it as an argument.  \<open>%u\<close> of a 64-bit number prints
  its lower half, and \<open>fscanf\<close> stores to the lower half of a zero.
\<close>

definition Setup_dirs :: "setup_env \<Rightarrow> Properties \<Rightarrow> FileSystemState option" where
  "Setup_dirs env prop =
     (let st = FileSystemState_new
                 \<lparr>metadir := se_realpath env (getProperty (cstr ''metadir'') prop),
                  datadir := se_realpath env (getProperty_default (cstr ''datadir'') (cstr ''/mnt/pmem/tablefs'') prop),
                  mountdir := se_realpath env (getProperty (cstr ''mountdir'') prop),
                  threshold := getPropertyInt (cstr ''threshold'') 4096 prop\<rparr>
      in if se_access env (datadir st) > 0 \<or> se_access env (metadir st) > 0 then None else Some st)"

definition Setup_counter :: "FileSystemState \<Rightarrow> Posix \<Rightarrow> (FileSystemState \<times> Posix) option" where
  "Setup_counter st px =
     do {
       fpath \<leftarrow> root_dat st;
       case file_read fpath px of
         None \<Rightarrow>
           do {
             let (opened, px1) = file_write fpath (print_nat 0 @ [10]) px;
             if opened
             then do {
                    dir \<leftarrow> sprintf_buf 512 (datadir st @ cstr ''/'' @ print_int 0);
                    Some (st, snd (posix_mkdir dir px1))
                  }
             else None
           }
       | Some text \<Rightarrow>
           Some (st\<lparr>max_inode_num := (case fscanf_u text of None \<Rightarrow> 0 | Some n \<Rightarrow> ucast n)\<rparr>, px)
     }"

definition Setup :: "setup_env \<Rightarrow> Properties \<Rightarrow> Posix \<Rightarrow> (FileSystemState \<times> Posix) option" where
  "Setup env prop px = do { st \<leftarrow> Setup_dirs env prop; Setup_counter st px }"

definition State_Destroy :: "FileSystemState \<Rightarrow> Posix \<Rightarrow> Posix option" where
  "State_Destroy st px =
     do {
       fpath \<leftarrow> root_dat st;
       Some (snd (file_write fpath (print_nat (unat (ucast (max_inode_num st) :: u32)) @ [10]) px))
     }"

definition data_subdir :: "FileSystemState \<Rightarrow> u64 \<Rightarrow> bytes" where
  "data_subdir st inode = datadir st @ cstr ''/'' @ print_int (to_int inode div 2 ^ NUM_FILES_IN_DATADIR_BITS)"

definition NewInode :: "FileSystemState \<Rightarrow> Posix \<Rightarrow> (u64 \<times> FileSystemState \<times> Posix) option" where
  "NewInode st px =
     (let st1 = st\<lparr>max_inode_num := max_inode_num st + 1\<rparr>; n = max_inode_num st1
      in if n mod of_nat NUM_FILES_IN_DATADIR = 0
         then do {
                fpath \<leftarrow> sprintf_buf 512 (data_subdir st n);
                Some (n, st1, snd (posix_mkdir fpath px))
              }
         else Some (n, st1, px))"

text \<open>\<open>TableFS::GetDiskFilePath\<close>, into the 128 bytes its callers provide.\<close>

definition GetDiskFilePath :: "FileSystemState \<Rightarrow> u64 \<Rightarrow> bytes option" where
  "GetDiskFilePath st inode =
     sprintf_buf 128 (data_subdir st inode @ cstr ''/'' @ print_int (c_rem (to_int inode) (int NUM_FILES_IN_DATADIR)))"

section \<open>Every inode number has its directory\<close>

text \<open>The directories of all the numbers handed out so far exist.\<close>

definition dirs_ok :: "FileSystemState \<Rightarrow> Posix \<Rightarrow> bool" where
  "dirs_ok st px \<longleftrightarrow>
     px_dirs px (datadir st) \<and> unat (max_inode_num st) < 2 ^ 31 \<and>
     (\<forall>inode. inode \<le> max_inode_num st \<longrightarrow> px_dirs px (data_subdir st inode))"

lemma digit_not_slash: "is_digit c \<Longrightarrow> c \<noteq> 47"
  by (auto simp: is_digit_def)

lemma slash_not_print_int: "47 \<notin> set (print_int i)"
  using is_digit_print_nat digit_not_slash by (auto simp: print_int_def)

lemma dirname_append:
  assumes "47 \<notin> set name"
  shows "dirname (dir @ 47 # name) = dir"
proof -
  have "dropWhile (\<lambda>c. c \<noteq> 47) (rev name @ 47 # rev dir) = 47 # rev dir"
    using assms by (subst dropWhile_append2) auto
  then show ?thesis
    by (simp add: dirname_def)
qed

lemma cstr_slash [simp]: "cstr ''/'' = [47]"
  by (simp add: cstr_def)

lemma dirname_data_subdir [simp]: "dirname (data_subdir st inode) = datadir st"
  by (simp add: data_subdir_def dirname_append slash_not_print_int)

lemma GetDiskFilePath_dir:
  "GetDiskFilePath st inode = Some path \<Longrightarrow> dirname path = data_subdir st inode"
  by (auto simp: GetDiskFilePath_def sprintf_buf_def dirname_append slash_not_print_int split: if_splits)

lemma to_int_small: "unat x < 2 ^ 31 \<Longrightarrow> to_int x = int (unat x)"
proof -
  assume "unat x < 2 ^ 31"
  then have "int (unat x) < int (2 ^ 31)"
    by (simp only: of_nat_less_iff)
  then have "uint x < 2 ^ 31"
    by simp
  then have "signed_take_bit 31 (uint x) = uint x"
    using uint_ge_0 [of x] by (intro signed_take_bit_int_eq_self) linarith+
  then have "sint (word_of_int (uint x) :: u32) = uint x"
    by (subst sint_sbintrunc') simp
  then show ?thesis
    by (simp add: to_int_def)
qed

lemma c_rem_small: "0 \<le> a \<Longrightarrow> 0 < b \<Longrightarrow> c_rem a b = a mod b"
  by (cases "a = 0") (simp_all add: c_rem_def)

text \<open>Different inode numbers have different files.\<close>

lemma print_int_nonneg [simp]: "print_int (int n) = print_nat n"
  by (simp add: print_int_def)

lemma data_subdir_small:
  assumes "unat x < 2 ^ 31"
  shows "data_subdir st x = datadir st @ 47 # print_nat (unat x div 16384)"
proof -
  have "to_int x div 2 ^ NUM_FILES_IN_DATADIR_BITS = int (unat x div 16384)"
    using to_int_small [OF assms] by (simp add: NUM_FILES_IN_DATADIR_BITS_def zdiv_int)
  then show ?thesis
    by (simp only: data_subdir_def print_int_nonneg cstr_slash append.simps)
qed

lemma GetDiskFilePath_small:
  assumes "unat x < 2 ^ 31"
  shows "GetDiskFilePath st x =
    sprintf_buf 128 (datadir st @ 47 # print_nat (unat x div 16384) @ 47 # print_nat (unat x mod 16384))"
proof -
  have "c_rem (to_int x) (int NUM_FILES_IN_DATADIR) = int (unat x mod 16384)"
    using to_int_small [OF assms] by (simp add: NUM_FILES_IN_DATADIR_def c_rem_small zmod_int)
  then show ?thesis
    by (simp only: GetDiskFilePath_def data_subdir_small [OF assms] print_int_nonneg cstr_slash append.simps append_assoc)
qed

lemma length_print_nat: "n < 10 ^ Suc k \<Longrightarrow> length (print_nat n) \<le> Suc k"
proof (induction k arbitrary: n)
  case 0
  then show ?case
    by (simp add: print_nat.simps)
next
  case (Suc k)
  then have "length (print_nat (n div 10)) \<le> Suc k"
    by (intro Suc.IH) simp
  then show ?case
    by (subst print_nat.simps) simp
qed

lemma length_print_int:
  assumes "\<bar>i\<bar> < 10 ^ Suc k"
  shows "length (print_int i) \<le> Suc (Suc k)"
proof -
  have "nat \<bar>i\<bar> < 10 ^ Suc k"
    using assms by (simp add: nat_less_iff)
  then have "length (print_nat (nat \<bar>i\<bar>)) \<le> Suc k"
    by (rule length_print_nat)
  then show ?thesis
    by (auto simp: print_int_def abs_if split: if_splits)
qed

text \<open>Whatever the number, the paths of the data files fit their arrays.\<close>

lemma to_int_bounds: "- (2 ^ 31) \<le> to_int x" "to_int x < 2 ^ 31"
  using sint_range_size [of "ucast x :: u32"] by (simp_all add: to_int_def word_size)

lemma length_data_subdir: "length (data_subdir st x) \<le> length (datadir st) + 8"
proof -
  have "\<bar>to_int x div 2 ^ NUM_FILES_IN_DATADIR_BITS\<bar> < 10 ^ Suc 5"
    using to_int_bounds [of x] by (simp add: NUM_FILES_IN_DATADIR_BITS_def abs_less_iff) linarith
  then show ?thesis
    using length_print_int by (fastforce simp: data_subdir_def)
qed

lemma data_subdir_fits:
  "length (datadir st) \<le> 100 \<Longrightarrow> sprintf_buf 512 (data_subdir st x) = Some (data_subdir st x)"
  using length_data_subdir [of st x] by (simp add: sprintf_buf_def)

lemma GetDiskFilePath_fits:
  assumes "length (datadir st) \<le> 100"
  obtains path where "GetDiskFilePath st x = Some path" "dirname path = data_subdir st x"
proof -
  let ?r = "c_rem (to_int x) (int NUM_FILES_IN_DATADIR)"
  have "\<bar>?r\<bar> = \<bar>to_int x\<bar> mod 16384 \<or> ?r = 0"
    by (auto simp: c_rem_def NUM_FILES_IN_DATADIR_def abs_mult abs_sgn_eq)
  then have "\<bar>?r\<bar> < 10 ^ Suc 4"
    by auto
  then have "length (print_int ?r) \<le> 6"
    using length_print_int [of ?r 4] by simp
  then show thesis
    using that assms length_data_subdir [of st x] GetDiskFilePath_dir [of st x]
    by (auto simp: GetDiskFilePath_def sprintf_buf_def)
qed

lemma split_at_slash:
  assumes "a @ 47 # b = a' @ (47::byte) # b'" "47 \<notin> set b" "47 \<notin> set b'"
  shows "a = a' \<and> b = b'"
proof -
  have stop: "takeWhile (\<lambda>c. c \<noteq> 47) (rev (a @ 47 # b)) = rev b" if "47 \<notin> set b" for a b :: bytes
    using that takeWhile_stop [of "rev b" "\<lambda>c. c \<noteq> 47" 47 "rev a"] by auto
  then have "rev b = rev b'"
    using assms stop [of b a] stop [of b' a'] by simp
  then show ?thesis
    using assms(1) by simp
qed

lemma slash_not_print_nat: "47 \<notin> set (print_nat n)"
  using is_digit_print_nat digit_not_slash by blast

lemma GetDiskFilePath_inject:
  assumes "unat x < 2 ^ 31" "unat y < 2 ^ 31"
    and "GetDiskFilePath st x = Some p" "GetDiskFilePath st y = Some p"
  shows "x = y"
proof -
  have "(datadir st @ 47 # print_nat (unat x div 16384)) @ 47 # print_nat (unat x mod 16384) =
      (datadir st @ 47 # print_nat (unat y div 16384)) @ 47 # print_nat (unat y mod 16384)"
    using assms(3,4) unfolding GetDiskFilePath_small [OF assms(1)] GetDiskFilePath_small [OF assms(2)]
    by (auto simp: sprintf_buf_def split: if_splits)
  then have "datadir st @ 47 # print_nat (unat x div 16384) = datadir st @ 47 # print_nat (unat y div 16384) \<and>
      print_nat (unat x mod 16384) = print_nat (unat y mod 16384)"
    by (rule split_at_slash) (rule slash_not_print_nat)+
  then have "unat x div 16384 = unat y div 16384" "unat x mod 16384 = unat y mod 16384"
    by simp_all
  then have "unat x = unat y"
    by (metis div_mult_mod_eq)
  then show ?thesis
    by (simp add: word_unat_eq_iff)
qed

lemma posix_mkdir_dirs: "px_dirs px p \<Longrightarrow> px_dirs (snd (posix_mkdir path px)) p"
  by (simp add: posix_mkdir_def px_fail_def)

lemma posix_mkdir_made:
  "px_dirs px (dirname path) \<Longrightarrow> px_links px path = None \<Longrightarrow> px_dirs (snd (posix_mkdir path px)) path"
  by (simp add: posix_mkdir_def px_fail_def)

text \<open>Counting up keeps the directories complete.\<close>

lemma data_subdir_cong: "datadir st = datadir st' \<Longrightarrow> data_subdir st = data_subdir st'"
  by (simp add: data_subdir_def fun_eq_iff)

lemma unat_Suc_small: "unat (x :: u64) < 2 ^ 31 \<Longrightarrow> unat (x + 1) = unat x + 1"
  by (simp add: unat_word_ariths take_bit_nat_eq_self)

lemma NewInode_spec:
  assumes ok: "dirs_ok st px" and small: "unat (max_inode_num st) + 1 < 2 ^ 31"
    and room: "length (datadir st) \<le> 100" and files: "\<And>x. px_links px (data_subdir st x) = None"
  obtains px' where "NewInode st px = Some (max_inode_num st + 1, st\<lparr>max_inode_num := max_inode_num st + 1\<rparr>, px')"
    "dirs_ok (st\<lparr>max_inode_num := max_inode_num st + 1\<rparr>) px'" "px_links px' = px_links px"
    "px_files px' = px_files px" "px_fds px' = px_fds px" "px_next px' = px_next px"
proof -
  let ?n = "max_inode_num st + 1"
  let ?st = "st\<lparr>max_inode_num := ?n\<rparr>"
  have n: "unat ?n = unat (max_inode_num st) + 1"
    using small by (intro unat_Suc_small) simp
  have dir: "data_subdir ?st = data_subdir st"
    by (rule data_subdir_cong) simp
  have mod: "?n mod of_nat NUM_FILES_IN_DATADIR = 0 \<longleftrightarrow> unat ?n mod 16384 = 0"
    by (simp add: word_unat_eq_iff unat_mod NUM_FILES_IN_DATADIR_def)
  have below: "inode \<le> max_inode_num st \<or> inode = ?n" if "inode \<le> ?n" for inode
    using that n by (auto simp: word_le_nat_alt word_unat_eq_iff)
  show thesis
  proof (cases "unat ?n mod 16384 = 0")
    case True
    have fits: "sprintf_buf 512 (data_subdir st ?n) = Some (data_subdir st ?n)"
      using room by (rule data_subdir_fits)
    let ?px = "snd (posix_mkdir (data_subdir st ?n) px)"
    have "px_dirs ?px (data_subdir st ?n)"
      using ok files by (intro posix_mkdir_made) (simp_all add: dirs_ok_def)
    then have "dirs_ok ?st ?px"
      using ok small n by (auto simp: dirs_ok_def dir intro: posix_mkdir_dirs dest!: below)
    then show thesis
      using that [of ?px] True mod fits dir
      by (simp add: NewInode_def Let_def posix_mkdir_def px_fail_def)
  next
    case False
    have "unat ?n div 16384 = unat (max_inode_num st) div 16384"
      using n False by (metis add.commute div_Suc mod_Suc plus_1_eq_Suc)
    then have "data_subdir st ?n = data_subdir st (max_inode_num st)"
      using small n by (simp add: data_subdir_small)
    then have "dirs_ok ?st px"
      using ok small n by (auto simp: dirs_ok_def dir dest!: below)
    then show thesis
      using that [of px] False mod by (simp add: NewInode_def Let_def)
  qed
qed

section \<open>The counter between mounts\<close>

lemma fscanf_u_print:
  assumes "n < 2 ^ 64"
  shows "fscanf_u (print_nat n @ [10]) = Some (of_nat n)"
proof -
  have nl: "\<not> is_digit 10"
    by (simp add: is_digit_def word_le_nat_alt)
  have hd: "is_digit (hd (print_nat n))"
    using is_digit_print_nat [of "hd (print_nat n)" n] by simp
  then have "\<not> is_space (hd (print_nat n))"
    by (rule digit_not_space)
  then have "dropWhile is_space (print_nat n @ [10]) = print_nat n @ [10]"
    by (cases "print_nat n") auto
  moreover have "hd (print_nat n @ [10]) \<noteq> 45" "hd (print_nat n @ [10]) \<noteq> 43"
    using hd by (auto simp: is_digit_def)
  moreover have "takeWhile is_digit (print_nat n @ [10]) = print_nat n"
    using nl by (intro takeWhile_stop is_digit_print_nat)
  ultimately show ?thesis
    unfolding fscanf_u_def Let_def using assms by (simp add: digits_value_print_nat)
qed

lemma file_read_write:
  assumes "file_write path data px = (True, px')"
  shows "file_read path px' = Some data"
  using assms by (auto simp: file_write_def file_read_def split: option.splits if_splits)

lemma Setup_again:
  assumes written: "root_dat st = Some path" "fst (file_write path (print_nat (unat (ucast (max_inode_num st) :: u32)) @ [10]) px)"
    and destroy: "State_Destroy st px = Some px'"
    and env: "se_realpath env (getProperty_default (cstr ''datadir'') (cstr ''/mnt/pmem/tablefs'') prop) = datadir st"
    and acc: "\<And>p. se_access env p \<le> 0"
  obtains st' where "Setup env prop px' = Some (st', px')"
    "max_inode_num st' = ucast (ucast (max_inode_num st) :: u32)" "datadir st' = datadir st"
proof -
  let ?n = "unat (ucast (max_inode_num st) :: u32)"
  have "file_write path (print_nat ?n @ [10]) px = (True, px')"
    using written destroy by (auto simp: State_Destroy_def prod_eq_iff)
  then have "file_read path px' = Some (print_nat ?n @ [10])"
    by (rule file_read_write)
  moreover have "?n < 2 ^ 64"
    using unsigned_less [of "ucast (max_inode_num st) :: u32", where 'a = nat] by simp
  then have "fscanf_u (print_nat ?n @ [10]) = Some (ucast (max_inode_num st))"
    by (subst fscanf_u_print) simp_all
  moreover have "\<not> 0 < se_access env p" for p
    using acc [of p] by simp
  ultimately show thesis
    using that written(1) env by (simp add: Setup_def Setup_dirs_def Setup_counter_def root_dat_def)
qed

end
