(* ===== verification/Tablefs.thy ===== *)
theory Tablefs
  imports Icache Dcache Tfs_State
begin

text \<open>
  The handlers of the file system, \<open>fs/tablefs.cpp\<close>.  The state of a mounted file system holds the
  configuration, the inode cache with the store behind it, the dentry cache, the files of the
  operating system with \<open>errno\<close>, and the open file handles.  A handler returns \<open>None\<close> where the program
  would touch memory it must not, or exits.  \<open>fstree_lock\<close> guards nothing in this version of the code,
  since the calls in \<open>fs/inodemutex.cpp\<close> are commented out, and messages that are only printed or logged
  are left out.
\<close>

section \<open>State\<close>

record tfs_file_handle_t =
  fh_handle :: cache_ptr
  fh_flags :: u32
  fh_fd :: int

record 'db TableFS =
  fs_state :: FileSystemState
  fs_icache :: "'db InodeCache"
  fs_dcache :: DentryCache
  fs_fuse :: bool
  fs_px :: Posix
  fs_fhs :: "nat \<Rightarrow> tfs_file_handle_t option"
  fs_next_fh :: nat

text \<open>
  What a call finds in its surroundings: the clock and the caller, and what uninitialised or freed
  memory happens to hold (\<open>ce_mem\<close> from \<open>new char[]\<close>, \<open>ce_fd\<close> in the uninitialised \<open>fd\<close> of \<open>Truncate\<close>,
  \<open>ce_stale\<close> behind a pointer into a string that has been moved).
\<close>

record call_env =
  ce_sys :: sys_env
  ce_mem :: bytes
  ce_fd :: int
  ce_stale :: u64

definition set_errno :: "int \<Rightarrow> 'db TableFS \<Rightarrow> 'db TableFS" where
  "set_errno err s = s\<lparr>fs_px := (fs_px s)\<lparr>px_errno := err\<rparr>\<rparr>"

definition FSError :: "'db TableFS \<Rightarrow> int" where
  "FSError s = - px_errno (fs_px s)"

definition fs_metadb :: "'db TableFS \<Rightarrow> 'db" where
  "fs_metadb s = ic_metadb (fs_icache s)"

definition with_metadb :: "'db \<Rightarrow> 'db TableFS \<Rightarrow> 'db TableFS" where
  "with_metadb db s = s\<lparr>fs_icache := (fs_icache s)\<lparr>ic_metadb := db\<rparr>\<rparr>"

definition with_icache :: "'db InodeCache \<Rightarrow> 'db TableFS \<Rightarrow> 'db TableFS" where
  "with_icache ic s = s\<lparr>fs_icache := ic\<rparr>"

definition evict_dentry :: "tfs_meta_key_t \<Rightarrow> 'db TableFS \<Rightarrow> 'db TableFS" where
  "evict_dentry key s = s\<lparr>fs_dcache := DentryCache_Evict key (fs_dcache s)\<rparr>"

section \<open>Paths\<close>

definition root_key :: tfs_meta_key_t where
  "root_key = BuildMetaKey_name [] ROOT_INODE_ID"

text \<open>
  The body of the loop of \<open>ParentPathLookup\<close>: the inode number of one component, from the dentry cache
  or from the store.
\<close>

definition lookup_component :: "'db KvWrapper \<Rightarrow> tfs_meta_key_t \<Rightarrow> 'db TableFS \<Rightarrow> (u64 option \<times> 'db TableFS) option" where
  "lookup_component kv key s =
     do {
       (found, dc) \<leftarrow> DentryCache_Find key (fs_dcache s);
       let s1 = s\<lparr>fs_dcache := dc\<rparr>;
       case found of
         Some ino \<Rightarrow> Some (Some ino, s1)
       | None \<Rightarrow>
           (let (ret, result, db) = kv_Get kv (ToSlice key) (fs_metadb s1); s2 = with_metadb db s1
            in if ret = 1
               then do {
                      st \<leftarrow> GetAttribute result;
                      Some (Some (st_ino st), s2\<lparr>fs_dcache := DentryCache_Insert key (st_ino st) (fs_dcache s2)\<rparr>)
                    }
               else Some (None, set_errno ENOENT s2))
     }"

text \<open>
  The loop itself.  \<open>lpos\<close> is the rest of the path from that pointer on.  The result is \<open>None\<close> inside
  when a component is missing, and otherwise the key and inode number of the last directory and \<open>lpos\<close>.
\<close>

function ParentPathLookup_loop ::
  "'db KvWrapper \<Rightarrow> bytes \<Rightarrow> tfs_meta_key_t \<Rightarrow> u64 \<Rightarrow> 'db TableFS \<Rightarrow>
   ((tfs_meta_key_t \<times> u64 \<times> bytes) option \<times> 'db TableFS) option" where
  "ParentPathLookup_loop kv lpos key inode_in_search s =
     (if lpos = [] then None
      else let piece = takeWhile (\<lambda>c. c \<noteq> PATH_DELIMITER) (tl lpos); rpos = drop (length piece) (tl lpos)
           in if rpos = [] then Some (Some (key, inode_in_search, lpos), s)
              else do {
                     let key' = BuildMetaKey_name piece inode_in_search;
                     (found, s') \<leftarrow> lookup_component kv key' s;
                     case found of
                       None \<Rightarrow> Some (None, s')
                     | Some ino \<Rightarrow> ParentPathLookup_loop kv rpos key' ino s'
                   })"
  by auto

termination ParentPathLookup_loop
proof (relation "measure (\<lambda>(_, lpos, _). length lpos)", simp)
  fix lpos piece rpos :: bytes
  assume "lpos \<noteq> []" "rpos = drop (length piece) (tl lpos)"
  then have "length rpos < length lpos"
    by (cases lpos) auto
  then show "((kv, rpos, k, i, s), kv, lpos, k', i', s') \<in> measure (\<lambda>(_, lpos, _). length lpos)" for kv k i s k' i' s'
    by simp
qed

definition ParentPathLookup ::
  "'db KvWrapper \<Rightarrow> bytes \<Rightarrow> 'db TableFS \<Rightarrow> ((tfs_meta_key_t \<times> u64 \<times> bytes) option \<times> 'db TableFS) option" where
  "ParentPathLookup kv path s =
     do {
       (result, s') \<leftarrow> ParentPathLookup_loop kv path root_key ROOT_INODE_ID s;
       case result of
         None \<Rightarrow> Some (None, s')
       | Some (key, ino, lpos) \<Rightarrow> Some (Some (if length lpos = length path then root_key else key, ino, lpos), s')
     }"

definition PathLookup :: "'db KvWrapper \<Rightarrow> bytes \<Rightarrow> 'db TableFS \<Rightarrow> (tfs_meta_key_t option \<times> 'db TableFS) option" where
  "PathLookup kv path s =
     do {
       (result, s') \<leftarrow> ParentPathLookup kv path s;
       case result of
         Some (key, ino, lpos) \<Rightarrow> Some (Some (if length lpos > 1 then BuildMetaKey_name (tl lpos) ino else key), s')
       | None \<Rightarrow> Some (None, set_errno ENOENT s')
     }"

definition PathLookup_name ::
  "'db KvWrapper \<Rightarrow> bytes \<Rightarrow> 'db TableFS \<Rightarrow> ((tfs_meta_key_t \<times> bytes) option \<times> 'db TableFS) option" where
  "PathLookup_name kv path s =
     do {
       (result, s') \<leftarrow> ParentPathLookup kv path s;
       case result of
         Some (key, ino, lpos) \<Rightarrow>
           Some (Some (if length lpos > 1 then (BuildMetaKey_name (tl lpos) ino, tl lpos) else (key, [hd lpos])), s')
       | None \<Rightarrow> Some (None, set_errno ENOENT s')
     }"

section \<open>Mounting\<close>

text \<open>\<open>lstat("/tmp/")\<close> gives the mode and the device of the root.  The result is \<open>None\<close> if the store cannot be opened.\<close>

definition TableFS_Init ::
  "'db KvWrapper \<Rightarrow> call_env \<Rightarrow> bool \<Rightarrow> u32 \<Rightarrow> u64 \<Rightarrow> FileSystemState \<Rightarrow> 'db \<Rightarrow> Posix \<Rightarrow> 'db TableFS option" where
  "TableFS_Init kv env conn root_mode root_dev st db px =
     (let (ret, db1) = kv_Init kv db
      in if ret < 0 then None
         else let value = InitInodeValue (ce_sys env) conn (ce_mem env) ROOT_INODE_ID root_mode root_dev [];
                  db2 = (if IsEmpty st then snd (kv_Put kv (ToSlice root_key) value db1) else db1)
              in Some \<lparr>fs_state = st, fs_icache = InodeCache_new db2, fs_dcache = DentryCache_new 16384, fs_fuse = conn,
                       fs_px = px, fs_fhs = Map.empty, fs_next_fh = 0\<rparr>)"

definition TableFS_Destroy :: "'db KvWrapper \<Rightarrow> 'db TableFS \<Rightarrow> ('db \<times> Posix) option" where
  "TableFS_Destroy kv s =
     do {
       db \<leftarrow> InodeCache_destroy (fs_icache s);
       px \<leftarrow> State_Destroy (fs_state s) (fs_px s);
       Some (kv_Cleanup kv db, px)
     }"

section \<open>Attributes\<close>

definition GetAttr :: "'db KvWrapper \<Rightarrow> bytes \<Rightarrow> 'db TableFS \<Rightarrow> ((int \<times> tfs_stat_t option) \<times> 'db TableFS) option" where
  "GetAttr kv path s =
     do {
       (found, s1) \<leftarrow> PathLookup kv path s;
       case found of
         None \<Rightarrow> Some ((FSError s1, None), s1)
       | Some key \<Rightarrow>
           do {
             (h, ic) \<leftarrow> InodeCache_Get kv key INODE_READ (fs_icache s1);
             case h of
               None \<Rightarrow> Some ((- ENOENT, None), with_icache ic s1)
             | Some ch \<Rightarrow>
                 do {
                   handle \<leftarrow> ic_handle ch ic;
                   st \<leftarrow> GetAttribute (ih_value handle);
                   ic2 \<leftarrow> InodeCache_Release ch ic;
                   Some ((0, Some st), with_icache ic2 s1)
                 }
           }
     }"

text \<open>
  The part that \<open>UpdateTimens\<close>, \<open>Chmod\<close> and \<open>Chown\<close> have in common: change the attributes of an inode and
  write it back.
\<close>

definition update_attribute ::
  "'db KvWrapper \<Rightarrow> bytes \<Rightarrow> (tfs_stat_t \<Rightarrow> tfs_stat_t) \<Rightarrow> 'db TableFS \<Rightarrow> (int \<times> 'db TableFS) option" where
  "update_attribute kv path change s =
     do {
       (found, s1) \<leftarrow> PathLookup kv path s;
       case found of
         None \<Rightarrow> Some (FSError s1, s1)
       | Some key \<Rightarrow>
           do {
             (h, ic) \<leftarrow> InodeCache_Get kv key INODE_WRITE (fs_icache s1);
             case h of
               None \<Rightarrow> Some (- ENOENT, with_icache ic s1)
             | Some ch \<Rightarrow>
                 do {
                   handle \<leftarrow> ic_handle ch ic;
                   st \<leftarrow> GetAttribute (ih_value handle);
                   ic2 \<leftarrow> ic_assign ch (handle\<lparr>ih_value := UpdateAttribute (ih_value handle) (change st)\<rparr>) ic;
                   ic3 \<leftarrow> InodeCache_WriteBack kv ch ic2;
                   ic4 \<leftarrow> InodeCache_Release ch ic3;
                   Some (0, with_icache ic4 s1)
                 }
           }
     }"

definition UpdateTimens ::
  "'db KvWrapper \<Rightarrow> bytes \<Rightarrow> (u64 \<times> u64) \<times> (u64 \<times> u64) \<Rightarrow> 'db TableFS \<Rightarrow> (int \<times> 'db TableFS) option" where
  "UpdateTimens kv path tv s =
     update_attribute kv path
       (\<lambda>st. st\<lparr>st_atim_sec := fst (fst tv), st_atim_nsec := snd (fst tv),
               st_mtim_sec := fst (snd tv), st_mtim_nsec := snd (snd tv)\<rparr>) s"

definition Chmod :: "'db KvWrapper \<Rightarrow> bytes \<Rightarrow> u32 \<Rightarrow> 'db TableFS \<Rightarrow> (int \<times> 'db TableFS) option" where
  "Chmod kv path mode s = update_attribute kv path (\<lambda>st. st\<lparr>st_mode := mode\<rparr>) s"

definition Chown :: "'db KvWrapper \<Rightarrow> bytes \<Rightarrow> u32 \<Rightarrow> u32 \<Rightarrow> 'db TableFS \<Rightarrow> (int \<times> 'db TableFS) option" where
  "Chown kv path uid gid s = update_attribute kv path (\<lambda>st. st\<lparr>st_uid := uid, st_gid := gid\<rparr>) s"

definition Access :: "bytes \<Rightarrow> int \<Rightarrow> 'db TableFS \<Rightarrow> int \<times> 'db TableFS" where
  "Access path amode s = (0, s)"

section \<open>Creating, removing and renaming\<close>

definition new_inode :: "'db TableFS \<Rightarrow> (u64 \<times> 'db TableFS) option" where
  "new_inode s =
     do {
       (ino, st, px) \<leftarrow> NewInode (fs_state s) (fs_px s);
       Some (ino, s\<lparr>fs_state := st, fs_px := px\<rparr>)
     }"

text \<open>The part that \<open>MakeNode\<close> and \<open>MakeDir\<close> have in common, after the lookup.\<close>

definition put_inode :: "'db KvWrapper \<Rightarrow> tfs_meta_key_t \<Rightarrow> bytes \<Rightarrow> 'db TableFS \<Rightarrow> int \<times> 'db TableFS" where
  "put_inode kv key value s =
     (let (ret, db) = kv_Put kv (ToSlice key) value (fs_metadb s); s1 = with_metadb db s
      in if ret = 0 then (0, s1) else (FSError (set_errno ENOENT s1), set_errno ENOENT s1))"

definition MakeNode :: "'db KvWrapper \<Rightarrow> call_env \<Rightarrow> bytes \<Rightarrow> u32 \<Rightarrow> u64 \<Rightarrow> 'db TableFS \<Rightarrow> (int \<times> 'db TableFS) option" where
  "MakeNode kv env path mode dev s =
     do {
       (found, s1) \<leftarrow> PathLookup_name kv path s;
       case found of
         None \<Rightarrow> Some (FSError s1, s1)
       | Some (key, filename) \<Rightarrow>
           do {
             (ino, s2) \<leftarrow> new_inode s1;
             let value = InitInodeValue (ce_sys env) (fs_fuse s2) (ce_mem env) ino (mode OR S_IFREG) dev filename;
             Some (put_inode kv key value s2)
           }
     }"

definition MakeDir :: "'db KvWrapper \<Rightarrow> call_env \<Rightarrow> bytes \<Rightarrow> u32 \<Rightarrow> 'db TableFS \<Rightarrow> (int \<times> 'db TableFS) option" where
  "MakeDir kv env path mode s =
     do {
       (found, s1) \<leftarrow> PathLookup_name kv path s;
       case found of
         None \<Rightarrow> Some (FSError s1, s1)
       | Some (key, filename) \<Rightarrow>
           do {
             (ino, s2) \<leftarrow> new_inode s1;
             let value = InitInodeValue (ce_sys env) (fs_fuse s2) (ce_mem env) ino (mode OR S_IFDIR) 0 filename;
             Some (put_inode kv key value s2)
           }
     }"

text \<open>The value \<open>Symlink\<close> builds has the layout of \<open>InitInodeValue\<close> with the target behind the name.\<close>

definition Symlink :: "'db KvWrapper \<Rightarrow> call_env \<Rightarrow> bytes \<Rightarrow> bytes \<Rightarrow> 'db TableFS \<Rightarrow> (int \<times> 'db TableFS) option" where
  "Symlink kv env target path s =
     do {
       (found, s1) \<leftarrow> PathLookup_name kv path s;
       case found of
         None \<Rightarrow> Some (FSError s1, s1)
       | Some (key, filename) \<Rightarrow>
           do {
             (ino, s2) \<leftarrow> new_inode s1;
             let value = InitInodeValue (ce_sys env) (fs_fuse s2) (ce_mem env) ino S_IFLNK 0 filename @ target;
             Some (0, with_metadb (snd (kv_Put kv (ToSlice key) value (fs_metadb s2))) s2)
           }
     }"

definition Readlink :: "'db KvWrapper \<Rightarrow> bytes \<Rightarrow> u64 \<Rightarrow> 'db TableFS \<Rightarrow> ((int \<times> bytes option) \<times> 'db TableFS) option" where
  "Readlink kv path len s =
     do {
       (found, s1) \<leftarrow> PathLookup kv path s;
       case found of
         None \<Rightarrow> Some ((FSError s1, None), s1)
       | Some key \<Rightarrow>
           (let (ret, result, db) = kv_Get kv (ToSlice key) (fs_metadb s1); s2 = with_metadb db s1
            in if ret > 0
               then do {
                      data \<leftarrow> GetInlineData result 0 (len - 1);
                      Some ((0, Some (data @ [0])), s2)
                    }
               else Some ((FSError (set_errno ENOENT s2), None), set_errno ENOENT s2))
     }"

definition Unlink :: "'db KvWrapper \<Rightarrow> bytes \<Rightarrow> 'db TableFS \<Rightarrow> (int \<times> 'db TableFS) option" where
  "Unlink kv path s =
     do {
       (found, s1) \<leftarrow> PathLookup kv path s;
       case found of
         None \<Rightarrow> Some (FSError s1, s1)
       | Some key \<Rightarrow>
           do {
             (h, ic) \<leftarrow> InodeCache_Get kv key INODE_DELETE (fs_icache s1);
             case h of
               None \<Rightarrow> Some (- ENOENT, with_icache ic s1)
             | Some ch \<Rightarrow>
                 do {
                   handle \<leftarrow> ic_handle ch ic;
                   header \<leftarrow> GetInodeHeader (ih_value handle);
                   px \<leftarrow> (if sint (st_size (fstat header)) > threshold (fs_state s1)
                         then do {
                                fpath \<leftarrow> GetDiskFilePath (fs_state s1) (st_ino (fstat header));
                                Some (snd (posix_unlink fpath (fs_px s1)))
                              }
                         else Some (fs_px s1));
                   let s2 = evict_dentry key (s1\<lparr>fs_px := px\<rparr>);
                   ic2 \<leftarrow> InodeCache_Release ch ic;
                   ic3 \<leftarrow> InodeCache_Evict key ic2;
                   Some (0, with_icache ic3 s2)
                 }
           }
     }"

definition RemoveDir :: "'db KvWrapper \<Rightarrow> bytes \<Rightarrow> 'db TableFS \<Rightarrow> (int \<times> 'db TableFS) option" where
  "RemoveDir kv path s =
     do {
       (found, s1) \<leftarrow> PathLookup kv path s;
       case found of
         None \<Rightarrow> Some (FSError s1, s1)
       | Some key \<Rightarrow>
           do {
             (h, ic) \<leftarrow> InodeCache_Get kv key INODE_DELETE (fs_icache s1);
             case h of
               None \<Rightarrow> Some (- ENOENT, with_icache ic s1)
             | Some ch \<Rightarrow>
                 do {
                   let s2 = evict_dentry key s1;
                   ic2 \<leftarrow> InodeCache_Release ch ic;
                   ic3 \<leftarrow> InodeCache_Evict key ic2;
                   Some (0, with_icache ic3 s2)
                 }
           }
     }"

definition Rename :: "'db KvWrapper \<Rightarrow> bytes \<Rightarrow> bytes \<Rightarrow> 'db TableFS \<Rightarrow> (int \<times> 'db TableFS) option" where
  "Rename kv old_path new_path s =
     do {
       (found, s1) \<leftarrow> PathLookup kv old_path s;
       case found of
         None \<Rightarrow> Some (FSError s1, s1)
       | Some old_key \<Rightarrow>
           do {
             (found', s2) \<leftarrow> PathLookup_name kv new_path s1;
             case found' of
               None \<Rightarrow> Some (FSError s2, s2)
             | Some (new_key, filename) \<Rightarrow>
                 do {
                   (h, ic) \<leftarrow> InodeCache_Get kv old_key INODE_DELETE (fs_icache s2);
                   case h of
                     None \<Rightarrow> Some (- ENOENT, with_icache ic s2)
                   | Some old_handle \<Rightarrow>
                       do {
                         handle \<leftarrow> ic_handle old_handle ic;
                         new_value \<leftarrow> InitInodeValue_renamed (ih_value handle) filename;
                         (new_handle, ic1) \<leftarrow> InodeCache_Insert kv new_key new_value ic;
                         ic2 \<leftarrow> InodeCache_BatchCommit kv old_handle new_handle ic1;
                         ic3 \<leftarrow> InodeCache_Release new_handle ic2;
                         ic4 \<leftarrow> InodeCache_Release old_handle ic3;
                         ic5 \<leftarrow> InodeCache_Evict old_key ic4;
                         Some (0, evict_dentry new_key (evict_dentry old_key (with_icache ic5 s2)))
                       }
                 }
           }
     }"

section \<open>Directories\<close>

text \<open>\<open>fi->fh\<close> of an open directory is its handle.\<close>

definition OpenDir :: "'db KvWrapper \<Rightarrow> bytes \<Rightarrow> 'db TableFS \<Rightarrow> ((int \<times> cache_ptr option) \<times> 'db TableFS) option" where
  "OpenDir kv path s =
     do {
       (found, s1) \<leftarrow> PathLookup kv path s;
       case found of
         None \<Rightarrow> Some ((FSError s1, None), s1)
       | Some key \<Rightarrow>
           do {
             (h, ic) \<leftarrow> InodeCache_Get kv key INODE_READ (fs_icache s1);
             let s2 = with_icache ic s1;
             Some ((if h \<noteq> None then 0 else FSError s2, h), s2)
           }
     }"

text \<open>
  \<open>filler names name\<close> is what the callback answers when it has been given \<open>names\<close> before; the loop
  returns its result and the names it passed on.
\<close>

fun ReadDir_loop ::
  "(bytes list \<Rightarrow> bytes \<Rightarrow> int) \<Rightarrow> tfs_meta_key_t \<Rightarrow> (bytes \<times> bytes) list \<Rightarrow> bytes list \<Rightarrow> (int \<times> bytes list) option" where
  "ReadDir_loop filler childkey [] names = Some (0, names)"
| "ReadDir_loop filler childkey ((key, value) # iter) names =
     do {
       in_dir \<leftarrow> IsKeyInDir key childkey;
       if \<not> in_dir then Some (0, names)
       else if length value < TFS_INODE_HEADER_SIZE then None
       else let name = takeWhile (\<lambda>c. c \<noteq> 0) (drop TFS_INODE_HEADER_SIZE value)
            in if name = [] then ReadDir_loop filler childkey iter names
               else if filler names name < 0 then Some (-1, names @ [name])
               else ReadDir_loop filler childkey iter (names @ [name])
     }"

definition ReadDir ::
  "'db KvWrapper \<Rightarrow> (bytes list \<Rightarrow> bytes \<Rightarrow> int) \<Rightarrow> cache_ptr \<Rightarrow> 'db TableFS \<Rightarrow> ((int \<times> bytes list) \<times> 'db TableFS) option" where
  "ReadDir kv filler fh s =
     do {
       phandle \<leftarrow> ic_handle fh (fs_icache s);
       st \<leftarrow> GetAttribute (ih_value phandle);
       let child_inumber = st_ino st;
       let childkey = BuildMetaKey child_inumber (if child_inumber = ROOT_INODE_ID then 1 else 0);
       if filler [] (cstr ''.'') < 0 then Some ((FSError s, [cstr ''.'']), s)
       else if filler [cstr ''.''] (cstr ''..'') < 0 then Some ((FSError s, [cstr ''.'', cstr ''..'']), s)
       else let (iter, db) = kv_Seek kv (ToSlice childkey) (fs_metadb s)
            in do {
                 (ret, names) \<leftarrow> ReadDir_loop filler childkey iter [cstr ''.'', cstr ''..''];
                 Some ((ret, names), with_metadb db s)
               }
     }"

definition ReleaseDir :: "cache_ptr \<Rightarrow> 'db TableFS \<Rightarrow> (int \<times> 'db TableFS) option" where
  "ReleaseDir fh s =
     do {
       _ \<leftarrow> ic_handle fh (fs_icache s);
       ic \<leftarrow> InodeCache_Release fh (fs_icache s);
       Some (0, with_icache ic s)
     }"

section \<open>Files on disk\<close>

definition OpenDiskFile :: "FileSystemState \<Rightarrow> tfs_inode_header \<Rightarrow> u32 \<Rightarrow> Posix \<Rightarrow> (int \<times> Posix) option" where
  "OpenDiskFile st iheader flags px =
     do {
       fpath \<leftarrow> GetDiskFilePath st (st_ino (fstat iheader));
       let (fd, px1) = posix_open fpath (flags OR O_CREAT) px;
       if fd = -1 then None else Some (fd, px1)
     }"

definition TruncateDiskFile :: "FileSystemState \<Rightarrow> u64 \<Rightarrow> u64 \<Rightarrow> Posix \<Rightarrow> (int \<times> Posix) option" where
  "TruncateDiskFile st inum new_size px =
     do { fpath \<leftarrow> GetDiskFilePath st inum; Some (posix_truncate fpath (sint new_size) px) }"

text \<open>The \<open>size\<close> bytes of \<open>buffer\<close> after the call; a short read leaves the rest as it was.\<close>

definition MigrateDiskFileToBuffer ::
  "FileSystemState \<Rightarrow> u64 \<Rightarrow> bytes \<Rightarrow> u64 \<Rightarrow> Posix \<Rightarrow> ((int \<times> bytes) \<times> Posix) option" where
  "MigrateDiskFileToBuffer st inum buffer len px =
     do {
       fpath \<leftarrow> GetDiskFilePath st inum;
       let (fd, px1) = posix_open fpath 0 px;
       let ((ret, data), px2) = posix_pread fd (unat len) 0 px1;
       let px3 = snd (posix_close fd px2);
       let px4 = snd (posix_unlink fpath px3);
       Some ((ret, data @ drop (length data) buffer), px4)
     }"

text \<open>The bytes at \<open>iheader + TFS_INODE_HEADER_SIZE + namelen + 1\<close>; reading past the
  NUL that follows the value is an error.\<close>

definition inline_bytes :: "bytes \<Rightarrow> tfs_inode_header \<Rightarrow> nat \<Rightarrow> bytes option" where
  "inline_bytes value header n =
     (let start = TFS_INODE_HEADER_SIZE + unat (namelen header) + 1
      in if start + n \<le> length value + 1 then Some (take n (drop start (value @ [0]))) else None)"

text \<open>The return value, the descriptor and the new value of the handle.\<close>

definition MigrateToDiskFile ::
  "FileSystemState \<Rightarrow> bytes \<Rightarrow> int \<Rightarrow> u32 \<Rightarrow> Posix \<Rightarrow> ((int \<times> int \<times> bytes) \<times> Posix) option" where
  "MigrateToDiskFile st value fd flags px =
     do {
       iheader \<leftarrow> GetInodeHeader value;
       let px1 = (if fd \<ge> 0 then snd (posix_close fd px) else px);
       (fd', px2) \<leftarrow> OpenDiskFile st iheader flags px1;
       if fd' < 0 then Some ((- px_errno px2, -1, value), px2)
       else if sint (st_size (fstat iheader)) > 0
       then do {
              buffer \<leftarrow> inline_bytes value iheader (nat (sint (st_size (fstat iheader))));
              let (n, px3) = posix_pwrite fd' buffer 0 px2;
              let ret = (if n \<noteq> sint (st_size (fstat iheader)) then - px_errno px3 else 0);
              value' \<leftarrow> DropInlineData value;
              Some ((ret, fd', value'), px3)
            }
       else Some ((0, fd', value), px2)
     }"

section \<open>Open files\<close>

definition with_px :: "Posix \<Rightarrow> 'db TableFS \<Rightarrow> 'db TableFS" where
  "with_px px s = s\<lparr>fs_px := px\<rparr>"

definition with_fh :: "nat \<Rightarrow> tfs_file_handle_t \<Rightarrow> 'db TableFS \<Rightarrow> 'db TableFS" where
  "with_fh fh h s = s\<lparr>fs_fhs := (fs_fhs s)(fh \<mapsto> h)\<rparr>"

definition assign_value :: "cache_ptr \<Rightarrow> bytes \<Rightarrow> 'db TableFS \<Rightarrow> 'db TableFS option" where
  "assign_value ch value s =
     do {
       handle \<leftarrow> ic_handle ch (fs_icache s);
       ic \<leftarrow> ic_assign ch (handle\<lparr>ih_value := value\<rparr>) (fs_icache s);
       Some (with_icache ic s)
     }"

text \<open>\<open>fi->fh\<close> of an open file is the address of its \<open>tfs_file_handle_t\<close>.\<close>

definition Open :: "'db KvWrapper \<Rightarrow> bytes \<Rightarrow> u32 \<Rightarrow> 'db TableFS \<Rightarrow> ((int \<times> nat option) \<times> 'db TableFS) option" where
  "Open kv path flags s =
     do {
       (found, s1) \<leftarrow> PathLookup kv path s;
       case found of
         None \<Rightarrow> Some ((FSError s1, None), s1)
       | Some key \<Rightarrow>
           do {
             let mode = (if flag flags O_RDWR \<or> flag flags O_WRONLY \<or> flag flags O_TRUNC then INODE_WRITE else INODE_READ);
             (h, ic) \<leftarrow> InodeCache_Get kv key mode (fs_icache s1);
             let s2 = with_icache ic s1;
             case h of
               None \<Rightarrow> Some ((- ENOENT, None), s2)
             | Some ch \<Rightarrow>
                 do {
                   handle \<leftarrow> ic_handle ch ic;
                   iheader \<leftarrow> GetInodeHeader (ih_value handle);
                   (fd, px) \<leftarrow> (if has_blob iheader > 0 then OpenDiskFile (fs_state s2) iheader flags (fs_px s2)
                               else Some (-1, fs_px s2));
                   let s3 = with_px px s2;
                   if has_blob iheader > 0 \<and> fd < 0
                   then do {
                          ic2 \<leftarrow> InodeCache_Release ch ic;
                          Some ((FSError s3, None), with_icache ic2 s3)
                        }
                   else let fh = fs_next_fh s3
                        in Some ((0, Some fh),
                                 with_fh fh \<lparr>fh_handle = ch, fh_flags = flags, fh_fd = fd\<rparr> (s3\<lparr>fs_next_fh := fh + 1\<rparr>))
                 }
           }
     }"

text \<open>\<open>if (fh->fd_ < 0) fh->fd_ = OpenDiskFile(iheader, fh->flags_)\<close>, as \<open>Read\<close> and \<open>Write\<close> have it.\<close>

definition ensure_fd :: "nat \<Rightarrow> tfs_inode_header \<Rightarrow> 'db TableFS \<Rightarrow> (int \<times> 'db TableFS) option" where
  "ensure_fd fh iheader s =
     do {
       h \<leftarrow> fs_fhs s fh;
       if fh_fd h < 0
       then do {
              (fd, px) \<leftarrow> OpenDiskFile (fs_state s) iheader (fh_flags h) (fs_px s);
              Some (fd, with_px px (with_fh fh (h\<lparr>fh_fd := fd\<rparr>) s))
            }
       else Some (fh_fd h, s)
     }"

definition to_c_int :: "int \<Rightarrow> int" where
  "to_c_int i = sint (of_int i :: 32 word)"

definition Read :: "u64 \<Rightarrow> u64 \<Rightarrow> nat \<Rightarrow> 'db TableFS \<Rightarrow> ((int \<times> bytes) \<times> 'db TableFS) option" where
  "Read len offset fh s =
     do {
       h \<leftarrow> fs_fhs s fh;
       handle \<leftarrow> ic_handle (fh_handle h) (fs_icache s);
       iheader \<leftarrow> GetInodeHeader (ih_value handle);
       if has_blob iheader > 0
       then do {
              (fd, s1) \<leftarrow> ensure_fd fh iheader s;
              if fd < 0 then Some ((- EBADF, []), s1)
              else let ((ret, buf), px) = posix_pread fd (unat len) (sint offset) (fs_px s1)
                   in Some ((to_c_int ret, buf), with_px px s1)
            }
       else do {
              buf \<leftarrow> GetInlineData (ih_value handle) offset len;
              Some ((to_c_int (int (length buf)), buf), s)
            }
     }"

text \<open>The size the header gets when a write has succeeded.\<close>

definition set_size :: "bytes \<Rightarrow> u64 \<Rightarrow> u32 option \<Rightarrow> bytes option" where
  "set_size value new_size blob =
     do {
       header \<leftarrow> GetInodeHeader value;
       let header1 = header\<lparr>fstat := (fstat header)\<lparr>st_size := new_size\<rparr>\<rparr>;
       let header2 = (case blob of None \<Rightarrow> header1 | Some b \<Rightarrow> header1\<lparr>has_blob := b\<rparr>);
       Some (UpdateInodeHeader value header2)
     }"

definition Write :: "bytes \<Rightarrow> u64 \<Rightarrow> u32 \<Rightarrow> nat \<Rightarrow> 'db TableFS \<Rightarrow> (int \<times> 'db TableFS) option" where
  "Write buf offset flags fh s =
     do {
       h \<leftarrow> fs_fhs s fh;
       let ch = fh_handle h;
       handle \<leftarrow> ic_handle ch (fs_icache s);
       ic \<leftarrow> ic_assign ch (handle\<lparr>ih_mode := INODE_WRITE\<rparr>) (fs_icache s);
       let s1 = with_icache ic s;
       let value = ih_value handle;
       iheader \<leftarrow> GetInodeHeader value;
       let len = (of_nat (length buf) :: u64);
       let has_larger_size = (st_size (fstat iheader) < offset + len);
       if has_blob iheader > 0
       then do {
              (fd, s2) \<leftarrow> ensure_fd fh iheader s1;
              let (ret, px) = (if fd < 0 then (- EBADF, fs_px s2)
                               else let (n, px) = posix_pwrite fd buf (sint offset) (fs_px s2) in (to_c_int n, px));
              let s3 = with_px px s2;
              if ret \<ge> 0 \<and> has_larger_size
              then do {
                     value' \<leftarrow> set_size value (offset + len) None;
                     s4 \<leftarrow> assign_value ch value' s3;
                     Some (ret, s4)
                   }
              else Some (ret, s3)
            }
       else if offset + len > of_int (threshold (fs_state s1))
       then do {
              ((ret, fd, value1), px) \<leftarrow> MigrateToDiskFile (fs_state s1) value (fh_fd h) flags (fs_px s1);
              let s2 = with_px px (with_fh fh (h\<lparr>fh_fd := fd\<rparr>) s1);
              if ret = 0
              then do {
                     value2 \<leftarrow> set_size value1 (offset + len) (Some 1);
                     s3 \<leftarrow> assign_value ch value2 s2;
                     let (n, px) = posix_pwrite fd buf (sint offset) (fs_px s3);
                     Some (to_c_int n, with_px px s3)
                   }
              else do {
                     s3 \<leftarrow> assign_value ch value1 s2;
                     if ret \<ge> 0 \<and> has_larger_size
                     then do {
                            value2 \<leftarrow> set_size value1 (offset + len) None;
                            s4 \<leftarrow> assign_value ch value2 s3;
                            Some (ret, s4)
                          }
                     else Some (ret, s3)
                   }
            }
       else do {
              value1 \<leftarrow> UpdateInlineData value buf offset;
              let ret = to_c_int (int (length buf));
              value2 \<leftarrow> (if ret \<ge> 0 \<and> has_larger_size then set_size value1 (offset + len) None else Some value1);
              s2 \<leftarrow> assign_value ch value2 s1;
              Some (ret, s2)
            }
     }"

definition Fsync :: "'db KvWrapper \<Rightarrow> int \<Rightarrow> nat \<Rightarrow> 'db TableFS \<Rightarrow> (int \<times> 'db TableFS) option" where
  "Fsync kv datasync fh s =
     do {
       h \<leftarrow> fs_fhs s fh;
       handle \<leftarrow> ic_handle (fh_handle h) (fs_icache s);
       iheader \<leftarrow> GetInodeHeader (ih_value handle);
       if ih_mode handle = INODE_WRITE
       then let (ret, px) = (if has_blob iheader > 0 then posix_fsync (fh_fd h) (fs_px s) else (0, fs_px s));
                s1 = with_px px s
            in if datasync = 0
               then let (ret, db) = kv_Sync kv (fs_metadb s1) in Some (- ret, with_metadb db s1)
               else Some (- ret, s1)
       else Some (0, s)
     }"

definition Release :: "'db KvWrapper \<Rightarrow> call_env \<Rightarrow> nat \<Rightarrow> 'db TableFS \<Rightarrow> (int \<times> 'db TableFS) option" where
  "Release kv env fh s =
     do {
       h \<leftarrow> fs_fhs s fh;
       let ch = fh_handle h;
       handle \<leftarrow> ic_handle ch (fs_icache s);
       s1 \<leftarrow> (if ih_mode handle = INODE_WRITE
             then do {
                    st \<leftarrow> GetAttribute (ih_value handle);
                    let now = env_time (ce_sys env);
                    let new_value = st\<lparr>st_atim_sec := now, st_atim_nsec := 0, st_mtim_sec := now, st_mtim_nsec := 0\<rparr>;
                    assign_value ch (UpdateAttribute (ih_value handle) new_value) s
                  }
             else Some s);
       let (ret, px) = (if fh_fd h \<noteq> -1 then posix_close (fh_fd h) (fs_px s1) else (0, fs_px s1));
       let s2 = with_px px s1;
       ic1 \<leftarrow> InodeCache_WriteBack kv ch (fs_icache s2);
       handle1 \<leftarrow> ic_handle ch ic1;
       let key = ih_key handle1;
       ic2 \<leftarrow> InodeCache_Release ch ic1;
       ic3 \<leftarrow> InodeCache_Evict key ic2;
       let s3 = (with_icache ic3 s2)\<lparr>fs_fhs := (fs_fhs s2)(fh := None)\<rparr>;
       Some (if ret \<noteq> 0 then FSError s3 else 0, s3)
     }"

text \<open>
  \<open>iheader\<close> in \<open>Truncate\<close> points into the value; once the value has grown its bytes may have moved, and
  the pointer then reads \<open>ce_stale\<close>.
\<close>

definition Truncate :: "'db KvWrapper \<Rightarrow> call_env \<Rightarrow> bytes \<Rightarrow> u64 \<Rightarrow> 'db TableFS \<Rightarrow> (int \<times> 'db TableFS) option" where
  "Truncate kv env path new_size s =
     do {
       (found, s1) \<leftarrow> PathLookup kv path s;
       case found of
         None \<Rightarrow> Some (FSError s1, s1)
       | Some key \<Rightarrow>
           do {
             (h, ic) \<leftarrow> InodeCache_Get kv key INODE_WRITE (fs_icache s1);
             let s2 = with_icache ic s1;
             case h of
               None \<Rightarrow> Some (- ENOENT, s2)
             | Some ch \<Rightarrow>
                 do {
                   handle \<leftarrow> ic_handle ch ic;
                   let value = ih_value handle;
                   iheader \<leftarrow> GetInodeHeader value;
                   let large = (sint new_size > threshold (fs_state s2));
                   (ret, value1, px) \<leftarrow>
                     (if has_blob iheader > 0
                      then if large
                           then do {
                                  (_, px) \<leftarrow> TruncateDiskFile (fs_state s2) (st_ino (fstat iheader)) new_size (fs_px s2);
                                  Some (0, value, px)
                                }
                           else if sint new_size < 0 then None
                           else do {
                                  ((_, buffer), px) \<leftarrow>
                                    MigrateDiskFileToBuffer (fs_state s2) (st_ino (fstat iheader))
                                      (string_resize (unat new_size) (ce_mem env)) new_size (fs_px s2);
                                  value' \<leftarrow> UpdateInlineData value buffer 0;
                                  Some (0, value', px)
                                }
                      else if large
                      then do {
                             ((mret, fd, value'), px1) \<leftarrow>
                               MigrateToDiskFile (fs_state s2) value (ce_fd env) (O_TRUNC OR O_WRONLY) (fs_px s2);
                             if mret = 0
                             then let (tret, px2) = posix_ftruncate fd (sint new_size) px1;
                                      px3 = (if tret = 0 then snd (posix_fsync fd px2) else px2)
                                  in Some (tret, value', snd (posix_close fd px3))
                             else Some (0, value', px1)
                           }
                      else do {
                             value' \<leftarrow> TruncateInlineData value new_size;
                             Some (0, value', fs_px s2)
                           });
                   let seen_size = (if length value1 \<le> length value then st_size (fstat iheader) else ce_stale env);
                   value2 \<leftarrow> (if new_size \<noteq> seen_size then set_size value1 new_size (Some (if large then 1 else 0))
                             else Some value1);
                   s3 \<leftarrow> assign_value ch value2 (with_px px s2);
                   ic1 \<leftarrow> InodeCache_WriteBack kv ch (fs_icache s3);
                   ic2 \<leftarrow> InodeCache_Release ch ic1;
                   Some (ret, with_icache ic2 s3)
                 }
           }
     }"

end
