(* ===== verification/Tablefs_Path.thy ===== *)
theory Tablefs_Path
  imports Tablefs
begin

text \<open>
  What the file system stores, as a map from keys to inode values, and what a path means in it.  The
  lookup of the program, with its dentry cache, finds exactly the key a path resolves to in the store,
  and changes nothing else.
\<close>

section \<open>The stored tree\<close>

type_synonym tree = "tfs_meta_key_t \<Rightarrow> bytes option"

definition fs_tree :: "('db \<Rightarrow> bytes \<Rightarrow> bytes option) \<Rightarrow> 'db TableFS \<Rightarrow> tree" where
  "fs_tree contents s key = contents (fs_metadb s) (ToSlice key)"

definition tree_ino :: "tree \<Rightarrow> tfs_meta_key_t \<Rightarrow> u64 option" where
  "tree_ino m key = (case m key of None \<Rightarrow> None | Some v \<Rightarrow> map_option st_ino (GetAttribute v))"

text \<open>The components of a path, which begins at its first character whatever that is.\<close>

function components :: "bytes \<Rightarrow> bytes list" where
  "components text =
     (let piece = takeWhile (\<lambda>c. c \<noteq> PATH_DELIMITER) text; rest = drop (length piece) text
      in if rest = [] then [piece] else piece # components (tl rest))"
  by auto

termination components
  by (relation "measure length") auto

fun resolve_in :: "tree \<Rightarrow> tfs_meta_key_t \<Rightarrow> u64 \<Rightarrow> bytes list \<Rightarrow> tfs_meta_key_t option" where
  "resolve_in m key ino [] = None"
| "resolve_in m key ino [name] = Some (if name = [] then key else BuildMetaKey_name name ino)"
| "resolve_in m key ino (name # n # ns) =
     (let k = BuildMetaKey_name name ino
      in case tree_ino m k of None \<Rightarrow> None | Some i \<Rightarrow> resolve_in m k i (n # ns))"

definition resolve :: "tree \<Rightarrow> bytes \<Rightarrow> tfs_meta_key_t option" where
  "resolve m path = resolve_in m root_key ROOT_INODE_ID (components (tl path))"

text \<open>The name a new inode gets: the last component, or the delimiter if that is empty.\<close>

definition path_name :: "bytes \<Rightarrow> bytes" where
  "path_name path =
     (let name = last (components (tl path))
      in if name \<noteq> [] then name else if length (components (tl path)) = 1 then [hd path] else [PATH_DELIMITER])"

text \<open>The key and the value at a path, if there is one.\<close>

definition tree_lookup :: "tree \<Rightarrow> bytes \<Rightarrow> (tfs_meta_key_t \<times> bytes) option" where
  "tree_lookup m path = (case resolve m path of None \<Rightarrow> None | Some key \<Rightarrow> map_option (Pair key) (m key))"

section \<open>Invariant\<close>

definition wf_inode :: "bytes \<Rightarrow> bool" where
  "wf_inode v \<longleftrightarrow>
     (\<exists>h name data. v = inode_value h name data \<and> wf_header h name \<and> length name \<le> 4096 \<and> length data < 2 ^ 31)"

definition fs_inv ::
  "'db KvWrapper \<Rightarrow> ('db \<Rightarrow> bytes \<Rightarrow> bytes option) \<Rightarrow> ('db \<Rightarrow> bool) \<Rightarrow> nat \<Rightarrow>
   (cache_ptr \<Rightarrow> InodeCacheHandle option) \<Rightarrow> 'db TableFS \<Rightarrow> bool" where
  "fs_inv kv contents ok n held s \<longleftrightarrow>
     ic_state kv contents ok n {} held (fs_icache s) \<and> dc_inv (fs_dcache s) \<and>
     dc_view (fs_dcache s) \<subseteq>\<^sub>m tree_ino (fs_tree contents s) \<and>
     (\<forall>key v. fs_tree contents s key = Some v \<longrightarrow> wf_inode v)"

text \<open>Nothing but the caches, the store and \<open>errno\<close> has changed; nor has what the store holds.\<close>

definition fs_frame :: "'db TableFS \<Rightarrow> 'db TableFS \<Rightarrow> bool" where
  "fs_frame s s' \<longleftrightarrow>
     fs_state s' = fs_state s \<and> fs_fuse s' = fs_fuse s \<and> fs_fhs s' = fs_fhs s \<and> fs_next_fh s' = fs_next_fh s \<and>
     (fs_px s)\<lparr>px_errno := 0\<rparr> = (fs_px s')\<lparr>px_errno := 0\<rparr>"

definition fs_same :: "('db \<Rightarrow> bytes \<Rightarrow> bytes option) \<Rightarrow> 'db TableFS \<Rightarrow> 'db TableFS \<Rightarrow> bool" where
  "fs_same contents s s' \<longleftrightarrow>
     fs_tree contents s' = fs_tree contents s \<and> fs_frame s s' \<and> contents (fs_metadb s') = contents (fs_metadb s)"

lemma fs_invD:
  assumes "fs_inv kv contents ok n held s"
  shows fs_inv_icache: "ic_state kv contents ok n {} held (fs_icache s)"
    and fs_inv_dcache: "dc_inv (fs_dcache s)"
    and fs_inv_view: "dc_view (fs_dcache s) \<subseteq>\<^sub>m tree_ino (fs_tree contents s)"
    and fs_inv_wf: "fs_tree contents s key = Some v \<Longrightarrow> wf_inode v"
  using assms by (auto simp: fs_inv_def)

lemma fs_same_refl [simp]: "fs_same contents s s"
  by (simp add: fs_same_def fs_frame_def)

lemma fs_same_trans: "fs_same contents s s' \<Longrightarrow> fs_same contents s' s'' \<Longrightarrow> fs_same contents s s''"
  by (simp add: fs_same_def fs_frame_def)

lemma fs_metadb_dcache [simp]: "fs_metadb (s\<lparr>fs_dcache := dc\<rparr>) = fs_metadb s"
  by (simp add: fs_metadb_def)

lemma fs_same_contents: "fs_same contents s s' \<Longrightarrow> contents (fs_metadb s') = contents (fs_metadb s)"
  by (simp add: fs_same_def)

lemma fs_same_tree: "fs_same contents s s' \<Longrightarrow> fs_tree contents s' = fs_tree contents s"
  by (simp add: fs_same_def fs_frame_def)

lemma set_errno_simps [simp]:
  "fs_icache (set_errno e s) = fs_icache s" "fs_dcache (set_errno e s) = fs_dcache s"
  "fs_state (set_errno e s) = fs_state s" "fs_fhs (set_errno e s) = fs_fhs s"
  "fs_fuse (set_errno e s) = fs_fuse s" "fs_next_fh (set_errno e s) = fs_next_fh s"
  "FSError (set_errno e s) = - e" "fs_px (set_errno e s) = (fs_px s)\<lparr>px_errno := e\<rparr>"
  "fs_tree contents (set_errno e s) = fs_tree contents s" "fs_metadb (set_errno e s) = fs_metadb s"
  by (simp_all add: set_errno_def FSError_def fs_tree_def fs_metadb_def fun_eq_iff)

lemma fs_same_errno [simp]: "fs_same contents s (set_errno e s')  = fs_same contents s s'"
  by (simp add: fs_same_def fs_frame_def)

lemma fs_inv_errno [simp]: "fs_inv kv contents ok n held (set_errno e s) = fs_inv kv contents ok n held s"
  by (simp add: fs_inv_def)

lemma with_metadb_simps [simp]:
  "ic_metadb (fs_icache (with_metadb db s)) = db" "ic_cache (fs_icache (with_metadb db s)) = ic_cache (fs_icache s)"
  "fs_dcache (with_metadb db s) = fs_dcache s" "fs_state (with_metadb db s) = fs_state s"
  "fs_fhs (with_metadb db s) = fs_fhs s" "fs_fuse (with_metadb db s) = fs_fuse s"
  "fs_next_fh (with_metadb db s) = fs_next_fh s" "fs_px (with_metadb db s) = fs_px s"
  "fs_metadb (with_metadb db s) = db"
  by (simp_all add: with_metadb_def fs_metadb_def)

lemma with_icache_simps [simp]:
  "fs_icache (with_icache ic s) = ic" "fs_dcache (with_icache ic s) = fs_dcache s"
  "fs_state (with_icache ic s) = fs_state s" "fs_fhs (with_icache ic s) = fs_fhs s"
  "fs_fuse (with_icache ic s) = fs_fuse s" "fs_next_fh (with_icache ic s) = fs_next_fh s"
  "fs_px (with_icache ic s) = fs_px s" "fs_metadb (with_icache ic s) = ic_metadb ic"
  by (simp_all add: with_icache_def fs_metadb_def)

text \<open>Every stored value that is well-formed has an inode number.\<close>

lemma tree_ino_Some:
  assumes "fs_inv kv contents ok n held s"
  shows "fs_tree contents s key = None \<longleftrightarrow> tree_ino (fs_tree contents s) key = None"
  using fs_inv_wf [OF assms, of key] by (cases "fs_tree contents s key") (auto simp: tree_ino_def wf_inode_def)

text \<open>The components of a path one at a time.\<close>

declare components.simps [simp del]

text \<open>A path that resolves to a name does so in every larger tree.\<close>

lemma resolve_in_mono:
  assumes "tree_ino m \<subseteq>\<^sub>m tree_ino m'" "resolve_in m key ino names = Some k"
  shows "resolve_in m' key ino names = Some k"
  using assms(2)
proof (induction names arbitrary: key ino rule: induct_list012)
  case (3 name n ns)
  then show ?case
    using assms(1) by (auto simp: Let_def map_le_def dom_def split: option.splits)
qed simp_all

lemma resolve_insert:
  assumes "m key = None" "resolve m path = Some k"
  shows "resolve (m(key \<mapsto> v)) path = Some k"
  unfolding resolve_def
proof (rule resolve_in_mono)
  show "tree_ino m \<subseteq>\<^sub>m tree_ino (m(key \<mapsto> v))"
    using assms(1) by (auto simp: map_le_def tree_ino_def)
qed (use assms(2) in \<open>simp add: resolve_def\<close>)

lemma components_not_Nil [simp]: "components str \<noteq> []"
  by (subst components.simps) (simp add: Let_def)

lemma components_end:
  assumes "drop (length (takeWhile (\<lambda>c. c \<noteq> PATH_DELIMITER) str)) str = []"
  shows "components str = [str]"
proof -
  have eq: "takeWhile (\<lambda>c. c \<noteq> PATH_DELIMITER) str = str"
    using assms by (metis append_Nil2 takeWhile_dropWhile_id dropWhile_eq_drop)
  show ?thesis
    by (subst components.simps) (simp only: Let_def eq, simp)
qed

lemma components_more:
  assumes "rest = drop (length (takeWhile (\<lambda>c. c \<noteq> PATH_DELIMITER) str)) str" "rest \<noteq> []"
  shows "components str = takeWhile (\<lambda>c. c \<noteq> PATH_DELIMITER) str # components (tl rest)"
    and "hd rest = PATH_DELIMITER"
proof -
  show "components str = takeWhile (\<lambda>c. c \<noteq> PATH_DELIMITER) str # components (tl rest)"
    using assms by (subst components.simps) (simp add: Let_def)
  show "hd rest = PATH_DELIMITER"
    using assms hd_dropWhile [of "\<lambda>c. c \<noteq> PATH_DELIMITER" str] by (simp add: dropWhile_eq_drop)
qed

lemma resolve_in_Cons:
  "ns \<noteq> [] \<Longrightarrow> resolve_in m key ino (name # ns) =
    (case tree_ino m (BuildMetaKey_name name ino) of
       None \<Rightarrow> None | Some i \<Rightarrow> resolve_in m (BuildMetaKey_name name ino) i ns)"
  by (cases ns) (auto simp: Let_def split: option.splits)

text \<open>What the loop of the lookup finds from a position in the path on.\<close>

definition parent_spec ::
  "tree \<Rightarrow> bytes \<Rightarrow> tfs_meta_key_t \<Rightarrow> u64 \<Rightarrow> (tfs_meta_key_t \<times> u64 \<times> bytes) option \<Rightarrow> bool" where
  "parent_spec m lpos key ino r \<longleftrightarrow>
     (let names = components (tl lpos)
      in case r of
           None \<Rightarrow> resolve_in m key ino names = None
         | Some (key', ino', l) \<Rightarrow>
             l \<noteq> [] \<and> last names = tl l \<and>
             resolve_in m key ino names = Some (if tl l = [] then key' else BuildMetaKey_name (tl l) ino') \<and>
             (if length names = 1 then l = lpos \<and> key' = key else hd l = PATH_DELIMITER \<and> length l < length lpos))"

lemma parent_spec_name:
  "parent_spec m path key ino (Some (key', ino', l)) \<Longrightarrow> path_name path = (if tl l = [] then [hd l] else tl l)"
  by (auto simp: parent_spec_def path_name_def Let_def split: if_splits)

section \<open>The lookup\<close>

context kv_store
begin

lemma with_metadb_same:
  assumes inv: "fs_inv kv contents ok n held s" and db: "ok db" "contents db = contents (fs_metadb s)"
  shows "fs_inv kv contents ok n held (with_metadb db s)" "fs_same contents s (with_metadb db s)"
proof -
  have "ic_state kv contents ok n {} held ((fs_icache s)\<lparr>ic_metadb := db\<rparr>)"
    using db by (intro ic_state_metadb [OF fs_inv_icache [OF inv]]) (simp_all add: fs_metadb_def)
  moreover have tree: "fs_tree contents (with_metadb db s) = fs_tree contents s"
    using db by (simp add: fs_tree_def fun_eq_iff)
  ultimately show "fs_inv kv contents ok n held (with_metadb db s)"
    using inv by (simp add: fs_inv_def with_metadb_def)
  show "fs_same contents s (with_metadb db s)"
    using tree db by (simp add: fs_same_def fs_frame_def)
qed

lemma lookup_component_spec:
  assumes inv: "fs_inv kv contents ok n held s"
  obtains s' where "lookup_component kv key s = Some (tree_ino (fs_tree contents s) key, s')"
    "fs_inv kv contents ok n held s'" "fs_same contents s s'"
proof -
  let ?m = "fs_tree contents s"
  obtain dc where dc: "DentryCache_Find key (fs_dcache s) = Some (dc_view (fs_dcache s) key, dc)" "dc_inv dc"
    "dc_view dc = dc_view (fs_dcache s)"
    using dc.find_view [OF fs_inv_dcache [OF inv]] by blast
  let ?s1 = "s\<lparr>fs_dcache := dc\<rparr>"
  have tree1: "fs_tree contents ?s1 = ?m" "fs_metadb ?s1 = fs_metadb s"
    by (simp_all add: fs_tree_def fs_metadb_def fun_eq_iff)
  have inv1: "fs_inv kv contents ok n held ?s1" and same1: "fs_same contents s ?s1"
    using inv dc(2,3) by (simp_all add: fs_inv_def fs_same_def fs_frame_def tree1)
  show thesis
  proof (cases "dc_view (fs_dcache s) key")
    case (Some ino)
    then have "?m \<noteq> Map.empty" "tree_ino ?m key = Some ino"
      using fs_inv_view [OF inv] by (auto simp: map_le_def dom_def tree_ino_def)
    then show thesis
      using that [of ?s1] dc Some inv1 same1 by (simp add: lookup_component_def)
  next
    case None
    let ?get = "kv_Get kv (ToSlice key) (fs_metadb s)"
    let ?s2 = "with_metadb (snd (snd ?get)) ?s1"
    have okdb: "ok (fs_metadb s)"
      using ic_state_ok [OF fs_inv_icache [OF inv]] by (simp add: fs_metadb_def)
    have db: "ok (snd (snd ?get))" "contents (snd (snd ?get)) = contents (fs_metadb ?s1)"
      using get_state [OF okdb, of "ToSlice key"] tree1 by auto
    note s2 = with_metadb_same [OF inv1 db]
    have same2: "fs_same contents s ?s2"
      by (rule fs_same_trans [OF same1 s2(2)])
    show thesis
    proof (cases "?m key")
      case None
      then have "fst ?get \<le> 0"
        using get_miss [OF okdb, of "ToSlice key"] by (simp add: fs_tree_def)
      then have "lookup_component kv key s = Some (None, set_errno ENOENT ?s2)"
        using dc(1) \<open>dc_view (fs_dcache s) key = None\<close> tree1(2)
        by (auto simp: lookup_component_def split: prod.splits)
      then show thesis
        using that None s2(1) same2 by (simp add: tree_ino_def)
    next
      case (Some v)
      then obtain st where st: "GetAttribute v = Some st" "tree_ino ?m key = Some (st_ino st)"
        using fs_inv_wf [OF inv Some] by (auto simp: wf_inode_def tree_ino_def)
      have "fst ?get = 1 \<and> fst (snd ?get) = v"
        using get_hit [OF okdb, of "ToSlice key"] Some by (simp add: fs_tree_def)
      then have eq: "lookup_component kv key s =
          Some (Some (st_ino st), ?s2\<lparr>fs_dcache := DentryCache_Insert key (st_ino st) dc\<rparr>)"
        using dc(1) \<open>dc_view (fs_dcache s) key = None\<close> tree1(2) st(1)
        by (auto simp: lookup_component_def split: prod.splits)
      let ?s3 = "?s2\<lparr>fs_dcache := DentryCache_Insert key (st_ino st) dc\<rparr>"
      have tree3: "fs_tree contents ?s3 = ?m"
        using fs_same_tree [OF same2] by (simp add: fs_tree_def fs_metadb_def fun_eq_iff)
      have "dc_view (DentryCache_Insert key (st_ino st) dc) \<subseteq>\<^sub>m tree_ino ?m"
        using fs_inv_view [OF inv] dc st(2) by (intro dc.ins_sound) simp_all
      then have "fs_inv kv contents ok n held ?s3"
        using s2(1) dc.ins_view [OF dc(2), of key "st_ino st"] fs_same_tree [OF same2]
        unfolding fs_inv_def tree3 by simp
      moreover have "fs_same contents s ?s3"
        using same2 tree3 by (simp add: fs_same_def fs_frame_def)
      ultimately show thesis
        using that eq st(2) by simp
    qed
  qed
qed

lemma ParentPathLookup_loop_spec:
  assumes "fs_inv kv contents ok n held s" "lpos \<noteq> []"
  shows "\<exists>r s'. ParentPathLookup_loop kv lpos key ino s = Some (r, s') \<and> fs_inv kv contents ok n held s' \<and>
    fs_same contents s s' \<and> parent_spec (fs_tree contents s) lpos key ino r"
  using assms
proof (induction "length lpos" arbitrary: lpos key ino s rule: less_induct)
  case less
  let ?m = "fs_tree contents s"
  let ?piece = "takeWhile (\<lambda>c. c \<noteq> PATH_DELIMITER) (tl lpos)"
  let ?rpos = "drop (length ?piece) (tl lpos)"
  let ?key = "BuildMetaKey_name ?piece ino"
  show ?case
  proof (cases "?rpos = []")
    case True
    then show ?thesis
      using less.prems components_end [OF True]
      by (subst ParentPathLookup_loop.simps) (auto simp: parent_spec_def)
  next
    case False
    note more = components_more [OF refl False]
    obtain s1 where s1: "lookup_component kv ?key s = Some (tree_ino ?m ?key, s1)"
      "fs_inv kv contents ok n held s1" "fs_same contents s s1"
      using lookup_component_spec [OF less.prems(1)] by blast
    have step: "ParentPathLookup_loop kv lpos key ino s =
        (case tree_ino ?m ?key of None \<Rightarrow> Some (None, s1) | Some i \<Rightarrow> ParentPathLookup_loop kv ?rpos ?key i s1)"
      using less.prems(2) False s1(1) by (subst ParentPathLookup_loop.simps) (simp add: Let_def)
    show ?thesis
    proof (cases "tree_ino ?m ?key")
      case None
      then show ?thesis
        using step s1 more(1) by (simp add: parent_spec_def resolve_in_Cons)
    next
      case (Some i)
      have len: "length ?rpos < length lpos"
        using less.prems(2) by (cases lpos) auto
      obtain r s' where r: "ParentPathLookup_loop kv ?rpos ?key i s1 = Some (r, s')"
        "fs_inv kv contents ok n held s'" "fs_same contents s1 s'" "parent_spec ?m ?rpos ?key i r"
        using less.hyps [OF len s1(2) False, of ?key i] fs_same_tree [OF s1(3)] by auto
      have "parent_spec ?m lpos key ino r"
        using r(4) more Some len
        by (auto simp: parent_spec_def resolve_in_Cons Let_def split: option.splits prod.splits if_splits)
      then show ?thesis
        using step Some r fs_same_trans [OF s1(3) r(3)] by auto
    qed
  qed
qed

lemma ParentPathLookup_spec:
  assumes inv: "fs_inv kv contents ok n held s" and path: "path \<noteq> []"
  obtains r s' where "ParentPathLookup kv path s = Some (r, s')" "fs_inv kv contents ok n held s'"
    "fs_same contents s s'" "parent_spec (fs_tree contents s) path root_key ROOT_INODE_ID r"
proof -
  obtain r s' where r: "ParentPathLookup_loop kv path root_key ROOT_INODE_ID s = Some (r, s')"
    "fs_inv kv contents ok n held s'" "fs_same contents s s'"
    "parent_spec (fs_tree contents s) path root_key ROOT_INODE_ID r"
    using ParentPathLookup_loop_spec [OF inv path] by blast
  then have "ParentPathLookup kv path s = Some (r, s')"
    by (auto simp: ParentPathLookup_def parent_spec_def Let_def split: option.splits prod.splits if_splits)
  then show thesis
    using that r by blast
qed

text \<open>The key a path resolves to is found, and only then; a failed lookup leaves \<open>ENOENT\<close> in \<open>errno\<close>.\<close>

lemma PathLookup_spec:
  assumes "fs_inv kv contents ok n held s" "path \<noteq> []"
  obtains s' where "PathLookup kv path s = Some (resolve (fs_tree contents s) path, s')"
    "fs_inv kv contents ok n held s'" "fs_same contents s s'"
    "resolve (fs_tree contents s) path = None \<Longrightarrow> FSError s' = - ENOENT"
proof -
  obtain r s' where r: "ParentPathLookup kv path s = Some (r, s')" "fs_inv kv contents ok n held s'"
    "fs_same contents s s'" "parent_spec (fs_tree contents s) path root_key ROOT_INODE_ID r"
    using ParentPathLookup_spec [OF assms] by blast
  show thesis
  proof (cases r)
    case None
    then show thesis
      using r by (intro that [of "set_errno ENOENT s'"]) (simp_all add: PathLookup_def parent_spec_def resolve_def Let_def)
  next
    case (Some x)
    obtain key ino l where x: "x = (key, ino, l)"
      by (cases x)
    then show thesis
      using r Some that [of s'] by (cases l) (auto simp: PathLookup_def parent_spec_def resolve_def Let_def)
  qed
qed

lemma PathLookup_name_spec:
  assumes "fs_inv kv contents ok n held s" "path \<noteq> []"
  obtains s' where "PathLookup_name kv path s =
      Some (map_option (\<lambda>key. (key, path_name path)) (resolve (fs_tree contents s) path), s')"
    "fs_inv kv contents ok n held s'" "fs_same contents s s'"
    "resolve (fs_tree contents s) path = None \<Longrightarrow> FSError s' = - ENOENT"
proof -
  obtain r s' where r: "ParentPathLookup kv path s = Some (r, s')" "fs_inv kv contents ok n held s'"
    "fs_same contents s s'" "parent_spec (fs_tree contents s) path root_key ROOT_INODE_ID r"
    using ParentPathLookup_spec [OF assms] by blast
  show thesis
  proof (cases r)
    case None
    then show thesis
      using r by (intro that [of "set_errno ENOENT s'"]) (simp_all add: PathLookup_name_def parent_spec_def resolve_def Let_def)
  next
    case (Some x)
    obtain key ino l where x: "x = (key, ino, l)"
      by (cases x)
    then show thesis
      using r Some that [of s'] parent_spec_name [OF r(4) [unfolded Some x]]
      by (cases l) (auto simp: PathLookup_name_def parent_spec_def resolve_def Let_def)
  qed
qed

end

text \<open>The name of a new inode is not longer than the path.\<close>

lemma length_component: "name \<in> set (components str) \<Longrightarrow> length name \<le> length str"
proof (induction str arbitrary: name rule: components.induct)
  case (1 str)
  let ?piece = "takeWhile (\<lambda>c. c \<noteq> PATH_DELIMITER) str"
  let ?rest = "drop (length ?piece) str"
  show ?case
  proof (cases "?rest = []")
    case True
    then show ?thesis
      using 1(2) by (simp add: components_end)
  next
    case False
    then have "length name \<le> length (tl ?rest)" if "name \<in> set (components (tl ?rest))"
      using 1(1) [OF refl refl False] that by blast
    then show ?thesis
      using 1(2) components_more [OF refl False] length_takeWhile_le [of "\<lambda>c. c \<noteq> PATH_DELIMITER" str] by force
  qed
qed

lemma length_path_name: "path \<noteq> [] \<Longrightarrow> length (path_name path) \<le> length path"
  using length_component [of "last (components (tl path))" "tl path"]
  by (cases path) (auto simp: path_name_def Let_def)

end
