(* ===== verification/Tablefs_Meta.thy ===== *)
theory Tablefs_Meta
  imports Tablefs_Path
begin

text \<open>
  The handlers of metadata, between operations: no handle is held, so that every cached value agrees
  with the store.  Each handler is shown to do to the stored tree what it is meant to do, on every
  branch, and to leave the invariant intact.
\<close>

section \<open>Changing the tree\<close>

lemma fs_frame_refl [simp]: "fs_frame s s"
  by (simp add: fs_frame_def)

lemma fs_frame_trans: "fs_frame s s' \<Longrightarrow> fs_frame s' s'' \<Longrightarrow> fs_frame s s''"
  by (simp add: fs_frame_def)

lemma fs_frame_icache [simp]: "fs_frame s (with_icache ic s') \<longleftrightarrow> fs_frame s s'"
  by (simp add: fs_frame_def)

lemma fs_same_frame: "fs_same contents s s' \<Longrightarrow> fs_frame s s'"
  by (simp add: fs_same_def)

lemma fs_tree_icache:
  "fs_tree contents (with_icache ic s) = (\<lambda>key. contents (ic_metadb ic) (ToSlice key))"
  by (simp add: fs_tree_def fun_eq_iff)

text \<open>An operation of the inode cache that leaves the contents of the store alone.\<close>

lemma with_icache_same:
  assumes inv: "fs_inv kv contents ok n held s" and ic: "ic_state kv contents ok n' {} held' ic"
    and same: "contents (ic_metadb ic) = contents (ic_metadb (fs_icache s))"
  shows "fs_inv kv contents ok n' held' (with_icache ic s)" "fs_same contents s (with_icache ic s)"
proof -
  have tree: "fs_tree contents (with_icache ic s) = fs_tree contents s"
    using same by (simp add: fs_tree_def fs_metadb_def fun_eq_iff)
  then show "fs_inv kv contents ok n' held' (with_icache ic s)" "fs_same contents s (with_icache ic s)"
    using inv ic same by (simp_all add: fs_inv_def fs_same_def fs_metadb_def)
qed

text \<open>One that changes the value of a key, but not its inode number.\<close>

lemma with_icache_upd:
  assumes inv: "fs_inv kv contents ok n held s" and ic: "ic_state kv contents ok n' {} held' ic"
    and upd: "contents (ic_metadb ic) = (contents (ic_metadb (fs_icache s)))(ToSlice key \<mapsto> v)"
    and v: "wf_inode v" "tree_ino (fs_tree contents s) key = map_option st_ino (GetAttribute v)"
  shows "fs_inv kv contents ok n' held' (with_icache ic s)"
    "fs_tree contents (with_icache ic s) = (fs_tree contents s)(key \<mapsto> v)"
proof -
  show tree: "fs_tree contents (with_icache ic s) = (fs_tree contents s)(key \<mapsto> v)"
    using upd by (auto simp: fs_tree_def fs_metadb_def fun_eq_iff)
  have "tree_ino ((fs_tree contents s)(key \<mapsto> v)) = tree_ino (fs_tree contents s)"
    using v(2) by (auto simp: tree_ino_def fun_eq_iff)
  then show "fs_inv kv contents ok n' held' (with_icache ic s)"
    using inv ic v(1) unfolding fs_inv_def tree by auto
qed

lemma fs_tree_evict_dentry [simp]: "fs_tree contents (evict_dentry key s) = fs_tree contents s"
  by (simp add: evict_dentry_def fs_tree_def fs_metadb_def fun_eq_iff)

lemma fs_frame_evict_dentry [simp]: "fs_frame s (evict_dentry key s') \<longleftrightarrow> fs_frame s s'"
  by (simp add: evict_dentry_def fs_frame_def)

text \<open>One that removes a key, whose dentry is evicted.\<close>

lemma with_icache_del:
  assumes inv: "fs_inv kv contents ok n held s" and ic: "ic_state kv contents ok n' {} held' ic"
    and upd: "contents (ic_metadb ic) = (contents (ic_metadb (fs_icache s)))(ToSlice key := None)"
  shows "fs_inv kv contents ok n' held' (with_icache ic (evict_dentry key s))"
    "fs_tree contents (with_icache ic (evict_dentry key s)) = (fs_tree contents s)(key := None)"
proof -
  show tree: "fs_tree contents (with_icache ic (evict_dentry key s)) = (fs_tree contents s)(key := None)"
    using upd by (auto simp: fs_tree_def fs_metadb_def fun_eq_iff)
  have "dc_view (DentryCache_Evict key (fs_dcache s)) \<subseteq>\<^sub>m tree_ino ((fs_tree contents s)(key := None))"
    by (rule dc.evict_sound [OF fs_inv_dcache [OF inv] fs_inv_view [OF inv]]) (simp add: tree_ino_def)
  then show "fs_inv kv contents ok n' held' (with_icache ic (evict_dentry key s))"
    using inv ic dc.evict_view [OF fs_inv_dcache [OF inv], of key] unfolding fs_inv_def tree
    by (auto simp: evict_dentry_def)
qed

lemma fs_tree_px [simp]: "fs_tree contents (s\<lparr>fs_px := px\<rparr>) = fs_tree contents s"
  and fs_tree_state [simp]: "fs_tree contents (s\<lparr>fs_state := st\<rparr>) = fs_tree contents s"
  by (simp_all add: fs_tree_def fs_metadb_def fun_eq_iff)

lemma fs_inv_px [simp]: "fs_inv kv contents ok n held (s\<lparr>fs_px := px\<rparr>) = fs_inv kv contents ok n held s"
  and fs_inv_state [simp]: "fs_inv kv contents ok n held (s\<lparr>fs_state := st\<rparr>) = fs_inv kv contents ok n held s"
  by (simp_all add: fs_inv_def)

lemma tree_lookup_None:
  "tree_lookup m path = None \<longleftrightarrow> (\<forall>key. resolve m path = Some key \<longrightarrow> m key = None)"
  by (auto simp: tree_lookup_def split: option.splits)

lemma tree_lookup_Some:
  "tree_lookup m path = Some (key, v) \<longleftrightarrow> resolve m path = Some key \<and> m key = Some v"
  by (auto simp: tree_lookup_def split: option.splits)

lemma wf_inodeE:
  assumes "wf_inode v"
  obtains h name data where "v = inode_value h name data" "wf_header h name" "length name \<le> 4096" "length data < 2 ^ 31"
  using assms by (auto simp: wf_inode_def)

lemma wf_inodeI:
  "wf_header h name \<Longrightarrow> length name \<le> 4096 \<Longrightarrow> length data < 2 ^ 31 \<Longrightarrow> wf_inode (inode_value h name data)"
  by (auto simp: wf_inode_def)

lemma wf_inode_attr:
  assumes "wf_inode v"
  obtains st where "GetAttribute v = Some st"
  using assms by (auto simp: wf_inode_def)

lemma wf_inode_small: "wf_inode v \<Longrightarrow> length v < 2 ^ 32"
  by (auto simp: wf_inode_def)

text \<open>The frame of a creating operation: the counter has advanced.\<close>

definition fs_created :: "'db TableFS \<Rightarrow> 'db TableFS \<Rightarrow> bool" where
  "fs_created s s' \<longleftrightarrow>
     fs_state s' = (fs_state s)\<lparr>max_inode_num := max_inode_num (fs_state s) + 1\<rparr> \<and> fs_fuse s' = fs_fuse s \<and>
     fs_fhs s' = fs_fhs s \<and> fs_next_fh s' = fs_next_fh s \<and> px_links (fs_px s') = px_links (fs_px s) \<and>
     px_files (fs_px s') = px_files (fs_px s) \<and> px_fds (fs_px s') = px_fds (fs_px s)"

lemma put_inode_ok:
  "fst (kv_Put kv (ToSlice key) v (fs_metadb s)) = 0 \<Longrightarrow>
    put_inode kv key v s = (0, with_metadb (snd (kv_Put kv (ToSlice key) v (fs_metadb s))) s)"
  by (cases "kv_Put kv (ToSlice key) v (fs_metadb s)") (simp add: put_inode_def)

context kv_store
begin

abbreviation quiet :: "'db TableFS \<Rightarrow> bool" where
  "quiet s \<equiv> fs_inv kv contents ok 0 Map.empty s"

lemma quietI: "fs_inv kv contents ok n Map.empty s \<Longrightarrow> quiet s"
  unfolding fs_inv_def by (auto intro: ic_state_quiet)

text \<open>Getting a handle at a path that is there, and at one that is not.\<close>

lemma Get_at_path:
  assumes inv: "quiet s" and path: "path \<noteq> []"
  obtains (no_path) s1 where "PathLookup kv path s = Some (None, s1)" "quiet s1" "fs_same contents s s1"
      "FSError s1 = - ENOENT" "tree_lookup (fs_tree contents s) path = None"
    | (missing) s1 key ic where "PathLookup kv path s = Some (Some key, s1)" "quiet s1" "fs_same contents s s1"
      "InodeCache_Get kv key mode (fs_icache s1) = Some (None, ic)" "quiet (with_icache ic s1)"
      "fs_same contents s (with_icache ic s1)" "tree_lookup (fs_tree contents s) path = None"
    | (found) s1 key v ptr ic where "PathLookup kv path s = Some (Some key, s1)" "quiet s1" "fs_same contents s s1"
      "InodeCache_Get kv key mode (fs_icache s1) = Some (Some ptr, ic)"
      "ic_state kv contents ok 1 {} [ptr \<mapsto> \<lparr>ih_key = key, ih_value = v, ih_mode = mode\<rparr>] ic"
      "contents (ic_metadb ic) = contents (ic_metadb (fs_icache s1))"
      "tree_lookup (fs_tree contents s) path = Some (key, v)" "wf_inode v"
proof -
  let ?m = "fs_tree contents s"
  obtain s1 where s1: "PathLookup kv path s = Some (resolve ?m path, s1)" "quiet s1" "fs_same contents s s1"
    "resolve ?m path = None \<Longrightarrow> FSError s1 = - ENOENT"
    using PathLookup_spec [OF inv path] by blast
  show thesis
  proof (cases "resolve ?m path")
    case None
    then show thesis
      using no_path [of s1] s1 by (simp add: tree_lookup_def)
  next
    case (Some key)
    note st = fs_inv_icache [OF s1(2)]
    have tree: "contents (ic_metadb (fs_icache s1)) (ToSlice key) = ?m key"
      using fs_same_tree [OF s1(3)] by (simp add: fs_tree_def fs_metadb_def fun_eq_iff)
    show thesis
    proof (cases "?m key")
      case None
      obtain ic where ic: "InodeCache_Get kv key mode (fs_icache s1) = Some (None, ic)"
        "ic_state kv contents ok 0 {} Map.empty ic" "contents (ic_metadb ic) = contents (ic_metadb (fs_icache s1))"
        using InodeCache_Get_miss [OF st refl, of key mode] tree None by auto
      show thesis
        using missing [of key s1 ic] s1 ic Some None with_icache_same [OF s1(2) ic(2,3)]
          fs_same_trans [OF s1(3)] by (simp add: tree_lookup_def)
    next
      case (Some v)
      have v: "wf_inode v"
        using fs_inv_wf [OF inv Some] .
      obtain ptr ic where ic: "InodeCache_Get kv key mode (fs_icache s1) = Some (Some ptr, ic)"
        "ic_state kv contents ok (Suc 0) {} [ptr \<mapsto> \<lparr>ih_key = key, ih_value = v, ih_mode = mode\<rparr>] ic"
        "contents (ic_metadb ic) = contents (ic_metadb (fs_icache s1))"
        using InodeCache_Get_hit [OF st, of key v mode] tree Some wf_inode_small [OF v] by auto
      show thesis
        using found [of key s1 ptr ic v] s1 ic v Some \<open>resolve ?m path = Some key\<close> by (simp add: tree_lookup_def)
    qed
  qed
qed

text \<open>Writing the only held handle back and giving it up.\<close>

lemma commit_handle:
  assumes st: "ic_state kv contents ok n {} [ptr \<mapsto> h] ic" and mode: "ih_mode h = INODE_WRITE"
  obtains ic1 ic2 where "InodeCache_WriteBack kv ptr ic = Some ic1" "InodeCache_Release ptr ic1 = Some ic2"
    "ic_state kv contents ok n {} Map.empty ic2"
    "contents (ic_metadb ic2) = (contents (ic_metadb ic))(ToSlice (ih_key h) \<mapsto> ih_value h)"
proof -
  let ?h = "h\<lparr>ih_mode := INODE_READ\<rparr>"
  obtain ic1 where ic1: "InodeCache_WriteBack kv ptr ic = Some ic1" "ic_state kv contents ok n {} [ptr \<mapsto> ?h] ic1"
    "contents (ic_metadb ic1) = (contents (ic_metadb ic))(ToSlice (ih_key h) \<mapsto> ih_value h)"
    using InodeCache_WriteBack_write [OF st, of ptr h] mode by auto
  obtain ic2 where "InodeCache_Release ptr ic1 = Some ic2" "ic_state kv contents ok n {} Map.empty ic2"
    "ic_metadb ic2 = ic_metadb ic1"
    using InodeCache_Release_clean [OF ic1(2), of ptr ?h] ic1(3) by (auto simp: clean_def)
  then show thesis
    using that ic1 by simp
qed

section \<open>Attributes\<close>

lemma GetAttr_spec:
  assumes inv: "quiet s" and path: "path \<noteq> []"
  obtains s' where "GetAttr kv path s =
      Some ((case tree_lookup (fs_tree contents s) path of
               None \<Rightarrow> (- ENOENT, None) | Some (key, v) \<Rightarrow> (0, GetAttribute v)), s')"
    "quiet s'" "fs_same contents s s'"
proof (cases rule: Get_at_path [OF inv path, where mode = INODE_READ, case_names 1 2 3])
  case (1 s1)
  then show thesis
    using that [of s1] by (simp add: GetAttr_def)
next
  case (2 s1 key ic)
  then show thesis
    using that [of "with_icache ic s1"] by (simp add: GetAttr_def)
next
  case (3 s1 key v ptr ic)
  let ?h = "\<lparr>ih_key = key, ih_value = v, ih_mode = INODE_READ\<rparr>"
  have "clean (contents (ic_metadb ic)) ?h"
    using 3(3,6,7) fs_same_tree [OF 3(3)] by (auto simp: clean_def tree_lookup_Some fs_tree_def fs_metadb_def fun_eq_iff)
  then obtain ic2 where ic2: "InodeCache_Release ptr ic = Some ic2" "ic_state kv contents ok 1 {} Map.empty ic2"
    "ic_metadb ic2 = ic_metadb ic"
    using InodeCache_Release_clean [OF 3(5), of ptr ?h] by auto
  have "ic_handle ptr ic = Some ?h"
    using ic_state_handle [OF 3(5)] by simp
  moreover obtain st where "GetAttribute v = Some st"
    using wf_inode_attr [OF 3(8)] .
  moreover have "quiet (with_icache ic2 s1)" "fs_same contents s (with_icache ic2 s1)"
    using with_icache_same [OF 3(2) ic2(2)] ic2(3) 3(6) quietI fs_same_trans [OF 3(3)] by auto
  ultimately show thesis
    using that [of "with_icache ic2 s1"] 3(1,4,7) ic2(1) by (simp add: GetAttr_def)
qed

lemma update_attribute_spec:
  assumes inv: "quiet s" and path: "path \<noteq> []" and ino: "\<And>st. st_ino (change st) = st_ino st"
  obtains (missing) s' where "update_attribute kv path change s = Some (- ENOENT, s')" "quiet s'"
      "tree_lookup (fs_tree contents s) path = None" "fs_same contents s s'"
    | (found) s' key v st where "update_attribute kv path change s = Some (0, s')" "quiet s'"
      "tree_lookup (fs_tree contents s) path = Some (key, v)" "GetAttribute v = Some st"
      "fs_tree contents s' = (fs_tree contents s)(key \<mapsto> UpdateAttribute v (change st))" "fs_frame s s'"
proof (cases rule: Get_at_path [OF inv path, where mode = INODE_WRITE, case_names 1 2 3])
  case (1 s1)
  then show thesis
    using missing [of s1] by (simp add: update_attribute_def)
next
  case (2 s1 key ic)
  then show thesis
    using missing [of "with_icache ic s1"] by (simp add: update_attribute_def)
next
  case (3 s1 key v ptr ic)
  let ?h = "\<lparr>ih_key = key, ih_value = v, ih_mode = INODE_WRITE\<rparr>"
  obtain h name data where v: "v = inode_value h name data" "wf_header h name" "length name \<le> 4096" "length data < 2 ^ 31"
    using 3(8) by (rule wf_inodeE)
  let ?st = "fstat h"
  let ?v = "UpdateAttribute v (change ?st)"
  have attr: "GetAttribute v = Some ?st" "GetAttribute ?v = Some (change ?st)" and wf: "wf_inode ?v"
    using v wf_inodeI [of "h\<lparr>fstat := change ?st\<rparr>" name data] by (simp_all add: wf_header_def)
  have handle: "ic_handle ptr ic = Some ?h"
    using ic_state_handle [OF 3(5)] by simp
  let ?h2 = "?h\<lparr>ih_value := ?v\<rparr>"
  obtain ic2 where ic2: "ic_assign ptr ?h2 ic = Some ic2" "ic_state kv contents ok 1 {} [ptr \<mapsto> ?h2] ic2"
    "ic_metadb ic2 = ic_metadb ic"
    using ic_state_assign [OF 3(5), of ptr ?h ?h2] wf_inode_small [OF wf] by auto
  obtain ic3 ic4 where ic4: "InodeCache_WriteBack kv ptr ic2 = Some ic3" "InodeCache_Release ptr ic3 = Some ic4"
    "ic_state kv contents ok 1 {} Map.empty ic4" "contents (ic_metadb ic4) = (contents (ic_metadb ic2))(ToSlice key \<mapsto> ?v)"
    using commit_handle [OF ic2(2)] by auto
  have m: "fs_tree contents s1 = fs_tree contents s" "fs_tree contents s key = Some v"
    using fs_same_tree [OF 3(3)] 3(7) by (simp_all add: tree_lookup_Some)
  have upd: "contents (ic_metadb ic4) = (contents (ic_metadb (fs_icache s1)))(ToSlice key \<mapsto> ?v)"
    using ic4(4) ic2(3) 3(6) by simp
  have "tree_ino (fs_tree contents s1) key = map_option st_ino (GetAttribute ?v)"
    using m attr ino by (simp add: tree_ino_def)
  note s' = with_icache_upd [OF 3(2) ic4(3) upd wf this]
  show thesis
  proof (rule found)
    show "update_attribute kv path change s = Some (0, with_icache ic4 s1)"
      using 3(1,4) handle attr(1) ic2(1) ic4(1,2) by (simp add: update_attribute_def)
    show "quiet (with_icache ic4 s1)"
      using s'(1) by (rule quietI)
  qed (use 3(7) attr s'(2) m(1) fs_same_frame [OF 3(3)] in simp_all)
qed

section \<open>Removing\<close>

lemma remove_handle:
  assumes "quiet s" and st: "ic_state kv contents ok n {} [ptr \<mapsto> h] ic" and h: "ih_mode h = INODE_DELETE" "ih_key h = key"
    and same: "contents (ic_metadb ic) = contents (ic_metadb (fs_icache s))"
  obtains ic1 ic2 where "InodeCache_Release ptr ic = Some ic1" "InodeCache_Evict key ic1 = Some ic2"
    "quiet (with_icache ic2 (evict_dentry key s))"
    "fs_tree contents (with_icache ic2 (evict_dentry key s)) = (fs_tree contents s)(key := None)"
proof -
  obtain ic1 ic2 where ic: "InodeCache_Release ptr ic = Some ic1" "InodeCache_Evict key ic1 = Some ic2"
    "ic_state kv contents ok n {} Map.empty ic2"
    "contents (ic_metadb ic2) = (contents (ic_metadb ic))(ToSlice key := None)"
    using InodeCache_remove [OF st, of ptr h] h by auto
  have "quiet (with_icache ic2 (evict_dentry key s))"
      "fs_tree contents (with_icache ic2 (evict_dentry key s)) = (fs_tree contents s)(key := None)"
    using with_icache_del [OF assms(1) ic(3), of key] ic(4) same quietI by auto
  then show thesis
    using that ic by blast
qed

lemma RemoveDir_spec:
  assumes inv: "quiet s" and path: "path \<noteq> []"
  obtains (missing) s' where "RemoveDir kv path s = Some (- ENOENT, s')" "quiet s'"
      "tree_lookup (fs_tree contents s) path = None" "fs_same contents s s'"
    | (found) s' key v where "RemoveDir kv path s = Some (0, s')" "quiet s'"
      "tree_lookup (fs_tree contents s) path = Some (key, v)"
      "fs_tree contents s' = (fs_tree contents s)(key := None)" "fs_frame s s'"
proof (cases rule: Get_at_path [OF inv path, where mode = INODE_DELETE, case_names 1 2 3])
  case (1 s1)
  then show thesis
    using missing [of s1] by (simp add: RemoveDir_def)
next
  case (2 s1 key ic)
  then show thesis
    using missing [of "with_icache ic s1"] by (simp add: RemoveDir_def)
next
  case (3 s1 key v ptr ic)
  obtain ic1 ic2 where "InodeCache_Release ptr ic = Some ic1" "InodeCache_Evict key ic1 = Some ic2"
    "quiet (with_icache ic2 (evict_dentry key s1))"
    "fs_tree contents (with_icache ic2 (evict_dentry key s1)) = (fs_tree contents s1)(key := None)"
    using remove_handle [OF 3(2,5) _ _ 3(6)] by auto
  then show thesis
    using found [of "with_icache ic2 (evict_dentry key s1)" key v] 3 fs_same_tree [OF 3(3)] fs_same_frame [OF 3(3)]
    by (simp add: RemoveDir_def)
qed

text \<open>\<open>Unlink\<close> also removes the data file of a large file.\<close>

lemma Unlink_spec:
  assumes inv: "quiet s" and path: "path \<noteq> []"
    and room: "length (datadir (fs_state s)) \<le> 100"
  obtains (missing) s' where "Unlink kv path s = Some (- ENOENT, s')" "quiet s'"
      "tree_lookup (fs_tree contents s) path = None" "fs_same contents s s'"
    | (found) s' key v st fpath where "Unlink kv path s = Some (0, s')" "quiet s'"
      "tree_lookup (fs_tree contents s) path = Some (key, v)" "GetAttribute v = Some st"
      "GetDiskFilePath (fs_state s) (st_ino st) = Some fpath"
      "fs_tree contents s' = (fs_tree contents s)(key := None)"
      "fs_frame (if sint (st_size st) > threshold (fs_state s) then s\<lparr>fs_px := snd (posix_unlink fpath (fs_px s))\<rparr> else s) s'"
proof (cases rule: Get_at_path [OF inv path, where mode = INODE_DELETE, case_names 1 2 3])
  case (1 s1)
  then show thesis
    using missing [of s1] by (simp add: Unlink_def)
next
  case (2 s1 key ic)
  then show thesis
    using missing [of "with_icache ic s1"] by (simp add: Unlink_def)
next
  case (3 s1 key v ptr ic)
  obtain h name data where v: "v = inode_value h name data" "wf_header h name"
    using 3(8) by (rule wf_inodeE)
  have attr: "GetAttribute v = Some (fstat h)" "GetInodeHeader v = Some h"
    using v by simp_all
  obtain fpath where fpath: "GetDiskFilePath (fs_state s) (st_ino (fstat h)) = Some fpath"
    using GetDiskFilePath_fits [OF room] .
  have st: "fs_state s1 = fs_state s" and px: "(fs_px s)\<lparr>px_errno := 0\<rparr> = (fs_px s1)\<lparr>px_errno := 0\<rparr>"
    using fs_same_frame [OF 3(3)] by (simp_all add: fs_frame_def)
  let ?px = "if sint (st_size (fstat h)) > threshold (fs_state s1) then snd (posix_unlink fpath (fs_px s1)) else fs_px s1"
  let ?s2 = "s1\<lparr>fs_px := ?px\<rparr>"
  obtain ic1 ic2 where ic: "InodeCache_Release ptr ic = Some ic1" "InodeCache_Evict key ic1 = Some ic2"
    "quiet (with_icache ic2 (evict_dentry key ?s2))"
    "fs_tree contents (with_icache ic2 (evict_dentry key ?s2)) = (fs_tree contents ?s2)(key := None)"
    using remove_handle [of ?s2, OF _ 3(5)] 3(2,6) by auto
  have "(snd (posix_unlink fpath (fs_px s)))\<lparr>px_errno := 0\<rparr> = (snd (posix_unlink fpath (fs_px s1)))\<lparr>px_errno := 0\<rparr>"
    using px by (cases "fs_px s"; cases "fs_px s1") (auto simp: posix_unlink_def px_fail_def split: option.splits)
  then have "fs_frame (if sint (st_size (fstat h)) > threshold (fs_state s)
      then s\<lparr>fs_px := snd (posix_unlink fpath (fs_px s))\<rparr> else s) (with_icache ic2 (evict_dentry key ?s2))"
    using fs_same_frame [OF 3(3)] px st by (simp add: fs_frame_def evict_dentry_def)
  moreover have "Unlink kv path s = Some (0, with_icache ic2 (evict_dentry key ?s2))"
    using 3(1,4) ic_state_handle [OF 3(5)] attr fpath ic(1,2) st by (simp add: Unlink_def)
  ultimately show thesis
    using found [of "with_icache ic2 (evict_dentry key ?s2)" key v "fstat h" fpath] 3(7) attr fpath ic fs_same_tree [OF 3(3)]
    by simp
qed

section \<open>Creating\<close>

text \<open>
  A key that is not in the tree has no cached value, so that storing it directly keeps the caches
  coherent.
\<close>

lemma put_new:
  assumes inv: "quiet s" and new: "fs_tree contents s key = None" and v: "wf_inode v"
  shows "fst (kv_Put kv (ToSlice key) v (fs_metadb s)) = 0"
    and "quiet (with_metadb (snd (kv_Put kv (ToSlice key) v (fs_metadb s))) s)"
    and "fs_tree contents (with_metadb (snd (kv_Put kv (ToSlice key) v (fs_metadb s))) s) = (fs_tree contents s)(key \<mapsto> v)"
proof -
  let ?put = "kv_Put kv (ToSlice key) v (fs_metadb s)"
  note st = fs_inv_icache [OF inv]
  have put: "fst ?put = 0" "ok (snd ?put)" "contents (snd ?put) = (contents (fs_metadb s))(ToSlice key \<mapsto> v)"
    using put_ok [of "fs_metadb s" "ToSlice key" v] ic_state_ok [OF st] wf_inode_small [OF v]
    by (simp_all add: fs_metadb_def)
  then show "fst ?put = 0"
    by simp
  show tree: "fs_tree contents (with_metadb (snd ?put) s) = (fs_tree contents s)(key \<mapsto> v)"
    using put(3) by (auto simp: fs_tree_def fun_eq_iff)
  have "ih_key (lh_value e) \<noteq> key" if "sc_entry (ic_cache (fs_icache s)) q = Some e" for q e
    using ic_state_clean [OF st that] new by (auto simp: clean_def fs_tree_def fs_metadb_def)
  then have ic: "ic_state kv contents ok 0 {} Map.empty ((fs_icache s)\<lparr>ic_metadb := snd ?put\<rparr>)"
    using put by (intro ic_state_metadb [OF st]) (auto simp: fs_metadb_def)
  have "dc_view (fs_dcache s) \<subseteq>\<^sub>m tree_ino ((fs_tree contents s)(key \<mapsto> v))"
    using new by (intro map_le_trans [OF fs_inv_view [OF inv]]) (auto simp: map_le_def tree_ino_def)
  then show "quiet (with_metadb (snd ?put) s)"
    using inv ic v unfolding fs_inv_def tree by (auto simp: with_metadb_def)
qed

lemma new_inode_total:
  assumes "length (datadir (fs_state s)) \<le> 100"
  obtains px where "new_inode s = Some (max_inode_num (fs_state s) + 1,
      s\<lparr>fs_state := (fs_state s)\<lparr>max_inode_num := max_inode_num (fs_state s) + 1\<rparr>, fs_px := px\<rparr>)"
    "px_links px = px_links (fs_px s)" "px_files px = px_files (fs_px s)" "px_fds px = px_fds (fs_px s)"
proof -
  let ?n = "max_inode_num (fs_state s) + 1"
  let ?st = "(fs_state s)\<lparr>max_inode_num := ?n\<rparr>"
  have fits: "sprintf_buf 512 (data_subdir (fs_state s) ?n) = Some (data_subdir (fs_state s) ?n)"
    using assms by (rule data_subdir_fits)
  let ?px = "if ?n mod of_nat NUM_FILES_IN_DATADIR = 0 then snd (posix_mkdir (data_subdir (fs_state s) ?n) (fs_px s)) else fs_px s"
  have "new_inode s = Some (?n, s\<lparr>fs_state := ?st, fs_px := ?px\<rparr>)"
    using fits by (auto simp: new_inode_def NewInode_def Let_def)
  then show thesis
    by (rule that) (simp_all add: posix_mkdir_def px_fail_def)
qed

lemma create_spec:
  assumes inv: "quiet s" and path: "path \<noteq> []" "length path \<le> 4096"
    and room: "length (datadir (fs_state s)) \<le> 100"
    and new: "\<And>key. resolve (fs_tree contents s) path = Some key \<Longrightarrow> fs_tree contents s key = None"
  obtains (no_parent) s1 where "PathLookup_name kv path s = Some (None, s1)" "quiet s1" "fs_same contents s s1"
      "FSError s1 = - ENOENT" "resolve (fs_tree contents s) path = None"
    | (created) s1 s2 key where "PathLookup_name kv path s = Some (Some (key, path_name path), s1)"
      "new_inode s1 = Some (max_inode_num (fs_state s) + 1, s2)" "fs_fuse s2 = fs_fuse s"
      "resolve (fs_tree contents s) path = Some key"
      "\<And>v. wf_inode v \<Longrightarrow> fst (kv_Put kv (ToSlice key) v (fs_metadb s2)) = 0"
      "\<And>v. wf_inode v \<Longrightarrow> quiet (with_metadb (snd (kv_Put kv (ToSlice key) v (fs_metadb s2))) s2)"
      "\<And>v. wf_inode v \<Longrightarrow> fs_tree contents (with_metadb (snd (kv_Put kv (ToSlice key) v (fs_metadb s2))) s2) =
        (fs_tree contents s)(key \<mapsto> v)"
      "\<And>v. fs_created s (with_metadb (snd (kv_Put kv (ToSlice key) v (fs_metadb s2))) s2)"
proof -
  let ?m = "fs_tree contents s"
  obtain s1 where s1: "PathLookup_name kv path s = Some (map_option (\<lambda>key. (key, path_name path)) (resolve ?m path), s1)"
    "quiet s1" "fs_same contents s s1" "resolve ?m path = None \<Longrightarrow> FSError s1 = - ENOENT"
    using PathLookup_name_spec [OF inv path(1)] by blast
  show thesis
  proof (cases "resolve ?m path")
    case None
    then show thesis
      using no_parent [of s1] s1 by simp
  next
    case (Some key)
    have frame: "fs_state s1 = fs_state s" "fs_fuse s1 = fs_fuse s" "fs_fhs s1 = fs_fhs s" "fs_next_fh s1 = fs_next_fh s"
      "(fs_px s)\<lparr>px_errno := 0\<rparr> = (fs_px s1)\<lparr>px_errno := 0\<rparr>"
      using fs_same_frame [OF s1(3)] by (simp_all add: fs_frame_def)
    have px1: "px_links (fs_px s1) = px_links (fs_px s)" "px_files (fs_px s1) = px_files (fs_px s)"
      "px_fds (fs_px s1) = px_fds (fs_px s)"
      using frame(5) by (cases "fs_px s"; cases "fs_px s1"; simp)+
    obtain px where px: "new_inode s1 = Some (max_inode_num (fs_state s) + 1,
        s1\<lparr>fs_state := (fs_state s)\<lparr>max_inode_num := max_inode_num (fs_state s) + 1\<rparr>, fs_px := px\<rparr>)"
      "px_links px = px_links (fs_px s)" "px_files px = px_files (fs_px s)" "px_fds px = px_fds (fs_px s)"
      using new_inode_total [of s1] room frame(1) px1 by auto
    let ?s2 = "s1\<lparr>fs_state := (fs_state s)\<lparr>max_inode_num := max_inode_num (fs_state s) + 1\<rparr>, fs_px := px\<rparr>"
    have inv2: "quiet ?s2" "fs_tree contents ?s2 = ?m" "fs_tree contents ?s2 key = None"
      using s1(2) fs_same_tree [OF s1(3)] new [OF Some] by simp_all
    show thesis
    proof (rule created)
      show "new_inode s1 = Some (max_inode_num (fs_state s) + 1, ?s2)"
        by (rule px(1))
      show "fs_created s (with_metadb (snd (kv_Put kv (ToSlice key) v (fs_metadb ?s2))) ?s2)" for v
        using frame px by (simp add: fs_created_def)
    qed (use s1(1) Some frame inv2 put_new [OF inv2(1,3)] in simp_all)
  qed
qed

lemma wf_new_inode:
  assumes "length filename \<le> 4096" "length target < 2 ^ 31"
  shows "wf_inode (InitInodeValue env fuse mem ino mode dev filename @ target)"
proof -
  obtain h where h: "InitInodeValue env fuse mem ino mode dev filename = inode_value h filename []" "wf_header h filename"
    using InitInodeValue_value [of filename env fuse mem ino mode dev] assms by auto
  then have "InitInodeValue env fuse mem ino mode dev filename @ target = inode_value h filename target"
    by (simp add: inode_value_def)
  then show ?thesis
    using wf_inodeI [OF h(2)] assms by simp
qed

lemma MakeNode_spec:
  assumes "quiet s" "path \<noteq> []" "length path \<le> 4096"
    and "length (datadir (fs_state s)) \<le> 100"
    and "\<And>key. resolve (fs_tree contents s) path = Some key \<Longrightarrow> fs_tree contents s key = None"
  obtains (no_parent) s' where "MakeNode kv env path mode dev s = Some (- ENOENT, s')" "quiet s'"
      "resolve (fs_tree contents s) path = None" "fs_same contents s s'"
    | (created) s' key where "MakeNode kv env path mode dev s = Some (0, s')" "quiet s'"
      "resolve (fs_tree contents s) path = Some key"
      "fs_tree contents s' = (fs_tree contents s)
        (key \<mapsto> InitInodeValue (ce_sys env) (fs_fuse s) (ce_mem env) (max_inode_num (fs_state s) + 1)
                  (mode OR S_IFREG) dev (path_name path))" "fs_created s s'"
proof (cases rule: create_spec [OF assms(1-4), case_names new 1 2])
  case (new key)
  then show ?case
    by (rule assms(5))
next
  case (1 s1)
  then show thesis
    using no_parent [of s1] by (simp add: MakeNode_def)
next
  case (2 s1 s2 key)
  let ?v = "InitInodeValue (ce_sys env) (fs_fuse s) (ce_mem env) (max_inode_num (fs_state s) + 1) (mode OR S_IFREG) dev (path_name path)"
  have wf: "wf_inode ?v"
    using wf_new_inode [of "path_name path" "[]"] length_path_name [OF assms(2)] assms(3) by simp
  show thesis
    using created [OF _ 2(6) [OF wf] 2(4) 2(7) [OF wf] 2(8)] 2(1-3) 2(5) [OF wf]
    by (simp add: MakeNode_def put_inode_ok)
qed

lemma MakeDir_spec:
  assumes "quiet s" "path \<noteq> []" "length path \<le> 4096"
    and "length (datadir (fs_state s)) \<le> 100"
    and "\<And>key. resolve (fs_tree contents s) path = Some key \<Longrightarrow> fs_tree contents s key = None"
  obtains (no_parent) s' where "MakeDir kv env path mode s = Some (- ENOENT, s')" "quiet s'"
      "resolve (fs_tree contents s) path = None" "fs_same contents s s'"
    | (created) s' key where "MakeDir kv env path mode s = Some (0, s')" "quiet s'"
      "resolve (fs_tree contents s) path = Some key"
      "fs_tree contents s' = (fs_tree contents s)
        (key \<mapsto> InitInodeValue (ce_sys env) (fs_fuse s) (ce_mem env) (max_inode_num (fs_state s) + 1)
                  (mode OR S_IFDIR) 0 (path_name path))" "fs_created s s'"
proof (cases rule: create_spec [OF assms(1-4), case_names new 1 2])
  case (new key)
  then show ?case
    by (rule assms(5))
next
  case (1 s1)
  then show thesis
    using no_parent [of s1] by (simp add: MakeDir_def)
next
  case (2 s1 s2 key)
  let ?v = "InitInodeValue (ce_sys env) (fs_fuse s) (ce_mem env) (max_inode_num (fs_state s) + 1) (mode OR S_IFDIR) 0 (path_name path)"
  have wf: "wf_inode ?v"
    using wf_new_inode [of "path_name path" "[]"] length_path_name [OF assms(2)] assms(3) by simp
  show thesis
    using created [OF _ 2(6) [OF wf] 2(4) 2(7) [OF wf] 2(8)] 2(1-3) 2(5) [OF wf]
    by (simp add: MakeDir_def put_inode_ok)
qed

lemma Symlink_spec:
  assumes "quiet s" "path \<noteq> []" "length path \<le> 4096"
    and "length (datadir (fs_state s)) \<le> 100"
    and "\<And>key. resolve (fs_tree contents s) path = Some key \<Longrightarrow> fs_tree contents s key = None"
    and target: "length target < 2 ^ 31"
  obtains (no_parent) s' where "Symlink kv env target path s = Some (- ENOENT, s')" "quiet s'"
      "resolve (fs_tree contents s) path = None" "fs_same contents s s'"
    | (created) s' key where "Symlink kv env target path s = Some (0, s')" "quiet s'"
      "resolve (fs_tree contents s) path = Some key"
      "fs_tree contents s' = (fs_tree contents s)
        (key \<mapsto> InitInodeValue (ce_sys env) (fs_fuse s) (ce_mem env) (max_inode_num (fs_state s) + 1)
                  S_IFLNK 0 (path_name path) @ target)" "fs_created s s'"
proof (cases rule: create_spec [OF assms(1-4), case_names new 1 2])
  case (new key)
  then show ?case
    by (rule assms(5))
next
  case (1 s1)
  then show thesis
    using no_parent [of s1] by (simp add: Symlink_def)
next
  case (2 s1 s2 key)
  let ?v = "InitInodeValue (ce_sys env) (fs_fuse s) (ce_mem env) (max_inode_num (fs_state s) + 1) S_IFLNK 0 (path_name path) @ target"
  have wf: "wf_inode ?v"
    using wf_new_inode [of "path_name path" target] length_path_name [OF assms(2)] assms(3) target by simp
  show thesis
    using created [OF _ 2(6) [OF wf] 2(4) 2(7) [OF wf] 2(8)] 2(1-3)
    by (simp add: Symlink_def)
qed

text \<open>Reading a link gives what is stored behind the name, cut to the buffer, and a NUL.\<close>

lemma Readlink_spec:
  assumes inv: "quiet s" and path: "path \<noteq> []" and len: "0 < len" "unat len < 2 ^ 63"
  obtains (missing) s' where "Readlink kv path len s = Some ((- ENOENT, None), s')" "quiet s'"
      "tree_lookup (fs_tree contents s) path = None" "fs_same contents s s'"
    | (found) s' key h name data where
      "Readlink kv path len s = Some ((0, Some (take (unat len - 1) data @ [0])), s')" "quiet s'"
      "tree_lookup (fs_tree contents s) path = Some (key, inode_value h name data)" "wf_header h name"
      "fs_same contents s s'" "GetInlineData (inode_value h name data) 0 (len - 1) = Some (take (unat len - 1) data)"
proof -
  let ?m = "fs_tree contents s"
  obtain s1 where s1: "PathLookup kv path s = Some (resolve ?m path, s1)" "quiet s1" "fs_same contents s s1"
    "resolve ?m path = None \<Longrightarrow> FSError s1 = - ENOENT"
    using PathLookup_spec [OF inv path] by blast
  show thesis
  proof (cases "resolve ?m path")
    case None
    then show thesis
      using missing [of s1] s1 by (simp add: Readlink_def tree_lookup_def)
  next
    case (Some key)
    let ?get = "kv_Get kv (ToSlice key) (fs_metadb s1)"
    have okdb: "ok (fs_metadb s1)"
      using ic_state_ok [OF fs_inv_icache [OF s1(2)]] by (simp add: fs_metadb_def)
    let ?s2 = "with_metadb (snd (snd ?get)) s1"
    have "ok (snd (snd ?get))" "contents (snd (snd ?get)) = contents (fs_metadb s1)"
      using get_state [OF okdb, of "ToSlice key"] by simp_all
    note s2 = with_metadb_same [OF s1(2) this]
    have same2: "fs_same contents s ?s2"
      by (rule fs_same_trans [OF s1(3) s2(2)])
    have m: "contents (fs_metadb s1) (ToSlice key) = ?m key"
      using fs_same_tree [OF s1(3)] by (simp add: fs_tree_def fun_eq_iff)
    show thesis
    proof (cases "?m key")
      case None
      then have "fst ?get \<le> 0"
        using get_miss [OF okdb] m by simp
      then show thesis
        using missing [of "set_errno ENOENT ?s2"] s1(1) s2(1) same2 Some None
        by (cases ?get) (simp add: Readlink_def tree_lookup_def)
    next
      case v: (Some v)
      obtain h name data where v': "v = inode_value h name data" "wf_header h name" "length name \<le> 4096"
          "length data < 2 ^ 31"
        using fs_inv_wf [OF inv v] by (rule wf_inodeE)
      have "fst ?get = 1 \<and> fst (snd ?get) = v"
        using get_hit [OF okdb, of "ToSlice key" v] m v by simp
      moreover have "unat (len - 1) = unat len - 1"
        using len(1) by (simp add: unat_minus_one word_greater_zero_iff)
      then have "GetInlineData v 0 (len - 1) = Some (take (unat len - 1) data)"
        using GetInlineData_value [OF v'(2), of 0 "len - 1" data] v' len by simp
      ultimately show thesis
        using found [of data ?s2 key h name] s1(1) s2(1) same2 Some v v'
        by (cases ?get) (auto simp: Readlink_def tree_lookup_def)
    qed
  qed
qed

section \<open>Renaming\<close>

lemma with_icache_move:
  assumes inv: "quiet s" and ic: "ic_state kv contents ok n {} Map.empty ic"
    and upd: "contents (ic_metadb ic) = (contents (ic_metadb (fs_icache s)))(ToSlice k1 := None, ToSlice k2 \<mapsto> v)"
    and v: "wf_inode v"
  shows "quiet (evict_dentry k2 (evict_dentry k1 (with_icache ic s)))"
    and "fs_tree contents (evict_dentry k2 (evict_dentry k1 (with_icache ic s))) = (fs_tree contents s)(k1 := None, k2 \<mapsto> v)"
proof -
  let ?s = "evict_dentry k2 (evict_dentry k1 (with_icache ic s))"
  let ?m = "(fs_tree contents s)(k1 := None, k2 \<mapsto> v)"
  show tree: "fs_tree contents ?s = ?m"
    using upd by (auto simp: fs_tree_def fs_metadb_def fun_eq_iff)
  have one: "dc_inv (DentryCache_Evict k1 (fs_dcache s))"
      "dc_view (DentryCache_Evict k1 (fs_dcache s)) \<subseteq>\<^sub>m tree_ino ((fs_tree contents s)(k1 := None))"
    using dc.evict_view [OF fs_inv_dcache [OF inv], of k1]
    by (simp, intro dc.evict_sound [OF fs_inv_dcache [OF inv] fs_inv_view [OF inv]]) (simp add: tree_ino_def)
  have "dc_view (DentryCache_Evict k2 (DentryCache_Evict k1 (fs_dcache s))) \<subseteq>\<^sub>m tree_ino ?m"
    by (rule dc.evict_sound [OF one]) (simp add: tree_ino_def)
  then have "fs_inv kv contents ok n Map.empty ?s"
    using inv ic v dc.evict_view [OF one(1), of k2] unfolding fs_inv_def tree by (auto simp: evict_dentry_def)
  then show "quiet ?s"
    by (rule quietI)
qed

lemma InodeCache_rename:
  assumes st: "ic_state kv contents ok 0 {} Map.empty c" and v: "contents (ic_metadb c) (ToSlice old_key) = Some v"
    and small: "length v < 2 ^ 32" "length v' < 2 ^ 32" and ne: "old_key \<noteq> new_key"
  obtains p1 p2 c0 c1 c2 c3 c4 c5 where "InodeCache_Get kv old_key INODE_DELETE c = Some (Some p1, c0)"
    "ic_handle p1 c0 = Some \<lparr>ih_key = old_key, ih_value = v, ih_mode = INODE_DELETE\<rparr>"
    "InodeCache_Insert kv new_key v' c0 = Some (p2, c1)" "InodeCache_BatchCommit kv p1 p2 c1 = Some c2"
    "InodeCache_Release p2 c2 = Some c3" "InodeCache_Release p1 c3 = Some c4" "InodeCache_Evict old_key c4 = Some c5"
    "ic_state kv contents ok 2 {} Map.empty c5"
    "contents (ic_metadb c5) = (contents (ic_metadb c))(ToSlice old_key := None, ToSlice new_key \<mapsto> v')"
proof -
  let ?old = "\<lparr>ih_key = old_key, ih_value = v, ih_mode = INODE_DELETE\<rparr>"
  let ?new = "\<lparr>ih_key = new_key, ih_value = v', ih_mode = INODE_WRITE\<rparr>"
  obtain p1 c0 where c0: "InodeCache_Get kv old_key INODE_DELETE c = Some (Some p1, c0)"
    "ic_state kv contents ok (Suc 0) {} [p1 \<mapsto> ?old] c0" "contents (ic_metadb c0) = contents (ic_metadb c)"
    using InodeCache_Get_hit [OF st, of old_key v INODE_DELETE] v small(1) by auto
  obtain p2 c1 where c1: "cache_insert kv ?new c0 = Some (p2, c1)" "[p1 \<mapsto> ?old] p2 = None"
    "ic_state kv contents ok (Suc (Suc 0)) {} [p1 \<mapsto> ?old, p2 \<mapsto> ?new] c1" "ic_metadb c1 = ic_metadb c0"
  proof (rule cache_insert_state [OF c0(2), of ?new])
    show "ih_key g \<noteq> ih_key ?new" if "[p1 \<mapsto> ?old] p = Some g" for p g
      using that ne by (auto split: if_splits)
  qed (use small in auto)
  have p: "p1 \<noteq> p2"
    using c1(2) by auto
  let ?held = "[p1 \<mapsto> ?old, p2 \<mapsto> ?new]"
  obtain c2 c3 c4 c5 where "InodeCache_BatchCommit kv p1 p2 c1 = Some c2" "InodeCache_Release p2 c2 = Some c3"
    "InodeCache_Release p1 c3 = Some c4" "InodeCache_Evict (ih_key ?old) c4 = Some c5"
    "ic_state kv contents ok (Suc (Suc 0)) {} (?held(p1 := None, p2 := None)) c5"
    "contents (ic_metadb c5) = (contents (ic_metadb c1))(ToSlice (ih_key ?old) := None, ToSlice (ih_key ?new) \<mapsto> ih_value ?new)"
    by (rule InodeCache_rename_commit [OF c1(3), of p1 ?old p2 ?new]) (use p ne in auto)
  moreover have "?held(p1 := None, p2 := None) = Map.empty"
    by (auto simp: fun_eq_iff)
  ultimately show thesis
    using that [of p1 c0 p2 c1 c2 c3 c4 c5] c0 c1 ic_state_handle [OF c0(2), of p1]
    by (simp add: InodeCache_Insert_def numeral_2_eq_2)
qed

lemma Rename_spec:
  assumes inv: "quiet s" and paths: "old_path \<noteq> []" "new_path \<noteq> []" "length new_path \<le> 4096"
    and differ: "resolve (fs_tree contents s) old_path \<noteq> resolve (fs_tree contents s) new_path"
  obtains (missing) s' where "Rename kv old_path new_path s = Some (- ENOENT, s')" "quiet s'" "fs_same contents s s'"
      "tree_lookup (fs_tree contents s) old_path = None \<or> resolve (fs_tree contents s) new_path = None"
    | (moved) s' old_key new_key v v' where "Rename kv old_path new_path s = Some (0, s')" "quiet s'" "fs_frame s s'"
      "tree_lookup (fs_tree contents s) old_path = Some (old_key, v)" "resolve (fs_tree contents s) new_path = Some new_key"
      "InitInodeValue_renamed v (path_name new_path) = Some v'"
      "fs_tree contents s' = (fs_tree contents s)(old_key := None, new_key \<mapsto> v')"
proof -
  let ?m = "fs_tree contents s"
  obtain s1 where s1: "PathLookup kv old_path s = Some (resolve ?m old_path, s1)" "quiet s1" "fs_same contents s s1"
    "resolve ?m old_path = None \<Longrightarrow> FSError s1 = - ENOENT"
    using PathLookup_spec [OF inv paths(1)] by blast
  show thesis
  proof (cases "resolve ?m old_path")
    case None
    then show thesis
      using missing [of s1] s1 by (simp add: Rename_def tree_lookup_def)
  next
    case old: (Some old_key)
    obtain s2 where s2: "PathLookup_name kv new_path s1 =
        Some (map_option (\<lambda>key. (key, path_name new_path)) (resolve ?m new_path), s2)" "quiet s2" "fs_same contents s1 s2"
      "resolve ?m new_path = None \<Longrightarrow> FSError s2 = - ENOENT"
      using PathLookup_name_spec [OF s1(2) paths(2)] fs_same_tree [OF s1(3)] by metis
    have same2: "fs_same contents s s2"
      by (rule fs_same_trans [OF s1(3) s2(3)])
    have m2: "contents (ic_metadb (fs_icache s2)) (ToSlice key) = ?m key" for key
      using fs_same_tree [OF same2] by (simp add: fs_tree_def fs_metadb_def fun_eq_iff)
    show thesis
    proof (cases "resolve ?m new_path")
      case None
      then show thesis
        using missing [of s2] s1 s2 same2 old by (simp add: Rename_def)
    next
      case new: (Some new_key)
      have ne: "old_key \<noteq> new_key"
        using differ old new by auto
      note st = fs_inv_icache [OF s2(2)]
      show thesis
      proof (cases "?m old_key")
        case None
        obtain ic where ic: "InodeCache_Get kv old_key INODE_DELETE (fs_icache s2) = Some (None, ic)"
          "ic_state kv contents ok 0 {} Map.empty ic" "contents (ic_metadb ic) = contents (ic_metadb (fs_icache s2))"
          using InodeCache_Get_miss [OF st refl, of old_key INODE_DELETE] m2 None by auto
        show thesis
          using missing [of "with_icache ic s2"] s1(1) s2(1) ic(1) old new None with_icache_same [OF s2(2) ic(2,3)]
            fs_same_trans [OF same2] by (simp add: Rename_def tree_lookup_def)
      next
        case v: (Some v)
        obtain h name data where v': "v = inode_value h name data" "wf_header h name" "length name \<le> 4096"
            "length data < 2 ^ 31"
          using fs_inv_wf [OF inv v] by (rule wf_inodeE)
        let ?name = "path_name new_path"
        let ?h = "h\<lparr>namelen := of_nat (length ?name)\<rparr>"
        let ?v = "inode_value ?h ?name data"
        have len: "length ?name \<le> 4096"
          using length_path_name [OF paths(2)] paths(3) by simp
        have renamed: "InitInodeValue_renamed v ?name = Some ?v"
          using InitInodeValue_renamed_value [OF v'(2), of ?name data] v' len by simp
        have wf: "wf_inode ?v"
          using v' len by (intro wf_inodeI) (auto simp: wf_header_def unat_of_nat take_bit_nat_eq_self)
        obtain p1 p2 c0 c1 c2 c3 c4 c5 where c: "InodeCache_Get kv old_key INODE_DELETE (fs_icache s2) = Some (Some p1, c0)"
          "ic_handle p1 c0 = Some \<lparr>ih_key = old_key, ih_value = v, ih_mode = INODE_DELETE\<rparr>"
          "InodeCache_Insert kv new_key ?v c0 = Some (p2, c1)" "InodeCache_BatchCommit kv p1 p2 c1 = Some c2"
          "InodeCache_Release p2 c2 = Some c3" "InodeCache_Release p1 c3 = Some c4" "InodeCache_Evict old_key c4 = Some c5"
          "ic_state kv contents ok 2 {} Map.empty c5"
          "contents (ic_metadb c5) = (contents (ic_metadb (fs_icache s2)))(ToSlice old_key := None, ToSlice new_key \<mapsto> ?v)"
        proof (rule InodeCache_rename [OF st, of old_key v ?v new_key])
        qed (use m2 v ne wf_inode_small [OF wf] wf_inode_small [OF fs_inv_wf [OF inv v]] that in simp_all)
        note s' = with_icache_move [OF s2(2) c(8,9) wf]
        show thesis
          using moved [OF _ s'(1)] s1(1) s2(1) c(1-7) old new v renamed s'(2) fs_same_frame [OF same2] fs_same_tree [OF same2]
          by (simp add: Rename_def tree_lookup_def)
      qed
    qed
  qed
qed

end

end
