(* ===== verification/Tablefs_Main.thy ===== *)
theory Tablefs_Main
  imports Tablefs_Meta
begin

text \<open>
  The program, \<open>tablefs_main.cpp\<close>: the options, the set-up, and the table of functions that hands every
  request of FUSE to a handler.  FUSE itself is not modelled; a run is a sequence of requests, one at a
  time (the program passes \<open>-s\<close>).

  The abstract file system is a map from keys to inodes with a counter of inode numbers and has no
  cache, no store and no path lookup of its own.  It answers every sequence of metadata requests as the
  program does.
\<close>

section \<open>Requests\<close>

datatype request =
    ReqGetattr bytes
  | ReqReadlink bytes u64
  | ReqMknod bytes u32 u64
  | ReqMkdir bytes u32
  | ReqUnlink bytes
  | ReqRmdir bytes
  | ReqSymlink bytes bytes
  | ReqRename bytes bytes
  | ReqChmod bytes u32
  | ReqChown bytes u32 u32
  | ReqTruncate bytes u64
  | ReqOpen bytes u32
  | ReqRead nat u64 u64
  | ReqWrite nat u32 bytes u64
  | ReqRelease nat
  | ReqOpendir bytes
  | ReqReaddir cache_ptr "bytes list \<Rightarrow> bytes \<Rightarrow> int"
  | ReqReleasedir cache_ptr
  | ReqAccess bytes int
  | ReqUtimens bytes "(u64 \<times> u64) \<times> (u64 \<times> u64)"

datatype payload =
    NoData
  | StatData tfs_stat_t
  | BytesData bytes
  | FileData nat
  | DirData cache_ptr
  | NamesData "bytes list"

type_synonym reply = "int \<times> payload"

definition reply_int :: "(int \<times> 's) option \<Rightarrow> (reply \<times> 's) option" where
  "reply_int r = map_option (\<lambda>(ret, s). ((ret, NoData), s)) r"

definition reply_opt :: "('a \<Rightarrow> payload) \<Rightarrow> ((int \<times> 'a option) \<times> 's) option \<Rightarrow> (reply \<times> 's) option" where
  "reply_opt f r = map_option (\<lambda>((ret, x), s). ((ret, case x of None \<Rightarrow> NoData | Some y \<Rightarrow> f y), s)) r"

definition dispatch :: "'db KvWrapper \<Rightarrow> call_env \<Rightarrow> request \<Rightarrow> 'db TableFS \<Rightarrow> (reply \<times> 'db TableFS) option" where
  "dispatch kv env req s =
     (case req of
        ReqGetattr path \<Rightarrow> reply_opt StatData (GetAttr kv path s)
      | ReqReadlink path len \<Rightarrow> reply_opt BytesData (Readlink kv path len s)
      | ReqMknod path mode dev \<Rightarrow> reply_int (MakeNode kv env path mode dev s)
      | ReqMkdir path mode \<Rightarrow> reply_int (MakeDir kv env path mode s)
      | ReqUnlink path \<Rightarrow> reply_int (Unlink kv path s)
      | ReqRmdir path \<Rightarrow> reply_int (RemoveDir kv path s)
      | ReqSymlink target path \<Rightarrow> reply_int (Symlink kv env target path s)
      | ReqRename path newpath \<Rightarrow> reply_int (Rename kv path newpath s)
      | ReqChmod path mode \<Rightarrow> reply_int (Chmod kv path mode s)
      | ReqChown path uid gid \<Rightarrow> reply_int (Chown kv path uid gid s)
      | ReqTruncate path newSize \<Rightarrow> reply_int (Truncate kv env path newSize s)
      | ReqOpen path flags \<Rightarrow> reply_opt FileData (Open kv path flags s)
      | ReqRead fh len offset \<Rightarrow> map_option (\<lambda>((ret, buf), s'). ((ret, BytesData buf), s')) (Read len offset fh s)
      | ReqWrite fh flags buf offset \<Rightarrow> reply_int (Write buf offset flags fh s)
      | ReqRelease fh \<Rightarrow> reply_int (Release kv env fh s)
      | ReqOpendir path \<Rightarrow> reply_opt DirData (OpenDir kv path s)
      | ReqReaddir fh filler \<Rightarrow> map_option (\<lambda>((ret, names), s'). ((ret, NamesData names), s')) (ReadDir kv filler fh s)
      | ReqReleasedir fh \<Rightarrow> reply_int (ReleaseDir fh s)
      | ReqAccess path amode \<Rightarrow> reply_int (Some (Access path amode s))
      | ReqUtimens path tv \<Rightarrow> reply_int (UpdateTimens kv path tv s))"

primrec run :: "'db KvWrapper \<Rightarrow> (call_env \<times> request) list \<Rightarrow> 'db TableFS \<Rightarrow> (reply list \<times> 'db TableFS) option" where
  "run kv [] s = Some ([], s)"
| "run kv (r # rs) s =
     do {
       (reply, s1) \<leftarrow> dispatch kv (fst r) (snd r) s;
       (replies, s2) \<leftarrow> run kv rs s1;
       Some (reply # replies, s2)
     }"

text \<open>
  \<open>main\<close> up to \<open>fuse_main\<close>: the options, the state, and the mount point, which \<open>strcpy\<close> copies into an
  array of 100 bytes.  As for every array of fixed size, \<open>None\<close> is an overrun, after which the behaviour of
  the program is undefined.
\<close>

definition main_setup :: "setup_env \<Rightarrow> bytes list \<Rightarrow> Posix \<Rightarrow> (FileSystemState \<times> bytes list \<times> Posix) option" where
  "main_setup env argv px =
     do {
       prop \<leftarrow> parseOpts argv Properties_new;
       (st, px1) \<leftarrow> Setup env prop px;
       mount \<leftarrow> sprintf_buf 100 (getProperty (cstr ''mountdir'') prop);
       Some (st, [hd argv, mount, cstr ''-s''], px1)
     }"

section \<open>The abstract file system\<close>

type_synonym abs_fs = "tree \<times> u64"

definition abs_getattr :: "bytes \<Rightarrow> abs_fs \<Rightarrow> reply \<times> abs_fs" where
  "abs_getattr path a =
     (case tree_lookup (fst a) path of
        None \<Rightarrow> ((- ENOENT, NoData), a)
      | Some (key, v) \<Rightarrow> ((0, case GetAttribute v of None \<Rightarrow> NoData | Some st \<Rightarrow> StatData st), a))"

definition abs_readlink :: "bytes \<Rightarrow> u64 \<Rightarrow> abs_fs \<Rightarrow> reply \<times> abs_fs" where
  "abs_readlink path len a =
     (case tree_lookup (fst a) path of
        None \<Rightarrow> ((- ENOENT, NoData), a)
      | Some (key, v) \<Rightarrow>
          ((0, case GetInlineData v 0 (len - 1) of None \<Rightarrow> NoData | Some data \<Rightarrow> BytesData (data @ [0])), a))"

definition abs_update :: "bytes \<Rightarrow> (tfs_stat_t \<Rightarrow> tfs_stat_t) \<Rightarrow> abs_fs \<Rightarrow> reply \<times> abs_fs" where
  "abs_update path change a =
     (case tree_lookup (fst a) path of
        None \<Rightarrow> ((- ENOENT, NoData), a)
      | Some (key, v) \<Rightarrow>
          ((0, NoData), ((fst a)(key \<mapsto> UpdateAttribute v (change (the (GetAttribute v)))), snd a)))"

definition abs_create :: "bytes \<Rightarrow> (u64 \<Rightarrow> bytes \<Rightarrow> bytes) \<Rightarrow> abs_fs \<Rightarrow> reply \<times> abs_fs" where
  "abs_create path new_value a =
     (case resolve (fst a) path of
        None \<Rightarrow> ((- ENOENT, NoData), a)
      | Some key \<Rightarrow> ((0, NoData), ((fst a)(key \<mapsto> new_value (snd a + 1) (path_name path)), snd a + 1)))"

definition abs_remove :: "bytes \<Rightarrow> abs_fs \<Rightarrow> reply \<times> abs_fs" where
  "abs_remove path a =
     (case tree_lookup (fst a) path of
        None \<Rightarrow> ((- ENOENT, NoData), a)
      | Some (key, v) \<Rightarrow> ((0, NoData), ((fst a)(key := None), snd a)))"

definition abs_rename :: "bytes \<Rightarrow> bytes \<Rightarrow> abs_fs \<Rightarrow> reply \<times> abs_fs" where
  "abs_rename old_path new_path a =
     (case tree_lookup (fst a) old_path of
        None \<Rightarrow> ((- ENOENT, NoData), a)
      | Some (old_key, v) \<Rightarrow>
          (case resolve (fst a) new_path of
             None \<Rightarrow> ((- ENOENT, NoData), a)
           | Some new_key \<Rightarrow>
               ((0, NoData),
                ((fst a)(old_key := None, new_key := InitInodeValue_renamed v (path_name new_path)), snd a))))"

fun abs_step :: "bool \<Rightarrow> call_env \<Rightarrow> request \<Rightarrow> abs_fs \<Rightarrow> reply \<times> abs_fs" where
  "abs_step fuse env (ReqGetattr path) a = abs_getattr path a"
| "abs_step fuse env (ReqReadlink path len) a = abs_readlink path len a"
| "abs_step fuse env (ReqMknod path mode dev) a =
     abs_create path (\<lambda>ino. InitInodeValue (ce_sys env) fuse (ce_mem env) ino (mode OR S_IFREG) dev) a"
| "abs_step fuse env (ReqMkdir path mode) a =
     abs_create path (\<lambda>ino. InitInodeValue (ce_sys env) fuse (ce_mem env) ino (mode OR S_IFDIR) 0) a"
| "abs_step fuse env (ReqSymlink target path) a =
     abs_create path (\<lambda>ino name. InitInodeValue (ce_sys env) fuse (ce_mem env) ino S_IFLNK 0 name @ target) a"
| "abs_step fuse env (ReqUnlink path) a = abs_remove path a"
| "abs_step fuse env (ReqRmdir path) a = abs_remove path a"
| "abs_step fuse env (ReqRename path newpath) a = abs_rename path newpath a"
| "abs_step fuse env (ReqChmod path mode) a = abs_update path (\<lambda>st. st\<lparr>st_mode := mode\<rparr>) a"
| "abs_step fuse env (ReqChown path uid gid) a = abs_update path (\<lambda>st. st\<lparr>st_uid := uid, st_gid := gid\<rparr>) a"
| "abs_step fuse env (ReqUtimens path tv) a =
     abs_update path
       (\<lambda>st. st\<lparr>st_atim_sec := fst (fst tv), st_atim_nsec := snd (fst tv),
               st_mtim_sec := fst (snd tv), st_mtim_nsec := snd (snd tv)\<rparr>) a"
| "abs_step fuse env req a = ((0, NoData), a)"

text \<open>
  The requests the abstract file system answers: those on metadata, with paths FUSE sends.  A name is
  created only where there is none, and a file is not renamed onto itself, which the kernel ensures.
\<close>

definition good_path :: "bytes \<Rightarrow> bool" where
  "good_path path \<longleftrightarrow> path \<noteq> [] \<and> length path \<le> 4096"

definition free_name :: "tree \<Rightarrow> bytes \<Rightarrow> bool" where
  "free_name m path \<longleftrightarrow> (case resolve m path of None \<Rightarrow> True | Some key \<Rightarrow> m key = None)"

fun allowed :: "request \<Rightarrow> tree \<Rightarrow> bool" where
  "allowed (ReqGetattr path) m \<longleftrightarrow> good_path path"
| "allowed (ReqReadlink path len) m \<longleftrightarrow> good_path path \<and> 0 < len \<and> unat len < 2 ^ 63"
| "allowed (ReqMknod path mode dev) m \<longleftrightarrow> good_path path \<and> free_name m path"
| "allowed (ReqMkdir path mode) m \<longleftrightarrow> good_path path \<and> free_name m path"
| "allowed (ReqSymlink target path) m \<longleftrightarrow> good_path path \<and> free_name m path \<and> length target < 2 ^ 31"
| "allowed (ReqUnlink path) m \<longleftrightarrow> good_path path"
| "allowed (ReqRmdir path) m \<longleftrightarrow> good_path path"
| "allowed (ReqRename path newpath) m \<longleftrightarrow> good_path path \<and> good_path newpath \<and> resolve m path \<noteq> resolve m newpath"
| "allowed (ReqChmod path mode) m \<longleftrightarrow> good_path path"
| "allowed (ReqChown path uid gid) m \<longleftrightarrow> good_path path"
| "allowed (ReqUtimens path tv) m \<longleftrightarrow> good_path path"
| "allowed (ReqAccess path amode) m \<longleftrightarrow> True"
| "allowed req m \<longleftrightarrow> False"

primrec abs_run :: "bool \<Rightarrow> (call_env \<times> request) list \<Rightarrow> abs_fs \<Rightarrow> reply list \<times> abs_fs" where
  "abs_run fuse [] a = ([], a)"
| "abs_run fuse (r # rs) a =
     (let (reply, a1) = abs_step fuse (fst r) (snd r) a; (replies, a2) = abs_run fuse rs a1 in (reply # replies, a2))"

primrec allowed_run :: "bool \<Rightarrow> (call_env \<times> request) list \<Rightarrow> abs_fs \<Rightarrow> bool" where
  "allowed_run fuse [] a \<longleftrightarrow> True"
| "allowed_run fuse (r # rs) a \<longleftrightarrow>
     allowed (snd r) (fst a) \<and> allowed_run fuse rs (snd (abs_step fuse (fst r) (snd r) a))"

section \<open>Simulation\<close>

definition abs_rel ::
  "'db KvWrapper \<Rightarrow> ('db \<Rightarrow> bytes \<Rightarrow> bytes option) \<Rightarrow> ('db \<Rightarrow> bool) \<Rightarrow> bool \<Rightarrow> 'db TableFS \<Rightarrow> abs_fs \<Rightarrow> bool" where
  "abs_rel kv contents ok fuse s a \<longleftrightarrow>
     fs_inv kv contents ok 0 Map.empty s \<and> fs_tree contents s = fst a \<and> max_inode_num (fs_state s) = snd a \<and>
     fs_fuse s = fuse \<and> length (datadir (fs_state s)) \<le> 100"

lemma abs_relD:
  assumes "abs_rel kv contents ok fuse s a"
  shows abs_rel_inv: "fs_inv kv contents ok 0 Map.empty s" and abs_rel_tree: "fs_tree contents s = fst a"
    and abs_rel_count: "max_inode_num (fs_state s) = snd a" and abs_rel_fuse: "fs_fuse s = fuse"
    and abs_rel_room: "length (datadir (fs_state s)) \<le> 100"
  using assms by (simp_all add: abs_rel_def)

lemma abs_rel_frame:
  assumes "abs_rel kv contents ok fuse s a" "fs_inv kv contents ok 0 Map.empty s'" "fs_frame s s'"
    "fs_tree contents s' = m"
  shows "abs_rel kv contents ok fuse s' (m, snd a)"
  using assms by (simp add: abs_rel_def fs_frame_def)

lemma abs_rel_same:
  "abs_rel kv contents ok fuse s a \<Longrightarrow> fs_inv kv contents ok 0 Map.empty s' \<Longrightarrow> fs_same contents s s' \<Longrightarrow>
    abs_rel kv contents ok fuse s' a"
  by (simp add: abs_rel_def fs_same_def fs_frame_def)

lemma abs_rel_created:
  assumes "abs_rel kv contents ok fuse s a" "fs_inv kv contents ok 0 Map.empty s'" "fs_created s s'"
    "fs_tree contents s' = m"
  shows "abs_rel kv contents ok fuse s' (m, snd a + 1)"
  using assms by (simp add: abs_rel_def fs_created_def)

text \<open>The state after \<open>Init\<close>.\<close>

abbreviation mounted :: "bool \<Rightarrow> FileSystemState \<Rightarrow> 'db \<Rightarrow> Posix \<Rightarrow> 'db TableFS" where
  "mounted conn st db px \<equiv>
     \<lparr>fs_state = st, fs_icache = InodeCache_new db, fs_dcache = DentryCache_new 16384, fs_fuse = conn,
      fs_px = px, fs_fhs = Map.empty, fs_next_fh = 0\<rparr>"

context kv_store
begin

abbreviation sim :: "bool \<Rightarrow> call_env \<Rightarrow> request \<Rightarrow> 'db TableFS \<Rightarrow> abs_fs \<Rightarrow> bool" where
  "sim fuse env req s a \<equiv>
     \<exists>s'. dispatch kv env req s = Some (fst (abs_step fuse env req a), s') \<and>
       abs_rel kv contents ok fuse s' (snd (abs_step fuse env req a))"

lemma sim_getattr:
  assumes rel: "abs_rel kv contents ok fuse s a" and path: "good_path path"
  shows "sim fuse env (ReqGetattr path) s a"
proof (cases rule: GetAttr_spec [OF abs_rel_inv [OF rel], of path, case_names path got])
  case path
  then show ?case
    using assms(2) by (simp add: good_path_def)
next
  case (got s')
  then show ?thesis
    using abs_rel_same [OF rel got(2,3)]
    by (auto simp: dispatch_def reply_opt_def abs_getattr_def abs_rel_tree [OF rel] split: option.splits)
qed

lemma sim_update:
  assumes rel: "abs_rel kv contents ok fuse s a" and path: "good_path path"
    and ino: "\<And>st. st_ino (change st) = st_ino st"
  shows "\<exists>s'. reply_int (update_attribute kv path change s) = Some (fst (abs_update path change a), s') \<and>
    abs_rel kv contents ok fuse s' (snd (abs_update path change a))"
proof (cases rule: update_attribute_spec [OF abs_rel_inv [OF rel], of path change, case_names path ino missing found])
  case path
  then show ?case
    using assms(2) by (simp add: good_path_def)
next
  case (ino st)
  then show ?case
    by (rule assms(3))
next
  case (missing s')
  then show ?thesis
    using abs_rel_same [OF rel missing(2,4)] abs_rel_tree [OF rel] by (simp add: reply_int_def abs_update_def)
next
  case (found s' key v st)
  then show ?thesis
    using abs_rel_frame [OF rel found(2,6)] abs_rel_tree [OF rel] by (simp add: reply_int_def abs_update_def)
qed

lemma sim_readlink:
  assumes rel: "abs_rel kv contents ok fuse s a" and "good_path path" "0 < len" "unat len < 2 ^ 63"
  shows "sim fuse env (ReqReadlink path len) s a"
proof (cases rule: Readlink_spec [OF abs_rel_inv [OF rel], of path len, case_names path len1 len2 missing found])
  case (missing s')
  then show ?thesis
    using abs_rel_same [OF rel missing(2,4)] abs_rel_tree [OF rel]
    by (simp add: dispatch_def reply_opt_def abs_readlink_def)
next
  case (found s' key h name data)
  then show ?thesis
    using abs_rel_same [OF rel found(2,5)] abs_rel_tree [OF rel]
    by (simp add: dispatch_def reply_opt_def abs_readlink_def)
qed (use assms in \<open>simp_all add: good_path_def\<close>)

lemma sim_mknod:
  assumes rel: "abs_rel kv contents ok fuse s a" and path: "good_path path" "free_name (fst a) path"
  shows "sim fuse env (ReqMknod path mode dev) s a"
proof (cases rule: MakeNode_spec [OF abs_rel_inv [OF rel], of path env mode dev, case_names path len room new no_parent created])
  case (no_parent s')
  then show ?thesis
    using abs_rel_same [OF rel no_parent(2,4)] abs_rel_tree [OF rel]
    by (simp add: dispatch_def reply_int_def abs_create_def)
next
  case (created s' key)
  then show ?thesis
    using abs_rel_created [OF rel created(2,5)] abs_relD [OF rel]
    by (simp add: dispatch_def reply_int_def abs_create_def)
qed (use assms abs_relD [OF rel] in \<open>simp_all add: good_path_def free_name_def\<close>)

lemma sim_mkdir:
  assumes rel: "abs_rel kv contents ok fuse s a" and path: "good_path path" "free_name (fst a) path"
  shows "sim fuse env (ReqMkdir path mode) s a"
proof (cases rule: MakeDir_spec [OF abs_rel_inv [OF rel], of path env mode, case_names path len room new no_parent created])
  case (no_parent s')
  then show ?thesis
    using abs_rel_same [OF rel no_parent(2,4)] abs_rel_tree [OF rel]
    by (simp add: dispatch_def reply_int_def abs_create_def)
next
  case (created s' key)
  then show ?thesis
    using abs_rel_created [OF rel created(2,5)] abs_relD [OF rel]
    by (simp add: dispatch_def reply_int_def abs_create_def)
qed (use assms abs_relD [OF rel] in \<open>simp_all add: good_path_def free_name_def\<close>)

lemma sim_symlink:
  assumes rel: "abs_rel kv contents ok fuse s a" and path: "good_path path" "free_name (fst a) path" "length target < 2 ^ 31"
  shows "sim fuse env (ReqSymlink target path) s a"
proof (cases rule: Symlink_spec [OF abs_rel_inv [OF rel], of path target env, case_names path len room new target no_parent created])
  case (no_parent s')
  then show ?thesis
    using abs_rel_same [OF rel no_parent(2,4)] abs_rel_tree [OF rel]
    by (simp add: dispatch_def reply_int_def abs_create_def)
next
  case (created s' key)
  then show ?thesis
    using abs_rel_created [OF rel created(2,5)] abs_relD [OF rel]
    by (simp add: dispatch_def reply_int_def abs_create_def)
qed (use assms abs_relD [OF rel] in \<open>simp_all add: good_path_def free_name_def\<close>)

lemma sim_unlink:
  assumes rel: "abs_rel kv contents ok fuse s a" and path: "good_path path"
  shows "sim fuse env (ReqUnlink path) s a"
proof (cases rule: Unlink_spec [OF abs_rel_inv [OF rel], of path, case_names path room missing found])
  case (missing s')
  then show ?thesis
    using abs_rel_same [OF rel missing(2,4)] abs_rel_tree [OF rel]
    by (simp add: dispatch_def reply_int_def abs_remove_def)
next
  case (found s' key v st fpath)
  have "abs_rel kv contents ok fuse s' ((fst a)(key := None), snd a)"
    using found(2,6,7) abs_relD [OF rel] by (simp add: abs_rel_def fs_frame_def split: if_splits)
  then show ?thesis
    using found abs_rel_tree [OF rel] by (simp add: dispatch_def reply_int_def abs_remove_def)
qed (use assms abs_relD [OF rel] in \<open>simp_all add: good_path_def\<close>)

lemma sim_rmdir:
  assumes rel: "abs_rel kv contents ok fuse s a" and path: "good_path path"
  shows "sim fuse env (ReqRmdir path) s a"
proof (cases rule: RemoveDir_spec [OF abs_rel_inv [OF rel], of path, case_names path missing found])
  case (missing s')
  then show ?thesis
    using abs_rel_same [OF rel missing(2,4)] abs_rel_tree [OF rel]
    by (simp add: dispatch_def reply_int_def abs_remove_def)
next
  case (found s' key v)
  then show ?thesis
    using abs_rel_frame [OF rel found(2,5,4)] abs_rel_tree [OF rel]
    by (simp add: dispatch_def reply_int_def abs_remove_def)
qed (use assms in \<open>simp_all add: good_path_def\<close>)

lemma sim_rename:
  assumes rel: "abs_rel kv contents ok fuse s a" and path: "good_path path" "good_path newpath"
    and differ: "resolve (fst a) path \<noteq> resolve (fst a) newpath"
  shows "sim fuse env (ReqRename path newpath) s a"
proof (cases rule: Rename_spec [OF abs_rel_inv [OF rel], of path newpath, case_names path path' len differ missing moved])
  case (missing s')
  then show ?thesis
    using abs_rel_same [OF rel missing(2,3)] abs_rel_tree [OF rel]
    by (auto simp: dispatch_def reply_int_def abs_rename_def split: option.splits)
next
  case (moved s' old_key new_key v v')
  then show ?thesis
    using abs_rel_frame [OF rel moved(2,3)] abs_rel_tree [OF rel]
    by (simp add: dispatch_def reply_int_def abs_rename_def)
qed (use assms abs_relD [OF rel] in \<open>simp_all add: good_path_def\<close>)

theorem dispatch_simulates:
  assumes rel: "abs_rel kv contents ok fuse s a" and "allowed req (fst a)"
  shows "sim fuse env req s a"
  using assms(2)
proof (cases req)
  case (ReqAccess path amode)
  then show ?thesis
    using rel by (simp add: dispatch_def reply_int_def Access_def)
next
  case (ReqChmod path mode)
  then show ?thesis
    using assms(2) sim_update [OF rel, of path "\<lambda>st. st\<lparr>st_mode := mode\<rparr>"] by (simp add: dispatch_def Chmod_def)
next
  case (ReqChown path uid gid)
  then show ?thesis
    using assms(2) sim_update [OF rel, of path "\<lambda>st. st\<lparr>st_uid := uid, st_gid := gid\<rparr>"]
    by (simp add: dispatch_def Chown_def)
next
  case (ReqUtimens path tv)
  then show ?thesis
    using assms(2) sim_update [OF rel, of path "\<lambda>st. st\<lparr>st_atim_sec := fst (fst tv), st_atim_nsec := snd (fst tv),
               st_mtim_sec := fst (snd tv), st_mtim_nsec := snd (snd tv)\<rparr>"]
    by (simp add: dispatch_def UpdateTimens_def)
qed (use rel sim_getattr sim_readlink sim_mknod sim_mkdir sim_symlink sim_unlink sim_rmdir sim_rename in simp_all)

theorem run_simulates:
  assumes "abs_rel kv contents ok fuse s a" "allowed_run fuse rs a"
  shows "\<exists>s'. run kv rs s = Some (fst (abs_run fuse rs a), s') \<and>
    abs_rel kv contents ok fuse s' (snd (abs_run fuse rs a))"
  using assms
proof (induction rs arbitrary: s a)
  case Nil
  then show ?case
    by simp
next
  case (Cons r rs)
  obtain s1 where s1: "dispatch kv (fst r) (snd r) s = Some (fst (abs_step fuse (fst r) (snd r) a), s1)"
    "abs_rel kv contents ok fuse s1 (snd (abs_step fuse (fst r) (snd r) a))"
    using dispatch_simulates [OF Cons.prems(1)] Cons.prems(2) by auto
  obtain s2 where "run kv rs s1 = Some (fst (abs_run fuse rs (snd (abs_step fuse (fst r) (snd r) a))), s2)"
    "abs_rel kv contents ok fuse s2 (snd (abs_run fuse rs (snd (abs_step fuse (fst r) (snd r) a))))"
    using Cons.IH [OF s1(2)] Cons.prems(2) by auto
  then show ?case
    using s1(1) by (simp add: case_prod_beta Let_def)
qed

text \<open>
  Mounting: on a fresh store \<open>Init\<close> leaves the tree of the root directory alone, on any other it takes
  the tree from the store.
\<close>

lemma TableFS_Init_state:
  assumes "ok db" and "\<forall>key v. contents db (ToSlice key) = Some v \<longrightarrow> wf_inode v" and "length (datadir st) \<le> 100"
  shows "abs_rel kv contents ok conn (mounted conn st db px) (\<lambda>key. contents db (ToSlice key), max_inode_num st)"
  using assms ic_state_new [where ok = ok and db = db and kv = kv and contents = contents and n = 0]
  by (auto simp: dc_inv_new abs_rel_def fs_inv_def fs_tree_def fs_metadb_def InodeCache_new_def fun_eq_iff)

lemma TableFS_Init_fresh:
  assumes "0 \<le> fst (kv_Init kv db)" "ok (snd (kv_Init kv db))" and fresh: "contents (snd (kv_Init kv db)) = Map.empty"
    and "IsEmpty st" "length (datadir st) \<le> 100"
  obtains s where "TableFS_Init kv env conn root_mode root_dev st db px = Some s"
    "abs_rel kv contents ok conn s
      ([root_key \<mapsto> InitInodeValue (ce_sys env) conn (ce_mem env) ROOT_INODE_ID root_mode root_dev []], 0)"
proof -
  let ?v = "InitInodeValue (ce_sys env) conn (ce_mem env) ROOT_INODE_ID root_mode root_dev []"
  let ?db2 = "snd (kv_Put kv (ToSlice root_key) ?v (snd (kv_Init kv db)))"
  have wf: "wf_inode ?v"
    using wf_new_inode [of "[]" "[]"] by simp
  have put: "ok ?db2" "contents ?db2 = [ToSlice root_key \<mapsto> ?v]"
    using put_ok [OF assms(2), of "ToSlice root_key" ?v] fresh wf_inode_small [OF wf] by simp_all
  have tree: "(\<lambda>key. contents ?db2 (ToSlice key)) = [root_key \<mapsto> ?v]"
    using put(2) by (auto simp: fun_eq_iff)
  have "\<forall>key v. contents ?db2 (ToSlice key) = Some v \<longrightarrow> wf_inode v"
    using put(2) wf by simp
  then have "abs_rel kv contents ok conn (mounted conn st ?db2 px) ([root_key \<mapsto> ?v], 0)"
    using TableFS_Init_state [OF put(1) _ assms(5)] assms(4) tree by (simp add: IsEmpty_def)
  moreover have "TableFS_Init kv env conn root_mode root_dev st db px = Some (mounted conn st ?db2 px)"
    using assms(1,4) by (simp add: TableFS_Init_def case_prod_beta)
  ultimately show thesis
    by (intro that)
qed

lemma TableFS_Init_again:
  assumes "0 \<le> fst (kv_Init kv db)" "ok (snd (kv_Init kv db))"
    and "\<forall>key v. contents (snd (kv_Init kv db)) (ToSlice key) = Some v \<longrightarrow> wf_inode v"
    and "\<not> IsEmpty st" "length (datadir st) \<le> 100"
  obtains s where "TableFS_Init kv env conn root_mode root_dev st db px = Some s"
    "abs_rel kv contents ok conn s (\<lambda>key. contents (snd (kv_Init kv db)) (ToSlice key), max_inode_num st)"
proof (rule that)
  show "TableFS_Init kv env conn root_mode root_dev st db px = Some (mounted conn st (snd (kv_Init kv db)) px)"
    using assms(1,4) by (simp add: TableFS_Init_def case_prod_beta)
qed (rule TableFS_Init_state [OF assms(2,3,5)])

text \<open>Requests on a path where there is nothing.\<close>

lemma missing_path:
  assumes inv: "quiet s" and path: "path \<noteq> []" "length (datadir (fs_state s)) \<le> 100"
    and none: "tree_lookup (fs_tree contents s) path = None"
    and req: "req = ReqGetattr path \<or> req = ReqReadlink path len \<and> 0 < len \<and> unat len < 2 ^ 63 \<or> req = ReqUnlink path \<or>
      req = ReqRmdir path \<or> req = ReqChmod path mode \<or> req = ReqChown path uid gid \<or> req = ReqUtimens path tv"
  shows "\<exists>s'. dispatch kv env req s = Some ((- ENOENT, NoData), s') \<and> quiet s' \<and> fs_same contents s s'"
proof -
  have update: "\<exists>s'. update_attribute kv path change s = Some (- ENOENT, s') \<and> quiet s' \<and> fs_same contents s s'"
    if "\<And>st. st_ino (change st) = st_ino st" for change
    by (rule update_attribute_spec [OF inv path(1) that]) (use none in auto)
  note [simp] = dispatch_def reply_opt_def reply_int_def
  from req show ?thesis
  proof (elim disjE conjE)
    assume "req = ReqGetattr path"
    then show ?thesis
      by (auto intro: GetAttr_spec [OF inv path(1)] simp: none)
  next
    assume "req = ReqReadlink path len" "0 < len" "unat len < 2 ^ 63"
    then show ?thesis
      by (auto intro: Readlink_spec [OF inv path(1), of len] simp: none)
  next
    assume "req = ReqUnlink path"
    then show ?thesis
      by (auto intro: Unlink_spec [OF inv path] simp: none)
  next
    assume "req = ReqRmdir path"
    then show ?thesis
      by (auto intro: RemoveDir_spec [OF inv path(1)] simp: none)
  next
    assume "req = ReqChmod path mode"
    then show ?thesis
      using update [of "\<lambda>st. st\<lparr>st_mode := mode\<rparr>"] by (auto simp: Chmod_def)
  next
    assume "req = ReqChown path uid gid"
    then show ?thesis
      using update [of "\<lambda>st. st\<lparr>st_uid := uid, st_gid := gid\<rparr>"] by (auto simp: Chown_def)
  next
    assume "req = ReqUtimens path tv"
    then show ?thesis
      using update by (fastforce simp: UpdateTimens_def)
  qed
qed

text \<open>A link that has been made is read as it was written, as far as the buffer goes.\<close>

lemma symlink_readlink:
  assumes inv: "quiet s" and path: "path \<noteq> []" "length path \<le> 4096" and room: "length (datadir (fs_state s)) \<le> 100"
    and new: "resolve (fs_tree contents s) path = Some key" "fs_tree contents s key = None"
    and target: "length target < 2 ^ 31" and len: "0 < len" "unat len < 2 ^ 63"
  obtains s' where "run kv [(env, ReqSymlink target path), (env', ReqReadlink path len)] s =
      Some ([(0, NoData), (0, BytesData (take (unat len - 1) target @ [0]))], s')" "quiet s'"
    "fs_tree contents s' = (fs_tree contents s)(key \<mapsto>
       InitInodeValue (ce_sys env) (fs_fuse s) (ce_mem env) (max_inode_num (fs_state s) + 1) S_IFLNK 0 (path_name path) @ target)"
proof (rule Symlink_spec [OF inv path room _ target])
  fix s1 k
  let ?name = "path_name path"
  let ?init = "InitInodeValue (ce_sys env) (fs_fuse s) (ce_mem env) (max_inode_num (fs_state s) + 1) S_IFLNK 0 ?name"
  assume s1: "Symlink kv env target path s = Some (0, s1)" "quiet s1" "resolve (fs_tree contents s) path = Some k"
    "fs_tree contents s1 = (fs_tree contents s)(k \<mapsto> ?init @ target)"
  have k: "k = key"
    using s1(3) new(1) by simp
  have name: "length ?name < 2 ^ 32"
    using length_path_name [OF path(1)] path(2) by simp
  obtain h where h: "?init = inode_value h ?name []" "wf_header h ?name"
    by (rule InitInodeValue_value [OF name])
  have found: "tree_lookup (fs_tree contents s1) path = Some (key, inode_value h ?name target)"
    using resolve_insert [of "fs_tree contents s" key path key] new h(1) unfolding s1(4) k
    by (simp add: tree_lookup_def inode_value_def)
  show thesis
  proof (rule Readlink_spec [OF s1(2) path(1) len])
    fix s2 k2 h2 name2 data
    assume s2: "Readlink kv path len s1 = Some ((0, Some (take (unat len - 1) data @ [0])), s2)" "quiet s2"
      "tree_lookup (fs_tree contents s1) path = Some (k2, inode_value h2 name2 data)" "wf_header h2 name2"
      "fs_same contents s1 s2" "GetInlineData (inode_value h2 name2 data) 0 (len - 1) = Some (take (unat len - 1) data)"
    have "unat (len - 1) = unat len - 1"
      using len(1) by (simp add: unat_minus_one word_greater_zero_iff)
    then have "take (unat len - 1) data = take (unat len - 1) target"
      using s2(3,6) found GetInlineData_value [OF h(2), of 0 "len - 1" target] target len name by simp
    then show thesis
      using that [of s2] s1(1) s2(1,2) fs_same_tree [OF s2(5)] s1(4) k
      by (simp add: dispatch_def reply_int_def reply_opt_def)
  qed (use found in simp)
qed (use new in auto)

text \<open>Unmounting closes the store with the tree in it, and writes the counter.\<close>

lemma TableFS_Destroy_quiet:
  assumes "abs_rel kv contents ok fuse s a"
  shows "TableFS_Destroy kv s = map_option (Pair (kv_Cleanup kv (fs_metadb s))) (State_Destroy (fs_state s) (fs_px s))"
  using InodeCache_destroy_quiet [OF fs_inv_icache [OF abs_rel_inv [OF assms]]]
  by (cases "State_Destroy (fs_state s) (fs_px s)") (simp_all add: TableFS_Destroy_def fs_metadb_def)

text \<open>
  A mount after an unmount shows the same tree.  The store is closed and opened in between, which keeps
  what it holds; the counter is written as 32 bits.
\<close>

lemma remount:
  assumes rel: "abs_rel kv contents ok fuse s a"
    and destroy: "TableFS_Destroy kv s = Some (db0, px)"
    and store: "0 \<le> fst (kv_Init kv db)" "ok (snd (kv_Init kv db))" "contents (snd (kv_Init kv db)) = contents (fs_metadb s)"
    and written: "root_dat (fs_state s) = Some path"
      "fst (file_write path (print_nat (unat (ucast (snd a) :: u32)) @ [10]) (fs_px s))"
    and env: "se_realpath senv (getProperty_default (cstr ''datadir'') (cstr ''/mnt/pmem/tablefs'') prop) = datadir (fs_state s)"
    and acc: "\<And>p. se_access senv p \<le> 0"
    and count: "0 < unat (snd a)" "unat (snd a) < 2 ^ 32"
  obtains st s' where "Setup senv prop px = Some (st, px)" "TableFS_Init kv env conn root_mode root_dev st db px = Some s'"
    "abs_rel kv contents ok conn s' a"
proof -
  have px: "State_Destroy (fs_state s) (fs_px s) = Some px"
    using destroy by (auto simp: TableFS_Destroy_quiet [OF rel])
  obtain st where st: "Setup senv prop px = Some (st, px)"
    "max_inode_num st = ucast (ucast (max_inode_num (fs_state s)) :: u32)" "datadir st = datadir (fs_state s)"
    using Setup_again [OF written(1) _ px env acc] written(2) abs_rel_count [OF rel] by auto
  have "max_inode_num st = snd a"
    using st(2) count(2) abs_rel_count [OF rel] by (simp add: word_unat_eq_iff unsigned_ucast_eq unsigned_take_bit_eq take_bit_nat_eq_self)
  moreover have "(\<lambda>key. contents (snd (kv_Init kv db)) (ToSlice key)) = fst a"
    using abs_rel_tree [OF rel] store(3) by (auto simp: fs_tree_def fun_eq_iff)
  moreover have "\<forall>key v. contents (snd (kv_Init kv db)) (ToSlice key) = Some v \<longrightarrow> wf_inode v"
    using store(3) fs_inv_wf [OF abs_rel_inv [OF rel]] by (simp add: fs_tree_def)
  moreover have "\<not> IsEmpty st"
    using calculation(1) count(1) by (auto simp: IsEmpty_def)
  ultimately obtain s' where "TableFS_Init kv env conn root_mode root_dev st db px = Some s'"
      "abs_rel kv contents ok conn s' a"
    using TableFS_Init_again [OF store(1,2), where st = st and env = env and conn = conn and px = px
        and root_mode = root_mode and root_dev = root_dev] st(3) abs_rel_room [OF rel] by auto
  then show thesis
    using that st(1) by blast
qed

end

end
