(* ===== verification/Tablefs_Data.thy ===== *)
theory Tablefs_Data
  imports Tablefs_Main
begin

text \<open>
  The data of files.  A small file lives in the value of its inode, a large one in a file below the data
  directory, and \<open>Write\<close> and \<open>Truncate\<close> move it from one to the other as it grows and shrinks.  None of
  this shows: between \<open>Open\<close> and \<open>Release\<close> a file is an array of bytes, and \<open>Release\<close> leaves it for the
  next \<open>Open\<close>.
\<close>

section \<open>Files of the operating system\<close>

definition rw_flags :: "u32 \<Rightarrow> bool" where
  "rw_flags flags \<longleftrightarrow> can_read flags \<and> can_write flags \<and> flag flags O_RDWR \<and>
     \<not> flag flags O_TRUNC \<and> \<not> flag flags O_EXCL \<and> \<not> flag flags O_APPEND"

lemma flag_creat: "f AND O_CREAT = 0 \<Longrightarrow> (flags OR O_CREAT) AND f = flags AND f"
  by (simp only: bit.conj_disj_distrib2 and.commute [of O_CREAT]) simp

lemma rw_flags_creat [simp]: "rw_flags (flags OR O_CREAT) = rw_flags flags"
proof -
  have "(flags OR O_CREAT) AND f = flags AND f" if "f \<in> {O_ACCMODE, O_RDWR, O_TRUNC, O_EXCL, O_APPEND}" for f
    using that by (intro flag_creat) (auto simp: O_ACCMODE_def O_CREAT_def O_RDWR_def O_TRUNC_def O_EXCL_def O_APPEND_def)
  then show ?thesis
    by (simp add: rw_flags_def can_read_def can_write_def flag_def)
qed

lemma flag_or_creat [simp]: "flag (flags OR O_CREAT) O_CREAT"
  by (simp add: flag_def bit.conj_disj_distrib2 O_CREAT_def)

text \<open>No two paths lead to the same file, and the next file is a new one.\<close>

definition px_inv :: "Posix \<Rightarrow> bool" where
  "px_inv px \<longleftrightarrow>
     (\<forall>p f. px_links px p = Some f \<longrightarrow> f < px_next px) \<and>
     (\<forall>p q f. px_links px p = Some f \<longrightarrow> px_links px q = Some f \<longrightarrow> p = q)"

text \<open>What a change to the file at one path leaves alone: every other file, and the directories.\<close>

definition px_others :: "bytes \<Rightarrow> Posix \<Rightarrow> Posix \<Rightarrow> bool" where
  "px_others p px px' \<longleftrightarrow>
     px_inv px' \<and> px_dirs px' = px_dirs px \<and> (\<forall>q. q \<noteq> p \<longrightarrow> file_read q px' = file_read q px)"

lemma px_others_refl [simp]: "px_others p px px \<longleftrightarrow> px_inv px"
  by (simp add: px_others_def)

lemma px_others_trans: "px_others p px px' \<Longrightarrow> px_others p px' px'' \<Longrightarrow> px_others p px px''"
  by (simp add: px_others_def)

lemma px_others_same:
  assumes "px_inv px" "px_links px' = px_links px" "px_files px' = px_files px" "px_dirs px' = px_dirs px" "px_next px' = px_next px"
  shows "px_others p px px'"
  using assms by (simp add: px_others_def px_inv_def file_read_def)

lemma px_others_file:
  assumes "px_inv px" "px_links px p = Some f"
  shows "px_others p px (px\<lparr>px_files := (px_files px)(f := data)\<rparr>)"
  using assms by (auto simp: px_others_def px_inv_def file_read_def map_option_case split: option.splits)

lemma open_existing:
  assumes "px_inv px" "px_links px p = Some f" "\<not> flag flags O_TRUNC" "\<not> flag flags O_EXCL"
  obtains fd px' where "posix_open p flags px = (fd, px')" "0 \<le> fd" "fd_lookup fd px' = Some (f, flags)"
    "px_links px' = px_links px" "px_files px' = px_files px" "px_others p px px'"
proof -
  obtain fd px' where open_eq: "fd_install (f, flags) px = (fd, px')"
    by (cases "fd_install (f, flags) px")
  note spec = fd_install_spec [OF open_eq]
  have "posix_open p flags px = (fd, px')"
    using assms open_eq by (simp add: posix_open_def)
  then show thesis
    using spec(1,3,5,6) px_others_same [OF assms(1) spec(5,6,7,8)] by (rule that)
qed

lemma open_create:
  assumes "px_inv px" "px_links px p = None" "\<not> px_dirs px p" "px_dirs px (dirname p)" "flag flags O_CREAT"
  obtains fd px' f where "posix_open p flags px = (fd, px')" "0 \<le> fd" "fd_lookup fd px' = Some (f, flags)"
    "px_links px' p = Some f" "px_files px' f = []" "px_others p px px'"
proof -
  let ?px = "px\<lparr>px_links := (px_links px)(p \<mapsto> px_next px), px_files := (px_files px)(px_next px := []),
                px_next := px_next px + 1\<rparr>"
  obtain fd px' where open_eq: "fd_install (px_next px, flags) ?px = (fd, px')"
    by (cases "fd_install (px_next px, flags) ?px")
  note spec = fd_install_spec [OF open_eq]
  have inv: "px_inv ?px"
    using assms(1,2) by (fastforce simp: px_inv_def)
  have "file_read q ?px = file_read q px" if "q \<noteq> p" for q
    using assms(1) that by (cases "px_links px q") (auto simp: file_read_def px_inv_def)
  then have "px_others p px ?px"
    using inv by (simp add: px_others_def)
  with inv have "px_others p px px'"
    using px_others_trans px_others_same [of ?px px'] spec(5,6,7,8) by blast
  moreover have "posix_open p flags px = (fd, px')"
    using assms open_eq by (simp add: posix_open_def)
  ultimately show thesis
    using spec(1,3) by (intro that [of fd px' "px_next px"]) (simp_all add: spec(5,6))
qed

lemma pread_open:
  assumes "fd_lookup fd px = Some (f, flags)" "can_read flags" "0 \<le> offset" "len \<le> MAX_RW_COUNT"
  shows "posix_pread fd len offset px =
    ((int (length (take len (drop (nat offset) (px_files px f)))), take len (drop (nat offset) (px_files px f))), px)"
  using assms by (simp add: posix_pread_def Let_def)

lemma pwrite_open:
  assumes "fd_lookup fd px = Some (f, flags)" "can_write flags" "\<not> flag flags O_APPEND" "0 \<le> offset" "length buf \<le> MAX_RW_COUNT"
  shows "posix_pwrite fd buf offset px =
    (int (length buf), px\<lparr>px_files := (px_files px)(f := write_at (nat offset) buf (px_files px f))\<rparr>)"
  using assms by (simp add: posix_pwrite_def Let_def)

lemma fd_lookup_files [simp]: "fd_lookup fd (px\<lparr>px_files := fs\<rparr>) = fd_lookup fd px"
  by (simp add: fd_lookup_def)

section \<open>The file of an inode\<close>

text \<open>
  \<open>file_view st px v fd data\<close>: the inode with value \<open>v\<close> holds the file \<open>data\<close>, whether inline or on
  disk; \<open>fd\<close> is an open descriptor of the file on disk, or -1.
\<close>

definition file_view :: "FileSystemState \<Rightarrow> Posix \<Rightarrow> bytes \<Rightarrow> int \<Rightarrow> bytes \<Rightarrow> bool" where
  "file_view st px v fd data \<longleftrightarrow>
     (\<exists>h name inl p.
        v = inode_value h name inl \<and> wf_header h name \<and> length name \<le> 4096 \<and>
        unat (st_size (fstat h)) = length data \<and> length data < 2 ^ 31 \<and>
        GetDiskFilePath st (st_ino (fstat h)) = Some p \<and> px_inv px \<and> \<not> px_dirs px p \<and> px_dirs px (dirname p) \<and>
        (if has_blob h > 0
         then inl = [] \<and> threshold st < int (length data) \<and>
              (\<exists>f. px_links px p = Some f \<and> px_files px f = data \<and>
                   (fd = -1 \<or> 0 \<le> fd \<and> (\<exists>flags. fd_lookup fd px = Some (f, flags) \<and> rw_flags flags)))
         else inl = data \<and> int (length data) \<le> threshold st \<and> fd = -1 \<and> px_links px p = None))"

lemma file_view_cases [consumes 1, case_names inline disk]:
  assumes "file_view st px v fd data"
  obtains (inline) h name p where "v = inode_value h name data" "wf_header h name" "length name \<le> 4096"
      "unat (st_size (fstat h)) = length data" "length data < 2 ^ 31"
      "GetDiskFilePath st (st_ino (fstat h)) = Some p" "px_inv px" "has_blob h = 0"
      "int (length data) \<le> threshold st" "fd = -1" "px_links px p = None" "\<not> px_dirs px p" "px_dirs px (dirname p)"
    | (disk) h name p f where "v = inode_value h name []" "wf_header h name" "length name \<le> 4096"
      "unat (st_size (fstat h)) = length data" "length data < 2 ^ 31"
      "GetDiskFilePath st (st_ino (fstat h)) = Some p" "px_inv px" "has_blob h > 0"
      "px_links px p = Some f" "px_files px f = data"
      "fd = -1 \<or> 0 \<le> fd \<and> (\<exists>flags. fd_lookup fd px = Some (f, flags) \<and> rw_flags flags)"
      "threshold st < int (length data)" "\<not> px_dirs px p" "px_dirs px (dirname p)"
proof -
  obtain h name inl p where v: "v = inode_value h name inl" "wf_header h name" "length name \<le> 4096"
      "unat (st_size (fstat h)) = length data" "length data < 2 ^ 31"
      "GetDiskFilePath st (st_ino (fstat h)) = Some p" "px_inv px" "\<not> px_dirs px p" "px_dirs px (dirname p)"
    and data: "if has_blob h > 0
         then inl = [] \<and> threshold st < int (length data) \<and>
              (\<exists>f. px_links px p = Some f \<and> px_files px f = data \<and>
                   (fd = -1 \<or> 0 \<le> fd \<and> (\<exists>flags. fd_lookup fd px = Some (f, flags) \<and> rw_flags flags)))
         else inl = data \<and> int (length data) \<le> threshold st \<and> fd = -1 \<and> px_links px p = None"
    using assms unfolding file_view_def by (elim exE conjE)
  show thesis
  proof (cases "has_blob h > 0")
    case True
    then obtain f where "inl = []" "px_links px p = Some f" "px_files px f = data"
        "fd = -1 \<or> 0 \<le> fd \<and> (\<exists>flags. fd_lookup fd px = Some (f, flags) \<and> rw_flags flags)"
        "threshold st < int (length data)"
      using data by auto
    then show thesis
      using disk [of h name p f] v True by simp
  next
    case False
    then show thesis
      using inline [of h name p] v data by (simp add: word_gt_0)
  qed
qed

lemma file_view_inlineI:
  assumes "wf_header h name" "length name \<le> 4096" "unat (st_size (fstat h)) = length data" "length data < 2 ^ 31"
    "GetDiskFilePath st (st_ino (fstat h)) = Some p" "px_inv px" "has_blob h = 0" "int (length data) \<le> threshold st"
    "px_links px p = None" "\<not> px_dirs px p" "px_dirs px (dirname p)"
  shows "file_view st px (inode_value h name data) (-1) data"
  unfolding file_view_def by (intro exI [of _ h] exI [of _ name] exI [of _ data] exI [of _ p]) (use assms in simp)

lemma file_view_diskI:
  assumes "wf_header h name" "length name \<le> 4096" "unat (st_size (fstat h)) = length data" "length data < 2 ^ 31"
    "GetDiskFilePath st (st_ino (fstat h)) = Some p" "px_inv px" "has_blob h > 0"
    "px_links px p = Some f" "px_files px f = data"
    "fd = -1 \<or> 0 \<le> fd \<and> (\<exists>flags. fd_lookup fd px = Some (f, flags) \<and> rw_flags flags)"
    "threshold st < int (length data)" "\<not> px_dirs px p" "px_dirs px (dirname p)"
  shows "file_view st px (inode_value h name []) fd data"
  unfolding file_view_def by (intro exI [of _ h] exI [of _ name] exI [of _ "[]"] exI [of _ p]) (use assms in auto)

lemma file_view_wf: "file_view st px v fd data \<Longrightarrow> wf_inode v"
  by (cases rule: file_view_cases) (auto intro: wf_inodeI)

text \<open>A change of the attributes that keeps the number and the size keeps the file.\<close>

lemma file_view_attr:
  assumes "file_view st px v fd data" "GetAttribute v = Some a" "st_ino a' = st_ino a" "st_size a' = st_size a"
  shows "file_view st px (UpdateAttribute v a') fd data"
  using assms(1)
proof (cases rule: file_view_cases)
  case (inline h name p)
  then have "a = fstat h"
    using assms(2) by simp
  then show ?thesis
    using inline assms(3,4) file_view_inlineI [of "h\<lparr>fstat := a'\<rparr>" name data st p px] by (simp add: wf_header_def)
next
  case (disk h name p f)
  then have "a = fstat h"
    using assms(2) by simp
  then show ?thesis
    using disk assms(3,4) file_view_diskI [of "h\<lparr>fstat := a'\<rparr>" name data st p px f fd] by (simp add: wf_header_def)
qed

section \<open>An open file\<close>

definition small_threshold :: "FileSystemState \<Rightarrow> bool" where
  "small_threshold st \<longleftrightarrow> 0 \<le> threshold st \<and> threshold st \<le> int MAX_RW_COUNT"

text \<open>
  The state while one file is open: its handle is held in write mode, with the value that \<open>Release\<close> will
  put into the store.
\<close>

definition open_file ::
  "'db KvWrapper \<Rightarrow> ('db \<Rightarrow> bytes \<Rightarrow> bytes option) \<Rightarrow> ('db \<Rightarrow> bool) \<Rightarrow> nat \<Rightarrow> tfs_meta_key_t \<Rightarrow> u64 \<Rightarrow> bytes \<Rightarrow>
   'db TableFS \<Rightarrow> bool" where
  "open_file kv contents ok fh key ino data s \<longleftrightarrow>
     (\<exists>h v. fs_fhs s fh = Some h \<and>
        fs_inv kv contents ok 1 [fh_handle h \<mapsto> \<lparr>ih_key = key, ih_value = v, ih_mode = INODE_WRITE\<rparr>] s \<and>
        tree_ino (fs_tree contents s) key = Some ino \<and> map_option st_ino (GetAttribute v) = Some ino \<and>
        file_view (fs_state s) (fs_px s) v (fh_fd h) data \<and> rw_flags (fh_flags h) \<and> small_threshold (fs_state s))"

text \<open>What the operations on an open file leave alone: the tree, the counter and every other file on disk.\<close>

definition data_frame :: "('db \<Rightarrow> bytes \<Rightarrow> bytes option) \<Rightarrow> u64 \<Rightarrow> 'db TableFS \<Rightarrow> 'db TableFS \<Rightarrow> bool" where
  "data_frame contents ino s s' \<longleftrightarrow>
     fs_tree contents s' = fs_tree contents s \<and> fs_state s' = fs_state s \<and> fs_fuse s' = fs_fuse s \<and>
     (\<forall>p. GetDiskFilePath (fs_state s) ino = Some p \<longrightarrow> px_others p (fs_px s) (fs_px s'))"

lemma data_frame_trans:
  "data_frame contents ino s s' \<Longrightarrow> data_frame contents ino s' s'' \<Longrightarrow> data_frame contents ino s s''"
  by (auto simp: data_frame_def intro: px_others_trans)

lemma open_fileE:
  assumes "open_file kv contents ok fh key ino data s"
  obtains h v where "fs_fhs s fh = Some h"
    "fs_inv kv contents ok 1 [fh_handle h \<mapsto> \<lparr>ih_key = key, ih_value = v, ih_mode = INODE_WRITE\<rparr>] s"
    "tree_ino (fs_tree contents s) key = Some ino \<and> map_option st_ino (GetAttribute v) = Some ino"
    "file_view (fs_state s) (fs_px s) v (fh_fd h) data" "rw_flags (fh_flags h)" "small_threshold (fs_state s)"
    "ic_handle (fh_handle h) (fs_icache s) = Some \<lparr>ih_key = key, ih_value = v, ih_mode = INODE_WRITE\<rparr>"
proof -
  obtain h v where *: "fs_fhs s fh = Some h"
    "fs_inv kv contents ok 1 [fh_handle h \<mapsto> \<lparr>ih_key = key, ih_value = v, ih_mode = INODE_WRITE\<rparr>] s"
    "tree_ino (fs_tree contents s) key = Some ino \<and> map_option st_ino (GetAttribute v) = Some ino"
    "file_view (fs_state s) (fs_px s) v (fh_fd h) data" "rw_flags (fh_flags h)" "small_threshold (fs_state s)"
    using assms by (auto simp: open_file_def)
  show thesis
    by (rule that [OF *]) (rule ic_state_handle [OF fs_inv_icache [OF *(2)]], simp)
qed

text \<open>Assigning to the value of the held handle.\<close>

lemma assign_held:
  assumes inv: "fs_inv kv contents ok n [ptr \<mapsto> g] s" and "ih_key g' = ih_key g" "length (ih_value g') < 2 ^ 32"
  obtains ic where "ic_assign ptr g' (fs_icache s) = Some ic" "fs_inv kv contents ok n [ptr \<mapsto> g'] (with_icache ic s)"
    "fs_tree contents (with_icache ic s) = fs_tree contents s" "fs_frame s (with_icache ic s)"
proof -
  obtain ic where ic: "ic_assign ptr g' (fs_icache s) = Some ic" "ic_state kv contents ok n {} [ptr \<mapsto> g'] ic"
    "ic_metadb ic = ic_metadb (fs_icache s)"
    using ic_state_assign [OF fs_inv_icache [OF inv], of ptr g g'] assms(2,3) by auto
  then show thesis
    using that [of ic] with_icache_same [OF inv ic(2)] by (simp add: fs_same_def)
qed

lemma assign_value_held:
  assumes inv: "fs_inv kv contents ok n [ptr \<mapsto> g] s" and "length v < 2 ^ 32"
  obtains ic where "assign_value ptr v s = Some (with_icache ic s)"
    "fs_inv kv contents ok n [ptr \<mapsto> g\<lparr>ih_value := v\<rparr>] (with_icache ic s)"
    "fs_tree contents (with_icache ic s) = fs_tree contents s" "fs_frame s (with_icache ic s)"
proof -
  have h: "ic_handle ptr (fs_icache s) = Some g"
    using ic_state_handle [OF fs_inv_icache [OF inv]] by simp
  obtain ic where "ic_assign ptr (g\<lparr>ih_value := v\<rparr>) (fs_icache s) = Some ic"
    "fs_inv kv contents ok n [ptr \<mapsto> g\<lparr>ih_value := v\<rparr>] (with_icache ic s)"
    "fs_tree contents (with_icache ic s) = fs_tree contents s" "fs_frame s (with_icache ic s)"
    by (rule assign_held [OF inv, of "g\<lparr>ih_value := v\<rparr>"]) (use assms(2) in simp_all)
  then show thesis
    using h that [of ic] by (simp add: assign_value_def)
qed

lemma to_c_int_small: "0 \<le> i \<Longrightarrow> i < 2 ^ 31 \<Longrightarrow> to_c_int i = i"
  by (simp add: to_c_int_def sint_sbintrunc' signed_take_bit_int_eq_self)

lemma sint_small: "unat (x :: u64) < 2 ^ 63 \<Longrightarrow> sint x = int (unat x)"
proof -
  assume "unat x < 2 ^ 63"
  then have "int (unat x) < int (2 ^ 63)"
    by (simp only: of_nat_less_iff)
  then have "uint x < 2 ^ 63"
    by simp
  then have "signed_take_bit 63 (uint x) = uint x"
    using uint_ge_0 [of x] by (intro signed_take_bit_int_eq_self) linarith+
  then show ?thesis
    by (simp add: sint_uint)
qed

lemma open_fileI:
  assumes "fs_fhs s fh = Some h"
    "fs_inv kv contents ok 1 [fh_handle h \<mapsto> \<lparr>ih_key = key, ih_value = v, ih_mode = INODE_WRITE\<rparr>] s"
    "tree_ino (fs_tree contents s) key = Some ino \<and> map_option st_ino (GetAttribute v) = Some ino"
    "file_view (fs_state s) (fs_px s) v (fh_fd h) data" "rw_flags (fh_flags h)" "small_threshold (fs_state s)"
  shows "open_file kv contents ok fh key ino data s"
  using assms by (auto simp: open_file_def)

lemma with_px_simps [simp]:
  "fs_px (with_px px s) = px" "fs_state (with_px px s) = fs_state s" "fs_icache (with_px px s) = fs_icache s"
  "fs_fhs (with_px px s) = fs_fhs s" "fs_fuse (with_px px s) = fs_fuse s" "fs_next_fh (with_px px s) = fs_next_fh s"
  "fs_tree contents (with_px px s) = fs_tree contents s"
  "fs_inv kv contents ok n held (with_px px s) = fs_inv kv contents ok n held s"
  by (simp_all add: with_px_def)

lemma fs_tree_fhs [simp]: "fs_tree contents (s\<lparr>fs_fhs := x\<rparr>) = fs_tree contents s"
  and fs_tree_next_fh [simp]: "fs_tree contents (s\<lparr>fs_next_fh := m\<rparr>) = fs_tree contents s"
  by (simp_all add: fs_tree_def fs_metadb_def fun_eq_iff)

lemma fs_inv_fhs [simp]: "fs_inv kv contents ok n held (s\<lparr>fs_fhs := x\<rparr>) = fs_inv kv contents ok n held s"
  and fs_inv_next_fh [simp]: "fs_inv kv contents ok n held (s\<lparr>fs_next_fh := m\<rparr>) = fs_inv kv contents ok n held s"
  by (simp_all add: fs_inv_def)

lemma with_fh_simps [simp]:
  "fs_px (with_fh fh h s) = fs_px s" "fs_state (with_fh fh h s) = fs_state s" "fs_icache (with_fh fh h s) = fs_icache s"
  "fs_fhs (with_fh fh h s) = (fs_fhs s)(fh \<mapsto> h)" "fs_fuse (with_fh fh h s) = fs_fuse s"
  "fs_next_fh (with_fh fh h s) = fs_next_fh s" "fs_tree contents (with_fh fh h s) = fs_tree contents s"
  "fs_inv kv contents ok n held (with_fh fh h s) = fs_inv kv contents ok n held s"
  by (simp_all add: with_fh_def)

lemma with_fh_same: "fs_fhs s fh = Some h \<Longrightarrow> with_px (fs_px s) (with_fh fh h s) = s"
  by (simp add: with_px_def with_fh_def fun_upd_idem)

text \<open>Reading and writing open the file on disk if that has not been done.\<close>

lemma ensure_fd_spec:
  assumes h: "fs_fhs s fh = Some h" "rw_flags (fh_flags h)" and px: "px_inv (fs_px s)"
    and p: "GetDiskFilePath (fs_state s) (st_ino (fstat header)) = Some p" "px_links (fs_px s) p = Some f"
    and fd: "fh_fd h = -1 \<or> 0 \<le> fh_fd h \<and> (\<exists>flags. fd_lookup (fh_fd h) (fs_px s) = Some (f, flags) \<and> rw_flags flags)"
  obtains fd px flags where "ensure_fd fh header s = Some (fd, with_px px (with_fh fh (h\<lparr>fh_fd := fd\<rparr>) s))"
    "0 \<le> fd" "fd_lookup fd px = Some (f, flags)" "rw_flags flags" "px_links px = px_links (fs_px s)"
    "px_files px = px_files (fs_px s)" "px_others p (fs_px s) px"
proof (cases "fh_fd h = -1")
  case True
  obtain fd px where o: "posix_open p (fh_flags h OR O_CREAT) (fs_px s) = (fd, px)" "0 \<le> fd"
    "fd_lookup fd px = Some (f, fh_flags h OR O_CREAT)" "px_links px = px_links (fs_px s)"
    "px_files px = px_files (fs_px s)" "px_others p (fs_px s) px"
    by (rule open_existing [OF px p(2), of "fh_flags h OR O_CREAT"])
      (use h rw_flags_creat [of "fh_flags h"] in \<open>simp_all add: rw_flags_def\<close>)
  then show thesis
    using that [of fd px "fh_flags h OR O_CREAT"] h True p(1) by (simp add: ensure_fd_def OpenDiskFile_def)
next
  case False
  then obtain flags where "0 \<le> fh_fd h" "fd_lookup (fh_fd h) (fs_px s) = Some (f, flags)" "rw_flags flags"
    using fd by auto
  then show thesis
    using that [of "fh_fd h" "fs_px s" flags] h px with_fh_same [OF h(1)] by (simp add: ensure_fd_def)
qed

lemma Read_spec:
  assumes o: "open_file kv contents ok fh key ino data s" and len: "unat len \<le> MAX_RW_COUNT" "unat offset < 2 ^ 62"
  obtains s' where
    "Read len offset fh s =
       Some ((int (length (take (unat len) (drop (unat offset) data))), take (unat len) (drop (unat offset) data)), s')"
    "open_file kv contents ok fh key ino data s'" "data_frame contents ino s s'"
proof -
  let ?b = "take (unat len) (drop (unat offset) data)"
  obtain h v where o: "fs_fhs s fh = Some h"
    "fs_inv kv contents ok 1 [fh_handle h \<mapsto> \<lparr>ih_key = key, ih_value = v, ih_mode = INODE_WRITE\<rparr>] s"
    "tree_ino (fs_tree contents s) key = Some ino \<and> map_option st_ino (GetAttribute v) = Some ino"
    "file_view (fs_state s) (fs_px s) v (fh_fd h) data" "rw_flags (fh_flags h)" "small_threshold (fs_state s)"
    "ic_handle (fh_handle h) (fs_icache s) = Some \<lparr>ih_key = key, ih_value = v, ih_mode = INODE_WRITE\<rparr>"
    using assms(1) by (rule open_fileE)
  have "length ?b < 2 ^ 31"
    using len by (auto simp: MAX_RW_COUNT_def)
  then have ret: "to_c_int (int (length ?b)) = int (length ?b)"
    by (intro to_c_int_small) simp_all
  from o(4) show thesis
  proof (cases rule: file_view_cases)
    case (inline hdr name p)
    have "GetInlineData v offset len = Some ?b"
      using inline len unfolding inline(1) by (intro GetInlineData_value) (simp_all add: MAX_RW_COUNT_def)
    then show thesis
      using that [of s] o(1,7) inline assms(1) ret by (simp add: Read_def data_frame_def)
  next
    case (disk hdr name p f)
    obtain fd px flags where e: "ensure_fd fh hdr s = Some (fd, with_px px (with_fh fh (h\<lparr>fh_fd := fd\<rparr>) s))"
      "0 \<le> fd" "fd_lookup fd px = Some (f, flags)" "rw_flags flags" "px_links px = px_links (fs_px s)"
      "px_files px = px_files (fs_px s)" "px_others p (fs_px s) px"
      using ensure_fd_spec [OF o(1,5) disk(7,6,9,11)] by blast
    let ?s = "with_px px (with_fh fh (h\<lparr>fh_fd := fd\<rparr>) s)"
    have "posix_pread fd (unat len) (sint offset) px = ((int (length ?b), ?b), px)"
      using pread_open [OF e(3), of "sint offset" "unat len"] len disk(10) e(4,6) sint_small [of offset]
      by (simp add: MAX_RW_COUNT_def rw_flags_def)
    then have "Read len offset fh s = Some ((int (length ?b), ?b), ?s)"
      using o(1,7) disk e ret by (simp add: Read_def with_px_def)
    moreover have "file_view (fs_state s) px v fd data"
      unfolding disk(1) by (rule file_view_diskI [OF disk(2-6)]) (use disk e in \<open>auto simp: px_others_def\<close>)
    then have "open_file kv contents ok fh key ino data ?s"
      using o by (intro open_fileI [of _ _ "h\<lparr>fh_fd := fd\<rparr>"]) simp_all
    moreover have "data_frame contents ino s ?s"
      using disk(1,2,6) e(7) o(3) by (simp add: data_frame_def)
    ultimately show thesis
      by (rule that)
  qed
qed

section \<open>Writing\<close>

lemma UpdateIhandleValue_write_at: "buf \<noteq> [] \<Longrightarrow> UpdateIhandleValue data buf k = write_at k buf data"
  by (auto simp: UpdateIhandleValue_def write_at_def string_replace_def string_resize_def Let_def max_def)

lemma set_size_value:
  assumes "wf_header h name"
  shows "set_size (inode_value h name data) n None = Some (inode_value (h\<lparr>fstat := (fstat h)\<lparr>st_size := n\<rparr>\<rparr>) name data)"
    and "set_size (inode_value h name data) n (Some b) =
      Some (inode_value (h\<lparr>fstat := (fstat h)\<lparr>st_size := n\<rparr>, has_blob := b\<rparr>) name data)"
  using assms by (auto simp: set_size_def wf_header_def)

lemma inline_bytes_value:
  assumes "wf_header h name" "n \<le> length data"
  shows "inline_bytes (inode_value h name data) h n = Some (take n data)"
  using assms by (simp add: inline_bytes_def inode_value_def wf_header_def Let_def TFS_INODE_HEADER_SIZE_def)

text \<open>Migration moves the data to a new file on disk.\<close>

lemma MigrateToDiskFile_spec:
  assumes h: "wf_header h name" "length name \<le> 4096" "unat (st_size (fstat h)) = length data"
    and p: "GetDiskFilePath st (st_ino (fstat h)) = Some p" "px_links px p = None" "\<not> px_dirs px p" "px_dirs px (dirname p)"
    and px: "px_inv px" and small: "length data \<le> MAX_RW_COUNT"
    and flags: "can_write (flags OR O_CREAT)" "\<not> flag (flags OR O_CREAT) O_APPEND"
  obtains fd px' f where
    "MigrateToDiskFile st (inode_value h name data) (-1) flags px = Some ((0, fd, inode_value h name []), px')"
    "0 \<le> fd" "fd_lookup fd px' = Some (f, flags OR O_CREAT)" "px_links px' p = Some f" "px_files px' f = data"
    "px_others p px px'"
proof -
  obtain fd px1 f where o: "posix_open p (flags OR O_CREAT) px = (fd, px1)" "0 \<le> fd"
    "fd_lookup fd px1 = Some (f, flags OR O_CREAT)" "px_links px1 p = Some f" "px_files px1 f = []" "px_others p px px1"
    by (rule open_create [OF px p(2,3,4) flag_or_creat [of flags]])
  have size: "sint (st_size (fstat h)) = int (length data)"
    using h(3) small by (subst sint_small) (simp_all add: MAX_RW_COUNT_def)
  show thesis
  proof (cases "data = []")
    case True
    then show thesis
      using o p size that [of fd px1 f] h by (simp add: MigrateToDiskFile_def OpenDiskFile_def)
  next
    case False
    let ?px = "px1\<lparr>px_files := (px_files px1)(f := data)\<rparr>"
    have "posix_pwrite fd data 0 px1 = (int (length data), ?px)"
      using pwrite_open [OF o(3), of 0 data] flags small o(5) write_at_append [of "[]" data] by simp
    moreover have "px_others p px ?px"
      using px_others_trans [OF o(6) px_others_file] o(4,6) by (simp add: px_others_def)
    moreover have "DropInlineData (inode_value h name data) = Some (inode_value h name [])"
      using DropInlineData_value [OF h(1)] h(2) by simp
    ultimately show thesis
      using o p size that [of fd ?px f] h False inline_bytes_value [OF h(1), of "length data" data]
      by (simp add: MigrateToDiskFile_def OpenDiskFile_def)
  qed
qed

lemma offset_sum:
  fixes offset :: u64
  assumes "unat offset + length buf \<le> MAX_RW_COUNT"
  shows "unat (offset + of_nat (length buf)) = unat offset + length buf" "sint offset = int (unat offset)"
proof -
  have "unat offset + length buf < 2 ^ 31"
    using assms by (simp add: MAX_RW_COUNT_def)
  then show "unat (offset + of_nat (length buf)) = unat offset + length buf" "sint offset = int (unat offset)"
    by (intro unat_plus_small sint_small, simp)+
qed

lemma threshold_less:
  fixes x :: u64
  assumes "small_threshold st"
  shows "of_int (threshold st) < x \<longleftrightarrow> nat (threshold st) < unat x"
proof -
  have "uint (of_int (threshold st) :: u64) = threshold st"
    using assms by (simp add: small_threshold_def MAX_RW_COUNT_def uint_word_of_int)
  moreover have "0 \<le> threshold st"
    using assms by (simp add: small_threshold_def)
  ultimately show ?thesis
    by (simp only: word_less_def unat_eq_nat_uint nat_less_eq_zless)
qed

lemma open_file_assign:
  assumes view: "file_view st px v' fd data"
    and s: "fs_state s = st" "fs_px s = px" "fs_fhs s fh = Some h" "fh_handle h = ptr" "fh_fd h = fd" "fs_tree contents s = m"
    and inv: "fs_inv kv contents ok 1 [ptr \<mapsto> \<lparr>ih_key = key, ih_value = v, ih_mode = INODE_WRITE\<rparr>] s"
    and "tree_ino m key = Some ino \<and> map_option st_ino (GetAttribute v') = Some ino" "rw_flags (fh_flags h)" "small_threshold st"
  obtains ic where "assign_value ptr v' s = Some (with_icache ic s)"
    "open_file kv contents ok fh key ino data (with_icache ic s)" "fs_tree contents (with_icache ic s) = m"
proof -
  obtain ic where ic: "assign_value ptr v' s = Some (with_icache ic s)"
    "fs_inv kv contents ok 1 [ptr \<mapsto> \<lparr>ih_key = key, ih_value = v', ih_mode = INODE_WRITE\<rparr>] (with_icache ic s)"
    "fs_tree contents (with_icache ic s) = fs_tree contents s" "fs_frame s (with_icache ic s)"
    using assign_value_held [OF inv wf_inode_small [OF file_view_wf [OF view]]] by auto
  then show thesis
    using assms by (intro that [of ic]) (auto intro!: open_fileI [of _ _ h])
qed

text \<open>\<open>Write\<close> on a file on disk, on one that is inline and stays so, and on one that outgrows its inode.\<close>

lemma Write_spec:
  assumes o: "open_file kv contents ok fh key ino data s" and flags: "rw_flags flags"
    and buf: "buf \<noteq> []" "unat offset + length buf \<le> MAX_RW_COUNT"
  obtains s' where "Write buf offset flags fh s = Some (int (length buf), s')"
    "open_file kv contents ok fh key ino (write_at (unat offset) buf data) s'" "data_frame contents ino s s'"
proof -
  let ?g = "\<lambda>v. \<lparr>ih_key = key, ih_value = v, ih_mode = INODE_WRITE\<rparr>" and ?n = "offset + of_nat (length buf)"
  let ?data = "write_at (unat offset) buf data"
  obtain h v where o: "fs_fhs s fh = Some h" "fs_inv kv contents ok 1 [fh_handle h \<mapsto> ?g v] s"
    "tree_ino (fs_tree contents s) key = Some ino \<and> map_option st_ino (GetAttribute v) = Some ino"
    "file_view (fs_state s) (fs_px s) v (fh_fd h) data" "rw_flags (fh_flags h)" "small_threshold (fs_state s)"
    "ic_handle (fh_handle h) (fs_icache s) = Some (?g v)"
    using assms(1) by (rule open_fileE)
  obtain ic where ic: "ic_assign (fh_handle h) (?g v) (fs_icache s) = Some ic"
    "fs_inv kv contents ok 1 [fh_handle h \<mapsto> ?g v] (with_icache ic s)"
    "fs_tree contents (with_icache ic s) = fs_tree contents s" "fs_frame s (with_icache ic s)"
    by (rule assign_held [OF o(2), of "?g v"]) (use wf_inode_small [OF file_view_wf [OF o(4)]] in simp_all)
  let ?s1 = "with_icache ic s"
  have ret: "to_c_int (int (length buf)) = int (length buf)"
    using buf(2) by (intro to_c_int_small) (simp_all add: MAX_RW_COUNT_def)
  note off = offset_sum [OF buf(2)]
  have ino: "tree_ino (fs_tree contents s) key = Some ino" "map_option st_ino (GetAttribute v) = Some ino"
    using o(3) by simp_all
  have len: "length ?data = max (length data) (unat offset + length buf)"
    using buf(1) by (simp add: length_write_at)
  from o(4) show thesis
  proof (cases rule: file_view_cases)
    case (disk hdr name p f)
    obtain fd px flags' where e: "ensure_fd fh hdr ?s1 = Some (fd, with_px px (with_fh fh (h\<lparr>fh_fd := fd\<rparr>) ?s1))"
      "0 \<le> fd" "fd_lookup fd px = Some (f, flags')" "rw_flags flags'" "px_links px = px_links (fs_px s)"
      "px_files px = px_files (fs_px s)" "px_others p (fs_px s) px"
      using ensure_fd_spec [of ?s1 fh h hdr p f] o(1,5) disk(6,7,9,11) by auto
    let ?px = "px\<lparr>px_files := (px_files px)(f := ?data)\<rparr>"
    have w: "posix_pwrite fd buf (sint offset) px = (int (length buf), ?px)"
      using pwrite_open [OF e(3), of "sint offset" buf] buf(2) off(2) disk(10) e(4,6) by (simp add: rw_flags_def)
    have others: "px_others p (fs_px s) ?px"
      using px_others_trans [OF e(7) px_others_file] e(5,7) disk(9) by (simp add: px_others_def)
    then have px_inv: "px_inv ?px"
      by (simp add: px_others_def)
    have "length data \<le> length ?data"
      using len by simp
    then have above: "threshold (fs_state s) < int (length ?data)"
      using disk(12) by linarith
    let ?s3 = "with_px ?px (with_fh fh (h\<lparr>fh_fd := fd\<rparr>) ?s1)"
    show thesis
    proof (cases "st_size (fstat hdr) < ?n")
      case True
      let ?hdr = "hdr\<lparr>fstat := (fstat hdr)\<lparr>st_size := ?n\<rparr>\<rparr>"
      have "file_view (fs_state s) ?px (inode_value ?hdr name []) fd ?data"
        by (rule file_view_diskI [of _ _ _ _ p _ f])
          (use disk e px_inv above len off(1) True buf(2) in \<open>auto simp: px_others_def wf_header_def word_less_nat_alt MAX_RW_COUNT_def\<close>)
      then obtain ic' where "assign_value (fh_handle h) (inode_value ?hdr name []) ?s3 = Some (with_icache ic' ?s3)"
        "open_file kv contents ok fh key ino ?data (with_icache ic' ?s3)" "fs_tree contents (with_icache ic' ?s3) = fs_tree contents s"
        by (rule open_file_assign [where s = ?s3 and h = "h\<lparr>fh_fd := fd\<rparr>" and v = v and fh = fh and ino = ino])
          (use o(1,5,6) ino ic disk(1,2) in \<open>simp_all add: wf_header_def\<close>)
      then show thesis
        using that o(1,3,7) ic(1) disk e(1,2) w ret True set_size_value(1) [OF disk(2), of "[]" ?n] others
        by (simp add: Write_def with_px_def data_frame_def)
    next
      case False
      then have "file_view (fs_state s) ?px v fd ?data"
        unfolding disk(1) by (intro file_view_diskI [OF disk(2,3)])
          (use disk e px_inv above len off(1) buf(2) in \<open>auto simp: px_others_def word_less_nat_alt MAX_RW_COUNT_def\<close>)
      then have "open_file kv contents ok fh key ino ?data ?s3"
        using o ic by (intro open_fileI [of _ _ "h\<lparr>fh_fd := fd\<rparr>"]) simp_all
      then show thesis
        using that o(1,3,7) ic(1,3) disk e(1,2) w ret False others by (simp add: Write_def with_px_def data_frame_def)
    qed
  next
    case (inline hdr name p)
    have out: "of_int (threshold (fs_state s)) < ?n \<longleftrightarrow> nat (threshold (fs_state s)) < unat offset + length buf"
      using threshold_less [OF o(6), of ?n] off(1) by simp
    have th: "length data \<le> nat (threshold (fs_state s))"
      using inline(9) by simp
    show thesis
    proof (cases "of_int (threshold (fs_state s)) < ?n")
      case True
      then have larger: "length ?data = unat ?n"
        using len th out off(1) by simp
      have rw: "can_write (flags OR O_CREAT)" "\<not> flag (flags OR O_CREAT) O_APPEND"
        using rw_flags_creat [of flags] flags by (simp_all add: rw_flags_def)
      obtain fd px f where m: "MigrateToDiskFile (fs_state s) v (-1) flags (fs_px s) = Some ((0, fd, inode_value hdr name []), px)"
        "0 \<le> fd" "fd_lookup fd px = Some (f, flags OR O_CREAT)" "px_links px p = Some f" "px_files px f = data"
        "px_others p (fs_px s) px"
        unfolding inline(1)
        by (rule MigrateToDiskFile_spec [OF inline(2,3,4,6,11,12,13,7), of flags])
          (use inline(9) o(6) rw in \<open>simp_all add: small_threshold_def\<close>)
      let ?px = "px\<lparr>px_files := (px_files px)(f := ?data)\<rparr>" and ?s2 = "with_px px (with_fh fh (h\<lparr>fh_fd := fd\<rparr>) ?s1)"
      let ?hdr = "hdr\<lparr>fstat := (fstat hdr)\<lparr>st_size := ?n\<rparr>, has_blob := 1\<rparr>"
      have w: "posix_pwrite fd buf (sint offset) px = (int (length buf), ?px)"
        using pwrite_open [OF m(3), of "sint offset" buf] rw buf(2) off(2) m(5) by simp
      have above: "threshold (fs_state s) < int (length ?data)"
      proof -
        have "nat (threshold (fs_state s)) < length ?data"
          using larger True out off(1) by simp
        then show ?thesis
          by linarith
      qed
      have others: "px_others p (fs_px s) ?px"
        using px_others_trans [OF m(6) px_others_file] m(4,6) by (simp add: px_others_def)
      have view: "file_view (fs_state s) ?px (inode_value ?hdr name []) fd ?data"
        by (rule file_view_diskI [of _ _ _ _ p _ f])
          (use inline m others above larger off(1) buf(2) flags in
            \<open>auto simp: wf_header_def px_others_def MAX_RW_COUNT_def\<close>)
      obtain ic' where a: "assign_value (fh_handle h) (inode_value ?hdr name []) ?s2 = Some (with_icache ic' ?s2)"
        "fs_inv kv contents ok 1 [fh_handle h \<mapsto> ?g (inode_value ?hdr name [])] (with_icache ic' ?s2)"
        "fs_tree contents (with_icache ic' ?s2) = fs_tree contents ?s2" "fs_frame ?s2 (with_icache ic' ?s2)"
        by (rule assign_value_held [of kv contents ok 1 "fh_handle h" "?g v" ?s2 "inode_value ?hdr name []"])
          (use ic wf_inode_small [OF file_view_wf [OF view]] in simp_all)
      have "open_file kv contents ok fh key ino ?data (with_px ?px (with_icache ic' ?s2))"
        using o ic a view inline(1,2) by (intro open_fileI [of _ _ "h\<lparr>fh_fd := fd\<rparr>"]) (simp_all add: wf_header_def)
      then show thesis
        using that o(1,3,7) ic(1,3) inline m(1) w ret True set_size_value(2) [OF inline(2), of "[]" ?n 1] a(1,3) others
        by (simp add: Write_def data_frame_def)
    next
      case False
      then have small: "int (length ?data) \<le> threshold (fs_state s)"
        using len th out o(6) by (simp add: small_threshold_def le_nat_iff)
      let ?size = "if st_size (fstat hdr) < ?n then ?n else st_size (fstat hdr)"
      let ?hdr = "hdr\<lparr>fstat := (fstat hdr)\<lparr>st_size := ?size\<rparr>\<rparr>"
      have "unat ?size = length ?data"
        using len off(1) inline(4) by (auto simp: word_less_nat_alt)
      then have "file_view (fs_state s) (fs_px s) (inode_value ?hdr name ?data) (-1) ?data"
        by (intro file_view_inlineI [of _ _ _ _ p])
          (use inline small o(6) in \<open>auto simp: wf_header_def small_threshold_def MAX_RW_COUNT_def\<close>)
      then obtain ic' where "assign_value (fh_handle h) (inode_value ?hdr name ?data) ?s1 = Some (with_icache ic' ?s1)"
        "open_file kv contents ok fh key ino ?data (with_icache ic' ?s1)" "fs_tree contents (with_icache ic' ?s1) = fs_tree contents s"
        by (rule open_file_assign [where s = ?s1 and h = h and v = v and ino = ino])
          (use o(1,5,6) ino ic inline(1,2,10) in \<open>simp_all add: wf_header_def\<close>)
      moreover have "UpdateInlineData v buf offset = Some (inode_value hdr name ?data)"
        using UpdateInlineData_value [OF inline(2), of offset data buf] inline(1,3) buf
        by (simp add: UpdateIhandleValue_write_at MAX_RW_COUNT_def)
      ultimately show thesis
        using that o(1,7) ic(1) inline ret False set_size_value(1) [OF inline(2), of ?data ?n]
        by (simp add: Write_def data_frame_def split: if_splits)
    qed
  qed
qed

section \<open>Opening and releasing\<close>

lemma wf_header_fstat: "wf_header (h\<lparr>fstat := a\<rparr>) name = wf_header h name"
  by (simp add: wf_header_def)

text \<open>Closing the descriptor of a file, if it has one.\<close>

lemma close_file_view:
  assumes "file_view st px v fd data"
  obtains px' where "(if fd \<noteq> -1 then posix_close fd px else (0, px)) = (0, px')" "file_view st px' v (-1) data"
    "\<And>p. px_others p px px'"
  using assms
proof (cases rule: file_view_cases)
  case (inline h name p)
  then show thesis
    using that [of px] assms by simp
next
  case (disk h name p f)
  show thesis
  proof (cases "fd = -1")
    case True
    then show thesis
      using that [of px] assms disk(7) by simp
  next
    case False
    then obtain flags where lookup: "fd_lookup fd px = Some (f, flags)"
      using disk(11) by auto
    let ?px = "px\<lparr>px_fds := (px_fds px)[nat fd := None]\<rparr>"
    have "px_others q px ?px" for q
      by (rule px_others_same [OF disk(7)]) simp_all
    moreover have "file_view st ?px v (-1) data"
      unfolding disk(1) by (rule file_view_diskI [OF disk(2-6)]) (use disk calculation in \<open>simp_all add: px_others_def\<close>)
    ultimately show thesis
      using that [of ?px] False lookup by (simp add: posix_close_def)
  qed
qed

lemma file_view_errno: "file_view st (px\<lparr>px_errno := e\<rparr>) v fd data = file_view st px v fd data"
  by (simp add: file_view_def px_inv_def fd_lookup_def)

lemma file_view_frame:
  assumes "fs_frame s s'"
  shows "file_view (fs_state s') (fs_px s') v fd data = file_view (fs_state s) (fs_px s) v fd data"
proof -
  have "file_view (fs_state s) (fs_px s') v fd data = file_view (fs_state s) ((fs_px s')\<lparr>px_errno := 0\<rparr>) v fd data"
    by (simp add: file_view_errno)
  also have "\<dots> = file_view (fs_state s) ((fs_px s)\<lparr>px_errno := 0\<rparr>) v fd data"
    using assms by (simp add: fs_frame_def)
  finally show ?thesis
    using assms by (simp add: file_view_errno fs_frame_def)
qed

lemma px_others_errno: "px\<lparr>px_errno := 0\<rparr> = px'\<lparr>px_errno := 0\<rparr> \<Longrightarrow> px_inv px \<Longrightarrow> px_others p px px'"
  by (cases px; cases px') (simp add: px_others_def px_inv_def file_read_def)

context kv_store
begin

lemma Open_spec:
  assumes inv: "quiet s" and path: "path \<noteq> []" and flags: "rw_flags flags" and small: "small_threshold (fs_state s)"
    and found: "tree_lookup (fs_tree contents s) path = Some (key, v)" and v: "GetAttribute v = Some st"
    and view: "file_view (fs_state s) (fs_px s) v (-1) data"
  obtains s' where "Open kv path flags s = Some ((0, Some (fs_next_fh s)), s')"
    "open_file kv contents ok (fs_next_fh s) key (st_ino st) data s'"
    "data_frame contents (st_ino st) s s'"
proof -
  let ?g = "\<lparr>ih_key = key, ih_value = v, ih_mode = INODE_WRITE\<rparr>"
  obtain s1 ptr ic where s1: "PathLookup kv path s = Some (Some key, s1)" "quiet s1" "fs_same contents s s1"
    "InodeCache_Get kv key INODE_WRITE (fs_icache s1) = Some (Some ptr, ic)"
    "ic_state kv contents ok 1 {} [ptr \<mapsto> ?g] ic" "contents (ic_metadb ic) = contents (ic_metadb (fs_icache s1))"
    by (cases rule: Get_at_path [OF inv path, where mode = INODE_WRITE, case_names 1 2 3]) (use found in auto)
  let ?s2 = "with_icache ic s1" and ?fh = "fs_next_fh s"
  have inv2: "fs_inv kv contents ok 1 [ptr \<mapsto> ?g] ?s2" and "fs_same contents s1 ?s2"
    using with_icache_same [OF s1(2,5,6)] by simp_all
  then have same: "fs_same contents s ?s2"
    using fs_same_trans [OF s1(3)] by blast
  have tree: "tree_ino (fs_tree contents ?s2) key = Some (st_ino st)"
    using found v fs_same_tree [OF same] by (simp add: tree_lookup_Some tree_ino_def)
  have h: "ic_handle ptr ic = Some ?g"
    by (rule ic_state_handle [OF s1(5)]) simp
  have frame: "fs_state s1 = fs_state s" "fs_fuse s1 = fs_fuse s" "fs_next_fh s1 = ?fh" "fs_tree contents ?s2 = fs_tree contents s"
    "(fs_px s)\<lparr>px_errno := 0\<rparr> = (fs_px s1)\<lparr>px_errno := 0\<rparr>"
    using same by (simp_all add: fs_same_def fs_frame_def)
  have px: "px_others p (fs_px s) (fs_px s1)" if "px_inv (fs_px s1)" for p
    using px_others_errno [OF frame(5)] that view by (auto elim: file_view_cases)
  let ?s' = "\<lambda>fd px. with_fh ?fh \<lparr>fh_handle = ptr, fh_flags = flags, fh_fd = fd\<rparr> ((with_px px ?s2)\<lparr>fs_next_fh := ?fh + 1\<rparr>)"
  have opened: "open_file kv contents ok ?fh key (st_ino st) data (?s' fd px)" if "file_view (fs_state s) px v fd data" for fd px
    by (rule open_fileI [of _ _ "\<lparr>fh_handle = ptr, fh_flags = flags, fh_fd = fd\<rparr>"])
      (use that inv2 tree v flags small frame in simp_all)
  have "file_view (fs_state s) (fs_px s1) v (-1) data"
    using file_view_frame [OF fs_same_frame [OF same]] view same by (simp add: fs_same_def fs_frame_def)
  then show thesis
  proof (cases rule: file_view_cases)
    case (inline hdr name p)
    have "Open kv path flags s = Some ((0, Some ?fh), ?s' (-1) (fs_px s1))"
      using s1(1,4) h inline(1,2,8) flags frame by (simp add: Open_def rw_flags_def Let_def)
    moreover have "data_frame contents (st_ino st) s (?s' (-1) (fs_px s1))"
      using px [OF inline(7)] frame(1,2,4) by (simp add: data_frame_def)
    ultimately show thesis
      using opened [OF \<open>file_view (fs_state s) (fs_px s1) v (-1) data\<close>] that by blast
  next
    case (disk hdr name p f)
    obtain fd px where o: "posix_open p (flags OR O_CREAT) (fs_px s1) = (fd, px)" "0 \<le> fd"
      "fd_lookup fd px = Some (f, flags OR O_CREAT)" "px_links px = px_links (fs_px s1)"
      "px_files px = px_files (fs_px s1)" "px_others p (fs_px s1) px"
      by (rule open_existing [OF disk(7,9), of "flags OR O_CREAT"])
        (use flags rw_flags_creat [of flags] in \<open>simp_all add: rw_flags_def\<close>)
    have "Open kv path flags s = Some ((0, Some ?fh), ?s' fd px)"
      using s1(1,4) h disk(1,2,6,8) o flags frame by (simp add: Open_def OpenDiskFile_def rw_flags_def Let_def)
    moreover have "file_view (fs_state s) px v fd data"
      unfolding disk(1) by (rule file_view_diskI [OF disk(2-6)]) (use disk o flags in \<open>auto simp: px_others_def\<close>)
    moreover have "px_others p (fs_px s) px"
      using px [OF disk(7)] o(6) px_others_trans by blast
    ultimately show thesis
      using opened frame disk(1,2,6) v by (intro that [of "?s' fd px"]) (simp_all add: data_frame_def)
  qed
qed

text \<open>
  \<open>Release\<close> closes the file on disk, stamps the inode and writes it to the store; the file it leaves is
  the one that was open.
\<close>

lemma release_open_file:
  assumes "open_file kv contents ok fh key ino data s"
  obtains s' v st where "Release kv env fh s = Some (0, s')" "quiet s'"
    "fs_tree contents s' = (fs_tree contents s)(key \<mapsto> v)" "GetAttribute v = Some st" "st_ino st = ino"
    "st_mtim_sec st = env_time (ce_sys env)" "unat (st_size st) = length data"
    "file_view (fs_state s') (fs_px s') v (-1) data"
    "fs_state s' = fs_state s" "fs_fuse s' = fs_fuse s" "fs_next_fh s' = fs_next_fh s"
    "\<And>p. GetDiskFilePath (fs_state s) ino = Some p \<Longrightarrow> px_others p (fs_px s) (fs_px s')"
proof -
  let ?g = "\<lambda>v. \<lparr>ih_key = key, ih_value = v, ih_mode = INODE_WRITE\<rparr>"
  obtain h v where o: "fs_fhs s fh = Some h" "fs_inv kv contents ok 1 [fh_handle h \<mapsto> ?g v] s"
    "tree_ino (fs_tree contents s) key = Some ino \<and> map_option st_ino (GetAttribute v) = Some ino"
    "file_view (fs_state s) (fs_px s) v (fh_fd h) data" "rw_flags (fh_flags h)" "small_threshold (fs_state s)"
    "ic_handle (fh_handle h) (fs_icache s) = Some (?g v)"
    using assms by (rule open_fileE)
  obtain st where st: "GetAttribute v = Some st" "st_ino st = ino"
    using o(3) by auto
  let ?now = "env_time (ce_sys env)"
  let ?st = "st\<lparr>st_atim_sec := ?now, st_atim_nsec := 0, st_mtim_sec := ?now, st_mtim_nsec := 0\<rparr>"
  let ?v = "UpdateAttribute v ?st"
  have view: "file_view (fs_state s) (fs_px s) ?v (fh_fd h) data"
    by (rule file_view_attr [OF o(4) st(1)]) simp_all
  have attr: "GetAttribute ?v = Some ?st" "unat (st_size st) = length data"
    using o(4) st(1) by (auto elim!: file_view_cases simp: wf_header_fstat)
  obtain ic where ic: "assign_value (fh_handle h) ?v s = Some (with_icache ic s)"
    "fs_inv kv contents ok 1 [fh_handle h \<mapsto> ?g ?v] (with_icache ic s)"
    "fs_tree contents (with_icache ic s) = fs_tree contents s" "fs_frame s (with_icache ic s)"
    using assign_value_held [OF o(2) wf_inode_small [OF file_view_wf [OF view]]] by auto
  obtain px where px: "(if fh_fd h \<noteq> -1 then posix_close (fh_fd h) (fs_px s) else (0, fs_px s)) = (0, px)"
    "file_view (fs_state s) px ?v (-1) data" "\<And>p. px_others p (fs_px s) px"
    using close_file_view [OF view] by blast
  have held: "ic_state kv contents ok 1 {} [fh_handle h \<mapsto> ?g ?v] ic"
    using fs_inv_icache [OF ic(2)] by simp
  obtain ic1 ic2 where ic1: "InodeCache_WriteBack kv (fh_handle h) ic = Some ic1"
    "ic_handle (fh_handle h) ic1 = Some ((?g ?v)\<lparr>ih_mode := INODE_READ\<rparr>)" "InodeCache_Release (fh_handle h) ic1 = Some ic2"
    "ic_state kv contents ok 1 {} Map.empty ic2"
    "contents (ic_metadb ic2) = (contents (ic_metadb ic))(ToSlice key \<mapsto> ?v)"
  proof -
    let ?r = "(?g ?v)\<lparr>ih_mode := INODE_READ\<rparr>"
    obtain ic1 where ic1: "InodeCache_WriteBack kv (fh_handle h) ic = Some ic1"
      "ic_state kv contents ok 1 {} [fh_handle h \<mapsto> ?r] ic1"
      "contents (ic_metadb ic1) = (contents (ic_metadb ic))(ToSlice key \<mapsto> ?v)"
      using InodeCache_WriteBack_write [OF held, of "fh_handle h" "?g ?v"] by auto
    moreover have "ic_handle (fh_handle h) ic1 = Some ?r"
      by (rule ic_state_handle [OF ic1(2)]) simp
    moreover obtain ic2 where "InodeCache_Release (fh_handle h) ic1 = Some ic2"
      "ic_state kv contents ok 1 {} Map.empty ic2" "ic_metadb ic2 = ic_metadb ic1"
      using InodeCache_Release_clean [OF ic1(2), of "fh_handle h" ?r] ic1(3) by (auto simp: clean_def)
    ultimately show thesis
      using that by simp
  qed
  obtain ic3 where ic3: "InodeCache_Evict key ic2 = Some ic3" "ic_state kv contents ok 1 {} Map.empty ic3"
    "ic_metadb ic3 = ic_metadb ic2"
    by (rule InodeCache_Evict_unheld [OF ic1(4), of key]) simp_all
  let ?s = "(with_icache ic3 (with_px px (with_icache ic s)))\<lparr>fs_fhs := (fs_fhs s)(fh := None)\<rparr>"
  have "fs_inv kv contents ok 1 Map.empty (with_icache ic3 (with_icache ic s))"
      "fs_tree contents (with_icache ic3 (with_icache ic s)) = (fs_tree contents s)(key \<mapsto> ?v)"
    using with_icache_upd [OF ic(2) ic3(2), of key ?v] ic1(5) ic3(3) ic(3) o(3) attr(1) st(2) file_view_wf [OF view] by simp_all
  moreover have "with_icache ic3 (with_px px (with_icache ic s)) = with_px px (with_icache ic3 (with_icache ic s))"
    by (simp add: with_px_def with_icache_def)
  ultimately have "quiet ?s" "fs_tree contents ?s = (fs_tree contents s)(key \<mapsto> ?v)"
    using quietI by simp_all
  moreover have "Release kv env fh s = Some (0, ?s)"
    using o(1,7) st(1) ic(1) px(1) ic1(1-3) ic3(1) by (simp add: Release_def Let_def split: if_splits)
  ultimately show thesis
    using attr st(2) px by (intro that [of ?s ?v ?st]) simp_all
qed

end

end
