(* ===== verification/Tablefs_Session.thy ===== *)
theory Tablefs_Session
  imports Tablefs_Data
begin

text \<open>
  Whole sessions on files: any sequence of reads and writes between \<open>Open\<close> and \<open>Release\<close> answers as an
  array of bytes does, whatever moves between the inode and the disk meanwhile; a new file is empty; and
  \<open>Truncate\<close> cuts a file or extends it with zeros, across the same border.
\<close>

section \<open>Reads and writes\<close>

datatype file_op = FRead u64 u64 | FWrite bytes u64

definition file_request :: "nat \<Rightarrow> u32 \<Rightarrow> file_op \<Rightarrow> request" where
  "file_request fh flags op =
     (case op of FRead len offset \<Rightarrow> ReqRead fh len offset | FWrite buf offset \<Rightarrow> ReqWrite fh flags buf offset)"

definition file_bounds :: "file_op \<Rightarrow> bool" where
  "file_bounds op \<longleftrightarrow>
     (case op of
        FRead len offset \<Rightarrow> unat len \<le> MAX_RW_COUNT \<and> unat offset < 2 ^ 62
      | FWrite buf offset \<Rightarrow> buf \<noteq> [] \<and> unat offset + length buf \<le> MAX_RW_COUNT)"

text \<open>The same on an array.\<close>

definition file_reply :: "file_op \<Rightarrow> bytes \<Rightarrow> reply" where
  "file_reply op data =
     (case op of
        FRead len offset \<Rightarrow> let b = take (unat len) (drop (unat offset) data) in (int (length b), BytesData b)
      | FWrite buf offset \<Rightarrow> (int (length buf), NoData))"

definition file_step :: "file_op \<Rightarrow> bytes \<Rightarrow> bytes" where
  "file_step op data = (case op of FRead len offset \<Rightarrow> data | FWrite buf offset \<Rightarrow> write_at (unat offset) buf data)"

primrec file_replies :: "file_op list \<Rightarrow> bytes \<Rightarrow> reply list" where
  "file_replies [] data = []"
| "file_replies (op # ops) data = file_reply op data # file_replies ops (file_step op data)"

definition file_final :: "file_op list \<Rightarrow> bytes \<Rightarrow> bytes" where
  "file_final ops data = fold file_step ops data"

lemma dispatch_file_op:
  assumes o: "open_file kv contents ok fh key ino data s" and "rw_flags flags" "file_bounds op"
  obtains s' where "dispatch kv env (file_request fh flags op) s = Some (file_reply op data, s')"
    "open_file kv contents ok fh key ino (file_step op data) s'" "data_frame contents ino s s'"
proof (cases op)
  case (FRead len offset)
  then show thesis
    using Read_spec [OF o, of len offset] assms(3) that
    by (auto simp: dispatch_def file_request_def file_reply_def file_step_def file_bounds_def)
next
  case (FWrite buf offset)
  then show thesis
    using Write_spec [OF o assms(2), of buf offset] assms(3) that
    by (auto simp: dispatch_def file_request_def file_reply_def file_step_def file_bounds_def reply_int_def)
qed

lemma run_append:
  "run kv (xs @ ys) s =
     do { (rs, s1) \<leftarrow> run kv xs s; (rs', s2) \<leftarrow> run kv ys s1; Some (rs @ rs', s2) }"
proof (induction xs arbitrary: s)
  case (Cons x xs)
  then show ?case
    by (cases "dispatch kv (fst x) (snd x) s") (auto simp: bind_assoc split: prod.split option.split Option.bind_split)
qed (auto simp: split_beta)

lemma data_frame_refl: "open_file kv contents ok fh key ino data s \<Longrightarrow> data_frame contents ino s s"
  by (auto simp: data_frame_def elim!: open_fileE file_view_cases)

lemma run_file_ops:
  assumes "open_file kv contents ok fh key ino data s" "rw_flags flags" "list_all file_bounds ops"
  shows "\<exists>s'. run kv (map (\<lambda>op. (env, file_request fh flags op)) ops) s = Some (file_replies ops data, s') \<and>
    open_file kv contents ok fh key ino (file_final ops data) s' \<and> data_frame contents ino s s'"
  using assms
proof (induction ops arbitrary: data s)
  case Nil
  then show ?case
    using data_frame_refl by (auto simp: file_final_def)
next
  case (Cons op ops)
  obtain s1 where s1: "dispatch kv env (file_request fh flags op) s = Some (file_reply op data, s1)"
    "open_file kv contents ok fh key ino (file_step op data) s1" "data_frame contents ino s s1"
    using dispatch_file_op [OF Cons.prems(1,2), of op] Cons.prems(3) by auto
  obtain s2 where "run kv (map (\<lambda>op. (env, file_request fh flags op)) ops) s1 = Some (file_replies ops (file_step op data), s2)"
    "open_file kv contents ok fh key ino (file_final ops (file_step op data)) s2" "data_frame contents ino s1 s2"
    using Cons.IH [OF s1(2) Cons.prems(2)] Cons.prems(3) by auto
  then show ?case
    using s1 data_frame_trans [OF s1(3)] by (auto simp: file_final_def)
qed

section \<open>Sessions\<close>

definition session :: "call_env \<Rightarrow> bytes \<Rightarrow> u32 \<Rightarrow> nat \<Rightarrow> file_op list \<Rightarrow> (call_env \<times> request) list" where
  "session env path flags fh ops =
     (env, ReqOpen path flags) # map (\<lambda>op. (env, file_request fh flags op)) ops @ [(env, ReqRelease fh)]"

context kv_store
begin

theorem run_session:
  assumes inv: "quiet s" and path: "path \<noteq> []" and flags: "rw_flags flags" and small: "small_threshold (fs_state s)"
    and found: "tree_lookup (fs_tree contents s) path = Some (key, v)" and v: "GetAttribute v = Some st"
    and view: "file_view (fs_state s) (fs_px s) v (-1) data" and ops: "list_all file_bounds ops"
  obtains s' v' st' where
    "run kv (session env path flags (fs_next_fh s) ops) s =
       Some ((0, FileData (fs_next_fh s)) # file_replies ops data @ [(0, NoData)], s')"
    "quiet s'" "fs_tree contents s' = (fs_tree contents s)(key \<mapsto> v')" "GetAttribute v' = Some st'" "st_ino st' = st_ino st"
    "unat (st_size st') = length (file_final ops data)"
    "file_view (fs_state s') (fs_px s') v' (-1) (file_final ops data)" "fs_state s' = fs_state s" "fs_fuse s' = fs_fuse s"
    "\<And>p. GetDiskFilePath (fs_state s) (st_ino st) = Some p \<Longrightarrow> px_others p (fs_px s) (fs_px s')"
proof -
  let ?fh = "fs_next_fh s" and ?final = "file_final ops data"
  obtain s1 where s1: "Open kv path flags s = Some ((0, Some ?fh), s1)"
    "open_file kv contents ok ?fh key (st_ino st) data s1" "data_frame contents (st_ino st) s s1"
    using Open_spec [OF inv path flags small found v view] by auto
  obtain s2 where s2: "run kv (map (\<lambda>op. (env, file_request ?fh flags op)) ops) s1 = Some (file_replies ops data, s2)"
    "open_file kv contents ok ?fh key (st_ino st) ?final s2" "data_frame contents (st_ino st) s1 s2"
    using run_file_ops [OF s1(2) flags ops] by blast
  obtain s' v' st' where s': "Release kv env ?fh s2 = Some (0, s')" "quiet s'"
    "fs_tree contents s' = (fs_tree contents s2)(key \<mapsto> v')" "GetAttribute v' = Some st'" "st_ino st' = st_ino st"
    "unat (st_size st') = length ?final" "file_view (fs_state s') (fs_px s') v' (-1) ?final"
    "fs_state s' = fs_state s2" "fs_fuse s' = fs_fuse s2"
    "\<And>p. GetDiskFilePath (fs_state s2) (st_ino st) = Some p \<Longrightarrow> px_others p (fs_px s2) (fs_px s')"
    using release_open_file [OF s2(2)] by metis
  have frame: "data_frame contents (st_ino st) s s2"
    using data_frame_trans [OF s1(3) s2(3)] .
  have "run kv (session env path flags ?fh ops) s = Some ((0, FileData ?fh) # file_replies ops data @ [(0, NoData)], s')"
    using s1(1) s2(1) s'(1) by (simp add: session_def run_append dispatch_def reply_opt_def reply_int_def)
  moreover have "px_others p (fs_px s) (fs_px s')" if "GetDiskFilePath (fs_state s) (st_ino st) = Some p" for p
    using that frame s'(10) [of p] px_others_trans by (auto simp: data_frame_def)
  ultimately show thesis
    using s' frame by (intro that [of s' v' st']) (simp_all add: data_frame_def)
qed

end

section \<open>New files\<close>

lemma new_file_view:
  assumes "length filename \<le> 4096" "GetDiskFilePath st ino = Some p" "px_inv px" "px_links px p = None"
    "\<not> px_dirs px p" "px_dirs px (dirname p)" "0 \<le> threshold st"
  shows "file_view st px (InitInodeValue env fuse mem ino mode dev filename) (-1) []"
proof -
  obtain h where "InitInodeValue env fuse mem ino mode dev filename = inode_value h filename []" "wf_header h filename"
    "st_ino (fstat h) = ino" "st_size (fstat h) = 0" "has_blob h = 0"
    using InitInodeValue_value [of filename env fuse mem ino mode dev] assms(1) by auto
  then show ?thesis
    using assms by (auto intro: file_view_inlineI)
qed

section \<open>Truncation\<close>

text \<open>
  A file on disk is cut there, or read back into the inode and removed; an inline file is resized, or
  moved to disk and resized there.
\<close>

lemma ftruncate_open:
  assumes "fd_lookup fd px = Some (f, flags)" "can_write flags" "0 \<le> n"
  shows "posix_ftruncate fd n px = (0, px\<lparr>px_files := (px_files px)(f := string_resize (nat n) (px_files px f))\<rparr>)"
  using assms by (simp add: posix_ftruncate_def)

lemma string_resize_take: "n \<le> length data \<Longrightarrow> string_resize n data = take n data"
  by (simp add: string_resize_def)

lemma UpdateIhandleValue_Nil: "UpdateIhandleValue [] buf 0 = buf"
  by (simp add: UpdateIhandleValue_def string_replace_def)

text \<open>Reading a file on disk back and removing it.\<close>

lemma MigrateDiskFileToBuffer_spec:
  assumes "px_inv px" "GetDiskFilePath st ino = Some p" "px_links px p = Some f" "unat n \<le> length (px_files px f)"
    "unat n \<le> MAX_RW_COUNT"
  obtains px' where "MigrateDiskFileToBuffer st ino (string_resize (unat n) mem) n px = Some ((int (unat n), take (unat n) (px_files px f)), px')"
    "px_links px' p = None" "px_others p px px'"
proof -
  obtain fd px1 where o: "posix_open p 0 px = (fd, px1)" "0 \<le> fd" "fd_lookup fd px1 = Some (f, 0)"
    "px_links px1 = px_links px" "px_files px1 = px_files px" "px_others p px px1"
    by (rule open_existing [OF assms(1,3), of 0]) (simp_all add: flag_def)
  have "can_read 0"
    by (simp add: can_read_def O_WRONLY_def)
  then have r: "posix_pread fd (unat n) 0 px1 = ((int (unat n), take (unat n) (px_files px f)), px1)"
    using pread_open [OF o(3), of 0 "unat n"] assms(4,5) o(5) by simp
  let ?px2 = "px1\<lparr>px_fds := (px_fds px1)[nat fd := None]\<rparr>"
  let ?px = "?px2\<lparr>px_links := (px_links px1)(p := None)\<rparr>"
  have c: "posix_close fd px1 = (0, ?px2)"
    using o(3) by (simp add: posix_close_def)
  have u: "posix_unlink p ?px2 = (0, ?px)"
    using o(4) assms(3) by (simp add: posix_unlink_def)
  have "px_others p px1 ?px"
    using o(6) by (auto simp: px_others_def px_inv_def file_read_def)
  then have "px_others p px ?px"
    using px_others_trans [OF o(6)] by blast
  then show thesis
    using assms(2,4) o(1) r c u by (intro that [of ?px]) (simp_all add: MigrateDiskFileToBuffer_def string_resize_def)
qed

context kv_store
begin

text \<open>Storing a new value of the handle that is held.\<close>

lemma commit_value:
  assumes inv: "fs_inv kv contents ok 1 [ptr \<mapsto> \<lparr>ih_key = key, ih_value = v, ih_mode = INODE_WRITE\<rparr>] s" and v': "wf_inode v'"
    and ino: "tree_ino (fs_tree contents s) key = map_option st_ino (GetAttribute v')"
  obtains s1 ic1 ic2 where "assign_value ptr v' (with_px px s) = Some s1" "InodeCache_WriteBack kv ptr (fs_icache s1) = Some ic1"
    "InodeCache_Release ptr ic1 = Some ic2" "quiet (with_icache ic2 s1)"
    "fs_tree contents (with_icache ic2 s1) = (fs_tree contents s)(key \<mapsto> v')"
    "fs_state s1 = fs_state s" "fs_fuse s1 = fs_fuse s" "fs_px s1 = px" "fs_fhs s1 = fs_fhs s" "fs_next_fh s1 = fs_next_fh s"
proof -
  let ?g = "\<lparr>ih_key = key, ih_value = v', ih_mode = INODE_WRITE\<rparr>"
  have inv': "fs_inv kv contents ok 1 [ptr \<mapsto> \<lparr>ih_key = key, ih_value = v, ih_mode = INODE_WRITE\<rparr>] (with_px px s)"
    using inv by simp
  obtain ic where ic: "assign_value ptr v' (with_px px s) = Some (with_icache ic (with_px px s))"
    "fs_inv kv contents ok 1 [ptr \<mapsto> ?g] (with_icache ic (with_px px s))"
    "fs_tree contents (with_icache ic (with_px px s)) = fs_tree contents s"
    using assign_value_held [OF inv' wf_inode_small [OF v']] by auto
  have st: "ic_state kv contents ok 1 {} [ptr \<mapsto> ?g] ic"
    using fs_inv_icache [OF ic(2)] by simp
  obtain ic1 ic2 where c: "InodeCache_WriteBack kv ptr ic = Some ic1" "InodeCache_Release ptr ic1 = Some ic2"
    "ic_state kv contents ok 1 {} Map.empty ic2" "contents (ic_metadb ic2) = (contents (ic_metadb ic))(ToSlice key \<mapsto> v')"
    using commit_handle [OF st] by auto
  have "fs_inv kv contents ok 1 Map.empty (with_icache ic2 (with_icache ic (with_px px s)))"
    "fs_tree contents (with_icache ic2 (with_icache ic (with_px px s))) = (fs_tree contents s)(key \<mapsto> v')"
    using with_icache_upd [OF ic(2) c(3), of key v'] c(4) v' ino ic(3) by simp_all
  then show thesis
    using that [of "with_icache ic (with_px px s)" ic1 ic2] ic c quietI by simp
qed

lemma Truncate_spec:
  assumes inv: "quiet s" and path: "path \<noteq> []" and small: "small_threshold (fs_state s)"
    and found: "tree_lookup (fs_tree contents s) path = Some (key, v)" and v: "GetAttribute v = Some st"
    and view: "file_view (fs_state s) (fs_px s) v (-1) data"
    and n: "unat n \<le> MAX_RW_COUNT" and env: "ce_fd env < 0" "ce_stale env \<noteq> n"
  obtains (result) s' v' st' where "Truncate kv env path n s = Some (0, s')" "quiet s'"
    "fs_tree contents s' = (fs_tree contents s)(key \<mapsto> v')" "GetAttribute v' = Some st'" "st_ino st' = st_ino st"
    "st_size st' = n" "file_view (fs_state s') (fs_px s') v' (-1) (string_resize (unat n) data)" "fs_state s' = fs_state s"
    "\<And>p. GetDiskFilePath (fs_state s) (st_ino st) = Some p \<Longrightarrow> px_others p (fs_px s) (fs_px s')"
proof -
  let ?g = "\<lparr>ih_key = key, ih_value = v, ih_mode = INODE_WRITE\<rparr>" and ?data = "string_resize (unat n) data"
  obtain s1 ptr ic where s1: "PathLookup kv path s = Some (Some key, s1)" "quiet s1" "fs_same contents s s1"
    "InodeCache_Get kv key INODE_WRITE (fs_icache s1) = Some (Some ptr, ic)"
    "ic_state kv contents ok 1 {} [ptr \<mapsto> ?g] ic" "contents (ic_metadb ic) = contents (ic_metadb (fs_icache s1))"
    by (cases rule: Get_at_path [OF inv path, where mode = INODE_WRITE, case_names 1 2 3]) (use found in auto)
  let ?s2 = "with_icache ic s1"
  have inv2: "fs_inv kv contents ok 1 [ptr \<mapsto> ?g] ?s2" and "fs_same contents s1 ?s2"
    using with_icache_same [OF s1(2,5,6)] by simp_all
  then have same: "fs_same contents s ?s2"
    using fs_same_trans [OF s1(3)] by blast
  have tree: "tree_ino (fs_tree contents ?s2) key = Some (st_ino st)"
    using found v fs_same_tree [OF same] by (simp add: tree_lookup_Some tree_ino_def)
  have h: "ic_handle ptr ic = Some ?g"
    by (rule ic_state_handle [OF s1(5)]) simp
  have frame: "fs_state s1 = fs_state s" "fs_tree contents ?s2 = fs_tree contents s"
    "(fs_px s)\<lparr>px_errno := 0\<rparr> = (fs_px s1)\<lparr>px_errno := 0\<rparr>"
    using same by (simp_all add: fs_same_def fs_frame_def)
  have view1: "file_view (fs_state s) (fs_px s1) v (-1) data"
    using file_view_frame [OF fs_same_frame [OF same]] view same by (simp add: fs_same_def fs_frame_def)
  have px1: "px_others p (fs_px s) (fs_px s1)" for p
    using px_others_errno [OF frame(3)] view by (auto elim: file_view_cases)
  have done_with: thesis
    if run: "\<And>s3 ic1 ic2. assign_value ptr v' (with_px px ?s2) = Some s3 \<Longrightarrow> InodeCache_WriteBack kv ptr (fs_icache s3) = Some ic1 \<Longrightarrow>
        InodeCache_Release ptr ic1 = Some ic2 \<Longrightarrow> Truncate kv env path n s = Some (0, with_icache ic2 s3)"
      and view': "file_view (fs_state s) px v' (-1) ?data" and st': "GetAttribute v' = Some st'" "st_ino st' = st_ino st"
      and px: "\<And>p. GetDiskFilePath (fs_state s) (st_ino st) = Some p \<Longrightarrow> px_others p (fs_px s1) px" for v' px st'
  proof -
    have "st_size st' = n"
      using view' st'(1) by (auto elim!: file_view_cases simp: word_unat_eq_iff)
    moreover obtain s3 ic1 ic2 where "assign_value ptr v' (with_px px ?s2) = Some s3"
      "InodeCache_WriteBack kv ptr (fs_icache s3) = Some ic1"
      "InodeCache_Release ptr ic1 = Some ic2" "quiet (with_icache ic2 s3)"
      "fs_tree contents (with_icache ic2 s3) = (fs_tree contents s)(key \<mapsto> v')" "fs_state s3 = fs_state s" "fs_px s3 = px"
      by (rule commit_value [OF inv2 file_view_wf [OF view'], of px]) (use tree st' frame in simp_all)
    ultimately show thesis
      using run st' view' px px_others_trans [OF px1] by (intro result [of "with_icache ic2 s3" v' st']) auto
  qed
  have size: "sint n = int (unat n)"
    using n by (intro sint_small) (simp add: MAX_RW_COUNT_def)
  from view1 show thesis
  proof (cases rule: file_view_cases)
    case (inline h0 name p)
    let ?h = "h0\<lparr>fstat := (fstat h0)\<lparr>st_size := n\<rparr>, has_blob := 0\<rparr>"
    have h0: "fstat h0 = st"
      using inline(1,2) v by simp
    show thesis
    proof (cases "sint n > threshold (fs_state s)")
      case True
      let ?h = "h0\<lparr>fstat := (fstat h0)\<lparr>st_size := n\<rparr>, has_blob := 1\<rparr>" and ?flags = "O_TRUNC OR O_WRONLY"
      have longer: "length data < unat n"
        using True size inline(9) by linarith
      have rw: "can_write (?flags OR O_CREAT)" "\<not> flag (?flags OR O_CREAT) O_APPEND"
        by (simp_all add: can_write_def flag_def O_TRUNC_def O_WRONLY_def O_CREAT_def O_APPEND_def O_ACCMODE_def)
      obtain fd px f where m: "MigrateToDiskFile (fs_state s) v (-1) ?flags (fs_px s1) = Some ((0, fd, inode_value h0 name []), px)"
        "0 \<le> fd" "fd_lookup fd px = Some (f, ?flags OR O_CREAT)" "px_links px p = Some f" "px_files px f = data"
        "px_others p (fs_px s1) px"
        unfolding inline(1) by (rule MigrateToDiskFile_spec [OF inline(2,3,4,6,11,12,13,7), of ?flags])
          (use rw longer n in simp_all)
      have migrate: "MigrateToDiskFile (fs_state s) v (ce_fd env) ?flags (fs_px s1) = Some ((0, fd, inode_value h0 name []), px)"
        using m(1) env(1) by (simp add: MigrateToDiskFile_def)
      let ?px = "px\<lparr>px_files := (px_files px)(f := ?data)\<rparr>"
      let ?px' = "?px\<lparr>px_fds := (px_fds px)[nat fd := None]\<rparr>"
      have t: "posix_ftruncate fd (sint n) px = (0, ?px)"
        using ftruncate_open [OF m(3) rw(1), of "int (unat n)"] m(5) size by simp
      have c: "posix_fsync fd ?px = (0, ?px)" "posix_close fd ?px = (0, ?px')"
        using m(3) by (simp_all add: posix_fsync_def posix_close_def)
      have others: "px_others p (fs_px s1) ?px'"
      proof (rule px_others_trans [OF px_others_trans [OF m(6) px_others_file] px_others_same])
        show "px_inv ?px"
          using px_others_file [of px p f ?data] m(4,6) by (simp add: px_others_def)
      qed (use m(4,6) in \<open>simp_all add: px_others_def\<close>)
      have "file_view (fs_state s) ?px' (inode_value ?h name []) (-1) ?data"
        by (rule file_view_diskI [where p = p and f = f])
          (use inline True size n m(4) others in \<open>simp_all add: wf_header_def MAX_RW_COUNT_def px_others_def\<close>)
      moreover have "set_size (inode_value h0 name []) n (Some 1) = Some (inode_value ?h name [])"
        using set_size_value(2) [OF inline(2)] .
      moreover have "st_size st \<noteq> n"
        using longer inline(4) h0 by auto
      ultimately show thesis
        by (intro done_with [of "inode_value ?h name []" ?px' "st\<lparr>st_size := n\<rparr>"])
          (use inline(2,6) others h0 in \<open>auto simp: Truncate_def Let_def wf_header_def s1(1,4) h inline(1,2,8) True frame
            migrate [unfolded inline(1)] t c\<close>)
    next
      case False
      have "TruncateInlineData v n = Some (inode_value h0 name ?data)"
        using TruncateInlineData_value [OF inline(2), of n data] inline(1,3) n by (simp add: MAX_RW_COUNT_def)
      moreover have "file_view (fs_state s) (fs_px s1) (inode_value ?h name ?data) (-1) ?data"
        by (rule file_view_inlineI [where p = p])
          (use inline False size n in \<open>simp_all add: wf_header_def MAX_RW_COUNT_def\<close>)
      moreover have "set_size (inode_value h0 name ?data) n (Some 0) = Some (inode_value ?h name ?data)"
        using set_size_value(2) [OF inline(2)] .
      moreover have "inode_value h0 name ?data = inode_value ?h name ?data" if "n = st_size (fstat h0)"
        using that inline(8) by (cases h0) simp
      ultimately show thesis
        by (intro done_with [of "inode_value ?h name ?data" "fs_px s1" "st\<lparr>st_size := n\<rparr>"])
          (use inline(2,7) h0 in \<open>auto simp: Truncate_def Let_def wf_header_def s1(1,4) h inline(1,2,8) False frame env(2) env(2) [symmetric]\<close>)
    qed
  next
    case (disk h0 name p f)
    have h0: "fstat h0 = st"
      using disk(1,2) v by simp
    show thesis
    proof (cases "sint n > threshold (fs_state s)")
      case True
      let ?h = "h0\<lparr>fstat := (fstat h0)\<lparr>st_size := n\<rparr>, has_blob := 1\<rparr>"
      let ?px = "(fs_px s1)\<lparr>px_files := (px_files (fs_px s1))(f := ?data)\<rparr>"
      have t: "TruncateDiskFile (fs_state s) (st_ino (fstat h0)) n (fs_px s1) = Some (0, ?px)"
        using disk(6,9,10) size by (simp add: TruncateDiskFile_def posix_truncate_def)
      have others: "px_others p (fs_px s1) ?px"
        using px_others_file [OF disk(7,9)] .
      have view: "file_view (fs_state s) ?px (inode_value h name []) (-1) ?data"
        if "h = h0 \<and> n = st_size st \<or> h = ?h" for h
        by (rule file_view_diskI [where p = p and f = f])
          (use that disk True size n others h0 in \<open>auto simp: wf_header_def MAX_RW_COUNT_def px_others_def\<close>)
      show thesis
      proof (cases "n = st_size st")
        case eq: True
        show thesis
          by (rule done_with [OF _ view [of h0], of st])
            (use disk(2,6) others in \<open>simp_all add: Truncate_def Let_def s1(1,4) h disk(1,2,8) True frame t [unfolded h0]
              h0 eq [symmetric]\<close>)
      next
        case neq: False
        show thesis
          by (rule done_with [OF _ view [of ?h], of "st\<lparr>st_size := n\<rparr>"])
            (use disk(2,6) others h0 neq set_size_value(2) [OF disk(2), of "[]" n 1] in
              \<open>auto simp: Truncate_def Let_def wf_header_def s1(1,4) h disk(1,2,8) True frame t\<close>)
      qed
    next
      case False
      let ?h = "h0\<lparr>fstat := (fstat h0)\<lparr>st_size := n\<rparr>, has_blob := 0\<rparr>"
      have shorter: "unat n < length data"
        using False size disk(12) by linarith
      obtain px where m: "MigrateDiskFileToBuffer (fs_state s) (st_ino (fstat h0)) (string_resize (unat n) (ce_mem env)) n (fs_px s1) =
          Some ((int (unat n), ?data), px)" "px_links px p = None" "px_others p (fs_px s1) px"
        using MigrateDiskFileToBuffer_spec [OF disk(7,6,9), of n "ce_mem env"] shorter n disk(10)
        by (auto simp: string_resize_take)
      have u: "UpdateInlineData v ?data 0 = Some (inode_value h0 name ?data)"
        using UpdateInlineData_value [OF disk(2), of 0 "[]" ?data] disk(1,3) by (simp add: UpdateIhandleValue_Nil)
      have "file_view (fs_state s) px (inode_value ?h name ?data) (-1) ?data"
        by (rule file_view_inlineI [where p = p])
          (use disk False size n m(2,3) in \<open>simp_all add: wf_header_def MAX_RW_COUNT_def px_others_def\<close>)
      moreover have "set_size (inode_value h0 name ?data) n (Some 0) = Some (inode_value ?h name ?data)"
        using set_size_value(2) [OF disk(2)] .
      moreover have "st_size st \<noteq> n" "0 \<le> sint n"
        using shorter disk(4) h0 size by auto
      ultimately show thesis
        by (intro done_with [of "inode_value ?h name ?data" px "st\<lparr>st_size := n\<rparr>"])
          (use disk(2,6) m(3) h0 in \<open>auto simp: Truncate_def Let_def wf_header_def s1(1,4) h disk(1,2,8) False frame
            m(1) u [unfolded disk(1)] env(2) env(2) [symmetric]\<close>)
    qed
  qed
qed

section \<open>Removing and renaming files\<close>

lemma file_view_size:
  assumes "file_view fss px v fd data" "GetAttribute v = Some st"
  shows "sint (st_size st) = int (length data)"
proof -
  have "unat (st_size st) = length data" "length data < 2 ^ 31"
    using assms by (auto elim!: file_view_cases)
  then show ?thesis
    by (subst sint_small) simp_all
qed

lemma file_view_renamed:
  assumes "file_view fss px v (-1) data" "length filename \<le> 4096" "InitInodeValue_renamed v filename = Some v'"
  shows "file_view fss px v' (-1) data" "GetAttribute v' = GetAttribute v"
    "take (length filename) (drop TFS_INODE_HEADER_SIZE v') = filename"
proof -
  have *: "v' = inode_value (h\<lparr>namelen := of_nat (length filename)\<rparr>) filename inl"
    "wf_header (h\<lparr>namelen := of_nat (length filename)\<rparr>) filename"
    if "v = inode_value h name inl" "wf_header h name" "length name \<le> 4096" for h name inl
    using that assms(2,3) InitInodeValue_renamed_value [of h name filename inl]
    by (simp_all add: wf_header_def unat_of_nat take_bit_nat_eq_self)
  have name: "take (length filename) (drop TFS_INODE_HEADER_SIZE (inode_value h filename inl)) = filename"
    if "wf_header h filename" for h inl
    using that by (simp add: inode_value_def wf_header_def TFS_INODE_HEADER_SIZE_def)
  from assms(1) show "file_view fss px v' (-1) data"
  proof (cases rule: file_view_cases)
    case (inline h name p)
    show ?thesis
      unfolding *(1) [OF inline(1-3)] by (rule file_view_inlineI [where p = p]) (use inline * [OF inline(1-3)] assms(2) in simp_all)
  next
    case (disk h name p f)
    show ?thesis
      unfolding *(1) [OF disk(1-3)] by (rule file_view_diskI [where p = p and f = f]) (use disk * [OF disk(1-3)] assms(2) in simp_all)
  qed
  obtain h name inl where "v = inode_value h name inl" "wf_header h name" "length name \<le> 4096"
    using assms(1) by (auto elim!: file_view_cases)
  then show "GetAttribute v' = GetAttribute v" "take (length filename) (drop TFS_INODE_HEADER_SIZE v') = filename"
    using * [of h name inl] name by simp_all
qed

text \<open>\<open>Unlink\<close> removes the file on disk together with its inode.\<close>

lemma unlink_file:
  assumes inv: "quiet s" and path: "path \<noteq> []" and room: "length (datadir (fs_state s)) \<le> 100"
    and found: "tree_lookup (fs_tree contents s) path = Some (key, v)" and v: "GetAttribute v = Some st"
    and view: "file_view (fs_state s) (fs_px s) v (-1) data" and p: "GetDiskFilePath (fs_state s) (st_ino st) = Some p"
  obtains s' where "Unlink kv path s = Some (0, s')" "quiet s'" "fs_tree contents s' = (fs_tree contents s)(key := None)"
    "file_read p (fs_px s') = None" "px_others p (fs_px s) (fs_px s')"
proof (cases rule: Unlink_spec [OF inv path room, case_names missing found])
  case (missing s')
  then show thesis
    using found by simp
next
  case (found s' key' v' st' fpath)
  have eq: "key' = key" "v' = v" "st' = st" "fpath = p"
    using found(3-5) assms(4) v p by auto
  have px: "(fs_px s')\<lparr>px_errno := 0\<rparr> =
      (if threshold (fs_state s) < sint (st_size st) then snd (posix_unlink p (fs_px s)) else fs_px s)\<lparr>px_errno := 0\<rparr>"
    using found(7) by (simp add: fs_frame_def eq split: if_splits)
  from view show thesis
  proof (cases rule: file_view_cases)
    case (inline h name p')
    have "sint (st_size st) = int (length data)" "p' = p"
      using file_view_size [OF view v] inline(1,2,6) v p by auto
    then have "(fs_px s)\<lparr>px_errno := 0\<rparr> = (fs_px s')\<lparr>px_errno := 0\<rparr>"
      using px inline(9) by simp
    moreover have "file_read p (fs_px s) = None"
      using inline(11) \<open>p' = p\<close> by (simp add: file_read_def)
    ultimately show thesis
      using that [of s'] found(1,2,6) eq px_others_errno [OF _ inline(7)] by (cases "fs_px s"; cases "fs_px s'") (simp add: file_read_def)
  next
    case (disk h name p' f)
    have "sint (st_size st) = int (length data)" "p' = p"
      using file_view_size [OF view v] disk(1,2,6) v p by auto
    then have px: "(fs_px s')\<lparr>px_errno := 0\<rparr> = (fs_px s)\<lparr>px_links := (px_links (fs_px s))(p := None), px_errno := 0\<rparr>"
      using px disk(9,12) by (simp add: posix_unlink_def)
    then have "file_read p (fs_px s') = None"
      by (cases "fs_px s'"; cases "fs_px s") (simp add: file_read_def)
    moreover have "px_others p (fs_px s) (fs_px s')"
      using px disk(7) by (cases "fs_px s'"; cases "fs_px s") (auto simp: px_others_def px_inv_def file_read_def)
    ultimately show thesis
      using that [of s'] found(1,2,6) eq by simp
  qed
qed

text \<open>A renamed file keeps its data, and its inode gets the new name.\<close>

lemma rename_file:
  assumes inv: "quiet s" and paths: "old_path \<noteq> []" "new_path \<noteq> []" "length new_path \<le> 4096"
    and differ: "resolve (fs_tree contents s) old_path \<noteq> Some new_key"
    and old: "tree_lookup (fs_tree contents s) old_path = Some (old_key, v)"
    and new: "resolve (fs_tree contents s) new_path = Some new_key"
    and view: "file_view (fs_state s) (fs_px s) v (-1) data"
  obtains s' v' where "Rename kv old_path new_path s = Some (0, s')" "quiet s'"
    "fs_tree contents s' = (fs_tree contents s)(old_key := None, new_key \<mapsto> v')"
    "GetAttribute v' = GetAttribute v" "file_view (fs_state s') (fs_px s') v' (-1) data"
    "take (length (path_name new_path)) (drop TFS_INODE_HEADER_SIZE v') = path_name new_path"
proof (rule Rename_spec [OF inv paths])
  show "resolve (fs_tree contents s) old_path \<noteq> resolve (fs_tree contents s) new_path"
    using differ new by simp
next
  fix s' k k' w w'
  assume *: "Rename kv old_path new_path s = Some (0, s')" "quiet s'" "fs_frame s s'"
    "tree_lookup (fs_tree contents s) old_path = Some (k, w)" "resolve (fs_tree contents s) new_path = Some k'"
    "InitInodeValue_renamed w (path_name new_path) = Some w'"
    "fs_tree contents s' = (fs_tree contents s)(k := None, k' \<mapsto> w')"
  have "InitInodeValue_renamed v (path_name new_path) = Some w'" "length (path_name new_path) \<le> 4096"
    using *(4,6) old length_path_name [OF paths(2)] paths(3) by simp_all
  then show thesis
    using that [of s' w'] * old new file_view_renamed [OF view, of "path_name new_path" w'] file_view_frame [OF *(3)]
    by simp
qed (use old new in simp)

end

end
