(* ===== verification/Tablefs_Dir.thy ===== *)
theory Tablefs_Dir
  imports Tablefs_Main
begin

text \<open>
  Listing a directory.  On a store that keeps its keys in order, the entries of a directory are
  neighbours, so that \<open>ReadDir\<close>, which stops at the first key of another directory, finds all of them.
  In the root directory it starts one hash later, and passes over every entry whose hash has a lowest
  byte of zero.
\<close>

section \<open>Keys of one directory\<close>

lemma bytes_less_eq_take: "bytes_less_eq xs ys \<Longrightarrow> bytes_less_eq (take n xs) (take n ys)"
proof (induction xs ys arbitrary: n rule: bytes_less_eq.induct)
  case (3 x xs y ys)
  then show ?case
    by (cases n) auto
qed auto

lemma bytes_less_eq_append: "bytes_less_eq (p @ xs) (p @ ys) \<longleftrightarrow> bytes_less_eq xs ys"
  by (induction p) auto

lemma bytes_less_eq_zeros: "bytes_less_eq (replicate (length ys) 0) ys"
proof (induction ys)
  case (Cons y ys)
  then show ?case
    by (cases "y = 0") (auto simp: word_gt_0)
qed simp

text \<open>After the target of a seek the keys with its prefix come first.\<close>

lemma takeWhile_prefix:
  assumes "sorted_wrt (\<lambda>k k'. k \<noteq> k' \<and> bytes_less_eq k k') (map fst es)" "\<forall>e \<in> set es. bytes_less_eq target (fst e)"
  shows "takeWhile (\<lambda>e. take n (fst e) = take n target) es = filter (\<lambda>e. take n (fst e) = take n target) es"
  using assms
proof (induction es)
  case (Cons e es)
  show ?case
  proof (cases "take n (fst e) = take n target")
    case False
    have "take n (fst e') \<noteq> take n target" if "e' \<in> set es" for e'
    proof
      assume eq: "take n (fst e') = take n target"
      have "bytes_less_eq (take n target) (take n (fst e))" "bytes_less_eq (take n (fst e)) (take n (fst e'))"
        using Cons.prems that by (auto intro: bytes_less_eq_take)
      then show False
        using False eq bytes_less_eq_antisym by metis
    qed
    then show ?thesis
      using False by (simp add: filter_empty_conv)
  qed (use Cons in simp)
qed simp

lemma strict_sorted_distinct: "sorted_wrt (\<lambda>k k'. k \<noteq> k' \<and> bytes_less_eq k k') ks \<Longrightarrow> distinct ks"
  by (induction ks) auto

lemma le_bytes_zero: "le_bytes n 0 = replicate n 0"
  by (induction n) simp_all

lemma le_bytes_one: "le_bytes (Suc n) (1 :: u64) = 1 # replicate n 0"
  by (simp add: le_bytes_zero drop_bit_Suc [of 7] numeral_eq_Suc)

text \<open>The key from which \<open>ReadDir\<close> starts, and the keys of the directory that come after it.\<close>

definition first_key :: "u64 \<Rightarrow> tfs_meta_key_t" where
  "first_key ino = BuildMetaKey ino (if ino = ROOT_INODE_ID then 1 else 0)"

definition listed :: "u64 \<Rightarrow> tfs_meta_key_t \<Rightarrow> bool" where
  "listed ino key \<longleftrightarrow> inode_id key = ino \<and> (ino = ROOT_INODE_ID \<longrightarrow> (ucast (hash_id key) :: byte) \<noteq> 0)"

lemma first_key_less_eq:
  assumes "inode_id key = ino"
  shows "bytes_less_eq (ToSlice (first_key ino)) (ToSlice key) \<longleftrightarrow> listed ino key"
proof -
  have hash: "le_bytes 8 (hash_id key) = ucast (hash_id key) # le_bytes 7 (drop_bit 8 (hash_id key))"
    by (simp add: numeral_eq_Suc)
  have "bytes_less_eq (replicate 7 0) (le_bytes 7 (drop_bit 8 (hash_id key)))"
    using bytes_less_eq_zeros [of "le_bytes 7 (drop_bit 8 (hash_id key))"] by simp
  moreover have "(1 :: byte) < x \<or> 1 = x \<longleftrightarrow> x \<noteq> 0" for x
    by (auto simp: word_less_nat_alt word_unat_eq_iff)
  ultimately have "bytes_less_eq (le_bytes 8 (1 :: u64)) (le_bytes 8 (hash_id key)) \<longleftrightarrow> (ucast (hash_id key) :: byte) \<noteq> 0"
    using le_bytes_one [of 7] hash by auto
  moreover have "bytes_less_eq (le_bytes 8 (0 :: u64)) (le_bytes 8 (hash_id key))"
    using bytes_less_eq_zeros [of "le_bytes 8 (hash_id key)"] by (simp add: le_bytes_zero)
  ultimately show ?thesis
    using assms by (simp add: first_key_def BuildMetaKey_def ToSlice_def listed_def bytes_less_eq_append)
qed

text \<open>The key that a slice of 16 bytes holds.\<close>

definition slice_key :: "bytes \<Rightarrow> tfs_meta_key_t" where
  "slice_key k = BuildMetaKey (le_word (take 8 k)) (le_word (drop 8 k))"

lemma slice_key_ToSlice [simp]: "slice_key (ToSlice key) = key"
  by (cases key) (simp add: slice_key_def ToSlice_def BuildMetaKey_def bytes_simps)

lemma ToSlice_slice_key [simp]: "length k = 16 \<Longrightarrow> ToSlice (slice_key k) = k"
  using le_bytes_le_word [of "take 8 k", where 'a = 64] le_bytes_le_word [of "drop 8 k", where 'a = 64]
  by (simp add: slice_key_def ToSlice_def BuildMetaKey_def)

lemma slice_entries:
  assumes "\<forall>(k, v) \<in> set es. length k = 16"
  shows "(key, v) \<in> set (map (\<lambda>(k, v). (slice_key k, v)) es) \<longleftrightarrow> (ToSlice key, v) \<in> set es"
proof -
  have "key = slice_key k \<longleftrightarrow> k = ToSlice key" if "length k = 16" for k
    using that by auto
  then show ?thesis
    using assms by (induction es) auto
qed

lemma inode_id_slice_key: "inode_id (slice_key k) = le_word (take 8 k)"
  by (simp add: slice_key_def BuildMetaKey_def)

lemma take_ToSlice: "take 8 (ToSlice key) = le_bytes 8 (inode_id key)"
  by (simp add: ToSlice_def)

section \<open>The loop\<close>

definition entry_name :: "bytes \<Rightarrow> bytes" where
  "entry_name v = takeWhile (\<lambda>c. c \<noteq> 0) (drop TFS_INODE_HEADER_SIZE v)"

lemma ReadDir_loop_accepting:
  assumes "\<forall>(k, v) \<in> set iter. 16 \<le> length k \<and> TFS_INODE_HEADER_SIZE \<le> length v" and "\<And>ns n. 0 \<le> filler ns n"
  shows "ReadDir_loop filler childkey iter names =
    Some (0, names @ filter (\<lambda>n. n \<noteq> []) (map (entry_name \<circ> snd)
      (takeWhile (\<lambda>e. le_word (take 8 (fst e)) = inode_id childkey) iter)))"
  using assms(1)
proof (induction iter arbitrary: names)
  case (Cons e iter)
  have "\<not> filler ns n < 0" for ns n
    using assms(2) [of ns n] by simp
  then show ?case
    using Cons by (cases e) (auto simp: IsKeyInDir_def entry_name_def Let_def)
qed simp

section \<open>A directory session\<close>

context ordered_kv_store
begin

lemma ReadDir_spec:
  assumes inv: "fs_inv kv contents ok n held s" and h: "held fh = Some h" "GetAttribute (ih_value h) = Some st"
    and keys: "\<forall>k. contents (fs_metadb s) k \<noteq> None \<longrightarrow> length k = 16" and filler: "\<And>ns n. 0 \<le> filler ns n"
  obtains s' entries where
    "ReadDir kv filler fh s =
       Some ((0, [cstr ''.'', cstr ''..''] @ filter (\<lambda>n. n \<noteq> []) (map (entry_name \<circ> snd) entries)), s')"
    "fs_inv kv contents ok n held s'" "fs_same contents s s'" "distinct (map fst entries)"
    "set entries = {(key, v). fs_tree contents s key = Some v \<and> listed (st_ino st) key}"
proof -
  let ?ino = "st_ino st" and ?db = "fs_metadb s"
  let ?target = "ToSlice (first_key ?ino)" and ?seek = "kv_Seek kv (ToSlice (first_key ?ino)) (fs_metadb s)"
  have okdb: "ok ?db"
    using ic_state_ok [OF fs_inv_icache [OF inv]] by (simp add: fs_metadb_def)
  have seek: "set (fst ?seek) = {(k, v). contents ?db k = Some v \<and> bytes_less_eq ?target k}"
    "sorted_wrt (\<lambda>k k'. k \<noteq> k' \<and> bytes_less_eq k k') (map fst (fst ?seek))"
    "ok (snd ?seek)" "contents (snd ?seek) = contents ?db"
    using seek_entries [OF okdb] seek_sorted [OF okdb] seek_state [OF okdb] by simp_all
  let ?in_dir = "\<lambda>k. le_word (take 8 k) = ?ino"
  have in_dir: "?in_dir (ToSlice key) \<longleftrightarrow> inode_id key = ?ino" for key
    by (simp add: ToSlice_def bytes_simps)
  have len: "length k = 16" if "(k, v) \<in> set (fst ?seek)" for k v
    using that seek(1) keys by auto
  have prefix: "?in_dir k \<longleftrightarrow> take 8 k = take 8 ?target" if "k \<in> set (map fst (fst ?seek))" for k
  proof -
    have "k = ToSlice (slice_key k)"
      using that len by auto
    then show ?thesis
      by (metis take_ToSlice inode_id_slice_key slice_key_ToSlice first_key_def BuildMetaKey_def tfs_meta_key_t.select_convs(1))
  qed
  let ?es = "filter (\<lambda>e. ?in_dir (fst e)) (fst ?seek)"
  have "takeWhile (\<lambda>e. ?in_dir (fst e)) (fst ?seek) = takeWhile (\<lambda>e. take 8 (fst e) = take 8 ?target) (fst ?seek)"
    using prefix by (intro takeWhile_cong) auto
  also have "\<dots> = filter (\<lambda>e. take 8 (fst e) = take 8 ?target) (fst ?seek)"
    using seek(1) by (intro takeWhile_prefix [OF seek(2)]) auto
  also have "\<dots> = ?es"
    using prefix by (intro filter_cong) auto
  finally have es: "takeWhile (\<lambda>e. ?in_dir (fst e)) (fst ?seek) = ?es" .
  let ?entries = "map (\<lambda>(k, v). (slice_key k, v)) ?es"
  have "TFS_INODE_HEADER_SIZE \<le> length v" if "(k, v) \<in> set (fst ?seek)" for k v
  proof -
    have "fs_tree contents s (slice_key k) = Some v"
      using that seek(1) len [OF that] by (simp add: fs_tree_def)
    then show ?thesis
      using fs_inv_wf [OF inv, of "slice_key k" v] by (auto simp: wf_inode_def TFS_INODE_HEADER_SIZE_def wf_header_def)
  qed
  then have "ReadDir_loop filler (first_key ?ino) (fst ?seek) names =
      Some (0, names @ filter (\<lambda>n. n \<noteq> []) (map (entry_name \<circ> snd) ?es))" for names
    using len es by (subst ReadDir_loop_accepting [OF _ filler]) (auto simp: first_key_def BuildMetaKey_def)
  moreover have "\<not> filler ns n < 0" for ns n
    using filler [of ns n] by simp
  moreover have "BuildMetaKey ?ino (if ?ino = ROOT_INODE_ID then 1 else 0) = first_key ?ino"
    by (simp add: first_key_def)
  ultimately have "ReadDir kv filler fh s =
      Some ((0, [cstr ''.'', cstr ''..''] @ filter (\<lambda>n. n \<noteq> []) (map (entry_name \<circ> snd) ?es)), with_metadb (snd ?seek) s)"
    using ic_state_handle [OF fs_inv_icache [OF inv] h(1)] h(2)
    by (simp only: ReadDir_def Let_def Option.bind.bind_lunit if_False case_prod_beta) simp
  moreover have "map (entry_name \<circ> snd) ?entries = map (entry_name \<circ> snd) ?es"
    by simp
  ultimately have "ReadDir kv filler fh s =
      Some ((0, [cstr ''.'', cstr ''..''] @ filter (\<lambda>n. n \<noteq> []) (map (entry_name \<circ> snd) ?entries)), with_metadb (snd ?seek) s)"
    by (simp only:)
  moreover have "distinct (map fst ?entries)"
  proof -
    have "distinct (map fst ?es)"
      using seek(2) by (simp add: distinct_map_filter strict_sorted_distinct)
    moreover have "inj_on slice_key (fst ` set ?es)"
      using len by (intro inj_on_inverseI [of _ ToSlice]) auto
    moreover have "map fst ?entries = map slice_key (map fst ?es)"
      by (simp add: comp_def case_prod_beta)
    ultimately show ?thesis
      by (simp only: distinct_map [of slice_key] set_map)
  qed
  moreover have "set ?entries = {(key, v). fs_tree contents s key = Some v \<and> listed ?ino key}"
  proof (intro set_eqI, clarify)
    fix key v
    have "(key, v) \<in> set ?entries \<longleftrightarrow> (ToSlice key, v) \<in> set ?es"
      using len by (intro slice_entries) auto
    also have "\<dots> \<longleftrightarrow> fs_tree contents s key = Some v \<and> listed ?ino key"
      using seek(1) first_key_less_eq [of key ?ino] by (auto simp: fs_tree_def in_dir listed_def)
    finally show "(key, v) \<in> set ?entries \<longleftrightarrow> (key, v) \<in> {(key, v). fs_tree contents s key = Some v \<and> listed ?ino key}"
      by simp
  qed
  ultimately show thesis
    using with_metadb_same [OF inv seek(3,4)] that by blast
qed

text \<open>
  Open, read, release: every entry of the directory is listed once, after the two that every directory
  has.
\<close>

theorem run_list_directory:
  assumes inv: "quiet s" and path: "path \<noteq> []" and found: "tree_lookup (fs_tree contents s) path = Some (key, v)"
    and v: "GetAttribute v = Some st"
    and keys: "\<forall>k. contents (fs_metadb s) k \<noteq> None \<longrightarrow> length k = 16" and filler: "\<And>ns n. 0 \<le> filler ns n"
  obtains s' fh entries where
    "run kv [(env, ReqOpendir path), (env, ReqReaddir fh filler), (env, ReqReleasedir fh)] s =
       Some ([(0, DirData fh),
              (0, NamesData ([cstr ''.'', cstr ''..''] @ filter (\<lambda>n. n \<noteq> []) (map (entry_name \<circ> snd) entries))),
              (0, NoData)], s')"
    "quiet s'" "fs_same contents s s'" "distinct (map fst entries)"
    "set entries = {(key, v). fs_tree contents s key = Some v \<and> listed (st_ino st) key}"
proof -
  let ?g = "\<lparr>ih_key = key, ih_value = v, ih_mode = INODE_READ\<rparr>"
  obtain s1 ptr ic where s1: "PathLookup kv path s = Some (Some key, s1)" "quiet s1" "fs_same contents s s1"
    "InodeCache_Get kv key INODE_READ (fs_icache s1) = Some (Some ptr, ic)"
    "ic_state kv contents ok 1 {} [ptr \<mapsto> ?g] ic" "contents (ic_metadb ic) = contents (ic_metadb (fs_icache s1))"
    by (cases rule: Get_at_path [OF inv path, where mode = INODE_READ, case_names 1 2 3]) (use found in auto)
  let ?s2 = "with_icache ic s1"
  have s2: "fs_inv kv contents ok 1 [ptr \<mapsto> ?g] ?s2" "fs_same contents s ?s2"
    using with_icache_same [OF s1(2,5,6)] fs_same_trans [OF s1(3)] by auto
  have keys2: "\<forall>k. contents (fs_metadb ?s2) k \<noteq> None \<longrightarrow> length k = 16"
    using keys fs_same_contents [OF s2(2)] by simp
  obtain s3 entries where s3: "ReadDir kv filler ptr ?s2 =
       Some ((0, [cstr ''.'', cstr ''..''] @ filter (\<lambda>n. n \<noteq> []) (map (entry_name \<circ> snd) entries)), s3)"
    "fs_inv kv contents ok 1 [ptr \<mapsto> ?g] s3" "fs_same contents ?s2 s3" "distinct (map fst entries)"
    "set entries = {(key, v). fs_tree contents ?s2 key = Some v \<and> listed (st_ino st) key}"
    by (rule ReadDir_spec [OF s2(1) _ _ keys2 filler, of ptr ?g st]) (use v in simp_all)
  have same: "fs_same contents s s3"
    using fs_same_trans [OF s2(2) s3(3)] .
  have "clean (contents (ic_metadb (fs_icache s3))) ?g"
    using found fs_same_tree [OF same] by (auto simp: clean_def tree_lookup_Some fs_tree_def fs_metadb_def fun_eq_iff)
  then obtain ic3 where ic3: "InodeCache_Release ptr (fs_icache s3) = Some ic3" "ic_state kv contents ok 1 {} Map.empty ic3"
    "ic_metadb ic3 = ic_metadb (fs_icache s3)"
    using InodeCache_Release_clean [OF fs_inv_icache [OF s3(2)], of ptr ?g] by auto
  have s4: "quiet (with_icache ic3 s3)" "fs_same contents s (with_icache ic3 s3)"
    using with_icache_same [OF s3(2) ic3(2)] ic3(3) quietI fs_same_trans [OF same] by auto
  have "run kv [(env, ReqOpendir path), (env, ReqReaddir ptr filler), (env, ReqReleasedir ptr)] s =
       Some ([(0, DirData ptr),
              (0, NamesData ([cstr ''.'', cstr ''..''] @ filter (\<lambda>n. n \<noteq> []) (map (entry_name \<circ> snd) entries))),
              (0, NoData)], with_icache ic3 s3)"
    using s1(1,4) s3(1) ic3(1) ic_state_handle [OF fs_inv_icache [OF s3(2)], of ptr ?g]
    by (simp add: dispatch_def reply_opt_def reply_int_def OpenDir_def ReleaseDir_def Let_def)
  then show thesis
    using s4 s3(4,5) fs_same_tree [OF s2(2)] by (intro that [of ptr entries]) simp_all
qed

end

end
