(* ===== verification/Fs_Wrapper.thy ===== *)
theory Fs_Wrapper
  imports Tablefs_Session Tablefs_Dir
begin

text \<open>
  The file system as a library, \<open>fs/fswrapper.cpp\<close>: \<open>TableFSWrapper\<close> gives the handlers descriptors with
  a position, as the system calls have.  An operation is \<open>None\<close> where it reads a descriptor outside the
  arrays, as well as where a handler is.  What the program writes to \<open>/dev/null\<close> and to \<open>stderr\<close> is left
  out.  The functions \<open>ReadDir\<close> calls back for every name return no value; what their callers find is the
  parameter \<open>fill\<close>.
\<close>

section \<open>Descriptors\<close>

definition O_RDONLY :: u32 where
  "O_RDONLY = 0"

definition FDLIMIT :: nat where
  "FDLIMIT = 128"

record 'db TableFSWrapper =
  fw_fs :: "'db TableFS"
  fw_fis :: "(u32 \<times> nat option) list"
  fw_paths :: "bytes list"
  fw_offsets :: "u64 list"
  fw_freefd :: "bool list"

definition fw_size :: "'db TableFSWrapper \<Rightarrow> bool" where
  "fw_size w \<longleftrightarrow>
     length (fw_fis w) = FDLIMIT \<and> length (fw_paths w) = FDLIMIT \<and> length (fw_offsets w) = FDLIMIT \<and>
     length (fw_freefd w) = FDLIMIT"

text \<open>The first descriptor that is free, or -1; \<open>freefd\<close> is true where one is taken.\<close>

fun first_free :: "bool list \<Rightarrow> nat \<Rightarrow> int" where
  "first_free [] i = - 1"
| "first_free (taken # xs) i = (if \<not> taken then int i else first_free xs (i + 1))"

definition GetFileDescriptor :: "'db TableFSWrapper \<Rightarrow> int \<times> 'db TableFSWrapper" where
  "GetFileDescriptor w =
     (let i = first_free (fw_freefd w) 0
      in if 0 \<le> i then (i, w\<lparr>fw_freefd := (fw_freefd w)[nat i := True]\<rparr>) else (- 1, w))"

definition ReleaseFileDescriptor :: "int \<Rightarrow> 'db TableFSWrapper \<Rightarrow> 'db TableFSWrapper option" where
  "ReleaseFileDescriptor fd w =
     (if 0 \<le> fd \<and> fd < int FDLIMIT then Some (w\<lparr>fw_freefd := (fw_freefd w)[nat fd := False]\<rparr>) else None)"

text \<open>The arrays at a descriptor.\<close>

definition fw_at :: "int \<Rightarrow> 'db TableFSWrapper \<Rightarrow> nat option" where
  "fw_at fd w = (if 0 \<le> fd \<and> fd < int FDLIMIT then Some (nat fd) else None)"

section \<open>Names\<close>

definition Wrapper_Setup ::
  "'db KvWrapper \<Rightarrow> setup_env \<Rightarrow> call_env \<Rightarrow> u32 \<Rightarrow> u64 \<Rightarrow> Properties \<Rightarrow> 'db \<Rightarrow> Posix \<Rightarrow> (int \<times> 'db TableFSWrapper) option" where
  "Wrapper_Setup kv senv env root_mode root_dev prop db px =
     do {
       (st, px1) \<leftarrow> Setup senv prop px;
       s \<leftarrow> TableFS_Init kv env False root_mode root_dev st db px1;
       Some (0, \<lparr>fw_fs = s, fw_fis = replicate FDLIMIT (0, None), fw_paths = replicate FDLIMIT [],
                 fw_offsets = replicate FDLIMIT 0, fw_freefd = replicate FDLIMIT False\<rparr>)
     }"

definition Wrapper_destroy :: "'db KvWrapper \<Rightarrow> 'db TableFSWrapper \<Rightarrow> ('db \<times> Posix) option" where
  "Wrapper_destroy kv w = TableFS_Destroy kv (fw_fs w)"

definition Wrapper_Stat :: "'db KvWrapper \<Rightarrow> bytes \<Rightarrow> 'db TableFSWrapper \<Rightarrow> ((int \<times> tfs_stat_t option) \<times> 'db TableFSWrapper) option" where
  "Wrapper_Stat kv path w = do { (r, s) \<leftarrow> GetAttr kv path (fw_fs w); Some (r, w\<lparr>fw_fs := s\<rparr>) }"

definition Wrapper_Mknod ::
  "'db KvWrapper \<Rightarrow> call_env \<Rightarrow> bytes \<Rightarrow> u32 \<Rightarrow> u64 \<Rightarrow> 'db TableFSWrapper \<Rightarrow> (int \<times> 'db TableFSWrapper) option" where
  "Wrapper_Mknod kv env path mode dev w =
     do {
       (r, w1) \<leftarrow> Wrapper_Stat kv path w;
       if fst r = 0 then Some (- 1, w1\<lparr>fw_fs := set_errno EEXIST (fw_fs w1)\<rparr>)
       else do {
              (_, s) \<leftarrow> MakeNode kv env path mode dev (fw_fs w1);
              (r', w2) \<leftarrow> Wrapper_Stat kv path (w1\<lparr>fw_fs := s\<rparr>);
              Some (fst r', w2)
            }
     }"

definition Wrapper_Mkdir ::
  "'db KvWrapper \<Rightarrow> call_env \<Rightarrow> bytes \<Rightarrow> u32 \<Rightarrow> 'db TableFSWrapper \<Rightarrow> (int \<times> 'db TableFSWrapper) option" where
  "Wrapper_Mkdir kv env path mode w =
     do {
       (r, w1) \<leftarrow> Wrapper_Stat kv path w;
       if fst r = 0 then Some (- 1, w1)
       else do {
              (_, s) \<leftarrow> MakeDir kv env path mode (fw_fs w1);
              (r', w2) \<leftarrow> Wrapper_Stat kv path (w1\<lparr>fw_fs := s\<rparr>);
              Some (fst r', w2)
            }
     }"

text \<open>\<open>Utime\<close> sets the seconds only; \<open>nsec\<close> is what the rest of the uninitialised \<open>tv\<close> holds.\<close>

definition Wrapper_Utime ::
  "'db KvWrapper \<Rightarrow> u64 \<times> u64 \<Rightarrow> bytes \<Rightarrow> u64 \<times> u64 \<Rightarrow> 'db TableFSWrapper \<Rightarrow> (int \<times> 'db TableFSWrapper) option" where
  "Wrapper_Utime kv nsec path buf w =
     do {
       (ret, s) \<leftarrow> UpdateTimens kv path ((fst buf, fst nsec), (snd buf, snd nsec)) (fw_fs w);
       Some (ret, w\<lparr>fw_fs := s\<rparr>)
     }"

definition Wrapper_Chmod :: "'db KvWrapper \<Rightarrow> bytes \<Rightarrow> u32 \<Rightarrow> 'db TableFSWrapper \<Rightarrow> (int \<times> 'db TableFSWrapper) option" where
  "Wrapper_Chmod kv path mode w =
     do {
       (_, w1) \<leftarrow> Wrapper_Stat kv path w;
       (_, s) \<leftarrow> Chmod kv path mode (fw_fs w1);
       (r, w2) \<leftarrow> Wrapper_Stat kv path (w1\<lparr>fw_fs := s\<rparr>);
       Some (fst r, w2)
     }"

definition Wrapper_Rename :: "'db KvWrapper \<Rightarrow> bytes \<Rightarrow> bytes \<Rightarrow> 'db TableFSWrapper \<Rightarrow> (int \<times> 'db TableFSWrapper) option" where
  "Wrapper_Rename kv old_path new_path w =
     do {
       (ret, s) \<leftarrow> Rename kv old_path new_path (fw_fs w);
       Some (if ret \<noteq> 0 then - 1 else 0, w\<lparr>fw_fs := s\<rparr>)
     }"

definition Wrapper_Unlink :: "'db KvWrapper \<Rightarrow> bytes \<Rightarrow> 'db TableFSWrapper \<Rightarrow> (int \<times> 'db TableFSWrapper) option" where
  "Wrapper_Unlink kv path w =
     do {
       (ret, s) \<leftarrow> Unlink kv path (fw_fs w);
       Some (if ret \<noteq> 0 then - 1 else 0, w\<lparr>fw_fs := s\<rparr>)
     }"

section \<open>Files\<close>

definition Wrapper_Open :: "'db KvWrapper \<Rightarrow> bytes \<Rightarrow> u32 \<Rightarrow> 'db TableFSWrapper \<Rightarrow> (int \<times> 'db TableFSWrapper) option" where
  "Wrapper_Open kv path flags w =
     do {
       let (fd, w1) = GetFileDescriptor w;
       i \<leftarrow> fw_at fd w1;
       let w2 = w1\<lparr>fw_paths := (fw_paths w1)[i := path], fw_offsets := (fw_offsets w1)[i := 0],
                   fw_fis := (fw_fis w1)[i := (flags, snd (fw_fis w1 ! i))]\<rparr>;
       ((ret, fh), s) \<leftarrow> Open kv path flags (fw_fs w2);
       let w3 = w2\<lparr>fw_fs := s\<rparr>;
       if ret \<noteq> 0
       then do { w4 \<leftarrow> ReleaseFileDescriptor fd w3; Some (- 1, w4) }
       else Some (fd, w3\<lparr>fw_fis := (fw_fis w3)[i := (flags, fh)]\<rparr>)
     }"

definition Wrapper_Seek :: "int \<Rightarrow> u64 \<Rightarrow> 'db TableFSWrapper \<Rightarrow> (int \<times> 'db TableFSWrapper) option" where
  "Wrapper_Seek fd offset w = do { i \<leftarrow> fw_at fd w; Some (0, w\<lparr>fw_offsets := (fw_offsets w)[i := offset]\<rparr>) }"

definition Wrapper_Write :: "int \<Rightarrow> bytes \<Rightarrow> 'db TableFSWrapper \<Rightarrow> (int \<times> 'db TableFSWrapper) option" where
  "Wrapper_Write fd buf w =
     do {
       i \<leftarrow> fw_at fd w;
       fh \<leftarrow> snd (fw_fis w ! i);
       (ret, s) \<leftarrow> Write buf (fw_offsets w ! i) (fst (fw_fis w ! i)) fh (fw_fs w);
       let w1 = w\<lparr>fw_fs := s\<rparr>;
       Some (ret, if ret < 0 then w1 else w1\<lparr>fw_offsets := (fw_offsets w1)[i := fw_offsets w1 ! i + of_int ret]\<rparr>)
     }"

definition Wrapper_Read :: "int \<Rightarrow> u64 \<Rightarrow> 'db TableFSWrapper \<Rightarrow> ((int \<times> bytes) \<times> 'db TableFSWrapper) option" where
  "Wrapper_Read fd len w =
     do {
       i \<leftarrow> fw_at fd w;
       fh \<leftarrow> snd (fw_fis w ! i);
       ((ret, buf), s) \<leftarrow> Read len (fw_offsets w ! i) fh (fw_fs w);
       let w1 = w\<lparr>fw_fs := s\<rparr>;
       Some ((ret, buf), if ret < 0 then w1 else w1\<lparr>fw_offsets := (fw_offsets w1)[i := fw_offsets w1 ! i + of_int ret]\<rparr>)
     }"

definition Wrapper_Close :: "'db KvWrapper \<Rightarrow> call_env \<Rightarrow> int \<Rightarrow> 'db TableFSWrapper \<Rightarrow> (int \<times> 'db TableFSWrapper) option" where
  "Wrapper_Close kv env fd w =
     do {
       i \<leftarrow> fw_at fd w;
       fh \<leftarrow> snd (fw_fis w ! i);
       (ret, s) \<leftarrow> Release kv env fh (fw_fs w);
       w1 \<leftarrow> ReleaseFileDescriptor fd (w\<lparr>fw_fs := s\<rparr>);
       Some (ret, w1)
     }"

section \<open>Directories\<close>

text \<open>
  \<open>OpenDir\<close> and \<open>ReadDir\<close> as the three functions call them; the directory is never released.  The names
  are those that were passed to the callback, in order.
\<close>

definition read_names ::
  "'db KvWrapper \<Rightarrow> (bytes list \<Rightarrow> bytes \<Rightarrow> int) \<Rightarrow> bytes \<Rightarrow> 'db TableFS \<Rightarrow> ((int \<times> bytes list) option \<times> 'db TableFS) option" where
  "read_names kv fill path s =
     do {
       ((ret, fh), s1) \<leftarrow> OpenDir kv path s;
       if ret \<noteq> 0 then Some (None, s1)
       else do { fi \<leftarrow> fh; (r, s2) \<leftarrow> ReadDir kv fill fi s1; Some (Some r, s2) }
     }"

definition Wrapper_Listdir ::
  "'db KvWrapper \<Rightarrow> (bytes list \<Rightarrow> bytes \<Rightarrow> int) \<Rightarrow> bytes \<Rightarrow> 'db TableFSWrapper \<Rightarrow> (int \<times> 'db TableFSWrapper) option" where
  "Wrapper_Listdir kv fill path w =
     do {
       (r, s) \<leftarrow> read_names kv fill path (fw_fs w);
       let w1 = w\<lparr>fw_fs := s\<rparr>;
       Some (case r of None \<Rightarrow> - 1 | Some (ret, names) \<Rightarrow> if ret \<noteq> 0 then - 1 else int (length names), w1)
     }"

text \<open>
  The names are appended to the path in an array of 1024 bytes.  The iterator works on the entries it had
  when it was made, so the calls of \<open>Stat\<close> between the names see and change nothing \<open>ReadDir\<close> depends on.
\<close>

definition entry_path :: "bytes \<Rightarrow> bytes \<Rightarrow> bytes option" where
  "entry_path path name = sprintf_buf 1024 (path @ PATH_DELIMITER # name)"

fun stat_names :: "'db KvWrapper \<Rightarrow> bytes \<Rightarrow> bytes list \<Rightarrow> 'db TableFSWrapper \<Rightarrow> 'db TableFSWrapper option" where
  "stat_names kv path [] w = Some w"
| "stat_names kv path (name # names) w =
     do {
       p \<leftarrow> entry_path path name;
       (_, w1) \<leftarrow> Wrapper_Stat kv p w;
       stat_names kv path names w1
     }"

definition Wrapper_Lsstat ::
  "'db KvWrapper \<Rightarrow> (bytes list \<Rightarrow> bytes \<Rightarrow> int) \<Rightarrow> bytes \<Rightarrow> 'db TableFSWrapper \<Rightarrow> (int \<times> 'db TableFSWrapper) option" where
  "Wrapper_Lsstat kv fill path w =
     do {
       (r, s) \<leftarrow> read_names kv fill path (fw_fs w);
       let w1 = w\<lparr>fw_fs := s\<rparr>;
       case r of
         None \<Rightarrow> Some (- 1, w1)
       | Some (ret, names) \<Rightarrow>
           do {
             w2 \<leftarrow> stat_names kv path names w1;
             Some (if ret \<noteq> 0 then - 1 else int (length names), w2)
           }
     }"

text \<open>
  The loop that reads a file in pieces of 4096 bytes until as much has been read as \<open>Stat\<close> reported; it does
  not end if \<open>Read\<close> keeps failing, and the \<open>int\<close> that counts must not overflow.
\<close>

partial_function (option) scan_loop :: "int \<Rightarrow> int \<Rightarrow> int \<Rightarrow> 'db TableFSWrapper \<Rightarrow> 'db TableFSWrapper option" where
  "scan_loop fd fsize read_size w =
     (if read_size < fsize
      then do {
             ((ret, _), w1) \<leftarrow> Wrapper_Read fd 4096 w;
             if ret = 0 then Some w1
             else if read_size + ret < 2 ^ 31 then scan_loop fd fsize (read_size + ret) w1
             else None
           }
      else Some w)"

text \<open>\<open>stale\<close> is the size in a \<open>statbuf\<close> that \<open>Stat\<close> has not filled.\<close>

definition scan_name ::
  "'db KvWrapper \<Rightarrow> call_env \<Rightarrow> u64 \<Rightarrow> bytes \<Rightarrow> bytes \<Rightarrow> 'db TableFSWrapper \<Rightarrow> 'db TableFSWrapper option" where
  "scan_name kv env stale path name w =
     do {
       p \<leftarrow> entry_path path name;
       ((_, st), w1) \<leftarrow> Wrapper_Stat kv p w;
       (fd, w2) \<leftarrow> Wrapper_Open kv p O_RDONLY w1;
       w3 \<leftarrow> scan_loop fd (sint (case st of None \<Rightarrow> stale | Some a \<Rightarrow> st_size a)) 0 w2;
       (_, w4) \<leftarrow> Wrapper_Close kv env fd w3;
       Some w4
     }"

fun scan_names ::
  "'db KvWrapper \<Rightarrow> call_env \<Rightarrow> u64 \<Rightarrow> bytes \<Rightarrow> bytes list \<Rightarrow> 'db TableFSWrapper \<Rightarrow> 'db TableFSWrapper option" where
  "scan_names kv env stale path [] w = Some w"
| "scan_names kv env stale path (name # names) w =
     do { w1 \<leftarrow> scan_name kv env stale path name w; scan_names kv env stale path names w1 }"

definition Wrapper_Scanfile ::
  "'db KvWrapper \<Rightarrow> call_env \<Rightarrow> u64 \<Rightarrow> (bytes list \<Rightarrow> bytes \<Rightarrow> int) \<Rightarrow> bytes \<Rightarrow> 'db TableFSWrapper \<Rightarrow> (int \<times> 'db TableFSWrapper) option" where
  "Wrapper_Scanfile kv env stale fill path w =
     do {
       (r, s) \<leftarrow> read_names kv fill path (fw_fs w);
       let w1 = w\<lparr>fw_fs := s\<rparr>;
       case r of
         None \<Rightarrow> Some (- 1, w1)
       | Some (ret, names) \<Rightarrow>
           do {
             w2 \<leftarrow> scan_names kv env stale path names w1;
             Some (if ret \<noteq> 0 then - 1 else int (length names), w2)
           }
     }"

section \<open>Handing out descriptors\<close>

lemma first_free_spec:
  "(if False \<in> set xs
    then \<exists>j < length xs. first_free xs i = int (i + j) \<and> \<not> xs ! j \<and> (\<forall>k < j. xs ! k)
    else first_free xs i = - 1)"
proof (induction xs arbitrary: i)
  case (Cons taken xs)
  show ?case
  proof (cases taken)
    case True
    show ?thesis
    proof (cases "False \<in> set xs")
      case free: True
      then obtain j where j: "j < length xs" "first_free xs (i + 1) = int (i + 1 + j)" "\<not> xs ! j" "\<forall>k < j. xs ! k"
        using Cons [of "i + 1"] by auto
      then have "\<forall>k < Suc j. (taken # xs) ! k"
        using True by (auto simp: nth_Cons')
      then show ?thesis
        using j True free by (auto intro!: exI [of _ "Suc j"])
    qed (use Cons [of "i + 1"] True in auto)
  qed auto
qed simp

lemma GetFileDescriptor_spec:
  assumes "fw_size w"
  obtains (exhausted) "GetFileDescriptor w = (- 1, w)" "\<forall>i < FDLIMIT. fw_freefd w ! i"
    | (found) i where "i < FDLIMIT" "GetFileDescriptor w = (int i, w\<lparr>fw_freefd := (fw_freefd w)[i := True]\<rparr>)"
      "\<not> fw_freefd w ! i" "\<forall>k < i. fw_freefd w ! k"
proof (cases "False \<in> set (fw_freefd w)")
  case True
  then obtain j where "j < length (fw_freefd w)" "first_free (fw_freefd w) 0 = int j" "\<not> fw_freefd w ! j"
      "\<forall>k < j. fw_freefd w ! k"
    using first_free_spec [of "fw_freefd w" 0] by auto
  then show thesis
    using found [of j] assms by (simp add: GetFileDescriptor_def fw_size_def)
next
  case False
  then have "fw_freefd w ! i" if "i < FDLIMIT" for i
    using False that assms nth_mem [of i "fw_freefd w"] by (cases "fw_freefd w ! i") (auto simp: fw_size_def)
  then show thesis
    using exhausted first_free_spec [of "fw_freefd w" 0] False by (simp add: GetFileDescriptor_def)
qed

section \<open>A descriptor is a stream\<close>

definition fd_open ::
  "'db KvWrapper \<Rightarrow> ('db \<Rightarrow> bytes \<Rightarrow> bytes option) \<Rightarrow> ('db \<Rightarrow> bool) \<Rightarrow> int \<Rightarrow> tfs_meta_key_t \<Rightarrow> u64 \<Rightarrow>
   bytes \<times> nat \<Rightarrow> 'db TableFSWrapper \<Rightarrow> bool" where
  "fd_open kv contents ok fd key ino f w \<longleftrightarrow>
     fw_size w \<and> 0 \<le> fd \<and> fd < int FDLIMIT \<and> unat (fw_offsets w ! nat fd) = snd f \<and>
     (\<exists>flags fh. fw_fis w ! nat fd = (flags, Some fh) \<and> rw_flags flags \<and> open_file kv contents ok fh key ino (fst f) (fw_fs w))"

datatype fd_op = FdSeek u64 | FdRead u64 | FdWrite bytes

definition fd_exec :: "int \<Rightarrow> fd_op \<Rightarrow> 'db TableFSWrapper \<Rightarrow> ((int \<times> bytes) \<times> 'db TableFSWrapper) option" where
  "fd_exec fd x w =
     (case x of
        FdSeek offset \<Rightarrow> map_option (\<lambda>(ret, w'). ((ret, []), w')) (Wrapper_Seek fd offset w)
      | FdRead len \<Rightarrow> Wrapper_Read fd len w
      | FdWrite buf \<Rightarrow> map_option (\<lambda>(ret, w'). ((ret, []), w')) (Wrapper_Write fd buf w))"

primrec fd_run :: "int \<Rightarrow> fd_op list \<Rightarrow> 'db TableFSWrapper \<Rightarrow> ((int \<times> bytes) list \<times> 'db TableFSWrapper) option" where
  "fd_run fd [] w = Some ([], w)"
| "fd_run fd (x # xs) w = do { (r, w1) \<leftarrow> fd_exec fd x w; (rs, w2) \<leftarrow> fd_run fd xs w1; Some (r # rs, w2) }"

text \<open>The same on an array with a position.\<close>

fun fd_reply :: "fd_op \<Rightarrow> bytes \<times> nat \<Rightarrow> int \<times> bytes" where
  "fd_reply (FdSeek offset) (data, pos) = (0, [])"
| "fd_reply (FdRead len) (data, pos) = (let b = take (unat len) (drop pos data) in (int (length b), b))"
| "fd_reply (FdWrite buf) (data, pos) = (int (length buf), [])"

fun fd_step :: "fd_op \<Rightarrow> bytes \<times> nat \<Rightarrow> bytes \<times> nat" where
  "fd_step (FdSeek offset) (data, pos) = (data, unat offset)"
| "fd_step (FdRead len) (data, pos) = (data, pos + length (take (unat len) (drop pos data)))"
| "fd_step (FdWrite buf) (data, pos) = (write_at pos buf data, pos + length buf)"

fun fd_bounds :: "fd_op \<Rightarrow> bytes \<times> nat \<Rightarrow> bool" where
  "fd_bounds (FdSeek offset) f \<longleftrightarrow> unat offset \<le> MAX_RW_COUNT"
| "fd_bounds (FdRead len) f \<longleftrightarrow> unat len \<le> MAX_RW_COUNT \<and> snd f < 2 ^ 62"
| "fd_bounds (FdWrite buf) f \<longleftrightarrow> buf \<noteq> [] \<and> snd f + length buf \<le> MAX_RW_COUNT"

primrec fd_replies :: "fd_op list \<Rightarrow> bytes \<times> nat \<Rightarrow> (int \<times> bytes) list" where
  "fd_replies [] f = []"
| "fd_replies (x # xs) f = fd_reply x f # fd_replies xs (fd_step x f)"

primrec fd_allowed :: "fd_op list \<Rightarrow> bytes \<times> nat \<Rightarrow> bool" where
  "fd_allowed [] f \<longleftrightarrow> True"
| "fd_allowed (x # xs) f \<longleftrightarrow> fd_bounds x f \<and> fd_allowed xs (fd_step x f)"

lemma fd_exec_spec:
  assumes o: "fd_open kv contents ok fd key ino f w" and b: "fd_bounds x f"
  shows "\<exists>w'. fd_exec fd x w = Some (fd_reply x f, w') \<and> fd_open kv contents ok fd key ino (fd_step x f) w' \<and>
    fw_freefd w' = fw_freefd w \<and> data_frame contents ino (fw_fs w) (fw_fs w')"
proof -
  obtain data pos where f: "f = (data, pos)"
    by (cases f)
  obtain flags fh where fh: "fw_fis w ! nat fd = (flags, Some fh)" "rw_flags flags"
    "open_file kv contents ok fh key ino data (fw_fs w)"
    using o f by (auto simp: fd_open_def)
  have fd: "fw_size w" "0 \<le> fd" "fd < int FDLIMIT" "fw_at fd w = Some (nat fd)" "nat fd < length (fw_offsets w)"
    and pos: "unat (fw_offsets w ! nat fd) = pos"
    using o f by (auto simp: fd_open_def fw_at_def fw_size_def)
  show ?thesis
  proof (cases x)
    case (FdSeek offset)
    then show ?thesis
      using fd fh f data_frame_refl [OF fh(3)] by (auto simp: fd_exec_def Wrapper_Seek_def fd_open_def fw_size_def)
  next
    case (FdRead len)
    let ?b = "take (unat len) (drop pos data)"
    obtain s where s: "Read len (fw_offsets w ! nat fd) fh (fw_fs w) = Some ((int (length ?b), ?b), s)"
      "open_file kv contents ok fh key ino data s" "data_frame contents ino (fw_fs w) s"
      using Read_spec [OF fh(3), of len "fw_offsets w ! nat fd"] b FdRead f pos by auto
    have "length ?b \<le> MAX_RW_COUNT" "pos < 2 ^ 62"
      using b FdRead f by auto
    then have "unat (fw_offsets w ! nat fd + of_nat (length ?b)) = pos + length ?b"
      using pos unat_plus_small [of "fw_offsets w ! nat fd" "length ?b"] by (simp add: MAX_RW_COUNT_def)
    then show ?thesis
      using s fd fh f FdRead by (auto simp: fd_exec_def Wrapper_Read_def fd_open_def fw_size_def Let_def)
  next
    case (FdWrite buf)
    obtain s where s: "Write buf (fw_offsets w ! nat fd) flags fh (fw_fs w) = Some (int (length buf), s)"
      "open_file kv contents ok fh key ino (write_at pos buf data) s" "data_frame contents ino (fw_fs w) s"
      using Write_spec [OF fh(3,2), of buf "fw_offsets w ! nat fd"] b FdWrite f pos by auto
    have "unat (fw_offsets w ! nat fd + of_nat (length buf)) = pos + length buf"
      using pos b FdWrite f unat_plus_small [of "fw_offsets w ! nat fd" "length buf"] by (simp add: MAX_RW_COUNT_def)
    then show ?thesis
      using s fd fh f FdWrite by (auto simp: fd_exec_def Wrapper_Write_def fd_open_def fw_size_def Let_def)
  qed
qed

lemma fd_run_spec:
  assumes "fd_open kv contents ok fd key ino f w" "fd_allowed xs f"
  shows "\<exists>w'. fd_run fd xs w = Some (fd_replies xs f, w') \<and> fd_open kv contents ok fd key ino (fold fd_step xs f) w' \<and>
    fw_freefd w' = fw_freefd w \<and> data_frame contents ino (fw_fs w) (fw_fs w')"
  using assms
proof (induction xs arbitrary: f w)
  case Nil
  then show ?case
    using data_frame_refl by (fastforce simp: fd_open_def)
next
  case (Cons x xs)
  obtain w1 where w1: "fd_exec fd x w = Some (fd_reply x f, w1)" "fd_open kv contents ok fd key ino (fd_step x f) w1"
    "fw_freefd w1 = fw_freefd w" "data_frame contents ino (fw_fs w) (fw_fs w1)"
    using fd_exec_spec [OF Cons.prems(1), of x] Cons.prems(2) by auto
  show ?case
    using Cons.IH [OF w1(2)] Cons.prems(2) w1 data_frame_trans [OF w1(4)] by auto
qed

context kv_store
begin

lemma wrapper_session:
  assumes inv: "quiet (fw_fs w)" and size: "fw_size w" and free: "i < FDLIMIT" "\<not> fw_freefd w ! i"
    and path: "path \<noteq> []" and flags: "rw_flags flags" and small: "small_threshold (fs_state (fw_fs w))"
    and found: "tree_lookup (fs_tree contents (fw_fs w)) path = Some (key, v)" "GetAttribute v = Some st"
    and view: "file_view (fs_state (fw_fs w)) (fs_px (fw_fs w)) v (-1) data" and xs: "fd_allowed xs (data, 0)"
  obtains fd w1 w2 w3 v' where "Wrapper_Open kv path flags w = Some (fd, w1)" "0 \<le> fd"
    "\<not> fw_freefd w ! nat fd" "fd_run fd xs w1 = Some (fd_replies xs (data, 0), w2)" "Wrapper_Close kv env fd w2 = Some (0, w3)"
    "quiet (fw_fs w3)" "fw_freefd w3 = fw_freefd w" "fs_tree contents (fw_fs w3) = (fs_tree contents (fw_fs w))(key \<mapsto> v')"
    "file_view (fs_state (fw_fs w3)) (fs_px (fw_fs w3)) v' (-1) (fst (fold fd_step xs (data, 0)))"
proof (cases rule: GetFileDescriptor_spec [OF size, case_names exhausted found])
  case exhausted
  then show thesis
    using free by simp
next
  case (found j)
  let ?s = "fw_fs w" and ?fh = "fs_next_fh (fw_fs w)" and ?fd = "int j"
  obtain s1 where s1: "Open kv path flags ?s = Some ((0, Some ?fh), s1)" "open_file kv contents ok ?fh key (st_ino st) data s1"
    "data_frame contents (st_ino st) ?s s1"
    by (rule Open_spec [OF inv path flags small assms(8,9) view])
  let ?w1 = "w\<lparr>fw_freefd := (fw_freefd w)[j := True], fw_paths := (fw_paths w)[j := path],
    fw_offsets := (fw_offsets w)[j := 0], fw_fis := (fw_fis w)[j := (flags, Some ?fh)], fw_fs := s1\<rparr>"
  have w1: "Wrapper_Open kv path flags w = Some (?fd, ?w1)"
    using found(1,2) s1(1) size by (simp add: Wrapper_Open_def fw_at_def fw_size_def)
  have o: "fd_open kv contents ok ?fd key (st_ino st) (data, 0) ?w1"
    using found(1) size s1(2) flags by (simp add: fd_open_def fw_size_def)
  obtain w2 where w2: "fd_run ?fd xs ?w1 = Some (fd_replies xs (data, 0), w2)"
    "fd_open kv contents ok ?fd key (st_ino st) (fold fd_step xs (data, 0)) w2" "fw_freefd w2 = fw_freefd ?w1"
    "data_frame contents (st_ino st) s1 (fw_fs w2)"
    using fd_run_spec [OF o xs] by auto
  obtain flags' fh where fh: "fw_fis w2 ! j = (flags', Some fh)"
    "open_file kv contents ok fh key (st_ino st) (fst (fold fd_step xs (data, 0))) (fw_fs w2)"
    using w2(2) by (auto simp: fd_open_def)
  obtain s3 v' where s3: "Release kv env fh (fw_fs w2) = Some (0, s3)" "quiet s3"
    "fs_tree contents s3 = (fs_tree contents (fw_fs w2))(key \<mapsto> v')"
    "file_view (fs_state s3) (fs_px s3) v' (-1) (fst (fold fd_step xs (data, 0)))"
    by (rule release_open_file [OF fh(2)]) blast
  let ?w3 = "w2\<lparr>fw_fs := s3, fw_freefd := (fw_freefd w2)[j := False]\<rparr>"
  have "Wrapper_Close kv env ?fd w2 = Some (0, ?w3)"
    using found(1) fh(1) s3(1) by (simp add: Wrapper_Close_def fw_at_def ReleaseFileDescriptor_def)
  moreover have "fs_tree contents (fw_fs w2) = fs_tree contents ?s"
    using s1(3) w2(4) by (simp add: data_frame_def)
  moreover have "(fw_freefd w2)[j := False] = fw_freefd w"
    using w2(3) found(3) by (simp add: list_update_same_conv) (metis list_update_id)
  ultimately show thesis
    using that [OF w1 _ _ w2(1), of ?w3 v'] found(3) s3 by simp
qed

end

section \<open>Requests the wrapper gets wrong\<close>

lemma open_exhausted:
  assumes "fw_size w" "\<forall>i < FDLIMIT. fw_freefd w ! i"
  shows "Wrapper_Open kv path flags w = None"
proof (cases rule: GetFileDescriptor_spec [OF assms(1), case_names exhausted found])
  case exhausted
  then show ?thesis
    by (simp add: Wrapper_Open_def fw_at_def)
qed (use assms in simp)

text \<open>\<open>ReadDir\<close> begins with the directory itself.\<close>

lemma ReadDir_loop_prefix:
  "ReadDir_loop fill childkey iter names = Some (ret, names') \<Longrightarrow> \<exists>ns. names' = names @ ns"
  by (induction fill childkey iter names arbitrary: ret rule: ReadDir_loop.induct)
    (fastforce simp: bind_eq_Some_conv Let_def split: if_splits)+

lemma ReadDir_first:
  assumes "ReadDir kv fill fh s = Some ((ret, names), s')"
  obtains ns where "names = cstr ''.'' # ns"
  using assms by (auto simp: ReadDir_def bind_eq_Some_conv Let_def split: if_splits prod.splits dest!: ReadDir_loop_prefix)

text \<open>A missing path while handles of other paths are held.\<close>

context kv_store
begin

lemma Get_missing:
  assumes inv: "fs_inv kv contents ok n held s" and path: "path \<noteq> []"
    and none: "tree_lookup (fs_tree contents s) path = None"
    and held: "\<And>q g. held q = Some g \<Longrightarrow> fs_tree contents s (ih_key g) \<noteq> None"
  obtains (no_path) s1 where "PathLookup kv path s = Some (None, s1)" "FSError s1 = - ENOENT"
      "fs_inv kv contents ok n held s1" "fs_same contents s s1"
    | (missing) s1 key ic where "PathLookup kv path s = Some (Some key, s1)"
      "InodeCache_Get kv key mode (fs_icache s1) = Some (None, ic)"
      "fs_inv kv contents ok n held (with_icache ic s1)" "fs_same contents s (with_icache ic s1)"
proof -
  let ?m = "fs_tree contents s"
  obtain s1 where s1: "PathLookup kv path s = Some (resolve ?m path, s1)" "fs_inv kv contents ok n held s1" "fs_same contents s s1"
    "resolve ?m path = None \<Longrightarrow> FSError s1 = - ENOENT"
    using PathLookup_spec [OF inv path] by blast
  show thesis
  proof (cases "resolve ?m path")
    case None
    then show thesis
      using no_path s1 by simp
  next
    case (Some key)
    then have "?m key = None"
      using none by (simp add: tree_lookup_def)
    moreover from this have "ih_key g \<noteq> key" if "held q = Some g" for q g
      using held [OF that] by auto
    moreover have "contents (ic_metadb (fs_icache s1)) (ToSlice key) = ?m key"
      using fs_same_tree [OF s1(3)] by (simp add: fs_tree_def fs_metadb_def fun_eq_iff)
    ultimately obtain ic where ic: "InodeCache_Get kv key mode (fs_icache s1) = Some (None, ic)"
      "ic_state kv contents ok n {} held ic" "contents (ic_metadb ic) = contents (ic_metadb (fs_icache s1))"
      using InodeCache_Get_miss [OF fs_inv_icache [OF s1(2)] refl, of key mode] by auto
    then show thesis
      using missing [of key s1 ic] s1 Some with_icache_same [OF s1(2) ic(2,3)] fs_same_trans [OF s1(3)] by simp
  qed
qed

lemma GetAttr_missing:
  assumes inv: "fs_inv kv contents ok n held s" and path: "path \<noteq> []"
    and none: "tree_lookup (fs_tree contents s) path = None"
    and held: "\<And>q g. held q = Some g \<Longrightarrow> fs_tree contents s (ih_key g) \<noteq> None"
  shows "\<exists>s'. GetAttr kv path s = Some ((- ENOENT, None), s') \<and> fs_inv kv contents ok n held s' \<and> fs_same contents s s'"
  by (rule Get_missing [OF assms, where mode = INODE_READ]) (auto simp: GetAttr_def)

lemma Open_missing:
  assumes inv: "fs_inv kv contents ok n held s" and path: "path \<noteq> []"
    and none: "tree_lookup (fs_tree contents s) path = None"
    and held: "\<And>q g. held q = Some g \<Longrightarrow> fs_tree contents s (ih_key g) \<noteq> None"
  shows "\<exists>s'. Open kv path flags s = Some ((- ENOENT, None), s') \<and> fs_inv kv contents ok n held s' \<and> fs_same contents s s'"
  by (rule Get_missing [OF assms, where mode = "if flag flags O_RDWR \<or> flag flags O_WRONLY \<or> flag flags O_TRUNC then INODE_WRITE else INODE_READ"])
    (auto simp: Open_def Let_def)

lemma scan_name_missing:
  assumes inv: "fs_inv kv contents ok n held (fw_fs w)"
    and none: "tree_lookup (fs_tree contents (fw_fs w)) (path @ PATH_DELIMITER # name) = None"
    and held: "\<And>q g. held q = Some g \<Longrightarrow> fs_tree contents (fw_fs w) (ih_key g) \<noteq> None"
  shows "scan_name kv env stale path name w = None"
proof (cases "entry_path path name")
  case None
  then show ?thesis
    by (simp add: scan_name_def)
next
  case (Some p)
  then have p: "p = path @ PATH_DELIMITER # name"
    by (simp add: entry_path_def sprintf_buf_def split: if_splits)
  obtain s1 where s1: "GetAttr kv p (fw_fs w) = Some ((- ENOENT, None), s1)" "fs_inv kv contents ok n held s1"
    "fs_same contents (fw_fs w) s1"
    using GetAttr_missing [OF inv, of p] none held p by auto
  obtain s2 where s2: "Open kv p O_RDONLY s1 = Some ((- ENOENT, None), s2)"
    using Open_missing [OF s1(2), of p O_RDONLY] none held fs_same_tree [OF s1(3)] p by auto
  have "Wrapper_Open kv p O_RDONLY (w\<lparr>fw_fs := s1\<rparr>) = None \<or> (\<exists>w2. Wrapper_Open kv p O_RDONLY (w\<lparr>fw_fs := s1\<rparr>) = Some (- 1, w2))"
    using s2 by (auto simp: Wrapper_Open_def GetFileDescriptor_def ReleaseFileDescriptor_def ENOENT_def Let_def
        bind_eq_Some_conv split: Option.bind_split)
  moreover have "scan_loop (- 1) size 0 w2 = (if 0 < size then None else Some w2)" for size w2
    by (subst scan_loop.simps) (simp add: Wrapper_Read_def fw_at_def)
  ultimately show ?thesis
    using Some s1(1) by (auto simp: scan_name_def Wrapper_Stat_def Wrapper_Close_def fw_at_def)
qed

end

context ordered_kv_store
begin

lemma ReadDir_state:
  assumes "fs_inv kv contents ok n held s" "ReadDir kv fill fh s = Some (r, s')"
  shows "fs_inv kv contents ok n held s' \<and> fs_same contents s s'"
proof -
  have "ok (fs_metadb s)"
    using ic_state_ok [OF fs_inv_icache [OF assms(1)]] by (simp add: fs_metadb_def)
  then have "fs_inv kv contents ok n held (with_metadb (snd (kv_Seek kv target (fs_metadb s))) s) \<and>
      fs_same contents s (with_metadb (snd (kv_Seek kv target (fs_metadb s))) s)" for target
    using seek_state [of "fs_metadb s" target] with_metadb_same [OF assms(1)] by simp
  then show ?thesis
    using assms by (auto simp: ReadDir_def bind_eq_Some_conv Let_def case_prod_beta split: if_splits)
qed

text \<open>\<open>Scanfile\<close> opens the entry \<open>.\<close>, fails, and closes descriptor -1.\<close>

lemma Scanfile_undefined:
  assumes inv: "quiet (fw_fs w)" and path: "path \<noteq> []"
    and found: "tree_lookup (fs_tree contents (fw_fs w)) path = Some (key, v)"
    and dot: "tree_lookup (fs_tree contents (fw_fs w)) (path @ PATH_DELIMITER # cstr ''.'') = None"
  shows "Wrapper_Scanfile kv env stale fill path w = None"
proof -
  let ?g = "\<lparr>ih_key = key, ih_value = v, ih_mode = INODE_READ\<rparr>" and ?s = "fw_fs w"
  obtain s1 ptr ic where s1: "PathLookup kv path ?s = Some (Some key, s1)" "quiet s1" "fs_same contents ?s s1"
    "InodeCache_Get kv key INODE_READ (fs_icache s1) = Some (Some ptr, ic)"
    "ic_state kv contents ok 1 {} [ptr \<mapsto> ?g] ic" "contents (ic_metadb ic) = contents (ic_metadb (fs_icache s1))"
    by (cases rule: Get_at_path [OF inv path, where mode = INODE_READ, case_names 1 2 3]) (use found in auto)
  let ?s2 = "with_icache ic s1"
  have s2: "fs_inv kv contents ok 1 [ptr \<mapsto> ?g] ?s2" "fs_same contents ?s ?s2"
    using with_icache_same [OF s1(2,5,6)] fs_same_trans [OF s1(3)] by auto
  have dir: "OpenDir kv path ?s = Some ((0, Some ptr), ?s2)"
    using s1(1,4) by (simp add: OpenDir_def)
  show ?thesis
  proof (cases "ReadDir kv fill ptr ?s2")
    case None
    then show ?thesis
      using dir by (simp add: Wrapper_Scanfile_def read_names_def)
  next
    case (Some r)
    obtain ret names s3 where r: "r = ((ret, names), s3)"
      by (cases r) auto
    obtain ns where ns: "names = cstr ''.'' # ns"
      using ReadDir_first Some r by blast
    have s3: "fs_inv kv contents ok 1 [ptr \<mapsto> ?g] s3" "fs_tree contents s3 = fs_tree contents ?s"
      using ReadDir_state [OF s2(1) Some [unfolded r]] fs_same_tree s2(2) by metis+
    have "scan_name kv env stale path (cstr ''.'') (w\<lparr>fw_fs := s3\<rparr>) = None"
      by (rule scan_name_missing [of 1 "[ptr \<mapsto> ?g]"])
        (use s3 dot found in \<open>auto simp: tree_lookup_Some split: if_splits\<close>)
    then show ?thesis
      using dir Some r ns by (simp add: Wrapper_Scanfile_def read_names_def)
  qed
qed

end

end
