(* ===== verification/Kv_Adaptors.thy ===== *)
theory Kv_Adaptors
  imports Kv_Wrapper
begin

text \<open>
  The adaptors that make a third-party index a \<open>KvWrapper\<close>: \<open>adaptor/tlhash_wrapper.cc\<close> over
  \<open>HybridHash\<close>, \<open>adaptor/utree_wrapper.cc\<close> over \<open>treedb::TreeDB\<close>, \<open>adaptor/roart_wrapper.cc\<close> over
  \<open>PART_ns::Tree\<close>, \<open>adaptor/hikv_adaptor.cc\<close> over \<open>OpenHiKV\<close> and \<open>adaptor/metakv_wrapper.cc\<close> over
  \<open>MetaDB\<close>.  The indexes are not part of the repository: each is a parameter, a record of the
  functions the adaptor calls, and the locale \<open>kv_index_store\<close> states what such an index promises.
  Under it every adaptor is a \<open>kv_store\<close>.  Logging is not modelled.
\<close>

section \<open>Third-party indexes\<close>

record 'h kv_index =
  ix_Put :: "bytes \<Rightarrow> bytes \<Rightarrow> 'h \<Rightarrow> bool \<times> 'h"
  ix_Get :: "bytes \<Rightarrow> 'h \<Rightarrow> bytes option \<times> 'h"
  ix_Delete :: "bytes \<Rightarrow> 'h \<Rightarrow> 'h"
  ix_Scan :: "bytes \<Rightarrow> 'h \<Rightarrow> (bytes \<times> bytes) list \<times> 'h"
  ix_new :: 'h
  ix_Exit :: "'h \<Rightarrow> 'h"

locale kv_index_store =
  fixes ix :: "'h kv_index"
    and contents :: "'h \<Rightarrow> bytes \<Rightarrow> bytes option"
    and ok :: "'h \<Rightarrow> bool"
  assumes index_put: "ok h \<Longrightarrow> fst (ix_Put ix k v h) \<and> ok (snd (ix_Put ix k v h)) \<and>
      contents (snd (ix_Put ix k v h)) = (contents h)(k \<mapsto> v)"
    and index_get: "ok h \<Longrightarrow> fst (ix_Get ix k h) = contents h k \<and> ok (snd (ix_Get ix k h)) \<and>
      contents (snd (ix_Get ix k h)) = contents h"
    and index_delete: "ok h \<Longrightarrow> ok (ix_Delete ix k h) \<and>
      contents (ix_Delete ix k h) = (contents h)(k := None)"

section \<open>An iterator over a scanned vector\<close>

text \<open>
  The iterators of these adaptors hold the vector a scan filled and a cursor of type \<open>size_t\<close>.
\<close>

record scan_iterator =
  it_dentry :: "(bytes \<times> bytes) list"
  it_cursor :: u64

definition scan_iterator_new :: scan_iterator where
  "scan_iterator_new = \<lparr>it_dentry = [], it_cursor = 0\<rparr>"

definition it_Valid :: "scan_iterator \<Rightarrow> bool" where
  "it_Valid it \<longleftrightarrow> it_cursor it < of_nat (length (it_dentry it))"

definition it_SeekToFirst :: "scan_iterator \<Rightarrow> scan_iterator" where
  "it_SeekToFirst it = it\<lparr>it_cursor := 0\<rparr>"

definition it_SeekToLast :: "scan_iterator \<Rightarrow> scan_iterator" where
  "it_SeekToLast it = it\<lparr>it_cursor := of_nat (length (it_dentry it)) - 1\<rparr>"

definition it_Next :: "scan_iterator \<Rightarrow> scan_iterator" where
  "it_Next it = it\<lparr>it_cursor := it_cursor it + 1\<rparr>"

definition it_Prev :: "scan_iterator \<Rightarrow> scan_iterator" where
  "it_Prev it = it\<lparr>it_cursor := it_cursor it - 1\<rparr>"

definition it_entry :: "scan_iterator \<Rightarrow> bytes \<times> bytes" where
  "it_entry it = it_dentry it ! unat (it_cursor it)"

text \<open>\<open>Seek\<close> fills the vector and leaves the cursor where it is.\<close>

definition it_Seek :: "'h kv_index \<Rightarrow> bytes \<Rightarrow> scan_iterator \<Rightarrow> 'h \<Rightarrow> scan_iterator \<times> 'h" where
  "it_Seek ix target it h =
     (let (entries, h') = ix_Scan ix target h in (it\<lparr>it_dentry := entries\<rparr>, h'))"

text \<open>The entries an iterator still visits.\<close>

definition it_rest :: "scan_iterator \<Rightarrow> (bytes \<times> bytes) list" where
  "it_rest it = drop (unat (it_cursor it)) (it_dentry it)"

lemma it_rest_walk:
  assumes "length (it_dentry it) < 2 ^ 64"
  shows "it_Valid it \<longleftrightarrow> it_rest it \<noteq> []"
    and "it_Valid it \<Longrightarrow> it_rest it = it_entry it # it_rest (it_Next it)"
proof -
  have len: "unat (of_nat (length (it_dentry it)) :: u64) = length (it_dentry it)"
    using assms by (simp add: unat_of_nat take_bit_nat_eq_self)
  show valid: "it_Valid it \<longleftrightarrow> it_rest it \<noteq> []"
    using len by (simp add: it_Valid_def it_rest_def word_less_nat_alt not_le)
  assume "it_Valid it"
  then have lt: "unat (it_cursor it) < length (it_dentry it)"
    using len by (simp add: it_Valid_def word_less_nat_alt)
  then have "unat (it_cursor it + 1) = Suc (unat (it_cursor it))"
    using assms by (simp add: unat_word_ariths take_bit_nat_eq_self)
  then show "it_rest it = it_entry it # it_rest (it_Next it)"
    using lt by (simp add: it_rest_def it_entry_def it_Next_def Cons_nth_drop_Suc)
qed

section \<open>TlhashWrapper\<close>

text \<open>
  The state holds the index; \<open>tl_failed\<close> records that the assertion in \<open>Put\<close> has failed, where the
  process stops.
\<close>

record 'h Tlhash =
  tl_db :: 'h
  tl_failed :: bool

definition Tlhash_Init :: "'h kv_index \<Rightarrow> 'h Tlhash \<Rightarrow> int \<times> 'h Tlhash" where
  "Tlhash_Init ix s = (1, s\<lparr>tl_db := ix_new ix\<rparr>)"

definition Tlhash_Cleanup :: "'h kv_index \<Rightarrow> 'h Tlhash \<Rightarrow> 'h Tlhash" where
  "Tlhash_Cleanup ix s = s\<lparr>tl_db := ix_Exit ix (tl_db s)\<rparr>"

definition Tlhash_Put :: "'h kv_index \<Rightarrow> bytes \<Rightarrow> bytes \<Rightarrow> 'h Tlhash \<Rightarrow> int \<times> 'h Tlhash" where
  "Tlhash_Put ix key value s =
     (let (res, h1) = ix_Put ix key value (tl_db s)
      in if res
         then let (found, h2) = ix_Get ix key h1;
                  check = (case found of Some v \<Rightarrow> v | None \<Rightarrow> [])
              in (0, s\<lparr>tl_db := h2, tl_failed := tl_failed s \<or> value \<noteq> check\<rparr>)
         else (- 1, s\<lparr>tl_db := h1\<rparr>))"

definition Tlhash_Get :: "'h kv_index \<Rightarrow> bytes \<Rightarrow> 'h Tlhash \<Rightarrow> int \<times> bytes \<times> 'h Tlhash" where
  "Tlhash_Get ix key s =
     (let (res, h1) = ix_Get ix key (tl_db s)
      in (case res of
            Some v \<Rightarrow> (1, v, s\<lparr>tl_db := h1\<rparr>)
          | None \<Rightarrow> (0, [], s\<lparr>tl_db := h1\<rparr>)))"

definition Tlhash_Delete :: "'h kv_index \<Rightarrow> bytes \<Rightarrow> 'h Tlhash \<Rightarrow> int \<times> 'h Tlhash" where
  "Tlhash_Delete ix key s = (0, s\<lparr>tl_db := ix_Delete ix key (tl_db s)\<rparr>)"

definition TlhashInserter :: "'h kv_index \<Rightarrow> 'h Handler" where
  "TlhashInserter ix =
     \<lparr>handler_Put = (\<lambda>key value h. snd (ix_Put ix key value h)),
      handler_Delete = (\<lambda>key h. ix_Delete ix key h)\<rparr>"

definition Tlhash_Write :: "'h kv_index \<Rightarrow> WriteBatch \<Rightarrow> 'h Tlhash \<Rightarrow> int \<times> 'h Tlhash" where
  "Tlhash_Write ix batch s =
     (let (status, h) = Iterate (TlhashInserter ix) batch (tl_db s) in (0, s\<lparr>tl_db := h\<rparr>))"

definition Tlhash_Sync :: "'h Tlhash \<Rightarrow> int \<times> 'h Tlhash" where
  "Tlhash_Sync s = (0, s)"

definition Tlhash_Seek :: "'h kv_index \<Rightarrow> bytes \<Rightarrow> 'h Tlhash \<Rightarrow> (bytes \<times> bytes) list \<times> 'h Tlhash" where
  "Tlhash_Seek ix target s =
     (let (it, h) = it_Seek ix target scan_iterator_new (tl_db s) in (it_rest it, s\<lparr>tl_db := h\<rparr>))"

definition TlhashWrapper :: "'h kv_index \<Rightarrow> 'h Tlhash KvWrapper" where
  "TlhashWrapper ix =
     \<lparr>kv_Init = Tlhash_Init ix, kv_Cleanup = Tlhash_Cleanup ix, kv_Put = Tlhash_Put ix,
      kv_Get = Tlhash_Get ix, kv_Delete = Tlhash_Delete ix, kv_Write = Tlhash_Write ix,
      kv_Sync = Tlhash_Sync, kv_Seek = Tlhash_Seek ix\<rparr>"

section \<open>uTreeWrapper\<close>

definition uTree_Init :: "'h kv_index \<Rightarrow> 'h \<Rightarrow> int \<times> 'h" where
  "uTree_Init ix h = (1, ix_new ix)"

definition uTree_Cleanup :: "'h \<Rightarrow> 'h" where
  "uTree_Cleanup h = h"

definition uTree_Put :: "'h kv_index \<Rightarrow> bytes \<Rightarrow> bytes \<Rightarrow> 'h \<Rightarrow> int \<times> 'h" where
  "uTree_Put ix key value h =
     (let (res, h1) = ix_Put ix key value h in if res then (0, h1) else (- 1, h1))"

definition uTree_Get :: "'h kv_index \<Rightarrow> bytes \<Rightarrow> 'h \<Rightarrow> int \<times> bytes \<times> 'h" where
  "uTree_Get ix key h =
     (let (res, h1) = ix_Get ix key h
      in (case res of Some v \<Rightarrow> (1, v, h1) | None \<Rightarrow> (0, [], h1)))"

definition uTree_Delete :: "'h kv_index \<Rightarrow> bytes \<Rightarrow> 'h \<Rightarrow> int \<times> 'h" where
  "uTree_Delete ix key h = (0, ix_Delete ix key h)"

definition uTreeInserter :: "'h kv_index \<Rightarrow> 'h Handler" where
  "uTreeInserter ix =
     \<lparr>handler_Put = (\<lambda>key value h. snd (ix_Put ix key value h)),
      handler_Delete = (\<lambda>key h. ix_Delete ix key h)\<rparr>"

definition uTree_Write :: "'h kv_index \<Rightarrow> WriteBatch \<Rightarrow> 'h \<Rightarrow> int \<times> 'h" where
  "uTree_Write ix batch h = (let (status, h1) = Iterate (uTreeInserter ix) batch h in (0, h1))"

definition uTree_Sync :: "'h \<Rightarrow> int \<times> 'h" where
  "uTree_Sync h = (0, h)"

definition uTree_Seek :: "'h kv_index \<Rightarrow> bytes \<Rightarrow> 'h \<Rightarrow> (bytes \<times> bytes) list \<times> 'h" where
  "uTree_Seek ix target h = (let (it, h1) = it_Seek ix target scan_iterator_new h in (it_rest it, h1))"

definition uTreeWrapper :: "'h kv_index \<Rightarrow> 'h KvWrapper" where
  "uTreeWrapper ix =
     \<lparr>kv_Init = uTree_Init ix, kv_Cleanup = uTree_Cleanup, kv_Put = uTree_Put ix, kv_Get = uTree_Get ix,
      kv_Delete = uTree_Delete ix, kv_Write = uTree_Write ix, kv_Sync = uTree_Sync, kv_Seek = uTree_Seek ix\<rparr>"

section \<open>RoartWrappr\<close>

definition Roart_Init :: "'h kv_index \<Rightarrow> 'h \<Rightarrow> int \<times> 'h" where
  "Roart_Init ix h = (1, ix_new ix)"

definition Roart_Cleanup :: "'h \<Rightarrow> 'h" where
  "Roart_Cleanup h = h"

definition Roart_Put :: "'h kv_index \<Rightarrow> bytes \<Rightarrow> bytes \<Rightarrow> 'h \<Rightarrow> int \<times> 'h" where
  "Roart_Put ix key value h =
     (let (res, h1) = ix_Put ix key value h in if res then (0, h1) else (- 1, h1))"

definition Roart_Get :: "'h kv_index \<Rightarrow> bytes \<Rightarrow> 'h \<Rightarrow> int \<times> bytes \<times> 'h" where
  "Roart_Get ix key h =
     (let (res, h1) = ix_Get ix key h
      in (case res of Some v \<Rightarrow> (1, v, h1) | None \<Rightarrow> (0, [], h1)))"

definition Roart_Delete :: "'h kv_index \<Rightarrow> bytes \<Rightarrow> 'h \<Rightarrow> int \<times> 'h" where
  "Roart_Delete ix key h = (0, ix_Delete ix key h)"

definition RoartInserter :: "'h kv_index \<Rightarrow> 'h Handler" where
  "RoartInserter ix =
     \<lparr>handler_Put = (\<lambda>key value h. snd (ix_Put ix key value h)),
      handler_Delete = (\<lambda>key h. ix_Delete ix key h)\<rparr>"

definition Roart_Write :: "'h kv_index \<Rightarrow> WriteBatch \<Rightarrow> 'h \<Rightarrow> int \<times> 'h" where
  "Roart_Write ix batch h = (let (status, h1) = Iterate (RoartInserter ix) batch h in (0, h1))"

definition Roart_Sync :: "'h \<Rightarrow> int \<times> 'h" where
  "Roart_Sync h = (0, h)"

definition Roart_Seek :: "'h kv_index \<Rightarrow> bytes \<Rightarrow> 'h \<Rightarrow> (bytes \<times> bytes) list \<times> 'h" where
  "Roart_Seek ix target h = (let (it, h1) = it_Seek ix target scan_iterator_new h in (it_rest it, h1))"

definition RoartWrappr :: "'h kv_index \<Rightarrow> 'h KvWrapper" where
  "RoartWrappr ix =
     \<lparr>kv_Init = Roart_Init ix, kv_Cleanup = Roart_Cleanup, kv_Put = Roart_Put ix, kv_Get = Roart_Get ix,
      kv_Delete = Roart_Delete ix, kv_Write = Roart_Write ix, kv_Sync = Roart_Sync, kv_Seek = Roart_Seek ix\<rparr>"

section \<open>HikvWrapper\<close>

text \<open>
  HiKV reports an error code.  Its scan calls back for the entries from a prefix on and stops when
  the callback returns false; the callback keeps the entries whose key contains the prefix.  \<open>Cleanup\<close> sets
  the owning pointer to null: \<open>hikv_reset\<close> is what is left when the store behind it has been destroyed.
\<close>

datatype ErrorCode = hikv_kOk | hikv_kNotFound | hikv_kError

record 'h OpenHiKV =
  hikv_Set :: "bytes \<Rightarrow> bytes \<Rightarrow> 'h \<Rightarrow> ErrorCode \<times> 'h"
  hikv_Get :: "bytes \<Rightarrow> 'h \<Rightarrow> ErrorCode \<times> bytes \<times> 'h"
  hikv_Del :: "bytes \<Rightarrow> 'h \<Rightarrow> ErrorCode \<times> 'h"
  hikv_Scan :: "bytes \<Rightarrow> 'h \<Rightarrow> (bytes \<times> bytes) list \<times> 'h"
  hikv_new :: 'h
  hikv_reset :: "'h \<Rightarrow> 'h"

definition Hikv_Init :: "'h OpenHiKV \<Rightarrow> 'h \<Rightarrow> int \<times> 'h" where
  "Hikv_Init hi h = (1, hikv_new hi)"

definition Hikv_Cleanup :: "'h OpenHiKV \<Rightarrow> 'h \<Rightarrow> 'h" where
  "Hikv_Cleanup hi h = hikv_reset hi h"

definition Hikv_Put :: "'h OpenHiKV \<Rightarrow> bytes \<Rightarrow> bytes \<Rightarrow> 'h \<Rightarrow> int \<times> 'h" where
  "Hikv_Put hi key value h =
     (let (res, h1) = hikv_Set hi key value h in if res = hikv_kOk then (0, h1) else (- 1, h1))"

definition Hikv_Get :: "'h OpenHiKV \<Rightarrow> bytes \<Rightarrow> 'h \<Rightarrow> int \<times> bytes \<times> 'h" where
  "Hikv_Get hi key h =
     (let (res, value, h1) = hikv_Get hi key h
      in if res = hikv_kOk then (1, value, h1)
         else if res = hikv_kNotFound then (0, [], h1)
         else (- 1, [], h1))"

definition Hikv_Delete :: "'h OpenHiKV \<Rightarrow> bytes \<Rightarrow> 'h \<Rightarrow> int \<times> 'h" where
  "Hikv_Delete hi key h = (0, snd (hikv_Del hi key h))"

text \<open>The batch is first collected in a vector, then applied.\<close>

definition HikvInserter :: "(bool \<times> bytes \<times> bytes) list Handler" where
  "HikvInserter =
     \<lparr>handler_Put = (\<lambda>key value raw. raw @ [(True, key, value)]),
      handler_Delete = (\<lambda>key raw. raw @ [(False, key, [])])\<rparr>"

definition Hikv_apply :: "'h OpenHiKV \<Rightarrow> bool \<times> bytes \<times> bytes \<Rightarrow> 'h \<Rightarrow> 'h" where
  "Hikv_apply hi item h =
     (let (is_put, key, value) = item
      in if is_put then snd (hikv_Set hi key value h) else snd (hikv_Del hi key h))"

definition Hikv_Write :: "'h OpenHiKV \<Rightarrow> WriteBatch \<Rightarrow> 'h \<Rightarrow> int \<times> 'h" where
  "Hikv_Write hi batch h =
     (let (status, raw) = Iterate HikvInserter batch [] in (1, fold (Hikv_apply hi) raw h))"

definition Hikv_Sync :: "'h \<Rightarrow> int \<times> 'h" where
  "Hikv_Sync h = (1, h)"

text \<open>\<open>k.ToString().find(prefix) != std::string::npos\<close>.\<close>

fun string_contains :: "bytes \<Rightarrow> bytes \<Rightarrow> bool" where
  "string_contains pat [] \<longleftrightarrow> pat = []"
| "string_contains pat (c # s) \<longleftrightarrow> take (length pat) (c # s) = pat \<or> string_contains pat s"

definition Hikv_Seek :: "'h OpenHiKV \<Rightarrow> bytes \<Rightarrow> 'h \<Rightarrow> (bytes \<times> bytes) list \<times> 'h" where
  "Hikv_Seek hi target h =
     (let prefix = take 8 target;
          (entries, h1) = hikv_Scan hi prefix h
      in (takeWhile (\<lambda>(k, v). string_contains prefix k) entries, h1))"

definition HikvWrapper :: "'h OpenHiKV \<Rightarrow> 'h KvWrapper" where
  "HikvWrapper hi =
     \<lparr>kv_Init = Hikv_Init hi, kv_Cleanup = Hikv_Cleanup hi, kv_Put = Hikv_Put hi, kv_Get = Hikv_Get hi,
      kv_Delete = Hikv_Delete hi, kv_Write = Hikv_Write hi, kv_Sync = Hikv_Sync, kv_Seek = Hikv_Seek hi\<rparr>"

section \<open>The adaptors meet the contract\<close>

context kv_index_store
begin

lemma index_update:
  assumes "ok h"
  shows "ok (handle_update (TlhashInserter ix) u h) \<and>
    contents (handle_update (TlhashInserter ix) u h) = apply_update u (contents h)"
  using index_put [OF assms] index_delete [OF assms] by (cases u) (auto simp: TlhashInserter_def)

lemma index_updates:
  "ok h \<Longrightarrow> ok (fold (handle_update (TlhashInserter ix)) us h) \<and>
    contents (fold (handle_update (TlhashInserter ix)) us h) = fold apply_update us (contents h)"
proof (induction us arbitrary: h)
  case (Cons u us)
  then show ?case
    using index_update [of h u] by auto
qed simp

end

lemma inserters_same: "uTreeInserter ix = TlhashInserter ix" "RoartInserter ix = TlhashInserter ix"
  by (simp_all add: uTreeInserter_def RoartInserter_def TlhashInserter_def)

sublocale kv_index_store \<subseteq> tl: kv_store "TlhashWrapper ix" "\<lambda>s. contents (tl_db s)"
  "\<lambda>s. ok (tl_db s) \<and> \<not> tl_failed s"
proof (standard, goal_cases)
  case (1 db k v)
  then have "ok (snd (ix_Put ix k v (tl_db db)))"
    using index_put by blast
  then show ?case
    using 1 index_put [of "tl_db db" k v] index_get [of "snd (ix_Put ix k v (tl_db db))" k]
    by (auto simp: TlhashWrapper_def Tlhash_Put_def split: prod.splits)
next
  case (2 db k)
  then show ?case
    using index_get [of "tl_db db" k]
    by (cases "contents (tl_db db) k") (auto simp: TlhashWrapper_def Tlhash_Get_def split: prod.splits)
next
  case (3 db k)
  then show ?case
    using index_get [of "tl_db db" k]
    by (auto simp: TlhashWrapper_def Tlhash_Get_def split: prod.splits option.splits)
next
  case (4 db k)
  then show ?case
    using index_delete [of "tl_db db" k] by (simp add: TlhashWrapper_def Tlhash_Delete_def)
next
  case (5 db us)
  then show ?case
    using index_updates [of "tl_db db" us]
    by (simp add: TlhashWrapper_def Tlhash_Write_def Iterate_batch_of meta_updates_small)
next
  case (6 db)
  then show ?case
    by (simp add: TlhashWrapper_def Tlhash_Sync_def)
qed

sublocale kv_index_store \<subseteq> ut: kv_store "uTreeWrapper ix" contents ok
proof (standard, goal_cases)
  case (1 db k v)
  then show ?case
    using index_put [of db k v] by (auto simp: uTreeWrapper_def uTree_Put_def split: prod.splits)
next
  case (2 db k)
  then show ?case
    using index_get [of db k]
    by (cases "contents db k") (auto simp: uTreeWrapper_def uTree_Get_def split: prod.splits)
next
  case (3 db k)
  then show ?case
    using index_get [of db k] by (auto simp: uTreeWrapper_def uTree_Get_def split: prod.splits option.splits)
next
  case (4 db k)
  then show ?case
    using index_delete [of db k] by (simp add: uTreeWrapper_def uTree_Delete_def)
next
  case (5 db us)
  then show ?case
    using index_updates [of db us] by (simp add: uTreeWrapper_def uTree_Write_def Iterate_batch_of meta_updates_small inserters_same)
next
  case (6 db)
  then show ?case
    by (simp add: uTreeWrapper_def uTree_Sync_def)
qed

sublocale kv_index_store \<subseteq> ro: kv_store "RoartWrappr ix" contents ok
proof (standard, goal_cases)
  case (1 db k v)
  then show ?case
    using index_put [of db k v] by (auto simp: RoartWrappr_def Roart_Put_def split: prod.splits)
next
  case (2 db k)
  then show ?case
    using index_get [of db k]
    by (cases "contents db k") (auto simp: RoartWrappr_def Roart_Get_def split: prod.splits)
next
  case (3 db k)
  then show ?case
    using index_get [of db k] by (auto simp: RoartWrappr_def Roart_Get_def split: prod.splits option.splits)
next
  case (4 db k)
  then show ?case
    using index_delete [of db k] by (simp add: RoartWrappr_def Roart_Delete_def)
next
  case (5 db us)
  then show ?case
    using index_updates [of db us] by (simp add: RoartWrappr_def Roart_Write_def Iterate_batch_of meta_updates_small inserters_same)
next
  case (6 db)
  then show ?case
    by (simp add: RoartWrappr_def Roart_Sync_def)
qed

definition item_of :: "update \<Rightarrow> bool \<times> bytes \<times> bytes" where
  "item_of u = (case u of Put k v \<Rightarrow> (True, k, v) | Delete k \<Rightarrow> (False, k, []))"

text \<open>HiKV: the same promise in terms of its error codes.\<close>

locale hikv_store =
  fixes hi :: "'h OpenHiKV"
    and contents :: "'h \<Rightarrow> bytes \<Rightarrow> bytes option"
    and ok :: "'h \<Rightarrow> bool"
  assumes hikv_set: "ok h \<Longrightarrow> fst (hikv_Set hi k v h) = hikv_kOk \<and> ok (snd (hikv_Set hi k v h)) \<and>
      contents (snd (hikv_Set hi k v h)) = (contents h)(k \<mapsto> v)"
    and hikv_get: "ok h \<Longrightarrow> (case contents h k of
        Some v \<Rightarrow> fst (hikv_Get hi k h) = hikv_kOk \<and> fst (snd (hikv_Get hi k h)) = v
      | None \<Rightarrow> fst (hikv_Get hi k h) = hikv_kNotFound)"
    and hikv_get_state: "ok h \<Longrightarrow> ok (snd (snd (hikv_Get hi k h))) \<and>
      contents (snd (snd (hikv_Get hi k h))) = contents h"
    and hikv_del: "ok h \<Longrightarrow> ok (snd (hikv_Del hi k h)) \<and> contents (snd (hikv_Del hi k h)) = (contents h)(k := None)"
begin

lemma collected: "fold (handle_update HikvInserter) us raw = raw @ map item_of us"
proof (induction us arbitrary: raw)
  case (Cons u us)
  then show ?case
    by (cases u) (simp_all add: HikvInserter_def item_of_def)
qed simp

lemma applied_one:
  assumes "ok h"
  shows "ok (Hikv_apply hi (item_of u) h) \<and> contents (Hikv_apply hi (item_of u) h) = apply_update u (contents h)"
  using hikv_set [OF assms] hikv_del [OF assms] by (cases u) (auto simp: Hikv_apply_def item_of_def)

lemma applied:
  "ok h \<Longrightarrow> ok (fold (Hikv_apply hi) (map item_of us) h) \<and>
    contents (fold (Hikv_apply hi) (map item_of us) h) = fold apply_update us (contents h)"
proof (induction us arbitrary: h)
  case (Cons u us)
  then show ?case
    using applied_one [of h u] by simp
qed simp

end

sublocale hikv_store \<subseteq> hik: kv_store "HikvWrapper hi" contents ok
proof (standard, goal_cases)
  case (1 db k v)
  then show ?case
    using hikv_set [of db k v] by (auto simp: HikvWrapper_def Hikv_Put_def split: prod.splits)
next
  case (2 db k)
  then show ?case
    using hikv_get [of db k]
    by (cases "contents db k") (auto simp: HikvWrapper_def Hikv_Get_def split: prod.splits)
next
  case (3 db k)
  then show ?case
    using hikv_get_state [of db k] by (auto simp: HikvWrapper_def Hikv_Get_def split: prod.splits)
next
  case (4 db k)
  then show ?case
    using hikv_del [of db k] by (simp add: HikvWrapper_def Hikv_Delete_def)
next
  case (5 db us)
  then show ?case
    using applied [of db us] collected [of us "[]"]
    by (simp add: HikvWrapper_def Hikv_Write_def Iterate_batch_of meta_updates_small)
next
  case (6 db)
  then show ?case
    by (simp add: HikvWrapper_def Hikv_Sync_def)
qed

section \<open>MetaKVWrapper\<close>

text \<open>
  MetaKV takes structured keys: \<open>tfsKey\<close> splits the 16 bytes of a metadata key into the inode number
  and the hash.  \<open>Encode\<close> and \<open>Decode\<close> are its serialized form, lengths included.
\<close>

record tfsKey =
  prefix_of :: bytes
  suffix_of :: bytes

definition tfsKey_of :: "bytes \<Rightarrow> tfsKey" where
  "tfsKey_of key = \<lparr>prefix_of = take 8 key, suffix_of = take 8 (drop 8 key)\<rparr>"

definition tfsKey_EncodeSize :: "tfsKey \<Rightarrow> nat" where
  "tfsKey_EncodeSize k = length (prefix_of k) + length (suffix_of k) + 2 * 8"

definition tfsKey_Encode :: "tfsKey \<Rightarrow> bytes" where
  "tfsKey_Encode k =
     (let buff = PutFixed64 [] (of_nat (length (prefix_of k)));
          buff = buff @ prefix_of k;
          buff = PutFixed64 buff (of_nat (length (suffix_of k)))
      in buff @ suffix_of k)"

record 'h MetaDB =
  meta_Put :: "tfsKey \<Rightarrow> bytes \<Rightarrow> 'h \<Rightarrow> bool \<times> 'h"
  meta_Get :: "tfsKey \<Rightarrow> 'h \<Rightarrow> bool \<times> bytes \<times> 'h"
  meta_Delete :: "tfsKey \<Rightarrow> 'h \<Rightarrow> 'h"
  meta_Scan :: "bytes \<Rightarrow> 'h \<Rightarrow> (bytes \<times> bytes) list \<times> 'h"
  meta_Open :: 'h

definition MetaKV_Init :: "'h MetaDB \<Rightarrow> 'h \<Rightarrow> int \<times> 'h" where
  "MetaKV_Init m h = (1, meta_Open m)"

definition MetaKV_Cleanup :: "'h \<Rightarrow> 'h" where
  "MetaKV_Cleanup h = h"

definition MetaKV_Put :: "'h MetaDB \<Rightarrow> bytes \<Rightarrow> bytes \<Rightarrow> 'h \<Rightarrow> int \<times> 'h" where
  "MetaKV_Put m key value h =
     (let (res, h1) = meta_Put m (tfsKey_of key) value h in if res then (0, h1) else (- 1, h1))"

definition MetaKV_Get :: "'h MetaDB \<Rightarrow> bytes \<Rightarrow> 'h \<Rightarrow> int \<times> bytes \<times> 'h" where
  "MetaKV_Get m key h =
     (let (res, val, h1) = meta_Get m (tfsKey_of key) h in if \<not> res then (0, val, h1) else (1, val, h1))"

definition MetaKV_Delete :: "'h MetaDB \<Rightarrow> bytes \<Rightarrow> 'h \<Rightarrow> int \<times> 'h" where
  "MetaKV_Delete m key h = (0, meta_Delete m (tfsKey_of key) h)"

definition MetaDBInserter :: "'h MetaDB \<Rightarrow> 'h Handler" where
  "MetaDBInserter m =
     \<lparr>handler_Put = (\<lambda>key value h. snd (meta_Put m (tfsKey_of key) value h)),
      handler_Delete = (\<lambda>key h. meta_Delete m (tfsKey_of key) h)\<rparr>"

definition MetaKV_Write :: "'h MetaDB \<Rightarrow> WriteBatch \<Rightarrow> 'h \<Rightarrow> int \<times> 'h" where
  "MetaKV_Write m batch h = (let (status, h1) = Iterate (MetaDBInserter m) batch h in (1, h1))"

definition MetaKV_Sync :: "'h \<Rightarrow> int \<times> 'h" where
  "MetaKV_Sync h = (1, h)"

definition MetaKV_Seek :: "'h MetaDB \<Rightarrow> bytes \<Rightarrow> 'h \<Rightarrow> (bytes \<times> bytes) list \<times> 'h" where
  "MetaKV_Seek m target h = meta_Scan m (prefix_of (tfsKey_of target)) h"

definition MetaKVWrapper :: "'h MetaDB \<Rightarrow> 'h KvWrapper" where
  "MetaKVWrapper m =
     \<lparr>kv_Init = MetaKV_Init m, kv_Cleanup = MetaKV_Cleanup, kv_Put = MetaKV_Put m, kv_Get = MetaKV_Get m,
      kv_Delete = MetaKV_Delete m, kv_Write = MetaKV_Write m, kv_Sync = MetaKV_Sync,
      kv_Seek = MetaKV_Seek m\<rparr>"

lemma tfsKey_of_inject:
  "length k = 16 \<Longrightarrow> length k' = 16 \<Longrightarrow> tfsKey_of k = tfsKey_of k' \<longleftrightarrow> k = k'"
  by (auto simp: tfsKey_of_def) (metis append_take_drop_id)

lemma length_tfsKey_Encode: "length (tfsKey_Encode k) = tfsKey_EncodeSize k"
  by (simp add: tfsKey_Encode_def tfsKey_EncodeSize_def PutFixed64_def EncodeFixed64_def Let_def)

locale metadb_store =
  fixes m :: "'h MetaDB"
    and table :: "'h \<Rightarrow> tfsKey \<Rightarrow> bytes option"
    and ok :: "'h \<Rightarrow> bool"
  assumes metadb_put: "ok h \<Longrightarrow> fst (meta_Put m k v h) \<and> ok (snd (meta_Put m k v h)) \<and>
      table (snd (meta_Put m k v h)) = (table h)(k \<mapsto> v)"
    and metadb_get: "ok h \<Longrightarrow> (case table h k of
        Some v \<Rightarrow> fst (meta_Get m k h) \<and> fst (snd (meta_Get m k h)) = v
      | None \<Rightarrow> \<not> fst (meta_Get m k h))"
    and metadb_get_state: "ok h \<Longrightarrow> ok (snd (snd (meta_Get m k h))) \<and> table (snd (snd (meta_Get m k h))) = table h"
    and metadb_delete: "ok h \<Longrightarrow> ok (meta_Delete m k h) \<and> table (meta_Delete m k h) = (table h)(k := None)"

text \<open>The map over 16-byte keys that a table over structured keys stands for.\<close>

definition metadb_contents :: "('h \<Rightarrow> tfsKey \<Rightarrow> bytes option) \<Rightarrow> 'h \<Rightarrow> bytes \<Rightarrow> bytes option" where
  "metadb_contents table h k = (if length k = 16 then table h (tfsKey_of k) else None)"

context metadb_store
begin

lemma metadb_contents_put:
  assumes "ok h" "length k = 16"
  shows "metadb_contents table (snd (meta_Put m (tfsKey_of k) v h)) = (metadb_contents table h)(k \<mapsto> v)"
  using metadb_put [OF assms(1)] assms(2) by (auto simp: metadb_contents_def tfsKey_of_inject fun_eq_iff)

lemma metadb_contents_delete:
  assumes "ok h" "length k = 16"
  shows "metadb_contents table (meta_Delete m (tfsKey_of k) h) = (metadb_contents table h)(k := None)"
  using metadb_delete [OF assms(1)] assms(2) by (auto simp: metadb_contents_def tfsKey_of_inject fun_eq_iff)

lemma metadb_updates:
  "ok h \<Longrightarrow> list_all meta_update us \<Longrightarrow> ok (fold (handle_update (MetaDBInserter m)) us h) \<and>
    metadb_contents table (fold (handle_update (MetaDBInserter m)) us h) =
      fold apply_update us (metadb_contents table h)"
proof (induction us arbitrary: h)
  case (Cons u us)
  have "ok (handle_update (MetaDBInserter m) u h) \<and>
      metadb_contents table (handle_update (MetaDBInserter m) u h) = apply_update u (metadb_contents table h)"
    using Cons.prems metadb_put [OF Cons.prems(1)] metadb_delete [OF Cons.prems(1)]
      metadb_contents_put [OF Cons.prems(1)] metadb_contents_delete [OF Cons.prems(1)]
    by (cases u) (auto simp: MetaDBInserter_def)
  then show ?case
    using Cons.IH Cons.prems(2) by simp
qed simp

end

sublocale metadb_store \<subseteq> mkv: kv_store "MetaKVWrapper m" "metadb_contents table" ok
proof (standard, goal_cases)
  case (1 db k v)
  then show ?case
    using metadb_put [of db "tfsKey_of k" v] metadb_contents_put [of db k v]
    by (auto simp: MetaKVWrapper_def MetaKV_Put_def split: prod.splits)
next
  case (2 db k)
  then show ?case
    using metadb_get [of db "tfsKey_of k"]
    by (cases "table db (tfsKey_of k)")
      (auto simp: MetaKVWrapper_def MetaKV_Get_def metadb_contents_def split: prod.splits)
next
  case (3 db k)
  then show ?case
    using metadb_get_state [of db "tfsKey_of k"]
    by (auto simp: MetaKVWrapper_def MetaKV_Get_def metadb_contents_def split: prod.splits)
next
  case (4 db k)
  then show ?case
    using metadb_delete [of db "tfsKey_of k"] metadb_contents_delete [of db k]
    by (simp add: MetaKVWrapper_def MetaKV_Delete_def)
next
  case (5 db us)
  then show ?case
    using metadb_updates [of db us]
    by (simp add: MetaKVWrapper_def MetaKV_Write_def Iterate_batch_of meta_updates_small)
next
  case (6 db)
  then show ?case
    by (simp add: MetaKVWrapper_def MetaKV_Sync_def)
qed

section \<open>The adaptors as stores\<close>

context kv_index_store
begin

lemma index_stores:
  "kv_store (TlhashWrapper ix) (\<lambda>s. contents (tl_db s)) (\<lambda>s. ok (tl_db s) \<and> \<not> tl_failed s)"
  "kv_store (uTreeWrapper ix) contents ok" "kv_store (RoartWrappr ix) contents ok"
  by (rule tl.kv_store_axioms ut.kv_store_axioms ro.kv_store_axioms)+

end

context hikv_store
begin

lemma hikv_stores: "kv_store (HikvWrapper hi) contents ok"
  by (rule hik.kv_store_axioms)

end

context metadb_store
begin

lemma metadb_stores: "kv_store (MetaKVWrapper m) (metadb_contents table) ok"
  by (rule mkv.kv_store_axioms)

end

section \<open>A reference index\<close>

text \<open>
  The promises can be kept: a list of entries in the bytewise order of their keys is an index, and the
  adaptors over it are stores.  Its scan visits the entries from the target on, so that the adaptor is
  an ordered store too.
\<close>

definition list_index :: "(bytes \<times> bytes) list kv_index" where
  "list_index =
     \<lparr>ix_Put = (\<lambda>k v xs. (True, list_put k v xs)), ix_Get = (\<lambda>k xs. (map_of xs k, xs)), ix_Delete = list_delete,
      ix_Scan = (\<lambda>target xs. (filter (\<lambda>e. bytes_less_eq target (fst e)) xs, xs)), ix_new = [], ix_Exit = (\<lambda>xs. xs)\<rparr>"

interpretation list_ix: kv_index_store list_index map_of list_ok
  by standard (simp_all add: list_index_def map_of_list_put map_of_list_delete list_ok_delete list_ok_put)

interpretation list_ord: ordered_kv_store "uTreeWrapper list_index" map_of list_ok
proof (standard, goal_cases)
  case (1 db target)
  then show ?case
    by (simp add: uTreeWrapper_def uTree_Seek_def it_Seek_def list_index_def)
next
  case (2 db target)
  have "map_of db k = Some v \<longleftrightarrow> (k, v) \<in> set db" for k v
    using list_ok_distinct [OF 2] by simp
  then show ?case
    by (auto simp: uTreeWrapper_def uTree_Seek_def it_Seek_def it_rest_def list_index_def scan_iterator_new_def)
next
  case (3 db target)
  then show ?case
    by (simp add: uTreeWrapper_def uTree_Seek_def it_Seek_def it_rest_def list_index_def scan_iterator_new_def
        list_ok_def sorted_wrt_map sorted_wrt_filter)
qed

text \<open>The same list as a HiKV store and as a MetaKV table.\<close>

definition list_hikv :: "(bytes \<times> bytes) list OpenHiKV" where
  "list_hikv =
     \<lparr>hikv_Set = (\<lambda>k v xs. (hikv_kOk, list_put k v xs)),
      hikv_Get = (\<lambda>k xs. case map_of xs k of Some v \<Rightarrow> (hikv_kOk, v, xs) | None \<Rightarrow> (hikv_kNotFound, [], xs)),
      hikv_Del = (\<lambda>k xs. (hikv_kOk, list_delete k xs)),
      hikv_Scan = (\<lambda>prefix xs. (filter (\<lambda>e. bytes_less_eq prefix (fst e)) xs, xs)), hikv_new = [], hikv_reset = (\<lambda>_. [])\<rparr>"

interpretation list_hi: hikv_store list_hikv map_of list_ok
  by standard (auto simp: list_hikv_def map_of_list_put map_of_list_delete list_ok_delete list_ok_put
      split: option.splits)

definition list_metadb :: "(tfsKey \<times> bytes) list MetaDB" where
  "list_metadb =
     \<lparr>meta_Put = (\<lambda>k v xs. (True, (k, v) # xs)),
      meta_Get = (\<lambda>k xs. case map_of xs k of Some v \<Rightarrow> (True, v, xs) | None \<Rightarrow> (False, [], xs)),
      meta_Delete = (\<lambda>k xs. filter (\<lambda>e. fst e \<noteq> k) xs),
      meta_Scan = (\<lambda>prefix xs. (map (\<lambda>(k, v). (prefix_of k @ suffix_of k, v))
        (filter (\<lambda>e. prefix_of (fst e) = prefix) xs), xs)),
      meta_Open = []\<rparr>"

lemma map_of_filter_key: "map_of (filter (\<lambda>e. fst e \<noteq> k) xs) = (map_of xs)(k := None)"
  by (induction xs) auto

interpretation list_meta: metadb_store list_metadb map_of "\<lambda>_. True"
  by standard (auto simp: list_metadb_def map_of_filter_key split: option.splits)

end
