(* ===== verification/Spec2Isabelle.thy ===== *)
theory Spec2Isabelle
  imports Engine_Properties Fs_Wrapper Kv_Adaptors Log_Stores
begin

text \<open>
  TableFS over a key-value wrapper: a file system in user space that keeps its metadata and its small
  files in a key-value store and its large files in a directory of the underlying file system.

  \<^bold>\<open>The program.\<close>  FUSE hands one request at a time to a handler of \<open>TableFS\<close> (\<open>fs/tablefs.cpp\<close>).  A
  handler resolves the path, component by component, to the key of an inode: the number of the directory
  and a hash of the name.  The dentry cache (\<open>fs/dcache.cpp\<close>) remembers the numbers of directories; the
  inode cache (\<open>fs/icache.cpp\<close>), a sharded LRU cache of LevelDB (\<open>lib/leveldb/util/cache.cc\<close>), hands out
  handles of inodes and writes changed ones back to the store.  The store is any \<open>KvWrapper\<close>
  (\<open>adaptor/kv_wrapper.h\<close>).  \<open>FileSystemState\<close> (\<open>fs/tfs_state.cpp\<close>) keeps the directories and the counter of
  inode numbers, \<open>Properties\<close> (\<open>util/properties.cpp\<close>) the options, \<open>tablefs_main.cpp\<close> starts it all, and
  \<open>TableFSWrapper\<close> (\<open>fs/fswrapper.cpp\<close>) offers the same file system as a library with descriptors.  The
  build chooses the store, by default HybridHash (\<open>WITH_TLHASH\<close> in \<open>CMakeLists.txt\<close>).  The repository also
  contains LevelDB (\<open>lib/leveldb\<close>), whose cache and formats the program uses and for which it has an
  adaptor, although \<open>Setup\<close> does not construct it: a write goes to a log file and to a memtable, a skip list
  of internal keys, from which tables are built in the background; the descriptor records which files
  make up the database.

  \<^bold>\<open>The theories\<close>, from the bottom up.
    \<^item> \<open>Prelude\<close>: bytes, little-endian words, strings and options.  \<open>Coding\<close>, \<open>Status\<close>, \<open>Write_Batch\<close>,
      \<open>My_Hash\<close>: the formats and hashes of LevelDB and of the keys.  \<open>Byte_Order\<close>: lists in the order of
      their keys.  \<open>Posix_Files\<close>: the part of the underlying file system the program uses.
    \<^item> \<open>Handle_Table\<close>, \<open>Lru_Cache\<close>, \<open>Sharded_Cache\<close>: the cache, with its heap of reference-counted entries;
      the locales \<open>handle_set\<close> and \<open>entry_cache\<close> are what the levels above rely on.
    \<^item> \<open>Tfs_Inode\<close>: keys, headers and values of inodes, byte by byte.  \<open>Dcache\<close> with the locale
      \<open>forgetful_map\<close>; \<open>Icache\<close>.
    \<^item> \<open>Kv_Wrapper\<close>: the interface of the stores, the locales \<open>kv_store\<close> and \<open>ordered_kv_store\<close>.
      \<open>Kv_Adaptors\<close>: the adaptors of HybridHash, uTree, ROART, HiKV and MetaKV, over indexes that are
      parameters.  \<open>Log_Stores\<close>: those of LevelDB and RocksDB, over the interface of a database, with
      the locale \<open>rocks_database\<close> for what RocksDB promises.  Each adaptor but that of LevelDB is a sublocale of
      the contract, and each contract of an index or database outside the repository is interpreted by a list.
    \<^item> \<open>Properties\<close>, \<open>Tfs_State\<close>: options and state.  \<open>Tablefs\<close>: every handler of \<open>TableFS\<close>, with its early
      returns.  \<open>Tablefs_Path\<close>, \<open>Tablefs_Meta\<close>, \<open>Tablefs_Data\<close>, \<open>Tablefs_Session\<close>, \<open>Tablefs_Dir\<close>: what the
      handlers do, for paths, metadata, data, sessions and directories.  \<open>Tablefs_Main\<close>: the program, and
      the abstract file system it refines.  \<open>Fs_Wrapper\<close>: the library.
    \<^item> The parts of LevelDB.  \<open>Db_Format\<close>: comparators and internal keys (\<open>util/comparator.cc\<close>,
      \<open>db/dbformat.cc\<close>), with the locales \<open>key_order\<close>, \<open>separating_order\<close> and \<open>user_comparator\<close>.  \<open>Skip_List\<close>
      (\<open>db/skiplist.h\<close>), over any \<open>key_order\<close>, and \<open>Mem_Table\<close> (\<open>db/memtable.cc\<close>) on top of it.  \<open>Crc_Tables\<close> and
      \<open>Crc32c\<close> (\<open>util/crc32c.cc\<close>).  \<open>Mem_Env\<close> (\<open>helpers/memenv/memenv.cc\<close>): files in memory, which interpret the
      locales \<open>writable_file\<close> and \<open>sequential_file\<close>.  \<open>Log_Format\<close> (\<open>db/log_writer.cc\<close>, \<open>db/log_reader.cc\<close>), over
      these locales.  \<open>Db_Write\<close>: writing in groups and recovery from a log (\<open>db/db_impl.cc\<close>).  \<open>Decimal\<close>,
      \<open>File_Names\<close> (\<open>util/logging.cc\<close>, \<open>db/filename.cc\<close>) and \<open>Version_Edit\<close> (\<open>db/version_edit.cc\<close>): names and the
      descriptor.  \<open>Engine_Properties\<close> holds the properties of these parts.

  \<^bold>\<open>State and errors.\<close>  A class is a record, and an operation takes and returns it.  An operation of type
  \<open>option\<close> is \<open>None\<close> where the program has no defined behaviour or does not go on: it follows a pointer to
  freed memory or an erased list node, overruns a buffer, fails an assertion, loops for ever, or exits.  A theorem that an operation is
  \<open>Some\<close> therefore says that none of this happens.  Error codes are the integers the program returns.
  Integers have the width of the code where it matters (\<open>u64\<close>, \<open>u32\<close>, \<open>byte\<close>); what uninitialised or freed
  memory holds is an argument (\<open>call_env\<close>).

  \<^bold>\<open>What is shown.\<close>  The invariant \<open>fs_inv\<close> says that the inode cache agrees with the store except for the
  handles a caller holds, that the dentry cache knows only what is true, and that every stored value is
  an inode; every handler keeps it.  On top of it: the program refines a map from keys to inodes for
  every sequence of metadata requests; a file is an array of bytes for every sequence of reads and
  writes, wherever the data is; directories list what they hold; links, renames, removals, truncation and
  missing paths behave as they should; an unmounted file system over RocksDB comes back.  Below it: the
  caches are maps that free what nobody holds and nothing else, and evict no more than they must; the
  formats round-trip; the adaptors meet the contract of the stores; that of LevelDB asks for synchronous
  writes in time.  In LevelDB: a skip list holds its keys in order at whatever heights it draws; a
  memtable keeps every version of a key and a lookup sees the one of its snapshot; writers are served
  in groups and in order while the memtable has room, and a writer without a batch switches it; a log
  reads back, and recovery from all of it restores what was written ahead; the table-driven checksum is the CRC; keys are shortened within their bounds; edits of the descriptor
  round-trip and stay well typed on corrupt input; the switch of \<open>CURRENT\<close> touches nothing else.

  \<^bold>\<open>Bounds.\<close>  Recursion is structural or has a measure, or the loop is a partial function whose value is
  \<open>None\<close> when it does not end: that of \<open>Scanfile\<close>, the searches of the skip list, the doubling of the
  table of the cache, \<open>MakeRoomForWrite\<close>, and the loops of the log and of its recovery; the theorems on them
  say that they return.  \<open>serve\<close> has a number of rounds, and as
  many as there are writers are enough.  Sequence numbers stay below \<open>2\<^sup>5\<^sup>6\<close> and lengths below \<open>2\<^sup>3\<^sup>2\<close>, the
  limits of their formats; the updates of a queue of writers are below \<open>2\<^sup>3\<^sup>1\<close>, since their count is an
  \<open>int\<close>, and so are the lengths of slices that are compared, which the code keeps in one.  A shard has
  fewer than \<open>2\<^sup>3\<^sup>1\<close> entries, beyond which its table cannot grow, and its usage fits 64 bits.  A shard of the inode cache
  has room for 32 entries (512 in 16 shards), and at most two handles are held at a time by a handler
  and one by an open file, which is what the theorems assume.  Files are below two gigabytes where a
  \<open>size_t\<close> or \<open>off_t\<close> is returned as \<open>int\<close>.

  \<^bold>\<open>Not modelled.\<close>  The locks, which are commented out, and threads: FUSE runs with \<open>-s\<close>.  Log messages.  The
  indexes behind the adaptors and RocksDB, which are not in the repository, and FUSE: parameters or
  requests.  Of LevelDB the table files, versions and
  compactions, the iterator over the whole database, its threads and its environment of POSIX files: what
  other threads do while a writer waits is a parameter, as is the building of a table in the recovery.
  What a crash leaves of a file that was not synchronised is not modelled.  The former \<open>tablefs-old.cpp\<close> and
  \<open>leveldb_adaptor.cpp\<close>, which are not built; the benchmark, its traces, monitoring and sockets.  Several
  files open at once: the theorems on data are about one session at a time, since handles that stay
  held while their shard fills up are evicted from it.
\<close>

section \<open>A small file system\<close>

text \<open>
  The instance at which the properties below are evaluated: the adaptor of uTree over a list of entries
  in the order of their keys, a data directory, and a threshold of four bytes.
\<close>

abbreviation demo_kv :: "(bytes \<times> bytes) list KvWrapper" where
  "demo_kv \<equiv> uTreeWrapper list_index"

definition demo_state :: FileSystemState where
  "demo_state = \<lparr>metadir = cstr ''/m'', datadir = cstr ''/d'', mountdir = cstr ''/t'', max_inode_num = 0, threshold = 4\<rparr>"

definition demo_px :: Posix where
  "demo_px = \<lparr>px_links = Map.empty, px_files = (\<lambda>_. []), px_dirs = (\<lambda>p. p \<in> {cstr ''/'', cstr ''/d'', cstr ''/d/0''}),
     px_fds = [], px_next = 0, px_errno = 0\<rparr>"

definition demo_env :: call_env where
  "demo_env = \<lparr>ce_sys = \<lparr>env_time = 1000, env_uid = 7, env_gid = 8\<rparr>, ce_mem = [], ce_fd = -1, ce_stale = 0\<rparr>"

lemma demo_store: "kv_store demo_kv map_of list_ok"
  by (rule list_ix.ut.kv_store_axioms)

lemma demo_init: "kv_Init demo_kv db = (1, [])"
  by (simp add: uTreeWrapper_def uTree_Init_def list_index_def)

definition root_value :: "call_env \<Rightarrow> bool \<Rightarrow> u32 \<Rightarrow> u64 \<Rightarrow> bytes" where
  "root_value env conn mode dev = InitInodeValue (ce_sys env) conn (ce_mem env) ROOT_INODE_ID mode dev []"

text \<open>Paths of one name, as the instances use them.\<close>

lemma resolve_one: "x \<noteq> PATH_DELIMITER \<Longrightarrow> resolve m [PATH_DELIMITER, x] = Some (BuildMetaKey_name [x] ROOT_INODE_ID)"
  by (simp add: resolve_def components.simps)

lemma path_name_one: "x \<noteq> PATH_DELIMITER \<Longrightarrow> path_name [PATH_DELIMITER, x] = [x]"
  by (simp add: path_name_def components.simps)

lemma key_one_inject [simp]: "BuildMetaKey_name [x] i = BuildMetaKey_name [y] i \<longleftrightarrow> x = y"
  using murmur64_inject_short [of "[x]" "[y]" 123] by (auto simp: BuildMetaKey_name_def BuildMetaKey_def)

abbreviation demo_a :: bytes where "demo_a \<equiv> [PATH_DELIMITER, 97]"
abbreviation demo_b :: bytes where "demo_b \<equiv> [PATH_DELIMITER, 98]"
abbreviation demo_c :: bytes where "demo_c \<equiv> [PATH_DELIMITER, 99]"

lemma key_one_root:
  "BuildMetaKey_name [97] ROOT_INODE_ID \<noteq> root_key" "BuildMetaKey_name [98] ROOT_INODE_ID \<noteq> root_key"
  "BuildMetaKey_name [99] ROOT_INODE_ID \<noteq> root_key"
  by (simp_all add: BuildMetaKey_name_def BuildMetaKey_def root_key_def murmur64_def murmur_blocks_short murmur_tail_def
      murmur_m_def Let_def)

lemma demo_names: "97 \<noteq> PATH_DELIMITER" "98 \<noteq> PATH_DELIMITER" "99 \<noteq> PATH_DELIMITER"
  by (simp_all add: PATH_DELIMITER_def)

lemmas demo_simps =
  resolve_one path_name_one key_one_root key_one_root [symmetric] demo_names good_path_def free_name_def tree_lookup_def

definition demo_requests :: "(call_env \<times> request) list" where
  "demo_requests =
     map (Pair demo_env)
       [ReqMkdir demo_a 0x1ED, ReqMknod demo_b 0x1A4 0, ReqGetattr demo_b, ReqRename demo_b demo_c, ReqGetattr demo_b,
        ReqUnlink demo_c]"

abbreviation demo_tree :: abs_fs where
  "demo_tree \<equiv> ([root_key \<mapsto> root_value demo_env True 0x41ED 0], 0)"

lemma demo_allowed: "allowed_run True demo_requests demo_tree"
  by (simp add: demo_requests_def demo_simps abs_create_def abs_getattr_def abs_rename_def abs_remove_def)

text \<open>A mounted file system that holds the root directory and an empty file.\<close>

abbreviation demo_key :: tfs_meta_key_t where
  "demo_key \<equiv> BuildMetaKey_name [98] ROOT_INODE_ID"

definition demo_value :: bytes where
  "demo_value = InitInodeValue (ce_sys demo_env) True [] 1 0x81A4 0 [98]"

definition demo_db :: "(bytes \<times> bytes) list" where
  "demo_db = list_put (ToSlice demo_key) demo_value (list_put (ToSlice root_key) (root_value demo_env True 0x41ED 0) [])"

definition demo_fs :: "(bytes \<times> bytes) list TableFS" where
  "demo_fs = mounted True (demo_state\<lparr>max_inode_num := 1\<rparr>) demo_db demo_px"

abbreviation demo_files :: abs_fs where
  "demo_files \<equiv> ([root_key \<mapsto> root_value demo_env True 0x41ED 0, demo_key \<mapsto> demo_value], 1)"

lemma demo_tree_files: "(\<lambda>key. map_of demo_db (ToSlice key)) = fst demo_files"
  by (auto simp: demo_db_def map_of_list_put fun_eq_iff)

lemma demo_wf: "wf_inode demo_value" "wf_inode (root_value demo_env True 0x41ED 0)"
  using kv_store.wf_new_inode [OF demo_store, of "[98]" "[]"] kv_store.wf_new_inode [OF demo_store, of "[]" "[]"]
  by (simp_all add: demo_value_def root_value_def)

lemma demo_db_ok: "list_ok demo_db"
  unfolding demo_db_def by (intro list_ok_put) (simp add: list_ok_def)

lemma demo_rel: "abs_rel demo_kv map_of list_ok True demo_fs demo_files"
proof -
  have "\<forall>key v. map_of demo_db (ToSlice key) = Some v \<longrightarrow> wf_inode v"
    using demo_wf by (auto simp: demo_db_def map_of_list_put)
  then show ?thesis
    using kv_store.TableFS_Init_state [OF demo_store, of demo_db "demo_state\<lparr>max_inode_num := 1\<rparr>" True demo_px] demo_tree_files demo_db_ok
    by (simp add: demo_fs_def demo_state_def cstr_def)
qed

lemma demo_quiet: "fs_inv demo_kv map_of list_ok 0 Map.empty demo_fs"
  using demo_rel by (rule abs_rel_inv)

lemma demo_fs_tree: "fs_tree map_of demo_fs = fst demo_files"
  using demo_rel by (rule abs_rel_tree)

lemma demo_found: "tree_lookup (fs_tree map_of demo_fs) demo_b = Some (demo_key, demo_value)"
  by (simp add: demo_fs_tree demo_simps)

lemma demo_attr: "\<exists>st. GetAttribute demo_value = Some st \<and> st_ino st = 1"
proof -
  obtain h where "demo_value = inode_value h [98] []" "wf_header h [98]" "st_ino (fstat h) = 1"
    using InitInodeValue_value [of "[98]" "ce_sys demo_env" True "[]" 1 "0x81A4" 0] unfolding demo_value_def by auto
  then show ?thesis
    using GetAttribute_value [of h "[98]" "[]"] by metis
qed

lemma demo_path: "GetDiskFilePath (fs_state demo_fs) 1 = Some (cstr ''/d/0/1'')"
  by (simp add: GetDiskFilePath_small demo_fs_def demo_state_def cstr_def sprintf_buf_def print_nat.simps)

lemma demo_view: "file_view (fs_state demo_fs) (fs_px demo_fs) demo_value (-1) []"
proof -
  show ?thesis
    unfolding demo_value_def
    by (rule new_file_view [OF _ demo_path]) (simp_all add: demo_fs_def demo_px_def demo_state_def px_inv_def cstr_def dirname_def)
qed

lemma demo_room: "length (datadir demo_state) \<le> 100" "length (datadir (fs_state demo_fs)) \<le> 100"
  by (simp_all add: demo_fs_def demo_state_def cstr_def)

lemma demo_small: "small_threshold (fs_state demo_fs)"
  by (simp add: demo_fs_def demo_state_def small_threshold_def MAX_RW_COUNT_def)

lemma demo_rdwr: "rw_flags O_RDWR"
  by (simp add: rw_flags_def can_read_def can_write_def flag_def O_RDWR_def O_ACCMODE_def O_WRONLY_def O_TRUNC_def
      O_EXCL_def O_APPEND_def)

section \<open>The program as a whole\<close>

text \<open>
  C1: on a fresh store \<open>Init\<close> succeeds, and from there every sequence of requests on metadata (with paths
  FUSE can send, creating only names that are free, and not renaming a file onto itself) is answered by
  the caches, the store and the path lookup exactly as by the abstract file system, which is nothing but
  a map from keys to inodes and a counter; no call touches freed memory or overruns a buffer on the way,
  and the tree in the store stays the one of the abstract file system.
\<close>

theorem run_refines:
  assumes store: "kv_store kv contents ok"
    and init: "0 \<le> fst (kv_Init kv db)" "ok (snd (kv_Init kv db))" "contents (snd (kv_Init kv db)) = Map.empty"
    and state: "IsEmpty st" "length (datadir st) \<le> 100"
    and reqs: "allowed_run conn rs ([root_key \<mapsto> root_value env conn mode dev], 0)"
  shows "\<exists>s s'. TableFS_Init kv env conn mode dev st db px = Some s \<and>
    run kv rs s = Some (fst (abs_run conn rs ([root_key \<mapsto> root_value env conn mode dev], 0)), s') \<and>
    abs_rel kv contents ok conn s' (snd (abs_run conn rs ([root_key \<mapsto> root_value env conn mode dev], 0)))"
proof -
  obtain s where s: "TableFS_Init kv env conn mode dev st db px = Some s"
    "abs_rel kv contents ok conn s ([root_key \<mapsto> root_value env conn mode dev], 0)"
    unfolding root_value_def by (rule kv_store.TableFS_Init_fresh [OF store init state])
  then show ?thesis
    using kv_store.run_simulates [OF store s(2) reqs] by blast
qed

theorem run_refines_witness:
  "\<exists>s s'. TableFS_Init demo_kv demo_env True 0x41ED 0 demo_state [] demo_px = Some s \<and>
    run demo_kv demo_requests s = Some (fst (abs_run True demo_requests demo_tree), s') \<and>
    abs_rel demo_kv map_of list_ok True s' (snd (abs_run True demo_requests demo_tree))"
  by (rule run_refines [OF demo_store _ _ _ _ _ demo_allowed])
    (simp_all add: demo_init list_ok_def demo_state_def IsEmpty_def cstr_def)

text \<open>
  C2: between an \<open>Open\<close> for reading and writing and \<open>Release\<close> a file is an array of bytes.  Every sequence of
  reads and non-empty writes that keeps it below two gigabytes gets the
  answers the array gives, although the data moves from the inode to a file on disk when it outgrows the
  threshold; after \<open>Release\<close> the inode has the size of the array, the array is what the next \<open>Open\<close> will
  find, and no other file on disk has changed.
\<close>

theorem file_session:
  assumes store: "kv_store kv contents ok" and inv: "fs_inv kv contents ok 0 Map.empty s" and "path \<noteq> []"
    and "rw_flags flags" "small_threshold (fs_state s)"
    and "tree_lookup (fs_tree contents s) path = Some (key, v)" "GetAttribute v = Some st"
    and "file_view (fs_state s) (fs_px s) v (-1) data" and "list_all file_bounds ops"
  shows "\<exists>s' v' st'.
    run kv (session env path flags (fs_next_fh s) ops) s =
      Some ((0, FileData (fs_next_fh s)) # file_replies ops data @ [(0, NoData)], s') \<and>
    fs_inv kv contents ok 0 Map.empty s' \<and> fs_tree contents s' = (fs_tree contents s)(key \<mapsto> v') \<and>
    GetAttribute v' = Some st' \<and> st_ino st' = st_ino st \<and> unat (st_size st') = length (file_final ops data) \<and>
    file_view (fs_state s') (fs_px s') v' (-1) (file_final ops data) \<and>
    (\<forall>p. GetDiskFilePath (fs_state s) (st_ino st) = Some p \<longrightarrow> px_others p (fs_px s) (fs_px s'))"
  using kv_store.run_session [OF assms] by metis

definition demo_ops :: "file_op list" where
  "demo_ops = [FWrite [1, 2, 3] 0, FRead 8 1, FWrite [4, 5, 6] 2, FRead 3 1]"

lemma demo_replies:
  "file_replies demo_ops [] = [(3, NoData), (2, BytesData [2, 3]), (3, NoData), (3, BytesData [2, 4, 5])]"
  "file_final demo_ops [] = [1, 2, 4, 5, 6]"
  by (simp_all add: demo_ops_def file_reply_def file_step_def file_final_def write_at_def string_resize_def Let_def)

theorem file_session_witness:
  "\<exists>s' v' st'.
    run demo_kv (session demo_env demo_b O_RDWR 0 demo_ops) demo_fs =
      Some ([(0, FileData 0), (3, NoData), (2, BytesData [2, 3]), (3, NoData), (3, BytesData [2, 4, 5]), (0, NoData)], s') \<and>
    GetAttribute v' = Some st' \<and> unat (st_size st') = 5 \<and> file_view (fs_state s') (fs_px s') v' (-1) [1, 2, 4, 5, 6]"
proof -
  obtain st where st: "GetAttribute demo_value = Some st"
    using demo_attr by auto
  have "list_all file_bounds demo_ops"
    by (simp add: demo_ops_def file_bounds_def MAX_RW_COUNT_def)
  then obtain s' v' st' where
    "run demo_kv (session demo_env demo_b O_RDWR (fs_next_fh demo_fs) demo_ops) demo_fs =
      Some ((0, FileData (fs_next_fh demo_fs)) # file_replies demo_ops [] @ [(0, NoData)], s')"
    "GetAttribute v' = Some st'" "unat (st_size st') = length (file_final demo_ops [])"
    "file_view (fs_state s') (fs_px s') v' (-1) (file_final demo_ops [])"
    using file_session [OF demo_store demo_quiet _ demo_rdwr demo_small demo_found st demo_view, of demo_ops demo_env] by auto
  moreover have "fs_next_fh demo_fs = 0"
    by (simp add: demo_fs_def)
  ultimately show ?thesis
    unfolding demo_replies by (intro exI [of _ s'] exI [of _ v'] exI [of _ st']) simp
qed

text \<open>
  C4: \<open>Truncate\<close> sets the size of a file to any length below two gigabytes: it cuts the data or extends it
  with zeros, whether the file is inline or on disk before and after, and leaves every other file on disk
  alone.  The two hypotheses on the call keep out what the code reads by mistake: an uninitialised
  descriptor, and the header through a pointer that growing the value has left dangling.
\<close>

theorem truncate_file:
  assumes store: "kv_store kv contents ok" and inv: "fs_inv kv contents ok 0 Map.empty s" and "path \<noteq> []"
    and "small_threshold (fs_state s)"
    and "tree_lookup (fs_tree contents s) path = Some (key, v)" "GetAttribute v = Some st"
    and "file_view (fs_state s) (fs_px s) v (-1) data"
    and "unat n \<le> MAX_RW_COUNT" "ce_fd env < 0" "ce_stale env \<noteq> n"
  shows "\<exists>s' v' st'. Truncate kv env path n s = Some (0, s') \<and> fs_inv kv contents ok 0 Map.empty s' \<and>
    fs_tree contents s' = (fs_tree contents s)(key \<mapsto> v') \<and> GetAttribute v' = Some st' \<and> st_ino st' = st_ino st \<and>
    st_size st' = n \<and> file_view (fs_state s') (fs_px s') v' (-1) (string_resize (unat n) data) \<and>
    (\<forall>p. GetDiskFilePath (fs_state s) (st_ino st) = Some p \<longrightarrow> px_others p (fs_px s) (fs_px s'))"
  using kv_store.Truncate_spec [OF assms] by metis

theorem truncate_file_witness:
  "\<exists>s' v' st'. Truncate demo_kv demo_env demo_b 6 demo_fs = Some (0, s') \<and> GetAttribute v' = Some st' \<and>
    st_size st' = 6 \<and> file_view (fs_state s') (fs_px s') v' (-1) [0, 0, 0, 0, 0, 0]"
proof -
  obtain st where st: "GetAttribute demo_value = Some st"
    using demo_attr by auto
  have "string_resize 6 [] = [0, 0, 0, 0, 0, 0 :: byte]"
    by (simp add: string_resize_def numeral_eq_Suc)
  then show ?thesis
    using truncate_file [OF demo_store demo_quiet _ demo_small demo_found st demo_view, of 6 demo_env]
    by (auto simp: MAX_RW_COUNT_def demo_env_def)
qed

text \<open>
  C5: on a store that keeps its keys in order, opening, reading and releasing a directory lists each of
  its entries exactly once, after the two every directory has, by the name its inode carries; in the root
  directory the entries whose hash has a lowest byte of zero are missing.
\<close>

theorem list_directory:
  assumes "ordered_kv_store kv contents ok" and "fs_inv kv contents ok 0 Map.empty s" and "path \<noteq> []"
    and "tree_lookup (fs_tree contents s) path = Some (key, v)" "GetAttribute v = Some st"
    and "\<forall>k. contents (fs_metadb s) k \<noteq> None \<longrightarrow> length k = 16" "\<And>ns n. 0 \<le> filler ns n"
  shows "\<exists>s' fh entries.
    run kv [(env, ReqOpendir path), (env, ReqReaddir fh filler), (env, ReqReleasedir fh)] s =
      Some ([(0, DirData fh),
             (0, NamesData ([cstr ''.'', cstr ''..''] @ filter (\<lambda>n. n \<noteq> []) (map (entry_name \<circ> snd) entries))),
             (0, NoData)], s') \<and>
    fs_inv kv contents ok 0 Map.empty s' \<and> distinct (map fst entries) \<and>
    set entries = {(key, v). fs_tree contents s key = Some v \<and> listed (st_ino st) key}"
  by (rule ordered_kv_store.run_list_directory [OF assms(1-6), of filler env]) (use assms(7) in blast)+

lemma demo_root: "tree_lookup (fs_tree map_of demo_fs) [PATH_DELIMITER] = Some (root_key, root_value demo_env True 0x41ED 0)"
  using key_one_root by (simp add: demo_fs_tree tree_lookup_def resolve_def components.simps)

theorem list_directory_witness:
  "\<exists>s' fh entries.
    run demo_kv [(demo_env, ReqOpendir [PATH_DELIMITER]), (demo_env, ReqReaddir fh (\<lambda>_ _. 0)), (demo_env, ReqReleasedir fh)] demo_fs =
      Some ([(0, DirData fh),
             (0, NamesData ([cstr ''.'', cstr ''..''] @ filter (\<lambda>n. n \<noteq> []) (map (entry_name \<circ> snd) entries))),
             (0, NoData)], s') \<and>
    distinct (map fst entries) \<and> set entries = {(key, v). fst demo_files key = Some v \<and> listed ROOT_INODE_ID key}"
proof -
  have root: "GetAttribute (root_value demo_env True 0x41ED 0) = Some st \<Longrightarrow> st_ino st = ROOT_INODE_ID" for st
    using InitInodeValue_value [of "[]" "ce_sys demo_env" True "ce_mem demo_env" ROOT_INODE_ID "0x41ED" 0]
    unfolding root_value_def by (metis GetAttribute_value list.size(3) option.inject zero_less_numeral zero_less_power)
  obtain st where st: "GetAttribute (root_value demo_env True 0x41ED 0) = Some st"
    using wf_inode_attr [OF demo_wf(2)] .
  have "\<forall>k. map_of (fs_metadb demo_fs) k \<noteq> None \<longrightarrow> length k = 16"
    by (auto simp: demo_fs_def fs_metadb_def InodeCache_new_def demo_db_def map_of_list_put split: if_splits)
  then show ?thesis
    using list_directory [OF list_ord.ordered_kv_store_axioms demo_quiet _ demo_root st, of "\<lambda>_ _. 0" demo_env] root [OF st]
    unfolding demo_fs_tree by (simp only:) blast
qed

text \<open>
  C6: \<open>Unlink\<close> of a file that is not open removes its inode from the tree and its data from the disk,
  wherever the data was, and touches no other inode and no other file.
\<close>

theorem unlink_removes:
  assumes "kv_store kv contents ok" and "fs_inv kv contents ok 0 Map.empty s" and "path \<noteq> []"
    and "length (datadir (fs_state s)) \<le> 100"
    and "tree_lookup (fs_tree contents s) path = Some (key, v)" "GetAttribute v = Some st"
    and "file_view (fs_state s) (fs_px s) v (-1) data" and "GetDiskFilePath (fs_state s) (st_ino st) = Some p"
  shows "\<exists>s'. Unlink kv path s = Some (0, s') \<and> fs_inv kv contents ok 0 Map.empty s' \<and>
    fs_tree contents s' = (fs_tree contents s)(key := None) \<and>
    file_read p (fs_px s') = None \<and> px_others p (fs_px s) (fs_px s')"
  using kv_store.unlink_file [OF assms] by metis

theorem unlink_removes_witness:
  "\<exists>s'. Unlink demo_kv demo_b demo_fs = Some (0, s') \<and> fs_tree map_of s' demo_key = None \<and>
    file_read (cstr ''/d/0/1'') (fs_px s') = None"
proof -
  obtain st where st: "GetAttribute demo_value = Some st" "st_ino st = 1"
    using demo_attr by auto
  show ?thesis
    using demo_room(2) unlink_removes [OF demo_store demo_quiet _ _ demo_found st(1) demo_view, of "cstr ''/d/0/1''"] demo_path st(2) by auto
qed

text \<open>
  C7: \<open>Rename\<close> of a file onto a different name moves its inode: the old name is gone, the new one has the
  attributes and the data of the file, and the inode carries the new name, so that the directory will
  list it.
\<close>

theorem rename_moves:
  assumes "kv_store kv contents ok" and "fs_inv kv contents ok 0 Map.empty s"
    and "old_path \<noteq> []" "new_path \<noteq> []" "length new_path \<le> 4096"
    and "resolve (fs_tree contents s) old_path \<noteq> Some new_key"
    and "tree_lookup (fs_tree contents s) old_path = Some (old_key, v)"
    and "resolve (fs_tree contents s) new_path = Some new_key"
    and "file_view (fs_state s) (fs_px s) v (-1) data"
  shows "\<exists>s' v'. Rename kv old_path new_path s = Some (0, s') \<and> fs_inv kv contents ok 0 Map.empty s' \<and>
    fs_tree contents s' = (fs_tree contents s)(old_key := None, new_key \<mapsto> v') \<and>
    GetAttribute v' = GetAttribute v \<and> file_view (fs_state s') (fs_px s') v' (-1) data \<and>
    take (length (path_name new_path)) (drop TFS_INODE_HEADER_SIZE v') = path_name new_path"
  using kv_store.rename_file [OF assms] by metis

theorem rename_moves_witness:
  "\<exists>s' v'. Rename demo_kv demo_b demo_c demo_fs = Some (0, s') \<and>
    fs_tree map_of s' = (fst demo_files)(demo_key := None, BuildMetaKey_name [99] ROOT_INODE_ID \<mapsto> v') \<and>
    file_view (fs_state s') (fs_px s') v' (-1) [] \<and> take 1 (drop TFS_INODE_HEADER_SIZE v') = [99]"
  using rename_moves [OF demo_store demo_quiet _ _ _ _ demo_found _ demo_view, of demo_c "BuildMetaKey_name [99] ROOT_INODE_ID"]
  by (auto simp: demo_simps demo_fs_tree)

text \<open>
  C12: a symbolic link that has just been made is read as the target it was given, cut to the buffer of
  the reader and ended by a NUL.
\<close>

theorem link_roundtrip:
  assumes "kv_store kv contents ok" and "fs_inv kv contents ok 0 Map.empty s" and "path \<noteq> []" "length path \<le> 4096"
    and "length (datadir (fs_state s)) \<le> 100"
    and "resolve (fs_tree contents s) path = Some key" "fs_tree contents s key = None"
    and "length target < 2 ^ 31" and "0 < len" "unat len < 2 ^ 63"
  shows "\<exists>s'. run kv [(env, ReqSymlink target path), (env', ReqReadlink path len)] s =
      Some ([(0, NoData), (0, BytesData (take (unat len - 1) target @ [0]))], s') \<and> fs_inv kv contents ok 0 Map.empty s'"
  using kv_store.symlink_readlink [OF assms, of env env'] by metis

theorem link_roundtrip_witness:
  "\<exists>s'. run demo_kv [(demo_env, ReqSymlink [1, 2, 3] demo_c), (demo_env, ReqReadlink demo_c 8)] demo_fs =
      Some ([(0, NoData), (0, BytesData [1, 2, 3, 0])], s')"
proof -
  show ?thesis
    using demo_room(2) link_roundtrip [OF demo_store demo_quiet, of demo_c "BuildMetaKey_name [99] ROOT_INODE_ID" "[1, 2, 3]" 8 demo_env demo_env]
    by (auto simp: demo_simps demo_fs_tree)
qed

text \<open>
  C13: the lookup of a path, which goes through the dentry cache and skips the store where the cache has
  the directory, finds the key the path has in the store, sets \<open>ENOENT\<close> if a directory on the way is
  missing, and leaves the store as it was.
\<close>

theorem path_lookup:
  assumes "kv_store kv contents ok" and "fs_inv kv contents ok n held s" "path \<noteq> []"
  shows "\<exists>s'. PathLookup kv path s = Some (resolve (fs_tree contents s) path, s') \<and> fs_inv kv contents ok n held s' \<and>
    fs_same contents s s' \<and> (resolve (fs_tree contents s) path = None \<longrightarrow> FSError s' = - ENOENT)"
  using kv_store.PathLookup_spec [OF assms] by metis

theorem path_lookup_witness:
  "\<exists>s'. PathLookup demo_kv demo_b demo_fs = Some (Some demo_key, s') \<and> fs_same map_of demo_fs s'"
  using path_lookup [OF demo_store demo_quiet, of demo_b] by (auto simp: demo_simps demo_fs_tree)

text \<open>
  C14: a request on the attributes, the link or the name of something that does not exist fails with
  \<open>ENOENT\<close> and changes neither the tree nor anything but the caches.
\<close>

theorem missing_fails:
  assumes "kv_store kv contents ok" and "fs_inv kv contents ok 0 Map.empty s" and "path \<noteq> []"
    and "length (datadir (fs_state s)) \<le> 100" and "tree_lookup (fs_tree contents s) path = None"
    and "req = ReqGetattr path \<or> req = ReqReadlink path len \<and> 0 < len \<and> unat len < 2 ^ 63 \<or> req = ReqUnlink path \<or>
      req = ReqRmdir path \<or> req = ReqChmod path mode \<or> req = ReqChown path uid gid \<or> req = ReqUtimens path tv"
  shows "\<exists>s'. dispatch kv env req s = Some ((- ENOENT, NoData), s') \<and> fs_inv kv contents ok 0 Map.empty s' \<and>
    fs_same contents s s'"
  by (rule kv_store.missing_path [OF assms])

theorem missing_fails_witness:
  "\<exists>s'. dispatch demo_kv demo_env (ReqUnlink demo_c) demo_fs = Some ((- ENOENT, NoData), s') \<and> fs_same map_of demo_fs s'"
proof -
  have "tree_lookup (fs_tree map_of demo_fs) demo_c = None"
    by (simp add: demo_simps demo_fs_tree)
  then show ?thesis
    using demo_room(2) missing_fails [OF demo_store demo_quiet, of demo_c "ReqUnlink demo_c"] by auto
qed

text \<open>
  C15: a descriptor of the library is a stream: \<open>Open\<close> hands out a free descriptor at position 0, every
  sequence of reads, writes and seeks on it answers as an array of bytes with a position does, and
  \<open>Close\<close> stores the array and gives the descriptor back.
\<close>

theorem descriptor_stream:
  assumes "kv_store kv contents ok" and "fs_inv kv contents ok 0 Map.empty (fw_fs w)"
    and "fw_size w" "i < FDLIMIT" "\<not> fw_freefd w ! i" and "path \<noteq> []" "rw_flags flags"
    and "small_threshold (fs_state (fw_fs w))"
    and "tree_lookup (fs_tree contents (fw_fs w)) path = Some (key, v)" "GetAttribute v = Some st"
    and "file_view (fs_state (fw_fs w)) (fs_px (fw_fs w)) v (-1) data" and "fd_allowed xs (data, 0)"
  shows "\<exists>fd w1 w2 w3 v'. Wrapper_Open kv path flags w = Some (fd, w1) \<and> 0 \<le> fd \<and> \<not> fw_freefd w ! nat fd \<and>
    fd_run fd xs w1 = Some (fd_replies xs (data, 0), w2) \<and> Wrapper_Close kv env fd w2 = Some (0, w3) \<and>
    fs_inv kv contents ok 0 Map.empty (fw_fs w3) \<and> fw_freefd w3 = fw_freefd w \<and>
    fs_tree contents (fw_fs w3) = (fs_tree contents (fw_fs w))(key \<mapsto> v') \<and>
    file_view (fs_state (fw_fs w3)) (fs_px (fw_fs w3)) v' (-1) (fst (fold fd_step xs (data, 0)))"
  by (rule kv_store.wrapper_session [OF assms]) blast

definition demo_wrapper :: "(bytes \<times> bytes) list TableFSWrapper" where
  "demo_wrapper = \<lparr>fw_fs = demo_fs, fw_fis = replicate FDLIMIT (0, None), fw_paths = replicate FDLIMIT [],
     fw_offsets = replicate FDLIMIT 0, fw_freefd = replicate FDLIMIT False\<rparr>"

theorem descriptor_stream_witness:
  "\<exists>fd w1 w2 w3. Wrapper_Open demo_kv demo_b O_RDWR demo_wrapper = Some (fd, w1) \<and>
    fd_run fd [FdWrite [1, 2, 3], FdWrite [4], FdSeek 2, FdRead 8] w1 = Some ([(3, []), (1, []), (0, []), (2, [3, 4])], w2) \<and>
    Wrapper_Close demo_kv demo_env fd w2 = Some (0, w3)"
proof -
  obtain st where st: "GetAttribute demo_value = Some st"
    using demo_attr by auto
  let ?xs = "[FdWrite [1, 2, 3], FdWrite [4], FdSeek 2, FdRead 8]"
  have "fd_allowed ?xs ([], 0)"
    by (simp add: MAX_RW_COUNT_def)
  moreover have "fd_replies ?xs ([], 0) = [(3, []), (1, []), (0, []), (2, [3, 4])]"
    by (simp add: write_at_def string_resize_def Let_def)
  moreover have "fw_size demo_wrapper" "0 < FDLIMIT" "\<not> fw_freefd demo_wrapper ! 0" "fw_fs demo_wrapper = demo_fs"
    by (simp_all add: demo_wrapper_def fw_size_def FDLIMIT_def)
  ultimately show ?thesis
    using descriptor_stream [OF demo_store _ _ _ _ _ demo_rdwr, of demo_wrapper 0 demo_b demo_key demo_value st "[]" ?xs demo_env]
      demo_quiet demo_small demo_found st demo_view by fastforce
qed

text \<open>
  C16: \<open>Scanfile\<close> has no defined behaviour on an existing directory: the entry \<open>.\<close>, which comes first and has
  no inode, cannot be opened, and the failed descriptor is closed all the same, outside the arrays.
\<close>

theorem scanfile_undefined:
  assumes "ordered_kv_store kv contents ok" and "fs_inv kv contents ok 0 Map.empty (fw_fs w)" and "path \<noteq> []"
    and "tree_lookup (fs_tree contents (fw_fs w)) path = Some (key, v)"
    and "tree_lookup (fs_tree contents (fw_fs w)) (path @ PATH_DELIMITER # cstr ''.'') = None"
  shows "Wrapper_Scanfile kv env stale fill path w = None"
  by (rule ordered_kv_store.Scanfile_undefined [OF assms])

theorem scanfile_undefined_witness: "Wrapper_Scanfile demo_kv demo_env 0 (\<lambda>_ _. 0) demo_b demo_wrapper = None"
proof -
  obtain st where st: "GetAttribute demo_value = Some st" "st_ino st = 1"
    using demo_attr by auto
  have "components [98, PATH_DELIMITER, 46] = [[98], [46]]"
    by (simp add: components.simps PATH_DELIMITER_def)
  moreover have "fst demo_files (BuildMetaKey_name [46] 1) = None"
    by (simp add: BuildMetaKey_name_def BuildMetaKey_def root_key_def ROOT_INODE_ID_def)
  ultimately have "tree_lookup (fs_tree map_of demo_fs) (demo_b @ PATH_DELIMITER # cstr ''.'') = None"
    using st by (simp add: demo_fs_tree tree_lookup_def resolve_def tree_ino_def cstr_def Let_def PATH_DELIMITER_def key_one_root)
  then show ?thesis
    using scanfile_undefined [OF list_ord.ordered_kv_store_axioms, of demo_wrapper demo_b demo_key demo_value]
      demo_quiet demo_found by (simp add: demo_wrapper_def)
qed

section \<open>The caches\<close>

text \<open>
  C17: after any sequence of operations a dentry cache of any size has never followed an iterator to an
  erased node, holds no more entries than its size, and answers a lookup either with nothing or with
  what was last inserted for the key and not evicted since.
\<close>

theorem dentry_cache_sound:
  "\<exists>s' s'' r. dentry_run ops (DentryCache_new len) = Some s' \<and> length (dc_cache s') \<le> len \<and>
    DentryCache_Find key s' = Some (r, s'') \<and> (r = None \<or> r = fold dentry_map ops Map.empty key)"
proof -
  obtain s' where s': "dentry_run ops (DentryCache_new len) = Some s'" "dc_inv s'" "dc_maxsize s' = len"
    "dc_view s' \<subseteq>\<^sub>m fold dentry_map ops Map.empty"
    using dentry_run_sound [OF dc_inv_new(1), of len Map.empty ops] dc_inv_new(2) [of len]
    by (auto simp: DentryCache_new_def)
  then show ?thesis
    using dc.find_view [OF s'(2), of key] dc_inv_size [OF s'(2)] by (cases "dc_view s' key") (auto simp: map_le_def dom_def)
qed

text \<open>
  C18: the table of the cache is a map from keys to handles: with fewer than \<open>2 ^ 31\<close> handles an insertion
  returns, what was inserted under a key and a hash is found under these, an insertion hides the older
  handle with the same key and hands it back, a removal hides the key, and no other lookup changes,
  through every resizing.
\<close>

theorem handle_table_map:
  assumes "ht_inv deref t" "h \<notin> ht_set t" "unat (ht_elems t) < 2 ^ 31"
  shows "(\<exists>t'. HandleTable_Insert deref t h = Some (HandleTable_Lookup deref t (snd (deref h)) (fst (deref h)), t') \<and>
      ht_inv deref t' \<and>
      (\<forall>key hash. HandleTable_Lookup deref t' key hash =
        (if deref h = (hash, key) then Some h else HandleTable_Lookup deref t key hash))) \<and>
    HandleTable_Lookup deref (snd (HandleTable_Remove deref t key' hash')) key hash =
      (if (hash', key') = (hash, key) then None else HandleTable_Lookup deref t key hash) \<and>
    ht_inv deref (snd (HandleTable_Remove deref t key' hash'))"
  using ht.lookup_after_insert [OF assms(1,2)] ht.lookup_after_remove [OF assms(1)] ht.remove_invar [OF assms(1)]
    ht_elems_card [OF assms(1)] assms(3) by simp

theorem handle_table_map_witness:
  "\<exists>t'. HandleTable_Insert (\<lambda>p. (of_nat p, [1])) HandleTable_new 7 = Some (None, t') \<and>
    HandleTable_Lookup (\<lambda>p. (of_nat p, [1])) t' [1] 7 = Some 7"
proof -
  let ?d = "\<lambda>p. (of_nat p :: u32, [1] :: bytes)"
  have new: "ht_inv ?d HandleTable_new" "ht_set HandleTable_new = {}"
    using HandleTable_new_spec by blast+
  then have "HandleTable_Lookup ?d HandleTable_new [1] 7 = None" "unat (ht_elems HandleTable_new) < 2 ^ 31"
    using ht.lookup_None_iff [OF new(1)] ht_elems_card [OF new(1)] by simp_all
  then show ?thesis
    using handle_table_map [of ?d HandleTable_new 7 "[]" 0 "[]" 0] new by fastforce
qed

text \<open>
  C19: resizing a table whose counters are right and that has at most \<open>2 ^ 31\<close> handles ends, passes its
  assertion, keeps every handle, puts each one into the bucket of its hash, and leaves at least as many
  buckets as there are handles.  With more handles the doubled length wraps to zero and the loop never ends.
\<close>

theorem resize_keeps:
  assumes "length (ht_list t) = unat (ht_length t)" "unat (ht_elems t) = length (concat (ht_list t))"
  shows "if unat (ht_elems t) \<le> 2 ^ 31
    then \<exists>t'. HandleTable_Resize deref t = Some t' \<and>
      mset (concat (ht_list t')) = mset (concat (ht_list t)) \<and> placed deref (ht_list t') \<and>
      length (ht_list t') = unat (ht_length t') \<and> ht_elems t' = ht_elems t \<and>
      length (concat (ht_list t')) \<le> unat (ht_length t')
    else HandleTable_Resize deref t = None"
proof (cases "unat (ht_elems t) \<le> 2 ^ 31")
  case True
  obtain t' where "HandleTable_Resize deref t = Some t'" "placed deref (ht_list t')"
    "length (ht_list t') = unat (ht_length t')" "mset (concat (ht_list t')) = mset (concat (ht_list t))"
    "ht_elems t' = ht_elems t" "ht_elems t' \<le> ht_length t'"
    using HandleTable_Resize_spec [OF _ assms(2) True] assms(1) by (metis order.refl)
  then show ?thesis
    using True assms(2) mset_eq_length [of "concat (ht_list t')" "concat (ht_list t)"]
    by (auto simp: word_le_nat_alt)
next
  case False
  then show ?thesis
    by (simp add: HandleTable_Resize_def grow_length_stuck)
qed

theorem resize_keeps_witness:
  "\<exists>t'. HandleTable_Resize (\<lambda>p. (of_nat p, [1])) \<lparr>ht_length = 2, ht_elems = 3, ht_list = [[4, 6], [5]]\<rparr> = Some t' \<and>
    mset (concat (ht_list t')) = {#4, 5, 6#} \<and> 3 \<le> unat (ht_length t')"
proof -
  obtain t' where t': "HandleTable_Resize (\<lambda>p. (of_nat p, [1])) \<lparr>ht_length = 2, ht_elems = 3, ht_list = [[4, 6], [5]]\<rparr> = Some t'"
    "mset (concat (ht_list t')) = {#4, 5, 6#}" "length (concat (ht_list t')) \<le> unat (ht_length t')"
    using resize_keeps [of "\<lparr>ht_length = 2, ht_elems = 3, ht_list = [[4, 6], [5]]\<rparr>" "\<lambda>p. (of_nat p, [1])"]
    by (auto simp: add_mset_commute)
  moreover have "length (concat (ht_list t')) = 3"
    using t'(2) by (metis One_nat_def Suc_1 eval_nat_numeral(3) size_add_mset size_empty size_mset)
  ultimately show ?thesis
    by auto
qed

text \<open>A shard of capacity two with two entries that nobody holds; the deleter records the value.\<close>

definition demo_handle :: "nat \<Rightarrow> bytes \<Rightarrow> u32 \<Rightarrow> (nat, nat list) LRUHandle" where
  "demo_handle v key hash = \<lparr>lh_value = v, lh_deleter = (\<lambda>_ v w. w @ [v]), lh_charge = 1, lh_key = key, lh_refs = 1, lh_hash = hash\<rparr>"

definition demo_shard :: "(nat, nat list) LRUCache" where
  "demo_shard = \<lparr>lc_capacity = 2, lc_usage = 2, lc_heap = [0 \<mapsto> demo_handle 42 [1] 7, 1 \<mapsto> demo_handle 43 [2] 9],
     lc_fresh = 2, lc_lru = [0, 1], lc_table = \<lparr>ht_length = 4, ht_elems = 2, ht_list = [[], [1], [], [0]]\<rparr>\<rparr>"

lemma demo_buckets: "bucket 7 4 = 3" "bucket 9 4 = 1" "bucket 11 4 = 3"
  by (simp_all add: bucket_def)

lemma demo_shard_inv: "lru_inv demo_shard"
proof -
  have heap: "heap_deref (lc_heap demo_shard) 0 = (7, [1])" "heap_deref (lc_heap demo_shard) 1 = (9, [2])"
    "dom (lc_heap demo_shard) = {0, 1}" "total_charge (lc_heap demo_shard) = 2"
    by (auto simp: heap_deref_def total_charge_def demo_shard_def demo_handle_def)
  have "bucket (fst (heap_deref (lc_heap demo_shard) p)) 4 = i" if "i < 4" "p \<in> set ([[], [1], [], [0]] ! i)" for i p
  proof -
    have "i \<in> {0, 1, 2, 3}"
      using that(1) by auto
    then show ?thesis
      using that(2) heap(1,2) demo_buckets by auto
  qed
  then have "ht_inv (heap_deref (lc_heap demo_shard)) (lc_table demo_shard)"
    using heap(1,2) by (simp add: ht_inv_def ht_set_def demo_shard_def)
  then show ?thesis
    using heap by (auto simp: lru_inv_def ht_set_def demo_shard_def demo_handle_def split: if_splits)
qed

lemma demo_shard_simps: "lc_find [3] 11 demo_shard = None" "user_refs demo_shard p = 0"
  by (simp_all add: lc_find_def HandleTable_Lookup_bucket demo_buckets demo_shard_def demo_handle_def user_refs_def
      heap_deref_def)

text \<open>
  C20: an insertion into a shard always returns (the eviction loop ends) and keeps the invariant.  The entry
  with the same key is detached and the new one attached as the newest; then the \<open>n\<close> oldest entries go,
  where \<open>n\<close> is the smallest number for which the usage fits the capacity or no entry is left.  An eviction
  gives back the charge of an entry nobody else refers to.  The caller gets one reference and every other
  caller keeps theirs.  The usage must not exceed 64 bits, nor the entries half of 32 bits.
\<close>

theorem cache_insert_bounded:
  assumes "lru_inv c" "length (lc_lru c) < 2 ^ 31" "unat (lc_usage c) + unat charge < 2 ^ 64"
  shows "\<exists>c' w' n. LRUCache_Insert key hash v charge deleter c w = Some (lc_fresh c, c', w') \<and> lru_inv c' \<and>
    user_refs c' = (user_refs c)(lc_fresh c := 1) \<and>
    n \<le> length (attach_lru key hash c) \<and> lc_lru c' = drop n (attach_lru key hash c) \<and>
    unat (lc_usage c') = attach_usage key hash charge c - freed c (take n (attach_lru key hash c)) \<and>
    (lc_usage c' \<le> lc_capacity c \<or> lc_lru c' = []) \<and>
    (\<forall>k < n. unat (lc_capacity c) < attach_usage key hash charge c - freed c (take k (attach_lru key hash c)))"
  by (rule Insert_spec [OF assms, of key hash v deleter w]) metis

theorem cache_insert_bounded_witness:
  "\<exists>c' w'. LRUCache_Insert [3] 11 44 1 (\<lambda>_ v w. w @ [v]) demo_shard [] = Some (2, c', w') \<and> lc_lru c' = [1, 2] \<and>
    unat (lc_usage c') = 2"
proof -
  have attach: "attach_lru [3] 11 demo_shard = [0, 1, 2]" "attach_usage [3] 11 1 demo_shard = 3"
    "freed demo_shard [0] = 1" "freed demo_shard [] = 0" "lc_fresh demo_shard = 2" "lc_capacity demo_shard = 2"
    unfolding attach_lru_def attach_usage_def demo_shard_simps
    by (simp_all add: demo_shard_def freed_def freed_charge_def demo_handle_def)
  have room: "length (lc_lru demo_shard) < 2 ^ 31" "unat (lc_usage demo_shard) + unat (1 :: u64) < 2 ^ 64"
    by (simp_all add: demo_shard_def)
  obtain c' w' n where c': "LRUCache_Insert [3] 11 44 1 (\<lambda>_ v w. w @ [v]) demo_shard [] = Some (2, c', w')"
    "lc_lru c' = drop n [0, 1, 2]" "unat (lc_usage c') = 3 - freed demo_shard (take n [0, 1, 2])"
    "lc_usage c' \<le> 2 \<or> lc_lru c' = []" "\<forall>k < n. unat (2 :: u64) < 3 - freed demo_shard (take k [0, 1, 2])"
    using cache_insert_bounded [OF demo_shard_inv room, of "[3]" 11 44 "\<lambda>_ v w. w @ [v]" "[]"] unfolding attach by blast
  have "\<not> 1 < n"
    using c'(5) attach(3) by (auto dest!: spec [of _ 1])
  moreover have "n \<noteq> 0"
    using c'(2,3,4) attach(4) by (cases "n = 0") (simp_all add: word_le_nat_alt)
  ultimately have "n = 1"
    by simp
  then show ?thesis
    using c' attach(3) by auto
qed

text \<open>
  C21: releasing a handle that is held never touches freed memory; the deleter runs exactly when the last
  reference goes, and then the entry is freed and its charge returned.
\<close>

theorem cache_release_frees:
  assumes "lru_inv c" "0 < user_refs c p"
  shows "\<exists>e c' w'. lc_heap c p = Some e \<and> LRUCache_Release p c w = Some (c', w') \<and> lru_inv c' \<and>
    user_refs c' = (user_refs c)(p := user_refs c p - 1) \<and>
    (if lh_refs e = 1
     then w' = lh_deleter e (lh_key e) (lh_value e) w \<and> lc_heap c' = (lc_heap c)(p := None) \<and>
       lc_usage c' = lc_usage c - lh_charge e
     else w' = w \<and> lc_heap c' = (lc_heap c)(p \<mapsto> e\<lparr>lh_refs := lh_refs e - 1\<rparr>) \<and> lc_usage c' = lc_usage c)"
  by (rule Release_spec [OF assms, of w]) (auto simp: dropped_def drop_effect_def)

theorem cache_release_frees_witness:
  "\<exists>c w c' w'. LRUCache_Insert [1] 7 (42 :: nat) 1 (\<lambda>_ v w. w + v) (LRUCache_new 2) (0 :: nat) = Some (0, c, w) \<and>
    LRUCache_Release 0 c w = Some (c', w') \<and> user_refs c' 0 = 0"
proof -
  obtain c w where c: "LRUCache_Insert [1] 7 (42 :: nat) 1 (\<lambda>_ v w. w + v) (LRUCache_new 2) (0 :: nat) = Some (0, c, w)"
    "lru_inv c" "user_refs c = (user_refs (LRUCache_new 2 :: (nat, nat) LRUCache))(0 := 1)"
    by (rule Insert_spec [OF lru_inv_new [of 2], where charge = 1 and key = "[1]" and hash = 7 and v = 42
          and deleter = "\<lambda>_ v w. w + v" and w = 0]) (simp_all add: LRUCache_new_def)
  then show ?thesis
    using cache_release_frees [of c 0 w] by auto
qed

text \<open>
  C22: \<open>Get\<close> of the inode cache on a key of which no handle is held finds the value the store has, whether
  it comes from the cache or the store, and hands out a handle in the requested mode; the store does not
  change.
\<close>

theorem inode_cache_get:
  assumes "kv_store kv contents ok" and "ic_state kv contents ok n {} held s" and "n < 32"
    and "contents (ic_metadb s) (ToSlice key) = Some v" "length v < 2 ^ 32"
    and "\<And>p g. held p = Some g \<Longrightarrow> ih_key g \<noteq> key"
  shows "\<exists>ptr s'. InodeCache_Get kv key mode s = Some (Some ptr, s') \<and> held ptr = None \<and>
    ic_state kv contents ok (Suc n) {} (held(ptr \<mapsto> \<lparr>ih_key = key, ih_value = v, ih_mode = mode\<rparr>)) s' \<and>
    contents (ic_metadb s') = contents (ic_metadb s)"
  by (rule kv_store.InodeCache_Get_hit [OF assms(1-5), of mode]) (use assms(6) in auto)

lemma demo_icache: "ic_state demo_kv map_of list_ok 0 {} Map.empty (InodeCache_new demo_db)"
  using demo_db_ok by (rule ic_state_new)

lemma demo_stored: "map_of (ic_metadb (InodeCache_new demo_db)) (ToSlice demo_key) = Some demo_value" "length demo_value < 2 ^ 32"
  using wf_inode_small [OF demo_wf(1)] by (simp_all add: InodeCache_new_def demo_db_def map_of_list_put)

theorem inode_cache_get_witness:
  "\<exists>ptr s'. InodeCache_Get demo_kv demo_key INODE_WRITE (InodeCache_new demo_db) = Some (Some ptr, s') \<and>
    ic_handle ptr s' = Some \<lparr>ih_key = demo_key, ih_value = demo_value, ih_mode = INODE_WRITE\<rparr>"
  using inode_cache_get [OF demo_store demo_icache _ demo_stored, of INODE_WRITE] ic_state_handle by fastforce

text \<open>
  C23: writing back a handle that was changed puts its value into the store, and the handle then is as
  clean as one that was only read.
\<close>

theorem write_back_commits:
  assumes "kv_store kv contents ok" and "ic_state kv contents ok n {} held s"
    and "held ptr = Some h" "ih_mode h = INODE_WRITE"
  shows "\<exists>s'. InodeCache_WriteBack kv ptr s = Some s' \<and>
    ic_state kv contents ok n {} (held(ptr \<mapsto> h\<lparr>ih_mode := INODE_READ\<rparr>)) s' \<and>
    contents (ic_metadb s') = (contents (ic_metadb s))(ToSlice (ih_key h) \<mapsto> ih_value h)"
  by (rule kv_store.InodeCache_WriteBack_write [OF assms(1-3) _ assms(4)]) auto

theorem write_back_commits_witness:
  "\<exists>ptr s s'. InodeCache_Get demo_kv demo_key INODE_WRITE (InodeCache_new demo_db) = Some (Some ptr, s) \<and>
    InodeCache_WriteBack demo_kv ptr s = Some s' \<and> map_of (ic_metadb s') (ToSlice demo_key) = Some demo_value"
proof -
  obtain ptr s where s: "InodeCache_Get demo_kv demo_key INODE_WRITE (InodeCache_new demo_db) = Some (Some ptr, s)"
    "ic_state demo_kv map_of list_ok (Suc 0) {} [ptr \<mapsto> \<lparr>ih_key = demo_key, ih_value = demo_value, ih_mode = INODE_WRITE\<rparr>] s"
    by (rule kv_store.InodeCache_Get_hit [OF demo_store demo_icache _ demo_stored, of INODE_WRITE]) auto
  then show ?thesis
    using write_back_commits [OF demo_store s(2), of ptr] by auto
qed

text \<open>
  C24: destroying a shard of which nobody holds an entry passes every assertion and runs the deleter of each
  live entry exactly once, from the oldest to the newest; while a user holds an entry of the list, the
  assertion of the destructor fails.
\<close>

theorem cache_destroy_deletes:
  assumes "lru_inv c"
  shows "((\<forall>p. user_refs c p = 0) \<longrightarrow>
      distinct (lc_lru c) \<and> set (lc_lru c) = dom (lc_heap c) \<and>
      LRUCache_destroy c w = Some (fold (\<lambda>p. run_deleter (the (lc_heap c p))) (lc_lru c) w)) \<and>
    ((\<exists>p \<in> set (lc_lru c). 0 < user_refs c p) \<longrightarrow> LRUCache_destroy c w = None)"
  using LRUCache_destroy_spec [OF assms, of w] LRUCache_destroy_held [OF assms] quiet_attached [OF assms]
    lru_inv_distinct [OF assms] by blast

theorem cache_destroy_deletes_witness: "LRUCache_destroy demo_shard [] = Some [42, 43]"
  using cache_destroy_deletes [OF demo_shard_inv, of "[]"] demo_shard_simps(2)
  by (simp add: demo_shard_def demo_handle_def run_deleter_def)

section \<open>Formats\<close>

text \<open>C31: a batch built from updates, iterated over, hands the updates to the handler in order.\<close>

theorem batch_roundtrip:
  assumes "list_all small_update us"
  shows "Iterate hdl (batch_of us) h = (StatusOK, fold (handle_update hdl) us h)"
  using assms by (rule Iterate_batch_of)

theorem batch_roundtrip_witness:
  "Iterate \<lparr>handler_Put = (\<lambda>k v xs. xs @ [(k, Some v)]), handler_Delete = (\<lambda>k xs. xs @ [(k, None)])\<rparr>
     (batch_of [Put [1] [2, 3], Delete [1]]) [] = (StatusOK, [([1], Some [2, 3]), ([1], None)])"
  by (simp add: batch_roundtrip small_update_def handle_update_def)

text \<open>
  Appending one batch to another gives a batch that hands over the updates of the first and then
  those of the second, and its count is right.
\<close>

theorem batch_append:
  assumes "list_all small_update us" "list_all small_update vs"
  shows "Iterate hdl (WriteBatch_Append (batch_of us) (batch_of vs)) h = (StatusOK, fold (handle_update hdl) (us @ vs) h)"
  using assms by (simp add: batch_of_rep Append_batch_rep Iterate_batch_rep)

theorem batch_append_witness:
  "Iterate \<lparr>handler_Put = (\<lambda>k v xs. xs @ [(k, Some v)]), handler_Delete = (\<lambda>k xs. xs @ [(k, None)])\<rparr>
     (WriteBatch_Append (batch_of [Put [1] [2]]) (batch_of [Delete [1]])) [] = (StatusOK, [([1], Some [2]), ([1], None)])"
  by (simp add: batch_append)

text \<open>
  A 64-bit number in the variable-length format is read back, whatever follows it, and takes the
  number of bytes the length function computes, at most ten.
\<close>

theorem varint64_roundtrip:
  "GetVarint64 (EncodeVarint64 v @ rest) = Some (v, rest) \<and> length (EncodeVarint64 v) = VarintLength v \<and>
   length (EncodeVarint64 v) \<le> 10"
  by (simp add: length_EncodeVarint64_VarintLength flip: length_EncodeVarint64_VarintLength)
    (simp add: length_EncodeVarint64_le)

text \<open>
  The unrolled encoder for 32 bits writes the bytes of the loop for 64 bits, and the decoder for 32
  bits, with its fast path for one byte, reads them back.
\<close>

theorem varint32_equiv:
  "EncodeVarint32 v = EncodeVarint64 (ucast v) \<and> GetVarint32 (EncodeVarint32 v @ rest) = Some (v, rest)"
  by (simp add: EncodeVarint32_64 [symmetric])

text \<open>
  C32: the hash of the names has no collisions among names of the same length of up to eight bytes, so
  two such entries of one directory never share a key.
\<close>

theorem short_names_distinct:
  assumes "length name = length name'" "length name \<le> 8"
    and "BuildMetaKey_name name ino = BuildMetaKey_name name' ino"
  shows "name = name'"
  using assms murmur64_inject_short [of name name' 123] by (auto simp: BuildMetaKey_name_def BuildMetaKey_def)

theorem short_names_distinct_witness: "BuildMetaKey_name [97, 98] 5 \<noteq> BuildMetaKey_name [97, 99] 5"
  using short_names_distinct [of "[97, 98]" "[97, 99]" 5] by auto

text \<open>
  C33: inside an inode value, data that was written at an offset is read back from there, the gap before
  it is zero, the rest of the data is as it was, and the header has not changed.
\<close>

theorem inline_data:
  assumes "wf_header h name" "length name \<le> 4096" "length data < 2 ^ 31" "buf \<noteq> []" "length buf < 2 ^ 31"
    and "unat offset < 2 ^ 31" "unat pos < 2 ^ 31" "unat n < 2 ^ 31"
  shows "\<exists>v. UpdateInlineData (inode_value h name data) buf offset = Some v \<and> GetInodeHeader v = Some h \<and>
    GetInlineData v pos n = Some (take (unat n) (drop (unat pos) (write_at (unat offset) buf data)))"
proof -
  have "length (write_at (unat offset) buf data) \<le> 2 ^ 31 + 2 ^ 31 + 2 ^ 31"
    using assms by (simp add: length_write_at)
  then show ?thesis
    using assms UpdateInlineData_value [OF assms(1), of offset data buf]
      GetInlineData_value [OF assms(1), of pos n "write_at (unat offset) buf data"]
    by (simp add: UpdateIhandleValue_write_at)
qed

theorem inline_data_witness:
  "\<exists>h v. InitInodeValue (ce_sys demo_env) True [] 1 0x81A4 0 [98] = inode_value h [98] [] \<and>
    UpdateInlineData (inode_value h [98] []) [1, 2] 1 = Some v \<and> GetInlineData v 0 4 = Some [0, 1, 2]"
proof -
  obtain h where h: "InitInodeValue (ce_sys demo_env) True [] 1 0x81A4 0 [98] = inode_value h [98] []" "wf_header h [98]"
    by (rule InitInodeValue_value [of "[98]" "ce_sys demo_env" True "[]" 1 "0x81A4" 0]) simp
  then show ?thesis
    using inline_data [OF h(2), of "[]" "[1, 2]" 1 0 4] by (auto simp: write_at_def string_resize_def)
qed

section \<open>State and configuration\<close>

text \<open>
  The paths of the data files of two inodes are different, for all the numbers that fit a signed
  32-bit integer, and every path fits the buffer when the data directory is at most 100 bytes long.
\<close>

theorem data_paths_distinct:
  assumes "length (datadir st) \<le> 100" "unat x < 2 ^ 31" "unat y < 2 ^ 31"
  shows "\<exists>p q. GetDiskFilePath st x = Some p \<and> GetDiskFilePath st y = Some q \<and> dirname p = data_subdir st x \<and>
    (p = q \<longleftrightarrow> x = y)"
proof -
  obtain p q where p: "GetDiskFilePath st x = Some p" "dirname p = data_subdir st x" and q: "GetDiskFilePath st y = Some q"
    using GetDiskFilePath_fits [OF assms(1)] by metis
  then show ?thesis
    using GetDiskFilePath_inject [OF assms(2,3) p(1)] by auto
qed

theorem data_paths_distinct_witness:
  "\<exists>p q. GetDiskFilePath demo_state 1 = Some p \<and> GetDiskFilePath demo_state 16385 = Some q \<and> p \<noteq> q"
  using data_paths_distinct [of demo_state 1 16385] by (auto simp: demo_state_def cstr_def)

text \<open>
  C34: a new inode gets the next number, and the directory its data file would go into exists, because it
  is made when the first number that needs it is handed out.
\<close>

theorem new_inode_directory:
  assumes "dirs_ok st px" "unat (max_inode_num st) + 1 < 2 ^ 31" "length (datadir st) \<le> 100"
    and "\<And>x. px_links px (data_subdir st x) = None"
  shows "\<exists>st' px'. NewInode st px = Some (max_inode_num st + 1, st', px') \<and> dirs_ok st' px' \<and>
    max_inode_num st' = max_inode_num st + 1 \<and> px_links px' = px_links px \<and> px_files px' = px_files px"
  by (rule NewInode_spec [OF assms]) auto

theorem new_inode_directory_witness:
  "\<exists>st' px'. NewInode demo_state demo_px = Some (1, st', px') \<and> px_dirs px' (data_subdir st' 1)"
proof -
  have "dirs_ok demo_state demo_px"
    by (auto simp: dirs_ok_def demo_state_def demo_px_def data_subdir_def to_int_def cstr_def NUM_FILES_IN_DATADIR_BITS_def
        print_int_def print_nat.simps)
  then obtain st' px' where "NewInode demo_state demo_px = Some (1, st', px')" "dirs_ok st' px'" "max_inode_num st' = 1"
    using new_inode_directory [of demo_state demo_px] by (auto simp: demo_state_def demo_px_def cstr_def)
  then show ?thesis
    by (auto simp: dirs_ok_def)
qed

text \<open>
  C35: the number of the last inode survives an unmount: what \<open>Destroy\<close> writes is what the next \<open>Setup\<close>
  with the same data directory reads, up to the 32 bits that are printed.
\<close>

theorem counter_persists:
  assumes "root_dat st = Some path" "fst (file_write path (print_nat (unat (ucast (max_inode_num st) :: u32)) @ [10]) px)"
    and "State_Destroy st px = Some px'"
    and "se_realpath env (getProperty_default (cstr ''datadir'') (cstr ''/mnt/pmem/tablefs'') prop) = datadir st"
    and "\<And>p. se_access env p \<le> 0"
  shows "\<exists>st'. Setup env prop px' = Some (st', px') \<and> max_inode_num st' = ucast (ucast (max_inode_num st) :: u32) \<and>
    datadir st' = datadir st"
  by (rule Setup_again [OF assms]) auto

theorem counter_persists_witness:
  "\<exists>px' st'. State_Destroy (demo_state\<lparr>max_inode_num := 5\<rparr>) demo_px = Some px' \<and>
    Setup \<lparr>se_realpath = (\<lambda>p. p), se_access = (\<lambda>_. 0)\<rparr> (setProperty (cstr ''datadir'') (cstr ''/d'') Properties_new) px' =
      Some (st', px') \<and> max_inode_num st' = 5"
proof -
  have path: "root_dat (demo_state\<lparr>max_inode_num := 5\<rparr>) = Some (cstr ''/d/root.dat'')"
    by (simp add: root_dat_def sprintf_buf_def demo_state_def cstr_def)
  have opened: "fst (file_write (cstr ''/d/root.dat'') data demo_px)" for data
    by (simp add: file_write_def demo_px_def cstr_def dirname_def)
  obtain px' where "State_Destroy (demo_state\<lparr>max_inode_num := 5\<rparr>) demo_px = Some px'"
    by (simp add: State_Destroy_def path)
  then show ?thesis
    using counter_persists [OF path opened, of px' "\<lparr>se_realpath = (\<lambda>p. p), se_access = (\<lambda>_. 0)\<rparr>"
        "setProperty (cstr ''datadir'') (cstr ''/d'') Properties_new"]
    by (auto simp: getProperty_set demo_state_def)
qed

text \<open>
  C36: a configuration whose keys and values fit the lines of the file is the same after it has been
  stored and loaded.
\<close>

theorem properties_roundtrip:
  assumes "list_ok (plist p)" "list_all storable (plist p)"
    and "file_write filename (store_text p) px = (True, px')"
  shows "Properties_load filename (Properties_store filename p px) Properties_new = p"
  using assms load_store [OF assms(1,2)] file_read_write [OF assms(3)]
  by (simp add: Properties_load_def Properties_store_def)

theorem properties_roundtrip_witness:
  "Properties_load (cstr ''/d/conf'')
     (Properties_store (cstr ''/d/conf'') (setProperty (cstr ''a'') (cstr ''1'') (setProperty (cstr ''b'') (cstr ''2'') Properties_new)) demo_px)
     Properties_new =
   setProperty (cstr ''a'') (cstr ''1'') (setProperty (cstr ''b'') (cstr ''2'') Properties_new)"
proof -
  let ?p = "setProperty (cstr ''a'') (cstr ''1'') (setProperty (cstr ''b'') (cstr ''2'') Properties_new)"
  have "list_ok (plist ?p)"
    by (intro list_ok_setProperty) (simp add: Properties_new_def list_ok_def)
  moreover have "plist ?p = [(cstr ''a'', cstr ''1''), (cstr ''b'', cstr ''2'')]"
    by (simp add: setProperty_def Properties_new_def cstr_def list_put.simps)
  moreover obtain px' where "file_write (cstr ''/d/conf'') (store_text ?p) demo_px = (True, px')"
    by (simp add: file_write_def demo_px_def cstr_def dirname_def)
  ultimately show ?thesis
    by (intro properties_roundtrip) (simp_all add: storable_def cstr_def)
qed

text \<open>
  The command line \<open>-key value ...\<close> is parsed whatever the options are, and every option has the
  value that was given last.
\<close>

theorem options_last_wins:
  "\<exists>p. parseOpts (prog # option_args opts) Properties_new = Some p \<and>
    getProperty key p = (case map_of (rev opts) key of Some v \<Rightarrow> v | None \<Rightarrow> cstr ''/'')"
proof -
  have "getProperty key (fold (\<lambda>(k, v). setProperty k v) opts p) =
      (case map_of (rev opts) key of Some v \<Rightarrow> v | None \<Rightarrow> getProperty key p)" for p
    by (induction opts arbitrary: p) (auto simp: getProperty_set map_add_def split: option.splits)
  then show ?thesis
    using getProperty_def [of key Properties_new]
    by (cases "map_of (rev opts) key") (simp_all add: parseOpts_def parse_option_args Properties_new_def)
qed

section \<open>The stores\<close>

text \<open>
  C37: the adaptors of HybridHash, uTree and ROART are stores of the kind the file system needs, whatever
  index is behind them, if the index keeps its own promise: a value that was put is read back with
  result 1, a deleted one is not found, and a batch has the effect of its updates in order.
\<close>

theorem index_adaptors_refine:
  assumes "kv_index_store ix contents ok"
  shows "kv_store (TlhashWrapper ix) (\<lambda>s. contents (tl_db s)) (\<lambda>s. ok (tl_db s) \<and> \<not> tl_failed s) \<and>
    kv_store (uTreeWrapper ix) contents ok \<and> kv_store (RoartWrappr ix) contents ok"
  using kv_index_store.index_stores [OF assms] by blast

theorem index_adaptors_refine_witness:
  "kv_store (TlhashWrapper list_index) (\<lambda>s. map_of (tl_db s)) (\<lambda>s. list_ok (tl_db s) \<and> \<not> tl_failed s) \<and>
   kv_store (uTreeWrapper list_index) map_of list_ok \<and> kv_store (RoartWrappr list_index) map_of list_ok"
  by (rule index_adaptors_refine [OF list_ix.kv_index_store_axioms])

text \<open>
  C38: the adaptors of HiKV and MetaKV are stores of the kind the file system needs; that of MetaKV, which
  splits each key into the directory and the hash, as the map over the whole keys.
\<close>

theorem other_adaptors_refine:
  assumes "hikv_store hi contents ok" "metadb_store m table ok'"
  shows "kv_store (HikvWrapper hi) contents ok \<and> kv_store (MetaKVWrapper m) (metadb_contents table) ok'"
  using hikv_store.hikv_stores [OF assms(1)] metadb_store.metadb_stores [OF assms(2)] by blast

theorem other_adaptors_refine_witness:
  "kv_store (HikvWrapper list_hikv) map_of list_ok \<and> kv_store (MetaKVWrapper list_metadb) (metadb_contents map_of) (\<lambda>_. True)"
  by (rule other_adaptors_refine [OF list_hi.hikv_store_axioms list_meta.metadb_store_axioms])

text \<open>
  The counters of the wrapper are exact: after any sequence of operations each has grown by the number
  of its operations, modulo the width of the counter.
\<close>

theorem counters_exact:
  "fold RecordKVOperations ops s =
     \<lparr>num_put = num_put s + of_nat (count_list ops PUT), num_get = num_get s + of_nat (count_list ops GET),
      num_delete = num_delete s + of_nat (count_list ops DELETE), num_pscan = num_pscan s + of_nat (count_list ops PSCAN)\<rparr>"
  by (rule fold_RecordKVOperations)









end
